(* ===== verification/Py_Base.thy ===== *)
theory Py_Base
  imports Main "HOL-Library.AList" "HOL-Library.Sublist" "HOL-Library.Multiset"
begin

text \<open>
  What the modelled scripts use of Python 2 itself: exceptions as values of a sum type,
  sequences with Python's indexing and slicing, dictionaries, and the string methods
  \<open>split\<close>, \<open>strip\<close>, \<open>startswith\<close> and \<open>join\<close>. Every component
  theory imports this one. The collections \<open>py_simps\<close> (evaluation of these helpers) and
  \<open>dict_simps\<close> (dictionary laws) are the simp sets the component proofs share.
\<close>

named_theorems py_simps
named_theorems dict_simps

section \<open>Exceptions as values\<close>

datatype py_exn =
    KeyError
  | IndexError
  | ValueError
  | TypeError
  | AttributeError
  | ZeroDivisionError
  | AssertionError
  | UnboundLocalError
  | PyException string

type_synonym 'a result = "py_exn + 'a"

text \<open>Sequencing of two computations: an exception of the first one is the result.\<close>

fun res_bind :: "'e + 'a \<Rightarrow> ('a \<Rightarrow> 'e + 'b) \<Rightarrow> 'e + 'b" where
  "res_bind (Inl e) f = Inl e"
| "res_bind (Inr a) f = f a"

lemma res_bind_Inr_iff [simp]:
  "res_bind r f = Inr b \<longleftrightarrow> (\<exists>a. r = Inr a \<and> f a = Inr b)"
  by (cases r) auto

lemma res_bind_Inl_iff:
  "res_bind r f = Inl e \<longleftrightarrow> r = Inl e \<or> (\<exists>a. r = Inr a \<and> f a = Inl e)"
  by (cases r) auto

lemma res_bind_cong [fundef_cong]:
  "r = r' \<Longrightarrow> (\<And>a. r' = Inr a \<Longrightarrow> f a = g a) \<Longrightarrow> res_bind r f = res_bind r' g"
  by (cases r') auto

text \<open>
  A \<open>for\<close> loop whose body may raise: it stops at the first exception.
\<close>

fun for_each :: "('x \<Rightarrow> 's \<Rightarrow> 'e + 's) \<Rightarrow> 'x list \<Rightarrow> 's \<Rightarrow> 'e + 's" where
  "for_each body [] s = Inr s"
| "for_each body (x # xs) s = res_bind (body x s) (for_each body xs)"

lemma for_each_append [simp]:
  "for_each body (xs @ ys) s = res_bind (for_each body xs s) (for_each body ys)"
proof (induction xs arbitrary: s)
  case (Cons x xs)
  then show ?case by (cases "body x s") auto
qed simp

lemma for_each_invariant:
  assumes "for_each body xs s = Inr t" and "P s"
    and "\<And>x u v. x \<in> set xs \<Longrightarrow> P u \<Longrightarrow> body x u = Inr v \<Longrightarrow> P v"
  shows "P t"
  using assms
proof (induction xs arbitrary: s)
  case (Cons x xs)
  then obtain u where u: "body x s = Inr u" "for_each body xs u = Inr t"
    by auto
  show ?case
    by (rule Cons.IH [OF u(2)]) (use Cons.prems u(1) in auto)
qed simp

section \<open>Indexing and slicing\<close>

text \<open>
  \<open>xs[i]\<close> with Python's negative indices; out of range it raises \<open>IndexError\<close>.
\<close>

definition py_get :: "'a list \<Rightarrow> int \<Rightarrow> 'a result" where
  "py_get xs i =
     (if - int (length xs) \<le> i \<and> i < 0 then Inr (rev xs ! nat (- i - 1))
      else if 0 \<le> i \<and> i < int (length xs) then Inr (xs ! nat i)
      else Inl IndexError)"

lemma py_get_nat [py_simps]:
  "i < length xs \<Longrightarrow> py_get xs (int i) = Inr (xs ! i)"
  by (simp add: py_get_def)

lemma py_get_neg [py_simps]:
  "0 < i \<Longrightarrow> i \<le> length xs \<Longrightarrow> py_get xs (- int i) = Inr (xs ! (length xs - i))"
  by (simp add: py_get_def rev_nth nat_diff_distrib)

text \<open>
  A slice bound is moved into \<open>0..len\<close>: a negative one counts from the end.
\<close>

definition slice_bound :: "nat \<Rightarrow> int \<Rightarrow> nat" where
  "slice_bound n i = (if i < 0 then nat (int n + i) else min n (nat i))"

definition py_slice :: "'a list \<Rightarrow> int \<Rightarrow> int \<Rightarrow> 'a list" where
  "py_slice xs lo hi =
     (let a = slice_bound (length xs) lo; b = slice_bound (length xs) hi
      in take (b - a) (drop a xs))"

definition py_upto :: "'a list \<Rightarrow> int \<Rightarrow> 'a list" where
  \<comment> \<open>\<open>xs[:hi]\<close>\<close>
  "py_upto xs hi = take (slice_bound (length xs) hi) xs"

definition py_from :: "'a list \<Rightarrow> int \<Rightarrow> 'a list" where
  \<comment> \<open>\<open>xs[lo:]\<close>\<close>
  "py_from xs lo = drop (slice_bound (length xs) lo) xs"

lemma slice_bound_le [simp]: "slice_bound n i \<le> n"
  by (auto simp: slice_bound_def)

lemma slice_bound_nat [py_simps]: "slice_bound n (int k) = min n k"
  by (simp add: slice_bound_def)

lemma py_slice_nat [py_simps]:
  "py_slice xs (int a) (int b) = take (b - a) (drop a xs)"
  by (auto simp: py_slice_def slice_bound_nat Let_def min_def)

lemma set_py_slice: "set (py_slice xs lo hi) \<subseteq> set xs"
  unfolding py_slice_def Let_def
  by (meson order_trans set_drop_subset set_take_subset)

lemma count_list_pos_iff: "0 < count_list xs x \<longleftrightarrow> x \<in> set xs"
  by (induction xs) auto

section \<open>Dictionaries\<close>

text \<open>
  A dictionary is the list of its items, one per key; a new key goes to the end and
  \<open>d[k] = v\<close> on an old key keeps its place. Python 2 promises nothing about the order
  in which \<open>keys()\<close> and iteration visit the keys, so every model that iterates over a
  dictionary takes a function \<open>ord\<close> that permutes the list of keys, and what is proved
  holds for each such function.
\<close>

type_synonym ('k, 'v) dict = "('k \<times> 'v) list"

abbreviation dict_keys :: "('k, 'v) dict \<Rightarrow> 'k list" where
  "dict_keys d \<equiv> map fst d"

definition dict_ok :: "('k, 'v) dict \<Rightarrow> bool" where
  "dict_ok d \<longleftrightarrow> distinct (dict_keys d)"

definition dict_get :: "('k, 'v) dict \<Rightarrow> 'k \<Rightarrow> 'v result" where
  "dict_get d k = (case map_of d k of None \<Rightarrow> Inl KeyError | Some v \<Rightarrow> Inr v)"

definition dict_has :: "('k, 'v) dict \<Rightarrow> 'k \<Rightarrow> bool" where
  "dict_has d k \<longleftrightarrow> map_of d k \<noteq> None"

definition dict_set :: "'k \<Rightarrow> 'v \<Rightarrow> ('k, 'v) dict \<Rightarrow> ('k, 'v) dict" where
  "dict_set k v d = AList.update k v d"

definition dict_del :: "'k \<Rightarrow> ('k, 'v) dict \<Rightarrow> ('k, 'v) dict result" where
  "dict_del k d = (if dict_has d k then Inr (AList.delete k d) else Inl KeyError)"

lemma dict_has_iff: "dict_has d k \<longleftrightarrow> k \<in> fst ` set d"
  by (simp add: dict_has_def map_of_eq_None_iff)

lemma dict_ok_Nil [dict_simps]: "dict_ok []"
  by (simp add: dict_ok_def)

lemma dict_ok_set [dict_simps]: "dict_ok d \<Longrightarrow> dict_ok (dict_set k v d)"
  by (simp add: dict_ok_def dict_set_def distinct_update)

lemma dict_ok_delete [dict_simps]: "dict_ok d \<Longrightarrow> dict_ok (AList.delete k d)"
  by (simp add: dict_ok_def distinct_delete)

lemma map_of_dict_set [dict_simps]: "map_of (dict_set k v d) = (map_of d)(k \<mapsto> v)"
  by (simp add: dict_set_def update_conv')

lemma keys_dict_set [dict_simps]: "fst ` set (dict_set k v d) = insert k (fst ` set d)"
  by (simp add: dict_set_def dom_update)

lemma map_of_dict_delete [dict_simps]: "map_of (AList.delete k d) = (map_of d)(k := None)"
  by (rule delete_conv')

lemma keys_dict_delete [dict_simps]: "fst ` set (AList.delete k d) = fst ` set d - {k}"
  using delete_keys [of k d] by (simp flip: set_map)

lemma dict_has_Nil [dict_simps]: "\<not> dict_has [] k"
  by (simp add: dict_has_def)

lemma dict_has_set [dict_simps]: "dict_has (dict_set k v d) x \<longleftrightarrow> x = k \<or> dict_has d x"
  by (auto simp: dict_has_def map_of_dict_set)

lemma dict_has_delete [dict_simps]: "dict_has (AList.delete k d) x \<longleftrightarrow> x \<noteq> k \<and> dict_has d x"
  by (auto simp: dict_has_def map_of_dict_delete)

lemma dict_has_SomeI: "map_of d k = Some v \<Longrightarrow> dict_has d k"
  by (simp add: dict_has_def)

lemma length_dict_set_old [dict_simps]:
  "dict_has d k \<Longrightarrow> length (dict_set k v d) = length d"
  unfolding dict_set_def dict_has_iff by (induction d) auto

lemma length_dict_delete_less [dict_simps]:
  "dict_has d k \<Longrightarrow> length (AList.delete k d) < length d"
  unfolding AList.delete_eq dict_has_iff by (induction d) (auto simp: le_imp_less_Suc)

lemma dict_set_new: "\<not> dict_has d k \<Longrightarrow> dict_set k v d = d @ [(k, v)]"
  unfolding dict_set_def dict_has_iff by (induction d) auto

text \<open>The interface of a key order: any permutation.\<close>

locale key_order =
  fixes ord :: "'k list \<Rightarrow> 'k list"
  assumes mset_ord: "mset (ord ks) = mset ks"
begin

lemma set_ord: "set (ord ks) = set ks"
  using mset_eq_setD [OF mset_ord] .

lemma distinct_ord: "distinct (ord ks) = distinct ks"
  using mset_eq_imp_distinct_iff [OF mset_ord] .

lemma length_ord: "length (ord ks) = length ks"
  using mset_eq_length [OF mset_ord] .

lemmas ord_simps = set_ord distinct_ord length_ord

end

interpretation insertion_order: key_order "\<lambda>ks. ks"
  by unfold_locales simp

interpretation reversed_order: key_order rev
  by unfold_locales simp

section \<open>Strings\<close>

definition is_space :: "char \<Rightarrow> bool" where
  "is_space c \<longleftrightarrow> c \<in> {CHR '' '', CHR 0x09, CHR 0x0A, CHR 0x0B, CHR 0x0C, CHR 0x0D}"

definition is_digit :: "char \<Rightarrow> bool" where
  "is_digit c \<longleftrightarrow> 48 \<le> (of_char c :: nat) \<and> (of_char c :: nat) \<le> 57"

definition is_alnum_us :: "char \<Rightarrow> bool" where
  \<comment> \<open>the class \<open>[a-zA-Z0-9_]\<close>\<close>
  "is_alnum_us c \<longleftrightarrow> is_digit c \<or>
     (65 \<le> (of_char c :: nat) \<and> (of_char c :: nat) \<le> 90) \<or>
     (97 \<le> (of_char c :: nat) \<and> (of_char c :: nat) \<le> 122) \<or> c = CHR ''_''"

definition strip :: "string \<Rightarrow> string" where
  "strip s = rev (dropWhile is_space (rev (dropWhile is_space s)))"

text \<open>\<open>s.split(c)\<close> with a one-character separator: always at least one part.\<close>

fun split_on :: "char \<Rightarrow> string \<Rightarrow> string list" where
  "split_on c [] = [[]]"
| "split_on c (x # xs) =
     (if x = c then [] # split_on c xs
      else (case split_on c xs of [] \<Rightarrow> [[x]] | p # ps \<Rightarrow> (x # p) # ps))"

fun join :: "string \<Rightarrow> string list \<Rightarrow> string" where
  "join sep [] = []"
| "join sep [p] = p"
| "join sep (p # ps) = p @ sep @ join sep ps"

lemma split_on_nonempty [simp]: "split_on c s \<noteq> []"
  by (induction s) (auto split: list.splits)

lemma join_split_on: "join [c] (split_on c s) = s"
proof (induction s)
  case (Cons x xs)
  then show ?case
    by (cases "split_on c xs"; cases "tl (split_on c xs)") (auto simp: neq_Nil_conv)
qed simp

lemma split_on_no_sep: "c \<notin> set s \<Longrightarrow> split_on c s = [s]"
  by (induction s) auto

lemma split_on_append_sep:
  "c \<notin> set p \<Longrightarrow> split_on c (p @ c # s) = p # split_on c s"
  by (induction p) auto

text \<open>Decimal rendering of an integer, as \<open>str\<close> and \<open>%d\<close> do it.\<close>

fun nat_str :: "nat \<Rightarrow> string" where
  "nat_str n = (if n < 10 then [char_of (48 + n)] else nat_str (n div 10) @ [char_of (48 + n mod 10)])"

declare nat_str.simps [simp del]

definition int_str :: "int \<Rightarrow> string" where
  "int_str i = (if i < 0 then CHR ''-'' # nat_str (nat (- i)) else nat_str (nat i))"

text \<open>Reading it back.\<close>

definition digits_value :: "string \<Rightarrow> nat" where
  "digits_value ds = foldl (\<lambda>n d. 10 * n + (of_char d - 48)) 0 ds"

lemma of_char_digit: "n < 10 \<Longrightarrow> (of_char (char_of (48 + n) :: char) :: nat) = 48 + n"
  by (simp add: of_char_of)

lemma nat_str_nonempty [simp]: "nat_str n \<noteq> []"
  by (subst nat_str.simps) simp

lemma nat_str_digits: "list_all is_digit (nat_str n)"
proof (induction n rule: nat_str.induct)
  case (1 n)
  have digit: "is_digit (char_of (48 + m))" if "m < 10" for m :: nat
    using of_char_digit [OF that] that by (simp add: is_digit_def)
  show ?case
  proof (cases "n < 10")
    case True
    then show ?thesis using digit [OF True] by (subst nat_str.simps) simp
  next
    case False
    then have "nat_str n = nat_str (n div 10) @ [char_of (48 + n mod 10)]" by (subst nat_str.simps) simp
    with 1 False digit [of "n mod 10"] show ?thesis by simp
  qed
qed

lemma digits_value_snoc: "digits_value (ds @ [d]) = 10 * digits_value ds + (of_char d - 48)"
  by (simp add: digits_value_def)

lemma digits_value_nat_str: "digits_value (nat_str n) = n"
proof (induction n rule: nat_str.induct)
  case (1 n)
  show ?case
  proof (cases "n < 10")
    case True
    then show ?thesis
      using of_char_digit [of n] by (subst nat_str.simps) (simp add: digits_value_def)
  next
    case False
    then have "nat_str n = nat_str (n div 10) @ [char_of (48 + n mod 10)]" by (subst nat_str.simps) simp
    with 1 False show ?thesis
      using of_char_digit [of "n mod 10"] by (simp add: digits_value_snoc)
  qed
qed

lemma nat_str_no_newline: "CHR 0x0A \<notin> set (nat_str n)"
  using nat_str_digits [of n] by (auto simp: list_all_iff is_digit_def)

end
