(* ===== verification/Rad_Util.thy ===== *)
theory Rad_Util
  imports Py_Base "HOL-Library.Multiset"
begin

unbundle bit_operations_syntax

text \<open>
  The helper functions of \<open>bindings/python/rad_util.py\<close>, one definition per function, in
  the order of the file: binary strings, matrices, polygons, common factors, permutations,
  removal of duplicates, bit operations, binary counting, common fixes, rotations and
  command-line arguments. The arguments are integers, strings, sequences and dictionaries;
  those on floating-point numbers are in \<open>Rad_Stats\<close>.
\<close>

section \<open>Binary strings\<close>

fun map_res :: "('a \<Rightarrow> 'e + 'b) \<Rightarrow> 'a list \<Rightarrow> 'e + 'b list" where
  "map_res f [] = Inr []"
| "map_res f (x # xs) = res_bind (f x) (\<lambda>y. res_bind (map_res f xs) (\<lambda>ys. Inr (y # ys)))"

definition hex_digit :: "nat \<Rightarrow> char" where
  "hex_digit d = ''0123456789abcdef'' ! d"

fun hex_nat :: "nat \<Rightarrow> string" where
  "hex_nat n = (if n < 16 then [hex_digit n] else hex_nat (n div 16) @ [hex_digit (n mod 16)])"

declare hex_nat.simps [simp del]

text \<open>
  \<open>hex(i).lower().replace('l','')\<close>: the suffix of a long integer is gone, so the two
  kinds of integers give the same string.
\<close>

definition py_hex :: "int \<Rightarrow> string" where
  "py_hex i = (if i < 0 then ''-0x'' @ hex_nat (nat (- i)) else ''0x'' @ hex_nat (nat i))"

definition hex2bin :: "(char, string) dict" where
  "hex2bin =
     [(CHR ''0'', ''0000''), (CHR ''1'', ''0001''), (CHR ''2'', ''0010''), (CHR ''3'', ''0011''),
      (CHR ''4'', ''0100''), (CHR ''5'', ''0101''), (CHR ''6'', ''0110''), (CHR ''7'', ''0111''),
      (CHR ''8'', ''1000''), (CHR ''9'', ''1001''), (CHR ''a'', ''1010''), (CHR ''b'', ''1011''),
      (CHR ''c'', ''1100''), (CHR ''d'', ''1101''), (CHR ''e'', ''1110''), (CHR ''f'', ''1111'')]"

definition int2bin :: "int \<Rightarrow> int \<Rightarrow> string result" where
  "int2bin i n =
     res_bind (map_res (dict_get hex2bin) (drop 2 (py_hex i))) (\<lambda>parts.
       let result = concat parts in
       if CHR ''1'' \<in> set (py_upto result (- n)) then Inl ValueError
       else
         let result = py_from result (- n) in
         Inr (replicate (nat (n - int (length result))) (CHR ''0'') @ result))"

text \<open>
  \<open>int(s, 2)\<close>: blanks around the number, a sign and the prefix \<open>0b\<close> are accepted;
  everything else that is not a nonempty string of binary digits raises \<open>ValueError\<close>.
\<close>

definition bits_value :: "string \<Rightarrow> int" where
  "bits_value s = foldl (\<lambda>v c. 2 * v + (if c = CHR ''1'' then 1 else 0)) 0 s"

definition drop_0b :: "string \<Rightarrow> string" where
  "drop_0b s = (if take 2 s = ''0b'' \<or> take 2 s = ''0B'' then drop 2 s else s)"

definition parse_bits :: "string \<Rightarrow> int result" where
  "parse_bits s =
     (let ds = drop_0b s in
      if ds \<noteq> [] \<and> list_all (\<lambda>c. c = CHR ''0'' \<or> c = CHR ''1'') ds then Inr (bits_value ds)
      else Inl ValueError)"

definition bin2int :: "string \<Rightarrow> int result" where
  "bin2int bin_string =
     (case strip bin_string of
        [] \<Rightarrow> Inl ValueError
      | c # s \<Rightarrow>
          if c = CHR ''-'' then res_bind (parse_bits s) (\<lambda>v. Inr (- v))
          else if c = CHR ''+'' then parse_bits s
          else parse_bits (c # s))"

definition reverse :: "string \<Rightarrow> string" where
  "reverse input_string = rev input_string"

section \<open>Matrices and polygons\<close>

text \<open>\<open>zip(*matrix)\<close> stops with the shortest row; without rows it is empty.\<close>

function zip_rows :: "'a list list \<Rightarrow> 'a list list" where
  "zip_rows m = (if m = [] \<or> [] \<in> set m then [] else map hd m # zip_rows (map tl m))"
  by pat_completeness auto
termination
  by (relation "measure (\<lambda>m. length (hd m))") (auto simp: neq_Nil_conv)

declare zip_rows.simps [simp del]

definition transpose_lists :: "'a list list \<Rightarrow> 'a list list" where
  "transpose_lists matrix = zip_rows matrix"

type_synonym point = "int \<times> int"

definition scale_point :: "int \<Rightarrow> point \<Rightarrow> point" where
  "scale_point precision pt = (fst pt * precision, snd pt * precision)"

fun shoelace :: "point list \<Rightarrow> int \<Rightarrow> int" where
  "shoelace ((x_i, y_i) # (x_i1, y_i1) # ps) area =
     shoelace ((x_i1, y_i1) # ps) (area + (x_i1 * y_i) - (y_i1 * x_i))"
| "shoelace _ area = area"

text \<open>
  The part of \<open>polygon_area\<close> before the final division by \<open>precision**2\<close>, on points with
  integer co-ordinates. The second component is the argument list, which the function
  scales and closes in place.
\<close>

definition polygon_area_scaled :: "point list \<Rightarrow> int \<Rightarrow> (int \<times> point list) result" where
  "polygon_area_scaled points_list precision =
     (let pts = map (scale_point precision) points_list in
      res_bind (py_get pts (- 1)) (\<lambda>lst.
      res_bind (py_get pts 0) (\<lambda>fst_pt.
        let pts = (if lst \<noteq> fst_pt then pts @ [fst_pt] else pts);
            area = shoelace pts 0
        in Inr (abs (area div 2), pts))))"

section \<open>Common factors\<close>

text \<open>
  The loop of \<open>gcf\<close> on integers, where \<open>abs(remainder) > epsilon\<close> says no more than
  \<open>remainder\<close> itself: the remainder is not zero. Python's \<open>%\<close> takes the sign of the divisor,
  as \<open>mod\<close> does.
\<close>

function gcf_loop :: "int \<Rightarrow> int \<Rightarrow> int" where
  "gcf_loop result remainder =
     (if remainder \<noteq> 0 then gcf_loop remainder (result mod remainder) else abs result)"
  by pat_completeness auto
termination
  by (relation "measure (\<lambda>(result, remainder). nat (abs remainder))")
    (auto simp: abs_mod_less)

declare gcf_loop.simps [simp del]

definition gcf :: "int \<Rightarrow> int \<Rightarrow> int" where
  "gcf a b = gcf_loop (max a b) (min a b)"

definition lcm_py :: "int \<Rightarrow> int \<Rightarrow> int" where
  "lcm_py a b = (let denom = gcf a b in if denom = 0 then 0 else a * (b div denom))"

definition reduce_fraction :: "int \<times> int \<Rightarrow> (int \<times> int) result" where
  "reduce_fraction fraction =
     (let (numerator, denominator) = fraction;
          common_factor = abs (gcf numerator denominator)
      in if common_factor = 0 then Inl ZeroDivisionError
         else Inr (numerator div common_factor, denominator div common_factor))"

section \<open>Permutations\<close>

definition list_insert :: "nat \<Rightarrow> 'a \<Rightarrow> 'a list \<Rightarrow> 'a list" where
  \<comment> \<open>\<open>xs.insert(i, x)\<close>\<close>
  "list_insert i x xs = take i xs @ x # drop i xs"

fun permutations :: "'a list \<Rightarrow> 'a list list" where
  "permutations (item # y # ys) =
     concat (map (\<lambda>sub_list. map (\<lambda>i. list_insert i item sub_list) [0..<length (item # y # ys)])
       (permutations (y # ys)))"
| "permutations input_list = [input_list]"

section \<open>Duplicates and dictionaries\<close>

text \<open>
  \<open>uniquify\<close>: with the items hashable, a dictionary remembers what was seen, and without
  \<open>preserve_order\<close> its keys are the result, in the interpreter's order. One unhashable item
  makes the dictionary raise \<open>TypeError\<close>, and the quadratic loop starts over.
\<close>

fun uniquify_seen :: "'a list \<Rightarrow> ('a, int) dict \<Rightarrow> 'a list" where
  "uniquify_seen [] d = []"
| "uniquify_seen (x # xs) d =
     (if dict_has d x then uniquify_seen xs d else x # uniquify_seen xs (dict_set x 0 d))"

fun uniquify_slow :: "'a list \<Rightarrow> 'a list \<Rightarrow> 'a list" where
  "uniquify_slow [] result = result"
| "uniquify_slow (x # xs) result =
     uniquify_slow xs (if x \<in> set result then result else result @ [x])"

definition uniquify :: "('a list \<Rightarrow> 'a list) \<Rightarrow> ('a \<Rightarrow> bool) \<Rightarrow> 'a list \<Rightarrow> bool \<Rightarrow> 'a list" where
  "uniquify ord hashable seq preserve_order =
     (if list_all hashable seq then
        if preserve_order then uniquify_seen seq []
        else ord (dict_keys (foldl (\<lambda>d x. dict_set x (0::int) d) [] seq))
      else uniquify_slow seq [])"

definition reverse_dict :: "(('k \<times> 'v) list \<Rightarrow> ('k \<times> 'v) list) \<Rightarrow> ('k, 'v) dict \<Rightarrow> ('v, 'k) dict" where
  "reverse_dict ord d = foldl (\<lambda>result (key, value). dict_set value key result) [] (ord d)"

section \<open>Bits\<close>

definition lsb :: "int \<Rightarrow> nat \<Rightarrow> int" where
  "lsb x n = x AND (2 ^ n - 1)"

definition gray_encode :: "int \<Rightarrow> int" where
  "gray_encode i = i XOR (drop_bit 1 i)"

text \<open>
  \<open>binary_range\<close> keeps the current number in \<open>v\<close>, least significant bit first; the inner
  loop adds one to it, with \<open>toggle[i]\<close> the carry into bit \<open>i\<close>, and the outer loop ends
  when a carry leaves the last bit.
\<close>

function binary_range_inc :: "nat \<Rightarrow> string \<Rightarrow> nat list \<Rightarrow> nat \<Rightarrow> string \<times> nat list" where
  "binary_range_inc bits v toggle i =
     (if i < bits \<and> toggle ! i = 1 then
        if v ! i = CHR ''0''
        then binary_range_inc bits (v[i := CHR ''1'']) (toggle[i + 1 := 0]) (i + 1)
        else binary_range_inc bits (v[i := CHR ''0'']) (toggle[i + 1 := 1]) (i + 1)
      else (v, toggle))"
  by pat_completeness auto
termination
  by (relation "measure (\<lambda>(bits, v, toggle, i). bits - i)") auto

declare binary_range_inc.simps [simp del]

partial_function (option) binary_range_loop ::
  "nat \<Rightarrow> string \<Rightarrow> nat list \<Rightarrow> string list \<Rightarrow> string list option" where
  "binary_range_loop bits v toggle l =
     (if toggle ! bits \<noteq> 1 then
        (case binary_range_inc bits v (1 # replicate bits 0) 0 of (v', toggle') \<Rightarrow>
           binary_range_loop bits v' toggle' (l @ [rev v]))
      else Some l)"

declare binary_range_loop.simps [code]

definition binary_range :: "nat \<Rightarrow> string list option" where
  "binary_range bits =
     binary_range_loop bits (replicate bits (CHR ''0'')) (1 # replicate bits 0) []"

section \<open>Common fixes and rotations\<close>

function common_prefix_loop :: "'a list \<Rightarrow> 'a list \<Rightarrow> nat \<Rightarrow> nat \<Rightarrow> 'a list \<Rightarrow> 'a list" where
  "common_prefix_loop s1 s2 common_len i pre =
     (if i < common_len then
        if s1 ! i \<noteq> s2 ! i then pre
        else common_prefix_loop s1 s2 common_len (i + 1) (pre @ [s1 ! i])
      else pre)"
  by pat_completeness auto
termination
  by (relation "measure (\<lambda>(s1, s2, common_len, i, pre). common_len - i)") auto

function common_suffix_loop :: "'a list \<Rightarrow> 'a list \<Rightarrow> nat \<Rightarrow> nat \<Rightarrow> 'a list \<Rightarrow> 'a list" where
  "common_suffix_loop s1 s2 common_len i suf =
     (if i < common_len + 1 then
        if s1 ! (length s1 - i) \<noteq> s2 ! (length s2 - i) then suf
        else common_suffix_loop s1 s2 common_len (i + 1) (suf @ [s1 ! (length s1 - i)])
      else suf)"
  by pat_completeness auto
termination
  by (relation "measure (\<lambda>(s1, s2, common_len, i, suf). common_len + 1 - i)") auto

declare common_prefix_loop.simps [simp del] common_suffix_loop.simps [simp del]

definition find_common_fixes :: "'a list \<Rightarrow> 'a list \<Rightarrow> 'a list \<times> 'a list" where
  "find_common_fixes s1 s2 =
     (let common_len = min (length s1) (length s2);
          pre = common_prefix_loop s1 s2 common_len 0 [];
          suf = common_suffix_loop s1 s2 common_len 1 []
      in (pre, rev suf))"

definition is_rotated :: "'a list \<Rightarrow> 'a list \<Rightarrow> bool result" where
  "is_rotated seq1 seq2 =
     (if length seq1 \<noteq> length seq2 then Inr False
      else res_bind (py_get seq2 0) (\<lambda>head_item.
        let start_indexes = filter (\<lambda>index1. seq1 ! index1 = head_item) [0..<length seq1];
            double_seq1 = seq1 @ seq1
        in Inr (list_ex (\<lambda>index1.
             py_slice double_seq1 (int index1) (int (index1 + length seq1)) = seq2) start_indexes)))"

section \<open>Rounding and arguments\<close>

text \<open>
  \<open>round_grid\<close> on integers: \<open>off_grid >= grid / 2.0\<close> is \<open>2 * off_grid \<ge> grid\<close>. A mode
  whose branch is not taken leaves \<open>add_one\<close> without a value.
\<close>

definition round_grid :: "int \<Rightarrow> int \<Rightarrow> int \<Rightarrow> int result" where
  "round_grid value grid mode =
     (if grid = 0 then Inl ZeroDivisionError
      else
        let off_grid = value mod grid;
            add_one =
              (if mode = 0 then Some (if 2 * off_grid \<ge> grid then 1 else 0)
               else if mode = 1 \<and> off_grid \<noteq> 0 then Some 1
               else if mode = - 1 \<and> off_grid \<noteq> 0 then Some 0
               else None)
        in (case add_one of
              None \<Rightarrow> Inl UnboundLocalError
            | Some n \<Rightarrow> Inr ((value div grid + n) * grid)))"

datatype arg_value = ArgStr string | ArgNone | ArgList "string list"

definition get_args_step :: "(string, arg_value) dict \<times> string list \<Rightarrow> string
    \<Rightarrow> (string, arg_value) dict \<times> string list" where
  "get_args_step acc arg =
     (let (d, args) = acc in
      if prefix ''-'' arg then
        let parts = split_on (CHR ''='') (dropWhile (\<lambda>c. c = CHR ''-'') arg) in
        if length parts = 2 then (dict_set (parts ! 0) (ArgStr (parts ! 1)) d, args)
        else (dict_set (parts ! 0) ArgNone d, args)
      else (d, args @ [arg]))"

definition get_args :: "string list \<Rightarrow> (string, arg_value) dict" where
  "get_args argv =
     (let (d, args) = foldl get_args_step ([], []) argv in dict_set ''args'' (ArgList args) d)"

section \<open>Lemmas\<close>

subsection \<open>Rotations\<close>

lemma slice_double_rotate:
  assumes "k < length xs"
  shows "py_slice (xs @ xs) (int k) (int k + int (length xs)) = rotate k xs"
  using assms py_slice_nat [of "xs @ xs" k "k + length xs"] by (simp add: rotate_drop_take)

lemma is_rotated_nonempty:
  assumes "seq2 \<noteq> []"
  shows "is_rotated seq1 seq2 = Inr (\<exists>k. seq2 = rotate k seq1)"
proof (cases "length seq1 = length seq2")
  case True
  with assms have n: "0 < length seq1" by simp
  have head: "py_get seq2 0 = Inr (seq2 ! 0)"
    using py_get_nat [of 0 seq2] assms by simp
  have "(\<exists>i<length seq1. seq1 ! i = seq2 ! 0 \<and> rotate i seq1 = seq2) \<longleftrightarrow>
      (\<exists>k. seq2 = rotate k seq1)" (is "?L \<longleftrightarrow> ?R")
  proof (intro iffI)
    assume ?R
    then obtain k where k: "seq2 = rotate (k mod length seq1) seq1"
      by (metis rotate_conv_mod)
    have "seq2 ! 0 = seq1 ! (k mod length seq1)"
      using k n nth_rotate [of 0 seq1 "k mod length seq1"] by simp
    with k n show ?L
      by (intro exI [of _ "k mod length seq1"]) simp
  qed blast
  moreover have "is_rotated seq1 seq2 = Inr (list_ex (\<lambda>i.
      py_slice (seq1 @ seq1) (int i) (int i + int (length seq1)) = seq2)
      (filter (\<lambda>i. seq1 ! i = seq2 ! 0) [0..<length seq1]))"
    using True head by (simp add: is_rotated_def)
  moreover have "list_ex (\<lambda>i. py_slice (seq1 @ seq1) (int i) (int i + int (length seq1)) = seq2)
      (filter (\<lambda>i. seq1 ! i = seq2 ! 0) [0..<length seq1]) \<longleftrightarrow> ?L"
    by (auto simp: list_ex_iff slice_double_rotate)
  ultimately show ?thesis by simp
next
  case False
  then show ?thesis by (auto simp: is_rotated_def)
qed

lemma is_rotated_empty: "is_rotated seq1 [] = (if seq1 = [] then Inl IndexError else Inr False)"
  by (simp add: is_rotated_def py_get_def)

subsection \<open>Common factors\<close>
lemma gcf_loop_gcd: "gcf_loop r m = gcd r m"
proof (induction r m rule: gcf_loop.induct)
  case (1 r m)
  show ?case
  proof (cases "m = 0")
    case True
    then show ?thesis by (subst gcf_loop.simps) simp
  next
    case False
    with 1 have "gcf_loop r m = gcd m (r mod m)" by (subst gcf_loop.simps) simp
    then show ?thesis by (simp add: gcd_red_int [of r m])
  qed
qed

lemma gcf_gcd: "gcf a b = gcd a b"
  by (simp add: gcf_def gcf_loop_gcd max_def min_def gcd.commute)

lemma lcm_py_abs: "abs (lcm_py a b) = lcm a b"
proof (cases "gcd a b = 0")
  case False
  then show ?thesis by (simp add: lcm_py_def gcf_gcd Let_def lcm_gcd div_mult_swap)
qed (simp add: lcm_py_def gcf_gcd)

lemma reduce_fraction_lowest:
  "reduce_fraction (n, d) = Inr (n', d') \<Longrightarrow>
     coprime n' d' \<and> n * d' = n' * d \<and> n = n' * gcd n d \<and> d = d' * gcd n d"
  by (auto simp: reduce_fraction_def gcf_gcd Let_def split: if_splits
      intro: div_gcd_coprime simp: div_mult_swap dvd_div_mult mult.commute)

lemma reduce_fraction_error: "reduce_fraction (n, d) = Inl e \<longleftrightarrow> n = 0 \<and> d = 0 \<and> e = ZeroDivisionError"
  by (auto simp: reduce_fraction_def gcf_gcd Let_def)

subsection \<open>Permutations\<close>

lemma length_permutations_elem: "ys \<in> set (permutations xs) \<Longrightarrow> length ys = length xs"
  by (induction xs arbitrary: ys rule: permutations.induct) (auto simp: list_insert_def)

lemma mset_list_insert: "mset (list_insert i x xs) = add_mset x (mset xs)"
  unfolding list_insert_def by (metis append_take_drop_id mset.simps(2) mset_append union_mset_add_mset_right)

lemma permutations_sound: "ys \<in> set (permutations xs) \<Longrightarrow> mset ys = mset xs"
  by (induction xs arbitrary: ys rule: permutations.induct) (auto simp: mset_list_insert)

lemma permutations_complete: "mset ys = mset xs \<Longrightarrow> ys \<in> set (permutations xs)"
proof (induction xs arbitrary: ys rule: permutations.induct)
  case (1 x y ys zs)
  then have "x \<in> set zs" by (metis list.set_intros(1) mset_eq_setD)
  then obtain us vs where zs: "zs = us @ x # vs" by (meson split_list)
  with 1(2) have "mset (us @ vs) = mset (y # ys)" by simp
  then have sub: "us @ vs \<in> set (permutations (y # ys))" by (rule 1(1))
  have "zs = list_insert (length us) x (us @ vs)" by (simp add: zs list_insert_def)
  moreover have "length us < length (x # y # ys)"
    using length_permutations_elem [OF sub] by simp
  ultimately show ?case using sub by (auto simp del: upt_Suc simp: atLeast0LessThan)
qed (auto simp: size_mset)

lemma length_permutations: "length (permutations xs) = fact (length xs)"
proof (induction xs rule: permutations.induct)
  case (1 x y ys)
  show ?case
    by (simp add: length_concat comp_def sum_list_triv 1 algebra_simps del: upt_Suc)
qed simp_all

subsection \<open>Bit operations\<close>
lemma lsb_mod: "lsb x n = x mod 2 ^ n"
  unfolding lsb_def by (metis mask_eq_exp_minus_1 take_bit_eq_mask take_bit_eq_mod)

lemma bit_gray_encode: "bit (gray_encode i) k \<longleftrightarrow> (bit i k \<noteq> bit i (Suc k))"
  by (simp add: gray_encode_def bit_xor_iff bit_drop_bit_eq)

lemma gray_encode_bits_agree:
  assumes "gray_encode i = gray_encode j" and "bit i n = bit j n" and "k \<le> n"
  shows "bit i k = bit j k"
  using assms(3,2)
proof (induction k rule: inc_induct)
  case (step k)
  then show ?case using bit_gray_encode [of i k] bit_gray_encode [of j k] assms(1) by auto
qed

lemma nonneg_bit_False: "0 \<le> (i::int) \<Longrightarrow> i < 2 ^ n \<Longrightarrow> \<not> bit i n"
  by (simp add: bit_iff_odd)

lemma gray_encode_inj:
  assumes "0 \<le> i" and "0 \<le> j" and eq: "gray_encode i = gray_encode j"
  shows "i = j"
proof (rule bit_eqI)
  fix k
  have big: "i < 2 ^ (k + nat i + nat j)" if "0 \<le> i" for i j :: int
  proof -
    have "i < 2 ^ nat i" using that less_exp [of "nat i"] by (metis nat_less_iff of_nat_numeral of_nat_power)
    also have "(2::int) ^ nat i \<le> 2 ^ (k + nat i + nat j)" by (rule power_increasing) simp_all
    finally show ?thesis .
  qed
  define n where "n = k + nat i + nat j"
  have "i < 2 ^ n" "j < 2 ^ n"
    using big [of i j] big [of j i] assms(1,2) by (simp_all add: n_def ac_simps)
  then have "bit i n = bit j n" using assms(1,2) nonneg_bit_False by blast
  then show "bit i k = bit j k"
    using gray_encode_bits_agree [OF eq, of n k] by (simp add: n_def)
qed

lemma xor_succ_bits:
  "0 \<le> (i::int) \<Longrightarrow> \<exists>k. \<forall>m. bit (i XOR (i + 1)) m \<longleftrightarrow> m \<le> k"
proof (induction "nat i" arbitrary: i rule: less_induct)
  case less
  show ?case
  proof (cases "even i")
    case True
    then obtain j where j: "i = 2 * j" by blast
    have "bit (i XOR (i + 1)) m \<longleftrightarrow> m \<le> 0" for m
      unfolding bit_xor_iff by (cases m) (simp_all add: j bit_0 bit_Suc)
    then show ?thesis by blast
  next
    case False
    then obtain j where j: "i = 2 * j + 1" by (blast elim: oddE)
    with less.prems have "0 \<le> j" "nat j < nat i" by auto
    then obtain k where k: "\<And>m. bit (j XOR (j + 1)) m \<longleftrightarrow> m \<le> k"
      using less.hyps by blast
    have "bit (i XOR (i + 1)) m \<longleftrightarrow> m \<le> Suc k" for m
      using k unfolding bit_xor_iff by (cases m) (simp_all add: j bit_0 bit_Suc add.commute)
    then show ?thesis by blast
  qed
qed

lemma gray_encode_adjacent:
  assumes "0 \<le> i"
  shows "\<exists>k. gray_encode i XOR gray_encode (i + 1) = 2 ^ k"
proof -
  obtain k where k: "\<And>m. bit i m \<noteq> bit (i + 1) m \<longleftrightarrow> m \<le> k"
    using xor_succ_bits [OF assms] by (auto simp: bit_xor_iff)
  have "bit (gray_encode i XOR gray_encode (i + 1)) m = bit (2 ^ k :: int) m" for m
    using k [of m] k [of "Suc m"] by (auto simp: bit_xor_iff bit_gray_encode bit_exp_iff)
  then show ?thesis by (blast intro: bit_eqI)
qed

subsection \<open>Values of binary strings\<close>

definition binary_string :: "string \<Rightarrow> bool" where
  "binary_string s \<longleftrightarrow> set s \<subseteq> {CHR ''0'', CHR ''1''}"

lemma bits_value_Nil [simp]: "bits_value [] = 0"
  by (simp add: bits_value_def)

lemma bits_value_snoc [simp]: "bits_value (s @ [c]) = 2 * bits_value s + (if c = CHR ''1'' then 1 else 0)"
  by (simp add: bits_value_def)

lemma bits_value_append:
  "bits_value (s @ t) = bits_value s * 2 ^ length t + bits_value t"
proof (induction t rule: rev_induct)
  case (snoc c t)
  then show ?case using bits_value_snoc [of "s @ t" c] by simp
qed simp

lemma bits_value_no_one: "CHR ''1'' \<notin> set s \<Longrightarrow> bits_value s = 0"
  by (induction s rule: rev_induct) auto

lemma bits_value_nonneg: "0 \<le> bits_value s"
  by (induction s rule: rev_induct) auto

lemma bits_value_one: "CHR ''1'' \<in> set s \<Longrightarrow> 1 \<le> bits_value s"
  using bits_value_nonneg
  by (induction s rule: rev_induct) auto

lemma bits_value_bound: "bits_value s < 2 ^ length s"
  by (induction s rule: rev_induct) auto

lemma bits_value_replicate: "bits_value (replicate k (CHR ''0'') @ s) = bits_value s"
  by (simp add: bits_value_append bits_value_no_one)

lemma map_res_append:
  "map_res f (xs @ ys) = res_bind (map_res f xs) (\<lambda>us. res_bind (map_res f ys) (\<lambda>vs. Inr (us @ vs)))"
proof (induction xs)
  case (Cons x xs)
  then show ?case by (cases "f x"; cases "map_res f xs"; cases "map_res f ys") auto
qed (cases "map_res f ys"; simp)

lemma hex2bin_digit:
  "d < 16 \<Longrightarrow> \<exists>b. dict_get hex2bin (hex_digit d) = Inr b \<and> binary_string b \<and> b \<noteq> [] \<and>
     length b = 4 \<and> bits_value b = int d"
proof -
  have "list_all (\<lambda>d. case dict_get hex2bin (hex_digit d) of Inl _ \<Rightarrow> False
      | Inr b \<Rightarrow> binary_string b \<and> length b = 4 \<and> bits_value b = int d) [0..<16]"
    by code_simp
  moreover assume "d < 16"
  then have "d \<in> set [0..<16]" by simp
  ultimately have "case dict_get hex2bin (hex_digit d) of Inl _ \<Rightarrow> False
      | Inr b \<Rightarrow> binary_string b \<and> length b = 4 \<and> bits_value b = int d"
    unfolding list_all_iff by (rule bspec)
  then show ?thesis by (cases "dict_get hex2bin (hex_digit d)") auto
qed

lemma hex_nat_bits:
  "\<exists>parts. map_res (dict_get hex2bin) (hex_nat n) = Inr parts \<and> binary_string (concat parts) \<and>
     concat parts \<noteq> [] \<and> bits_value (concat parts) = int n"
proof (induction n rule: hex_nat.induct)
  case (1 n)
  show ?case
  proof (cases "n < 16")
    case True
    then show ?thesis using hex2bin_digit [OF True] by (subst hex_nat.simps) auto
  next
    case False
    obtain parts where p: "map_res (dict_get hex2bin) (hex_nat (n div 16)) = Inr parts"
      "binary_string (concat parts)" "bits_value (concat parts) = int (n div 16)"
      using 1 [OF False] by blast
    obtain b where b: "dict_get hex2bin (hex_digit (n mod 16)) = Inr b" "binary_string b" "b \<noteq> []"
      "length b = 4" "bits_value b = int (n mod 16)"
      using hex2bin_digit [of "n mod 16"] by auto
    have "int (n div 16) * 16 + int (n mod 16) = int n"
      by (metis div_mult_mod_eq of_nat_add of_nat_mult of_nat_numeral)
    with p b False show ?thesis
      by (subst hex_nat.simps) (simp add: map_res_append bits_value_append binary_string_def)
  qed
qed

lemma binary_string_not_space: "binary_string s \<Longrightarrow> c \<in> set s \<Longrightarrow> \<not> is_space c"
  by (auto simp: binary_string_def is_space_def)

lemma dropWhile_none: "(\<And>c. c \<in> set s \<Longrightarrow> \<not> P c) \<Longrightarrow> dropWhile P s = s"
  by (cases s) auto

lemma strip_binary_string: "binary_string s \<Longrightarrow> strip s = s"
  using dropWhile_none [of s is_space] dropWhile_none [of "rev s" is_space] binary_string_not_space [of s]
  by (auto simp: strip_def)

lemma bin2int_binary_string:
  assumes "binary_string s" and "s \<noteq> []"
  shows "bin2int s = Inr (bits_value s)"
proof (cases s)
  case (Cons c t)
  have "c = CHR ''0'' \<or> c = CHR ''1''" "list_all (\<lambda>c. c = CHR ''0'' \<or> c = CHR ''1'') t"
    using assms Cons by (auto simp: binary_string_def list_all_iff)
  moreover have "drop_0b s = s"
    using assms Cons by (cases t) (auto simp: drop_0b_def binary_string_def)
  ultimately show ?thesis
    using strip_binary_string [OF assms(1)] Cons by (auto simp: bin2int_def parse_bits_def Let_def)
qed (use assms in simp)

lemma int2bin_bits:
  assumes "0 \<le> i"
  obtains bs where "binary_string bs" "bs \<noteq> []" "bits_value bs = i"
    "\<And>n. int2bin i n =
       (if CHR ''1'' \<in> set (py_upto bs (- n)) then Inl ValueError
        else Inr (replicate (nat (n - int (length (py_from bs (- n))))) (CHR ''0'') @ py_from bs (- n)))"
proof -
  obtain parts where p: "map_res (dict_get hex2bin) (hex_nat (nat i)) = Inr parts"
    "binary_string (concat parts)" "concat parts \<noteq> []" "bits_value (concat parts) = int (nat i)"
    using hex_nat_bits by blast
  show ?thesis
    by (rule that [of "concat parts"]) (use p assms in \<open>simp_all add: int2bin_def py_hex_def Let_def\<close>)
qed

lemma int2bin_correct:
  assumes "0 \<le> i" and "0 < n"
  shows "if i < 2 ^ n
    then \<exists>s. int2bin i (int n) = Inr s \<and> length s = n \<and> binary_string s \<and> bin2int s = Inr i
    else int2bin i (int n) = Inl ValueError"
proof -
  from int2bin_bits [OF assms(1)] obtain bs where bs: "binary_string bs" "bs \<noteq> []" "bits_value bs = i"
    and eq: "int2bin i (int n) =
       (if CHR ''1'' \<in> set (py_upto bs (- int n)) then Inl ValueError
        else Inr (replicate (nat (int n - int (length (py_from bs (- int n))))) (CHR ''0'') @ py_from bs (- int n)))"
    by metis
  define hi lo where "hi = take (length bs - n) bs" and "lo = drop (length bs - n) bs"
  have slices: "py_upto bs (- int n) = hi" "py_from bs (- int n) = lo"
    using assms(2) by (simp_all add: py_upto_def py_from_def slice_bound_def hi_def lo_def nat_diff_distrib')
  have len: "length lo = min n (length bs)" and split: "bs = hi @ lo"
    by (auto simp: hi_def lo_def)
  have val: "i = bits_value hi * 2 ^ length lo + bits_value lo"
    using bs(3) by (subst (asm) split) (simp add: bits_value_append)
  show ?thesis
  proof (cases "CHR ''1'' \<in> set hi")
    case True
    then have "length bs - n > 0" by (cases "length bs - n") (auto simp: hi_def)
    then have lo_n: "length lo = n" using len by simp
    have "1 * 2 ^ n \<le> bits_value hi * 2 ^ n"
      using bits_value_one [OF True] by (rule mult_right_mono) simp
    then have "2 ^ n \<le> i"
      using val [unfolded lo_n] bits_value_nonneg [of lo] by linarith
    with True show ?thesis by (simp add: eq slices linorder_not_less [symmetric])
  next
    case False
    let ?s = "replicate (n - length lo) (CHR ''0'') @ lo"
    have i: "i = bits_value lo" using val bits_value_no_one [OF False] by simp
    have "bits_value lo < 2 ^ n"
      using bits_value_bound [of lo] len power_increasing [of "length lo" n "2::int"] by linarith
    moreover have s: "binary_string ?s" "length ?s = n" "?s \<noteq> []"
      using bs len assms(2) by (auto simp: binary_string_def lo_def dest: in_set_dropD)
    moreover have "bin2int ?s = Inr i"
      using bin2int_binary_string [OF s(1,3)] unfolding bits_value_replicate i .
    moreover have "int2bin i (int n) = Inr ?s"
      using False by (simp add: eq slices nat_diff_distrib')
    ultimately show ?thesis using i by auto
  qed
qed

lemma int2bin_negative: "i < 0 \<Longrightarrow> int2bin i n = Inl KeyError"
  by (simp add: int2bin_def py_hex_def hex2bin_def dict_get_def)

lemma int2bin_no_width:
  assumes "0 \<le> i"
  shows "\<exists>s. int2bin i 0 = Inr s \<and> s \<noteq> [] \<and> binary_string s \<and> bin2int s = Inr i"
proof -
  from int2bin_bits [OF assms] obtain bs where bs: "binary_string bs" "bs \<noteq> []" "bits_value bs = i"
    and eq: "int2bin i 0 =
       (if CHR ''1'' \<in> set (py_upto bs (- 0)) then Inl ValueError
        else Inr (replicate (nat (0 - int (length (py_from bs (- 0))))) (CHR ''0'') @ py_from bs (- 0)))"
    by metis
  have "int2bin i 0 = Inr bs" using eq by (simp add: py_upto_def py_from_def slice_bound_def)
  then show ?thesis using bs bin2int_binary_string [OF bs(1,2)] by auto
qed


subsection \<open>Counting\<close>

fun lbits :: "nat \<Rightarrow> nat \<Rightarrow> string" where
  "lbits 0 k = []"
| "lbits (Suc n) k = (if odd k then CHR ''1'' else CHR ''0'') # lbits n (k div 2)"

lemma length_lbits [simp]: "length (lbits n k) = n"
  by (induction n arbitrary: k) auto

lemma lbits_0: "lbits n 0 = replicate n (CHR ''0'')"
  by (induction n) auto

lemma binary_range_inc_correct:
  "length v = i \<Longrightarrow> length toggle = Suc (i + n) \<Longrightarrow> toggle ! i = 1 \<Longrightarrow> k < 2 ^ n \<Longrightarrow>
   \<forall>j>i. j < length toggle \<longrightarrow> toggle ! j = 0 \<Longrightarrow>
   \<exists>toggle'. binary_range_inc (i + n) (v @ lbits n k) toggle i =
       (v @ lbits n (Suc k mod 2 ^ n), toggle') \<and> (toggle' ! (i + n) = 1 \<longleftrightarrow> Suc k = 2 ^ n)"
proof (induction n arbitrary: i v k toggle)
  case 0
  then show ?case by (subst binary_range_inc.simps) auto
next
  case (Suc n)
  show ?case
  proof (cases "odd k")
    case False
    then have "Suc k < 2 * 2 ^ n" using Suc.prems by simp presburger
    with False Suc.prems show ?thesis
      by (subst binary_range_inc.simps, subst binary_range_inc.simps)
        (auto simp: nth_append list_update_append nth_list_update)
  next
    case True
    then obtain j where j: "k = 2 * j + 1" by (blast elim: oddE)
    have "\<exists>toggle'. binary_range_inc (Suc i + n) ((v @ [CHR ''0'']) @ lbits n j) (toggle[Suc i := 1]) (Suc i) =
       ((v @ [CHR ''0'']) @ lbits n (Suc j mod 2 ^ n), toggle') \<and>
       (toggle' ! (Suc i + n) = 1 \<longleftrightarrow> Suc j = 2 ^ n)"
      by (rule Suc.IH) (use Suc.prems j in \<open>auto simp: nth_list_update\<close>)
    moreover have "Suc k mod 2 ^ Suc n = 2 * (Suc j mod 2 ^ n)"
      by (simp add: j mult_mod_right)
    ultimately show ?thesis
      using Suc.prems j by (subst binary_range_inc.simps) (auto simp: nth_append list_update_append)
  qed
qed

lemma binary_range_loop_correct:
  assumes "0 < bits"
  shows "k < 2 ^ bits \<Longrightarrow> toggle ! bits \<noteq> 1 \<Longrightarrow> binary_range_loop bits (lbits bits k) toggle l =
    Some (l @ map (\<lambda>j. rev (lbits bits j)) [k..<2 ^ bits])"
proof (induction "2 ^ bits - k" arbitrary: k toggle l)
  case (Suc m)
  obtain toggle' where t: "binary_range_inc bits (lbits bits k) (1 # replicate bits 0) 0 =
      (lbits bits (Suc k mod 2 ^ bits), toggle')" "toggle' ! bits = 1 \<longleftrightarrow> Suc k = 2 ^ bits"
    using binary_range_inc_correct [of "[]" 0 "1 # replicate bits 0" bits k] Suc.prems
    by (auto simp: nth_Cons')
  show ?case
  proof (cases "Suc k = 2 ^ bits")
    case True
    then have "[k..<2 ^ bits] = [k]" by (metis upt_rec upt_conv_Nil lessI order_refl)
    with True t Suc.prems show ?thesis
      by (subst binary_range_loop.simps, simp, subst binary_range_loop.simps, simp)
  next
    case False
    with Suc.prems have "Suc k < 2 ^ bits" by simp
    with False t Suc show ?thesis
      by (subst binary_range_loop.simps) (simp add: upt_rec [of k])
  qed
qed simp

lemma binary_range_counts:
  assumes "0 < bits"
  shows "binary_range bits = Some (map (\<lambda>j. rev (lbits bits j)) [0..<2 ^ bits])"
  using binary_range_loop_correct [OF assms, of 0 "1 # replicate bits 0" "[]"] assms
  by (simp add: binary_range_def lbits_0)

lemma binary_range_zero: "binary_range 0 = Some []"
  by (simp add: binary_range_def binary_range_loop.simps)

subsection \<open>Common fixes\<close>
lemma common_prefix_loop_eq:
  "n = min (length s1) (length s2) \<Longrightarrow> i \<le> n \<Longrightarrow>
   common_prefix_loop s1 s2 n i acc = acc @ longest_common_prefix (drop i s1) (drop i s2)"
proof (induction s1 s2 n i acc rule: common_prefix_loop.induct)
  case (1 s1 s2 n i acc)
  show ?case
  proof (cases "i < n")
    case True
    with 1 show ?thesis
      by (subst common_prefix_loop.simps)
        (simp add: Cons_nth_drop_Suc [symmetric])
  next
    case False
    with 1 have "drop i s1 = [] \<or> drop i s2 = []" by auto
    with False show ?thesis by (subst common_prefix_loop.simps) auto
  qed
qed

lemma common_suffix_loop_eq:
  "n = min (length s1) (length s2) \<Longrightarrow> 0 < i \<Longrightarrow> 
   common_suffix_loop s1 s2 n i acc = common_prefix_loop (rev s1) (rev s2) n (i - 1) acc"
proof (induction s1 s2 n i acc rule: common_suffix_loop.induct)
  case (1 s1 s2 n i acc)
  then show ?case
    by (subst common_suffix_loop.simps, subst common_prefix_loop.simps) (auto simp: rev_nth)
qed

lemma find_common_fixes_longest:
  "find_common_fixes s1 s2 =
     (longest_common_prefix s1 s2, rev (longest_common_prefix (rev s1) (rev s2)))"
  by (simp add: find_common_fixes_def Let_def common_suffix_loop_eq common_prefix_loop_eq)

subsection \<open>Transposition\<close>

lemma zip_rows_columns:
  "m \<noteq> [] \<Longrightarrow> \<forall>r \<in> set m. n \<le> length r \<Longrightarrow> \<exists>r \<in> set m. length r = n \<Longrightarrow>
   zip_rows m = map (\<lambda>j. map (\<lambda>r. r ! j) m) [0..<n]"
proof (induction n arbitrary: m)
  case 0
  then show ?case by (subst zip_rows.simps) auto
next
  case (Suc n)
  then have ne: "[] \<notin> set m" by force
  have heads: "map hd m = map (\<lambda>r. r ! 0) m"
    using ne by (intro map_cong refl hd_conv_nth) auto
  have "zip_rows (map tl m) = map (\<lambda>j. map (\<lambda>r. r ! j) (map tl m)) [0..<n]"
    by (rule Suc.IH) (use Suc.prems in force)+
  also have "\<dots> = map (\<lambda>j. map (\<lambda>r. r ! Suc j) m) [0..<n]"
    using Suc.prems by (fastforce simp: nth_tl)
  also have "\<dots> = map (\<lambda>j. map (\<lambda>r. r ! j) m) [Suc 0..<Suc n]"
    by (simp only: map_Suc_upt [symmetric] map_map comp_def)
  finally show ?case
    using ne Suc.prems(1) heads by (subst zip_rows.simps) (simp add: upt_rec [of 0] del: upt_Suc)
qed

lemma transpose_lists_involution:
  assumes "m \<noteq> []" and "0 < n" and "\<forall>r \<in> set m. length r = n"
  shows "transpose_lists (transpose_lists m) = m"
proof -
  have t: "transpose_lists m = map (\<lambda>j. map (\<lambda>r. r ! j) m) [0..<n]"
    unfolding transpose_lists_def using assms
    by (intro zip_rows_columns) (auto simp: neq_Nil_conv)
  have "transpose_lists (transpose_lists m) =
      map (\<lambda>j. map (\<lambda>r. r ! j) (transpose_lists m)) [0..<length m]"
    unfolding transpose_lists_def [of "transpose_lists m"] using assms
    by (intro zip_rows_columns) (auto simp: t intro!: bexI [of _ "0::nat"])
  also have "\<dots> = m"
    using assms by (auto simp: t intro!: nth_equalityI simp: all_set_conv_all_nth)
  finally show ?thesis .
qed

subsection \<open>Removing duplicates\<close>

lemma uniquify_seen_spec:
  "distinct (uniquify_seen seq d) \<and> set (uniquify_seen seq d) = set seq - set (dict_keys d) \<and>
   subseq (uniquify_seen seq d) seq"
  by (induction seq d rule: uniquify_seen.induct) (auto simp: dict_simps dict_has_iff)

lemma uniquify_slow_seen:
  "set result = set (dict_keys d) \<Longrightarrow> uniquify_slow seq result = result @ uniquify_seen seq d"
proof (induction seq arbitrary: result d)
  case (Cons x seq)
  show ?case
    using Cons.IH [of result d] Cons.IH [of "result @ [x]" "dict_set x 0 d"] Cons.prems
    by (auto simp: dict_simps dict_has_iff)
qed simp

lemma uniquify_keys:
  "dict_ok d \<Longrightarrow> dict_ok (foldl (\<lambda>d x. dict_set x v d) d seq) \<and>
   set (dict_keys (foldl (\<lambda>d x. dict_set x v d) d seq)) = set (dict_keys d) \<union> set seq"
  by (induction seq arbitrary: d) (auto simp: dict_simps)

lemma uniquify_order_preserved:
  "subseq (uniquify ord hashable seq True) seq \<and>
   uniquify ord hashable seq True = uniquify_slow seq []"
  using uniquify_slow_seen [of "[]" "[]" seq] uniquify_seen_spec [of seq "[]"]
  by (simp add: uniquify_def)

lemma uniquify_set_distinct:
  assumes "key_order ord"
  shows "distinct (uniquify ord hashable seq preserve) \<and>
    set (uniquify ord hashable seq preserve) = set seq"
  using uniquify_slow_seen [of "[]" "[]" seq] uniquify_seen_spec [of seq "[]"]
    uniquify_keys [of "[]" "0::int" seq]
  by (simp add: uniquify_def key_order.set_ord [OF assms] key_order.distinct_ord [OF assms]
      dict_ok_def)

subsection \<open>Reversed dictionaries\<close>

lemma foldl_swap_map_of:
  "distinct (map snd xs) \<Longrightarrow>
   map_of (foldl (\<lambda>r (k, v). dict_set v k r) acc xs) v =
     (case map_of (map (\<lambda>(k, v). (v, k)) xs) v of None \<Rightarrow> map_of acc v | Some k \<Rightarrow> Some k)"
proof (induction xs arbitrary: acc)
  case (Cons x xs)
  then show ?case
    by (cases x) (force simp: dict_simps split: option.splits dest!: map_of_SomeD)
qed simp

lemma reverse_dict_inverse:
  assumes ord: "key_order ord" and ok: "dict_ok d" and inj: "distinct (map snd d)"
  shows "map_of (reverse_dict ord d) v = Some k \<longleftrightarrow> map_of d k = Some v"
proof -
  have "mset (map snd (ord d)) = mset (map snd d)"
    using key_order.mset_ord [OF ord] by (simp add: mset_map)
  then have dist: "distinct (map snd (ord d))" using inj mset_eq_imp_distinct_iff by blast
  let ?sw = "map (\<lambda>(k, v). (v, k)) (ord d)"
  have sw: "distinct (map fst ?sw)"
    using dist by (simp add: comp_def case_prod_unfold)
  have "map_of (reverse_dict ord d) v = map_of ?sw v"
    unfolding reverse_dict_def foldl_swap_map_of [OF dist] by (simp split: option.split)
  also have "\<dots> = Some k \<longleftrightarrow> (k, v) \<in> set d"
    using sw key_order.set_ord [OF ord, of d] by (auto simp: map_of_eq_Some_iff)
  finally show ?thesis using ok by (simp add: dict_ok_def)
qed

subsection \<open>Rounding\<close>

lemma round_grid_unbound:
  assumes "grid \<noteq> 0"
  shows "round_grid value grid mode = Inl e \<longleftrightarrow>
    e = UnboundLocalError \<and> (mode \<notin> {-1, 0, 1} \<or> mode \<noteq> 0 \<and> grid dvd value)"
  using assms by (auto simp: round_grid_def Let_def dvd_eq_mod_eq_0)

lemma round_grid_result:
  assumes "0 < grid" and "round_grid value grid mode = Inr r"
  shows "grid dvd r" and "mode = 0 \<Longrightarrow> 2 * abs (r - value) \<le> grid"
    and "mode = 1 \<Longrightarrow> value < r \<and> r < value + grid" and "mode = -1 \<Longrightarrow> r < value \<and> value < r + grid"
proof -
  define q where "q = value div grid"
  define m where "m = value mod grid"
  have e: "value = q * grid + m" by (simp add: q_def m_def)
  have m: "0 \<le> m" "m < grid" using assms(1) by (simp_all add: m_def)
  have r: "\<exists>n. r = (q + n) * grid \<and> (mode = 0 \<and> n = (if 2 * m \<ge> grid then 1 else 0) \<or>
      mode = 1 \<and> m \<noteq> 0 \<and> n = 1 \<or> mode = -1 \<and> m \<noteq> 0 \<and> n = 0)"
    using assms by (auto simp: round_grid_def Let_def q_def m_def split: if_splits)
  show "grid dvd r" using r by auto
  show "mode = 0 \<Longrightarrow> 2 * abs (r - value) \<le> grid"
    using r m by (auto simp: e algebra_simps split: if_splits)
  show "mode = 1 \<Longrightarrow> value < r \<and> r < value + grid"
    using r m by (auto simp: e algebra_simps)
  show "mode = -1 \<Longrightarrow> r < value \<and> value < r + grid"
    using r m by (auto simp: e algebra_simps)
qed

subsection \<open>Arguments\<close>

lemma get_args_steps_args:
  "snd (foldl get_args_step (d, args) argv) = args @ filter (\<lambda>a. \<not> prefix ''-'' a) argv"
  by (induction argv arbitrary: d args) (auto simp: get_args_step_def Let_def)

lemma get_args_positional:
  "map_of (get_args argv) ''args'' = Some (ArgList (filter (\<lambda>a. \<not> prefix ''-'' a) argv))"
  using get_args_steps_args [of "[]" "[]" argv]
  by (auto simp: get_args_def dict_simps split: prod.split)

lemma get_args_last_option:
  assumes "prefix ''-'' arg" and "parts = split_on (CHR ''='') (dropWhile (\<lambda>c. c = CHR ''-'') arg)"
    and "parts ! 0 \<noteq> ''args''"
  shows "map_of (get_args (argv @ [arg])) (parts ! 0) =
    Some (if length parts = 2 then ArgStr (parts ! 1) else ArgNone)"
  using assms by (auto simp: get_args_def get_args_step_def Let_def dict_simps split: prod.splits)

subsection \<open>Binary strings of one length\<close>

lemma bits_value_inj:
  "binary_string s \<Longrightarrow> binary_string t \<Longrightarrow> length s = length t \<Longrightarrow>
   bits_value s = bits_value t \<Longrightarrow> s = t"
proof (induction s arbitrary: t rule: rev_induct)
  case (snoc c s)
  from snoc.prems(3) obtain d u where t: "t = u @ [d]"
    by (metis length_0_conv rev_exhaust append_is_Nil_conv list.distinct(1))
  have "bits_value s = bits_value u \<and> (c = CHR ''1'' \<longleftrightarrow> d = CHR ''1'')"
    using snoc.prems(4) t by (auto split: if_splits) presburger+
  with snoc t show ?case by (auto simp: binary_string_def)
qed simp

lemma binary_string_lbits: "binary_string (rev (lbits n k))"
  by (induction n arbitrary: k) (auto simp: binary_string_def)

lemma bits_value_lbits: "k < 2 ^ n \<Longrightarrow> bits_value (rev (lbits n k)) = int k"
proof (induction n arbitrary: k)
  case (Suc n)
  then have "bits_value (rev (lbits n (k div 2))) = int (k div 2)" by simp
  then show ?case by simp presburger
qed simp

lemma binary_range_int2bin:
  assumes "0 < bits" and "k < 2 ^ bits"
  shows "int2bin (int k) (int bits) = Inr (rev (lbits bits k))"
proof -
  have "int k < 2 ^ bits" using assms(2) by (metis of_nat_less_iff of_nat_numeral of_nat_power)
  then obtain s where s: "int2bin (int k) (int bits) = Inr s" "length s = bits" "binary_string s"
    "bin2int s = Inr (int k)"
    using int2bin_correct [of "int k" bits] assms(1) by auto
  then have "bits_value s = int k"
    using bin2int_binary_string [of s] assms(1) by (cases s) auto
  then have "s = rev (lbits bits k)"
    using s assms(2) by (intro bits_value_inj) (simp_all add: binary_string_lbits bits_value_lbits)
  with s show ?thesis by simp
qed

lemma rotation_sym: "ys = rotate k xs \<Longrightarrow> \<exists>j. xs = rotate j ys"
proof (cases "xs = []")
  case False
  assume "ys = rotate k xs"
  then have "ys = rotate (k mod length xs) xs" by (simp flip: rotate_conv_mod)
  then have "rotate (length xs - k mod length xs) ys = rotate (length xs) xs"
    using False by (simp add: rotate_rotate order_less_imp_le)
  then have "xs = rotate (length xs - k mod length xs) ys" by simp
  then show ?thesis ..
qed simp

section \<open>Properties\<close>

text \<open>C38: what \<open>int2bin\<close> gives for every number and every width of 0 or more, and that
  \<open>bin2int\<close> reads it back: a nonnegative number that fits a positive width gives a string of exactly
  \<open>n\<close> binary digits, one that does not fit raises \<open>ValueError\<close>. With width 0 nothing is cut off
  or checked, as \<open>result[:-0]\<close> is empty: the result has all the digits. A negative number raises
  \<open>KeyError\<close>, at the \<open>x\<close> of its hexadecimal form.\<close>
theorem int2bin_bin2int:
  "if i < 0 then int2bin i (int n) = Inl KeyError
   else if n = 0 then \<exists>s. int2bin i (int n) = Inr s \<and> s \<noteq> [] \<and> set s \<subseteq> {CHR ''0'', CHR ''1''} \<and> bin2int s = Inr i
   else if i < 2 ^ n then
     \<exists>s. int2bin i (int n) = Inr s \<and> length s = n \<and> set s \<subseteq> {CHR ''0'', CHR ''1''} \<and> bin2int s = Inr i
   else int2bin i (int n) = Inl ValueError"
  using int2bin_negative [of i "int n"] int2bin_correct [of i n] int2bin_no_width [of i] unfolding binary_string_def
  by auto

theorem int2bin_bin2int_witness:
  "(\<exists>s. int2bin 123 (int 8) = Inr s \<and> length s = 8 \<and> bin2int s = Inr 123) \<and>
   int2bin 15 (int 2) = Inl ValueError \<and> int2bin (- 1) (int 8) = Inl KeyError"
  using int2bin_bin2int [of 123 8] int2bin_bin2int [of 15 2] int2bin_bin2int [of "- 1" 8] by auto

text \<open>\<open>binary_range\<close> returns, and its result is the list of the \<open>2 ** bits\<close> strings that
  \<open>int2bin\<close> gives for \<open>0, 1, 2, ...\<close>, in this order.\<close>
theorem binary_range_enumerates:
  assumes "0 < bits"
  shows "\<exists>l. binary_range bits = Some l \<and> length l = 2 ^ bits \<and>
    (\<forall>k<2 ^ bits. int2bin (int k) (int bits) = Inr (l ! k))"
  using binary_range_counts [OF assms] binary_range_int2bin [OF assms] by auto

theorem binary_range_enumerates_witness:
  "\<exists>l. binary_range 3 = Some l \<and> length l = 2 ^ 3 \<and>
    (\<forall>k<2 ^ 3. int2bin (int k) (int 3) = Inr (l ! k))"
  by (rule binary_range_enumerates) simp

text \<open>on integers \<open>gcf\<close> is the greatest common divisor, whatever the signs, \<open>lcm\<close> is the
  least common multiple up to its sign, and \<open>reduce_fraction\<close> gives the same fraction in
  lowest terms; only \<open>0/0\<close> raises.\<close>
theorem common_factors_correct:
  "gcf a b = gcd a b \<and> abs (lcm_py a b) = lcm a b \<and>
   (case reduce_fraction (a, b) of
      Inr (n, d) \<Rightarrow> coprime n d \<and> a * d = n * b \<and> a = n * gcd a b \<and> b = d * gcd a b
    | Inl e \<Rightarrow> a = 0 \<and> b = 0 \<and> e = ZeroDivisionError)"
  using reduce_fraction_lowest [of a b] reduce_fraction_error [of a b]
  by (auto simp: gcf_gcd lcm_py_abs split: sum.split)

text \<open>\<open>permutations\<close> returns every rearrangement of the list and nothing else, and as many
  lists as there are permutations of the positions.\<close>
theorem permutations_all:
  "set (permutations xs) = {ys. mset ys = mset xs} \<and>
   length (permutations xs) = fact (length xs)"
  using permutations_sound permutations_complete length_permutations by blast

text \<open>\<open>find_common_fixes\<close> finds the longest common prefix and the longest common suffix: a
  list is a prefix (a suffix) of both arguments just when it is one of the result.\<close>
theorem find_common_fixes_maximal:
  "case find_common_fixes s1 s2 of (p, q) \<Rightarrow>
     (\<forall>xs. prefix xs s1 \<and> prefix xs s2 \<longleftrightarrow> prefix xs p) \<and>
     (\<forall>xs. suffix xs s1 \<and> suffix xs s2 \<longleftrightarrow> suffix xs q)"
  by (auto simp: find_common_fixes_longest suffix_to_prefix longest_common_prefix_max_prefix
      intro: longest_common_prefix_prefix1 longest_common_prefix_prefix2 prefix_order.trans)

text \<open>\<open>is_rotated\<close> decides whether the first sequence is a rotation of the second; only two
  empty sequences raise, an \<open>IndexError\<close> on \<open>seq2[0]\<close>.\<close>
theorem is_rotated_decides:
  "is_rotated seq1 seq2 =
     (if seq1 = [] \<and> seq2 = [] then Inl IndexError else Inr (\<exists>k. seq1 = rotate k seq2))"
proof (cases "seq2 = []")
  case True
  then show ?thesis by (simp add: is_rotated_empty)
next
  case False
  have "(\<exists>k. seq2 = rotate k seq1) \<longleftrightarrow> (\<exists>k. seq1 = rotate k seq2)"
    using rotation_sym by blast
  with False show ?thesis by (simp add: is_rotated_nonempty)
qed

text \<open>The Gray code gives different integers different codes, and the codes of neighbours
  differ in exactly one bit.\<close>
theorem gray_encode_code:
  assumes "0 \<le> i" and "0 \<le> j"
  shows "(gray_encode i = gray_encode j \<longleftrightarrow> i = j) \<and>
    (\<exists>k. gray_encode i XOR gray_encode (i + 1) = 2 ^ k)"
  using gray_encode_inj [OF assms] gray_encode_adjacent [OF assms(1)] by auto

theorem gray_encode_code_witness:
  "(gray_encode 5 = gray_encode 6 \<longleftrightarrow> (5::int) = 6) \<and>
   (\<exists>k. gray_encode 5 XOR gray_encode (5 + 1) = 2 ^ k)"
  by (rule gray_encode_code) simp_all

text \<open>\<open>round_grid\<close> with a positive grid: a result is a multiple of the grid, the nearest one
  (mode 0), the next one above (mode 1) or below (mode -1); and the modes 1 and -1 raise
  \<open>UnboundLocalError\<close> exactly on the values that already lie on the grid.\<close>
theorem round_grid_modes:
  assumes "0 < grid" and "mode \<in> {-1, 0, 1}"
  shows "case round_grid value grid mode of
      Inr r \<Rightarrow> grid dvd r \<and> (mode = 0 \<and> 2 * abs (r - value) \<le> grid \<or>
        mode = 1 \<and> value < r \<and> r < value + grid \<or> mode = -1 \<and> r < value \<and> value < r + grid)
    | Inl e \<Rightarrow> e = UnboundLocalError \<and> mode \<noteq> 0 \<and> grid dvd value"
proof (cases "round_grid value grid mode")
  case (Inl e)
  then show ?thesis using round_grid_unbound [of grid "value" mode e] assms by auto
next
  case (Inr r)
  then show ?thesis using round_grid_result [OF assms(1) Inr] assms(2) by auto
qed

theorem round_grid_modes_witness:
  "round_grid 10 5 1 = Inl UnboundLocalError \<and> (5::int) dvd 10 \<and>
   round_grid 7 5 1 = Inr 10 \<and> (7::int) < 10"
  using round_grid_modes [of 5 1 10] round_grid_modes [of 5 1 7]
  by (simp add: round_grid_def Let_def)

text \<open>In the dictionary of \<open>get_args\<close> the key \<open>args\<close> holds the arguments that do not start
  with a dash, in their order, and the last option holds its value when it has exactly one
  \<open>=\<close>, and \<open>None\<close> otherwise, even when a value with a second \<open>=\<close> was given.\<close>
theorem get_args_contents:
  assumes "prefix ''-'' arg"
    and "parts = split_on (CHR ''='') (dropWhile (\<lambda>c. c = CHR ''-'') arg)" and "parts ! 0 \<noteq> ''args''"
  shows "map_of (get_args (argv @ [arg])) ''args'' =
      Some (ArgList (filter (\<lambda>a. \<not> prefix ''-'' a) argv)) \<and>
    map_of (get_args (argv @ [arg])) (parts ! 0) =
      Some (if length parts = 2 then ArgStr (parts ! 1) else ArgNone)"
  using get_args_positional [of "argv @ [arg]"] get_args_last_option [OF assms, of argv] assms(1)
  by simp

theorem get_args_contents_witness:
  "map_of (get_args ([''x''] @ [''--a=b=c''])) ''args'' = Some (ArgList (filter (\<lambda>a. \<not> prefix ''-'' a) [''x'']))
   \<and> map_of (get_args ([''x''] @ [''--a=b=c''])) ''a'' = Some ArgNone"
  using get_args_contents [of "''--a=b=c''" "[''a'', ''b'', ''c'']" "[''x'']"] by simp

text \<open>\<open>transpose\<close> on the rectangular matrices with at least one row and one column is its own
  inverse.\<close>
theorem transpose_twice:
  assumes "matrix \<noteq> []" and "0 < n" and "\<forall>row \<in> set matrix. length row = n"
  shows "transpose_lists (transpose_lists matrix) = matrix"
  using assms by (rule transpose_lists_involution)

theorem transpose_twice_witness:
  "transpose_lists (transpose_lists [[1, 2, 3], [4, 5, 6::int]]) = [[1, 2, 3], [4, 5, 6]]"
  by (rule transpose_twice [of _ 3]) simp_all

text \<open>\<open>uniquify\<close> on either algorithm, and whatever order the interpreter gives the keys of a
  dictionary, returns every item once; with \<open>preserve_order\<close> the items keep their order, and
  the dictionary and the quadratic loop agree.\<close>
theorem uniquify_once:
  assumes "key_order ord"
  shows "distinct (uniquify ord hashable seq preserve) \<and>
    set (uniquify ord hashable seq preserve) = set seq \<and>
    subseq (uniquify ord hashable seq True) seq \<and>
    uniquify ord hashable seq True = uniquify ord (\<lambda>x. False) seq True"
  using uniquify_set_distinct [OF assms] uniquify_order_preserved [of ord hashable seq]
    uniquify_order_preserved [of ord "\<lambda>x. False" seq] by metis

theorem uniquify_once_witness:
  "distinct (uniquify rev (\<lambda>x. True) [3, 3, 1, 2 :: int] False) \<and>
   set (uniquify rev (\<lambda>x. True) [3, 3, 1, 2 :: int] False) = {1, 2, 3}"
  using uniquify_once [OF reversed_order.key_order_axioms, of "\<lambda>x. True" "[3, 3, 1, 2 :: int]" False]
  by auto

end
