(* ===== verification/Topsort.thy ===== *)
theory Topsort
  imports Rad_Util
begin

text \<open>
  Topological sorting and cycle finding, \<open>bindings/python/topsort.py\<close>: the counting of
  parents and children that \<open>topsort\<close> and \<open>topsort_levels\<close> share, the worklist of
  \<open>topsort\<close>, the level generator \<open>topsort_levels_core\<close> and the path stack of \<open>find_cycles\<close>.
  A generator is the list of what it yields and the exception that ends it.
\<close>

section \<open>Counting parents\<close>

datatype 'k topsort_exn =
    CycleError "'k list option" "('k, int) dict" "('k, 'k list) dict"
  | TopsortKeyError

record 'k dependencies =
  num_parents :: "('k, int) dict"
  children :: "('k, 'k list) dict"

definition count_pair :: "'k \<times> 'k \<Rightarrow> 'k dependencies \<Rightarrow> 'k dependencies" where
  "count_pair pc deps =
     (let (parent, child) = pc;
          np = num_parents deps;
          np = (if dict_has np parent then np else dict_set parent 0 np);
          np = (if dict_has np child then np else dict_set child 0 np);
          np = (case map_of np child of Some n \<Rightarrow> dict_set child (n + 1) np | None \<Rightarrow> np);
          cs = (case map_of (children deps) parent of Some cs \<Rightarrow> cs | None \<Rightarrow> [])
      in \<lparr>num_parents = np, children = dict_set parent (cs @ [child]) (children deps)\<rparr>)"

definition count_pairs :: "('k \<times> 'k) list \<Rightarrow> 'k dependencies" where
  "count_pairs pairlist = fold count_pair pairlist \<lparr>num_parents = [], children = []\<rparr>"

section \<open>The worklist of topsort\<close>

text \<open>
  \<open>for parent in answer\<close> runs over a list that grows in its body: \<open>done\<close> is the part
  already visited and \<open>todo\<close> the rest, so that \<open>answer\<close> is \<open>done @ todo\<close>.
\<close>

definition knock_down ::
  "'k \<Rightarrow> ('k, int) dict \<times> 'k list \<Rightarrow> 'k topsort_exn + ('k, int) dict \<times> 'k list" where
  "knock_down child s =
     (let (np, todo) = s in
      case map_of np child of
        None \<Rightarrow> Inl TopsortKeyError
      | Some n \<Rightarrow> Inr (dict_set child (n - 1) np, if n - 1 = 0 then todo @ [child] else todo))"

lemma length_knock_down:
  "for_each knock_down cs (np, todo) = Inr (np', todo') \<Longrightarrow> length np' = length np"
proof (induction cs arbitrary: np todo)
  case (Cons c cs)
  then obtain n where "map_of np c = Some n"
    by (auto simp: knock_down_def split: option.splits)
  then have "dict_has np c" by (rule dict_has_SomeI)
  with Cons \<open>map_of np c = Some n\<close> show ?case
    by (auto simp: knock_down_def length_dict_set_old)
qed simp

function topsort_loop ::
  "'k list \<Rightarrow> 'k list \<Rightarrow> ('k, int) dict \<Rightarrow> ('k, 'k list) dict
    \<Rightarrow> 'k topsort_exn + 'k list \<times> ('k, int) dict \<times> ('k, 'k list) dict" where
  "topsort_loop visited [] np ch = Inr (visited, np, ch)"
| "topsort_loop visited (parent # todo) np ch =
     (if \<not> dict_has np parent then Inl TopsortKeyError
      else
        let np1 = AList.delete parent np in
        case map_of ch parent of
          None \<Rightarrow> topsort_loop (visited @ [parent]) todo np1 ch
        | Some cs \<Rightarrow>
            res_bind (for_each knock_down cs (np1, todo)) (\<lambda>(np2, todo2).
              topsort_loop (visited @ [parent]) todo2 np2 (AList.delete parent ch)))"
  by pat_completeness auto
termination
  by (relation "measure (\<lambda>(visited, todo, np, ch). length np)")
    (auto simp: dict_simps dest!: length_knock_down)

definition topsort ::
  "('k list \<Rightarrow> 'k list) \<Rightarrow> ('k \<times> 'k) list \<Rightarrow> 'k topsort_exn + 'k list" where
  "topsort ord pairlist =
     (let deps = count_pairs pairlist;
          np = num_parents deps;
          answer = filter (\<lambda>x. map_of np x = Some 0) (ord (dict_keys np))
      in res_bind (topsort_loop [] answer np (children deps)) (\<lambda>(answer, np, ch).
           if np \<noteq> [] then Inl (CycleError (Some answer) np ch) else Inr answer))"

section \<open>Levels\<close>

definition release_child :: "'k \<Rightarrow> ('k, int) dict \<Rightarrow> 'k topsort_exn + ('k, int) dict" where
  "release_child c np =
     (case map_of np c of None \<Rightarrow> Inl TopsortKeyError | Some n \<Rightarrow> Inr (dict_set c (n - 1) np))"

definition release_parent ::
  "'k \<Rightarrow> ('k, int) dict \<times> ('k, 'k list) dict \<Rightarrow> 'k topsort_exn + ('k, int) dict \<times> ('k, 'k list) dict" where
  "release_parent p s =
     (let (np, ch) = s in
      if \<not> dict_has np p then Inl TopsortKeyError
      else
        let np1 = AList.delete p np in
        case map_of ch p of
          None \<Rightarrow> Inr (np1, ch)
        | Some cs \<Rightarrow> res_bind (for_each release_child cs np1) (\<lambda>np2. Inr (np2, AList.delete p ch)))"

lemma length_release_child:
  "for_each release_child cs np = Inr np' \<Longrightarrow> length np' = length np"
proof (induction cs arbitrary: np)
  case (Cons c cs)
  then obtain n where n: "map_of np c = Some n"
    by (auto simp: release_child_def split: option.splits)
  then have "dict_has np c" by (rule dict_has_SomeI)
  with Cons n show ?case by (auto simp: release_child_def length_dict_set_old)
qed simp

lemma length_release_parent:
  "release_parent p (np, ch) = Inr (np', ch') \<Longrightarrow> length np' < length np"
  by (auto simp: release_parent_def Let_def dict_simps split: option.splits if_splits
      dest!: length_release_child)

lemma length_release_level:
  "for_each release_parent ps (np, ch) = Inr (np', ch') \<Longrightarrow> length np' + length ps \<le> length np"
proof (induction ps arbitrary: np ch)
  case (Cons p ps)
  then obtain np1 ch1 where s: "release_parent p (np, ch) = Inr (np1, ch1)"
    "for_each release_parent ps (np1, ch1) = Inr (np', ch')"
    by auto
  then show ?case using Cons.IH [OF s(2)] length_release_parent [OF s(1)] by simp
qed simp

function topsort_levels_core ::
  "('k list \<Rightarrow> 'k list) \<Rightarrow> ('k, int) dict \<Rightarrow> ('k, 'k list) dict
    \<Rightarrow> 'k list list \<times> 'k topsort_exn option" where
  "topsort_levels_core ord np ch =
     (let level_parents = filter (\<lambda>x. map_of np x = Some 0) (ord (dict_keys np)) in
      if level_parents = [] then ([], if np \<noteq> [] then Some (CycleError None np ch) else None)
      else
        case for_each release_parent level_parents (np, ch) of
          Inl e \<Rightarrow> ([level_parents], Some e)
        | Inr (np', ch') \<Rightarrow>
            (let (levels, e) = topsort_levels_core ord np' ch' in (level_parents # levels, e)))"
  by pat_completeness auto
termination
proof (relation "measure (\<lambda>(ord, np, ch). length np)")
  fix ord :: "'k list \<Rightarrow> 'k list" and np :: "('k, int) dict" and ch :: "('k, 'k list) dict"
    and lp s np' ch'
  assume "lp = filter (\<lambda>x. map_of np x = Some 0) (ord (dict_keys np))" "lp \<noteq> []"
    "for_each release_parent lp (np, ch) = Inr s" "(np', ch') = s"
  then show "((ord, np', ch'), ord, np, ch) \<in> measure (\<lambda>(ord, np, ch). length np)"
    using length_release_level [of lp np ch np' ch'] by (auto simp flip: length_greater_0_conv)
qed simp

declare topsort_levels_core.simps [simp del]

definition topsort_levels ::
  "('k list \<Rightarrow> 'k list) \<Rightarrow> ('k \<times> 'k) list \<Rightarrow> 'k list list \<times> 'k topsort_exn option" where
  "topsort_levels ord pairlist =
     (let deps = count_pairs pairlist
      in topsort_levels_core ord (num_parents deps) (children deps))"

section \<open>Cycles\<close>

text \<open>
  The generator yields each cycle when it appends it to \<open>cycles\<close>, so that \<open>list\<close> of it is this list.
  The stack of paths is a list whose head is on top.
\<close>

fun is_dup_cycle :: "'k list \<Rightarrow> 'k list list \<Rightarrow> bool result" where
  "is_dup_cycle cycle [] = Inr False"
| "is_dup_cycle cycle (other_cycle # rest) =
     res_bind (is_rotated other_cycle cycle) (\<lambda>r. if r then Inr True else is_dup_cycle cycle rest)"

definition visit_child ::
  "'k list \<Rightarrow> 'k \<Rightarrow> 'k list list \<times> 'k set \<times> 'k list list \<Rightarrow> ('k list list \<times> 'k set \<times> 'k list list) result" where
  "visit_child path child s =
     (let (cycles, visited_nodes, paths) = s in
      if child \<in> set path then
        (let cycle = dropWhile (\<lambda>y. y \<noteq> child) path in
         res_bind (is_dup_cycle cycle cycles) (\<lambda>is_dup.
           Inr (if is_dup then cycles else cycles @ [cycle], visited_nodes, paths)))
      else Inr (cycles, insert child visited_nodes, (path @ [child]) # paths))"

definition path_weight :: "('k, 'k list) dict \<Rightarrow> 'k list \<Rightarrow> nat" where
  "path_weight pc path =
     Suc (length (concat (map snd pc))) ^ card (set (concat (map snd pc)) - set path)"

lemma visit_children_paths:
  "for_each (visit_child path) cs (cycles, vis, paths) = Inr (cycles', vis', paths') \<Longrightarrow>
   \<exists>new. paths' = map (\<lambda>c. path @ [c]) new @ paths \<and> length new \<le> length cs \<and>
     set new = set cs - set path \<and> vis' = vis \<union> set new"
proof (induction cs arbitrary: cycles vis paths)
  case (Cons c cs)
  then obtain cy1 vi1 pa1 where s: "visit_child path c (cycles, vis, paths) = Inr (cy1, vi1, pa1)"
    "for_each (visit_child path) cs (cy1, vi1, pa1) = Inr (cycles', vis', paths')"
    by auto
  from Cons.IH [OF s(2)] obtain new where new: "paths' = map (\<lambda>c. path @ [c]) new @ pa1"
    "length new \<le> length cs" "set new = set cs - set path" "vis' = vi1 \<union> set new"
    by blast
  show ?case
  proof (cases "c \<in> set path")
    case True
    then have "pa1 = paths" "vi1 = vis" using s(1) by (auto simp: visit_child_def Let_def)
    with new True show ?thesis by (intro exI [of _ new]) auto
  next
    case False
    then have "pa1 = (path @ [c]) # paths" "vi1 = insert c vis" using s(1) by (auto simp: visit_child_def)
    with new False show ?thesis by (intro exI [of _ "new @ [c]"]) auto
  qed
qed simp

lemma sum_list_le_mult: "(\<And>x. x \<in> set xs \<Longrightarrow> f x \<le> k) \<Longrightarrow> sum_list (map f xs) \<le> length xs * (k :: nat)"
  by (induction xs) (auto intro: add_mono)

lemma path_weight_decreases:
  assumes "map_of pc (last path) = Some cs" "set new = set cs - set path" "length new \<le> length cs"
  shows "(\<Sum>c\<leftarrow>new. path_weight pc (path @ [c])) < path_weight pc path"
proof -
  let ?U = "set (concat (map snd pc)) - set path" and ?n = "length (concat (map snd pc))"
  have mem: "(last path, cs) \<in> set pc" using assms(1) by (rule map_of_SomeD)
  then obtain us vs where "pc = us @ (last path, cs) # vs" by (meson split_list)
  then have B: "length new \<le> ?n" using assms(3) by simp
  have U: "c \<in> ?U" if "c \<in> set new" for c using that mem assms(2) by force
  have each: "path_weight pc (path @ [c]) \<le> Suc ?n ^ (card ?U - 1)" if "c \<in> set new" for c
  proof -
    have "set (concat (map snd pc)) - set (path @ [c]) = ?U - {c}" by auto
    then show ?thesis using U [OF that] by (simp add: path_weight_def card_Diff_singleton)
  qed
  show ?thesis
  proof (cases "new = []")
    case True
    then show ?thesis by (simp add: path_weight_def)
  next
    case False
    then obtain c where "c \<in> set new" by (cases new) auto
    then have "0 < card ?U" using U by (auto simp: card_gt_0_iff simp del: set_concat)
    then have "Suc ?n * Suc ?n ^ (card ?U - 1) = path_weight pc path"
      by (simp add: path_weight_def flip: power_Suc)
    moreover have "length new * Suc ?n ^ (card ?U - 1) < Suc ?n * Suc ?n ^ (card ?U - 1)"
      using B by (intro mult_strict_right_mono) simp_all
    moreover have "(\<Sum>c\<leftarrow>new. path_weight pc (path @ [c])) \<le> length new * Suc ?n ^ (card ?U - 1)"
      by (rule sum_list_le_mult) (rule each)
    ultimately show ?thesis by linarith
  qed
qed

function path_loop ::
  "('k, 'k list) dict \<Rightarrow> 'k list list \<times> 'k set \<times> 'k list list \<Rightarrow> ('k list list \<times> 'k set) result" where
  "path_loop pc (cycles, visited_nodes, []) = Inr (cycles, visited_nodes)"
| "path_loop pc (cycles, visited_nodes, path # paths) =
     (case map_of pc (last path) of
        None \<Rightarrow> path_loop pc (cycles, visited_nodes, paths)
      | Some cs \<Rightarrow> res_bind (for_each (visit_child path) cs (cycles, visited_nodes, paths)) (path_loop pc))"
  by pat_completeness auto
termination
proof (relation "measure (\<lambda>(pc, _, _, paths). sum_list (map (path_weight pc) paths))", goal_cases)
  case 1 then show ?case by simp
next
  case (2 pc cycles vis path paths)
  then show ?case by (simp add: path_weight_def)
next
  case (3 pc cycles vis path paths cs s)
  obtain cy vi pa where s: "s = (cy, vi, pa)" by (cases s)
  with visit_children_paths [of path cs cycles vis paths cy vi pa] 3(2)
  obtain new where "pa = map (\<lambda>c. path @ [c]) new @ paths" "length new \<le> length cs" "set new = set cs - set path"
    by auto
  with path_weight_decreases [OF 3(1)] s show ?case by (simp add: comp_def)
qed

definition find_cycles :: "('k list \<Rightarrow> 'k list) \<Rightarrow> ('k, 'k list) dict \<Rightarrow> 'k list list result" where
  "find_cycles ord parent_children =
     res_bind
       (for_each (\<lambda>parent (cycles, visited_nodes).
            if parent \<in> visited_nodes then Inr (cycles, visited_nodes)
            else path_loop parent_children (cycles, visited_nodes, [[parent]]))
          (ord (dict_keys parent_children)) ([], {}))
       (\<lambda>(cycles, visited_nodes). Inr cycles)"

section \<open>Topological orders\<close>

definition nodes :: "('k \<times> 'k) list \<Rightarrow> 'k set" where
  "nodes ps = fst ` set ps \<union> snd ` set ps"

definition pending :: "('k \<times> 'k) list \<Rightarrow> 'k set \<Rightarrow> 'k \<Rightarrow> nat" where
  "pending ps V x = length (filter (\<lambda>(p, c). c = x \<and> p \<notin> V) ps)"

definition children_of :: "('k \<times> 'k) list \<Rightarrow> 'k \<Rightarrow> 'k list" where
  "children_of ps p = map snd (filter (\<lambda>e. fst e = p) ps)"

definition parents_map :: "('k \<times> 'k) list \<Rightarrow> 'k set \<Rightarrow> 'k \<Rightarrow> int option" where
  "parents_map ps V x = (if x \<in> nodes ps - V then Some (int (pending ps V x)) else None)"

definition children_map :: "('k \<times> 'k) list \<Rightarrow> 'k \<Rightarrow> 'k list option" where
  "children_map ps p = (if p \<in> fst ` set ps then Some (children_of ps p) else None)"

lemma finite_nodes: "finite (nodes ps)"
  by (simp add: nodes_def)

lemma dict_keys_parents_map: "map_of d = parents_map ps V \<Longrightarrow> set (dict_keys d) = nodes ps - V"
  using dom_map_of_conv_image_fst [of d] by (auto simp: parents_map_def dom_def split: if_splits)

lemma pending_zero_iff: "pending ps V x = 0 \<longleftrightarrow> (\<forall>p. (p, x) \<in> set ps \<longrightarrow> p \<in> V)"
  by (auto simp: pending_def filter_empty_conv)

lemma pending_insert:
  "p \<notin> V \<Longrightarrow> pending ps V x = pending ps (insert p V) x + count_list (children_of ps p) x"
  by (induction ps) (auto simp: pending_def children_of_def)

lemma set_children_of: "set (children_of ps p) = {c. (p, c) \<in> set ps}"
  by (force simp: children_of_def)

lemma children_map_cases: "(case children_map ps p of None \<Rightarrow> [] | Some cs \<Rightarrow> cs) = children_of ps p"
  by (force simp: children_map_def children_of_def filter_empty_conv)

lemma count_pairs_snoc: "count_pairs (ps @ [e]) = count_pair e (count_pairs ps)"
  by (simp add: count_pairs_def)

lemma pending_snoc: "pending (ps @ [(p, c)]) V x = pending ps V x + (if c = x \<and> p \<notin> V then 1 else 0)"
  by (simp add: pending_def)

lemma pending_fresh: "x \<notin> snd ` set ps \<Longrightarrow> pending ps V x = 0"
  by (force simp: pending_def filter_empty_conv)

lemma count_pairs_correct:
  "dict_ok (num_parents (count_pairs ps)) \<and> map_of (num_parents (count_pairs ps)) = parents_map ps {} \<and>
   map_of (children (count_pairs ps)) = children_map ps"
proof (induction ps rule: rev_induct)
  case Nil
  show ?case by (simp add: count_pairs_def dict_simps parents_map_def children_map_def nodes_def fun_eq_iff)
next
  case (snoc e ps)
  obtain p c where e: "e = (p, c)" by (cases e)
  have "map_of (num_parents (count_pairs (ps @ [e]))) x = parents_map (ps @ [e]) {} x" for x
    using snoc unfolding count_pairs_snoc
    by (auto simp: e count_pair_def Let_def dict_simps dict_has_def parents_map_def nodes_def pending_snoc pending_fresh
        split: option.splits)
  moreover have "map_of (children (count_pairs (ps @ [e]))) x = children_map (ps @ [e]) x" for x
    using snoc children_map_cases [of ps p] unfolding count_pairs_snoc
    by (auto simp: e count_pair_def Let_def dict_simps children_map_def children_of_def)
  moreover have "dict_ok (num_parents (count_pairs (ps @ [e])))"
    using snoc unfolding count_pairs_snoc by (auto simp: e count_pair_def Let_def dict_simps split: option.splits)
  ultimately show ?case by blast
qed

definition dep_ordered :: "('k \<times> 'k) list \<Rightarrow> 'k list \<Rightarrow> bool" where
  "dep_ordered ps xs \<longleftrightarrow> (\<forall>us y vs. xs = us @ y # vs \<longrightarrow> (\<forall>p. (p, y) \<in> set ps \<longrightarrow> p \<in> set us))"

lemma dep_ordered_Nil [simp]: "dep_ordered ps []"
  by (simp add: dep_ordered_def)

lemma dep_ordered_snoc:
  "dep_ordered ps (xs @ [x]) \<longleftrightarrow> dep_ordered ps xs \<and> (\<forall>p. (p, x) \<in> set ps \<longrightarrow> p \<in> set xs)"
proof -
  have eq: "xs @ [x] = us @ y # vs \<longleftrightarrow> vs = [] \<and> us = xs \<and> y = x \<or> (\<exists>ws. vs = ws @ [x] \<and> xs = us @ y # ws)" for us y vs
    by (cases vs rule: rev_cases) auto
  show ?thesis unfolding dep_ordered_def eq by auto
qed

lemma dep_ordered_closed: "dep_ordered ps xs \<Longrightarrow> x \<in> set xs \<Longrightarrow> (p, x) \<in> set ps \<Longrightarrow> p \<in> set xs"
  unfolding dep_ordered_def by (metis UnI1 set_append split_list)

definition worklist_inv ::
  "('k \<times> 'k) list \<Rightarrow> 'k list \<Rightarrow> 'k list \<Rightarrow> ('k, int) dict \<Rightarrow> ('k, 'k list) dict \<Rightarrow> bool" where
  "worklist_inv ps visited todo np ch \<longleftrightarrow>
     distinct (visited @ todo) \<and> set visited \<subseteq> nodes ps \<and> dep_ordered ps visited \<and>
     map_of np = parents_map ps (set visited) \<and>
     (\<forall>q. q \<notin> set visited \<longrightarrow> map_of ch q = children_map ps q) \<and>
     set todo = {x \<in> nodes ps - set visited. pending ps (set visited) x = 0}"

lemma for_each_knock_down:
  assumes "\<And>x. x \<in> set cs \<Longrightarrow> \<exists>n. map_of np x = Some n \<and> int (count_list cs x) \<le> n"
  shows "\<exists>np' new. for_each knock_down cs (np, todo) = Inr (np', todo @ new) \<and>
    (\<forall>x. map_of np' x = map_option (\<lambda>n. n - int (count_list cs x)) (map_of np x)) \<and>
    set new = {x \<in> set cs. map_of np x = Some (int (count_list cs x))} \<and> distinct new"
  using assms
proof (induction cs arbitrary: np todo)
  case Nil
  then show ?case by (simp add: option.map_ident)
next
  case (Cons c cs)
  obtain n where n: "map_of np c = Some n" "int (count_list (c # cs) c) \<le> n"
    using Cons.prems [of c] by auto
  define np1 where "np1 = dict_set c (n - 1) np"
  define todo1 where "todo1 = (if n = 1 then todo @ [c] else todo)"
  have step: "knock_down c (np, todo) = Inr (np1, todo1)"
    using n by (simp add: knock_down_def np1_def todo1_def)
  have "\<exists>m. map_of np1 x = Some m \<and> int (count_list cs x) \<le> m" if "x \<in> set cs" for x
    using Cons.prems [of x] that n by (auto simp: np1_def dict_simps split: if_splits)
  from Cons.IH [OF this, of todo1] obtain np' new where new:
    "for_each knock_down cs (np1, todo1) = Inr (np', todo1 @ new)"
    "\<forall>x. map_of np' x = map_option (\<lambda>n. n - int (count_list cs x)) (map_of np1 x)"
    "set new = {x \<in> set cs. map_of np1 x = Some (int (count_list cs x))}" "distinct new"
    by blast
  have no_zero: "count_list cs c \<noteq> 0" if "c \<in> set cs"
    using that count_list_pos_iff [of cs c] by simp
  have c_new: "c \<notin> set new" if "n = 1"
    using that no_zero by (auto simp: new(3) np1_def dict_simps)
  define new' where "new' = (if n = 1 then c # new else new)"
  have "x \<in> set new' \<longleftrightarrow> x \<in> {x \<in> set (c # cs). map_of np x = Some (int (count_list (c # cs) x))}" for x
  proof (cases "x = c")
    case True
    then show ?thesis
      using n no_zero count_list_pos_iff [of cs c] by (auto simp: new'_def new(3) np1_def dict_simps)
  next
    case False
    then show ?thesis by (auto simp: new'_def new(3) np1_def dict_simps)
  qed
  then have "set new' = {x \<in> set (c # cs). map_of np x = Some (int (count_list (c # cs) x))}" by blast
  moreover have "distinct new'" using new(4) c_new by (simp add: new'_def)
  moreover have "for_each knock_down (c # cs) (np, todo) = Inr (np', todo @ new')"
    using step new(1) by (simp add: todo1_def new'_def split: if_splits)
  moreover have "map_of np' x = map_option (\<lambda>n. n - int (count_list (c # cs) x)) (map_of np x)" for x
    using new(2) n by (simp add: np1_def dict_simps)
  ultimately show ?case by blast
qed

lemma worklist_step:
  assumes "worklist_inv ps visited (p # todo) np ch"
  shows "\<exists>todo' np' ch'. topsort_loop visited (p # todo) np ch = topsort_loop (visited @ [p]) todo' np' ch' \<and>
    worklist_inv ps (visited @ [p]) todo' np' ch'"
proof -
  have p: "p \<in> nodes ps" "p \<notin> set visited" "pending ps (set visited) p = 0"
    and np: "map_of np = parents_map ps (set visited)"
    and ch: "\<And>q. q \<notin> set visited \<Longrightarrow> map_of ch q = children_map ps q"
    and todo: "insert p (set todo) = {x \<in> nodes ps - set visited. pending ps (set visited) x = 0}"
    and dist: "distinct (visited @ p # todo)" and ord: "dep_ordered ps visited" and sub: "set visited \<subseteq> nodes ps"
    using assms by (auto simp: worklist_inv_def)
  define np1 where "np1 = AList.delete p np"
  have pend: "pending ps (set visited) x = pending ps (insert p (set visited)) x + count_list (children_of ps p) x" for x
    using p by (intro pending_insert)
  have cs_pre: "\<exists>n. map_of np1 x = Some n \<and> int (count_list (children_of ps p) x) \<le> n"
    if "x \<in> set (children_of ps p)" for x
  proof -
    have e: "(p, x) \<in> set ps" using that by (simp add: set_children_of)
    have "x \<noteq> p" using e p by (auto simp: pending_zero_iff)
    moreover have "x \<notin> set visited" using e ord p dep_ordered_closed by fast
    moreover have "x \<in> nodes ps" using e by (force simp: nodes_def)
    ultimately show ?thesis using pend [of x] by (simp add: np1_def dict_simps np parents_map_def)
  qed
  obtain np2 new where np2_new: "for_each knock_down (children_of ps p) (np1, todo) = Inr (np2, todo @ new)"
    "\<And>x. map_of np2 x = map_option (\<lambda>n. n - int (count_list (children_of ps p) x)) (map_of np1 x)"
    "set new = {x \<in> set (children_of ps p). map_of np1 x = Some (int (count_list (children_of ps p) x))}"
    "distinct new"
    using for_each_knock_down [OF cs_pre, of todo] by blast
  have np2: "map_of np2 = parents_map ps (set (visited @ [p]))"
    by (rule ext) (simp add: np2_new(2) np1_def dict_simps np parents_map_def pend)
  have new: "set new = {x \<in> nodes ps - insert p (set visited).
      pending ps (insert p (set visited)) x = 0 \<and> pending ps (set visited) x \<noteq> 0}"
    using cs_pre count_list_pos_iff [of "children_of ps p"]
    by (fastforce simp: np2_new(3) np1_def dict_simps np parents_map_def pend split: if_splits)
  have todo': "set (todo @ new) = {x \<in> nodes ps - set (visited @ [p]). pending ps (set (visited @ [p])) x = 0}"
    using todo dist p by (auto simp: new pend)
  have dist': "distinct ((visited @ [p]) @ todo @ new)"
    using dist np2_new(4) todo by (auto simp: new)
  have ord': "dep_ordered ps (visited @ [p])"
    using ord p(3) by (simp add: dep_ordered_snoc pending_zero_iff)
  define ch' where "ch' = (if map_of ch p = None then ch else AList.delete p ch)"
  have ch': "map_of ch' q = children_map ps q" if "q \<notin> set (visited @ [p])" for q
    using that ch [of q] by (auto simp: ch'_def dict_simps)
  have has: "dict_has np p" using p by (simp add: dict_has_def np parents_map_def)
  have "topsort_loop visited (p # todo) np ch = topsort_loop (visited @ [p]) (todo @ new) np2 ch'"
  proof (cases "map_of ch p")
    case (Some cs)
    then have "cs = children_of ps p" using ch [OF p(2)] by (simp add: children_map_def split: if_splits)
    with Some has np2_new(1) show ?thesis by (simp add: ch'_def np1_def Let_def)
  next
    case None
    then have "children_of ps p = []" using ch [OF p(2)] children_map_cases [of ps p] by simp
    then have "np2 = np1" "new = []" using np2_new(1) by simp_all
    with None has show ?thesis by (simp add: ch'_def np1_def Let_def)
  qed
  moreover have "worklist_inv ps (visited @ [p]) (todo @ new) np2 ch'"
    using dist' ord' np2 ch' todo' p sub unfolding worklist_inv_def by simp
  ultimately show ?thesis by blast
qed

lemma topsort_loop_inv:
  "worklist_inv ps visited todo np ch \<Longrightarrow>
   \<exists>visited' np' ch'. topsort_loop visited todo np ch = Inr (visited', np', ch') \<and> worklist_inv ps visited' [] np' ch'"
proof (induction "card (nodes ps - set visited)" arbitrary: visited todo np ch rule: less_induct)
  case less
  show ?case
  proof (cases todo)
    case Nil
    with less.prems show ?thesis by simp
  next
    case (Cons p rest)
    with worklist_step [of ps visited p rest np ch] less.prems obtain todo' np' ch' where
      s: "topsort_loop visited todo np ch = topsort_loop (visited @ [p]) todo' np' ch'"
      "worklist_inv ps (visited @ [p]) todo' np' ch'" by blast
    have "p \<in> nodes ps - set visited" using less.prems Cons by (auto simp: worklist_inv_def)
    then have "card (nodes ps - set (visited @ [p])) < card (nodes ps - set visited)"
      by (intro psubset_card_mono) (auto simp: finite_nodes)
    from less.hyps [OF this s(2)] s(1) show ?thesis by simp
  qed
qed

lemma dep_ordered_acyclic:
  assumes "dep_ordered ps xs" "distinct xs" "set xs = nodes ps"
  shows "acyclic (set ps)"
proof -
  let ?f = "\<lambda>x. length (takeWhile (\<lambda>y. y \<noteq> x) xs)"
  have "?f p < ?f c" if e: "(p, c) \<in> set ps" for p c
  proof -
    have "c \<in> set xs" using e assms(3) by (force simp: nodes_def)
    then obtain us vs where c: "xs = us @ c # vs" "c \<notin> set us" by (meson split_list_first)
    have "p \<in> set us" using assms(1) c(1) e by (auto simp: dep_ordered_def)
    then obtain us1 us2 where p: "us = us1 @ p # us2" "p \<notin> set us1" by (meson split_list_first)
    have "takeWhile (\<lambda>y. y \<noteq> c) xs = us" using c by (auto simp: takeWhile_tail takeWhile_append2)
    moreover have "takeWhile (\<lambda>y. y \<noteq> p) xs = us1" using c p by (auto simp: takeWhile_tail takeWhile_append2)
    ultimately show ?thesis using p by simp
  qed
  then have "set ps \<subseteq> measure ?f" by auto
  then show ?thesis using wf_acyclic wf_subset [OF wf_measure] by blast
qed

lemma acyclic_has_source:
  assumes "acyclic (set ps)" "R \<subseteq> nodes ps" "R \<noteq> {}"
  shows "\<exists>x \<in> R. \<forall>p. (p, x) \<in> set ps \<longrightarrow> p \<notin> R"
proof -
  have "wf (set ps)" using assms(1) by (simp add: finite_acyclic_wf)
  then show ?thesis using assms(3) by (metis all_not_in_conv wfE_min)
qed

definition topological_order :: "('k \<times> 'k) list \<Rightarrow> 'k list \<Rightarrow> bool" where
  "topological_order ps xs \<longleftrightarrow> distinct xs \<and> set xs = nodes ps \<and> dep_ordered ps xs"

context key_order
begin

lemma topsort_start:
  "worklist_inv ps [] (filter (\<lambda>x. map_of (num_parents (count_pairs ps)) x = Some 0)
     (ord (dict_keys (num_parents (count_pairs ps))))) (num_parents (count_pairs ps)) (children (count_pairs ps))"
proof -
  have "set (dict_keys (num_parents (count_pairs ps))) = nodes ps"
    using dict_keys_parents_map [of "num_parents (count_pairs ps)" ps "{}"] count_pairs_correct [of ps] by simp
  then show ?thesis
    using count_pairs_correct [of ps]
    by (auto simp: worklist_inv_def ord_simps dict_ok_def parents_map_def split: if_splits)
qed

lemma topsort_cases:
  obtains (order) xs where "topsort ord ps = Inr xs" "topological_order ps xs"
  | (cycle) xs np ch where "topsort ord ps = Inl (CycleError (Some xs) np ch)" "distinct xs" "dep_ordered ps xs"
      "np \<noteq> []" "set (dict_keys np) = nodes ps - set xs"
      "\<And>x. x \<in> nodes ps - set xs \<Longrightarrow> \<exists>p \<in> nodes ps - set xs. (p, x) \<in> set ps"
proof -
  obtain xs np ch where loop: "topsort_loop [] (filter (\<lambda>x. map_of (num_parents (count_pairs ps)) x = Some 0)
     (ord (dict_keys (num_parents (count_pairs ps))))) (num_parents (count_pairs ps)) (children (count_pairs ps)) =
      Inr (xs, np, ch)" "worklist_inv ps xs [] np ch"
    using topsort_loop_inv [OF topsort_start] by blast
  have xs: "distinct xs" "set xs \<subseteq> nodes ps" "dep_ordered ps xs" "map_of np = parents_map ps (set xs)"
    "{x \<in> nodes ps - set xs. pending ps (set xs) x = 0} = {}"
    using loop(2) by (auto simp: worklist_inv_def)
  have keys: "set (dict_keys np) = nodes ps - set xs" using xs(4) by (rule dict_keys_parents_map)
  have eq: "topsort ord ps = (if np \<noteq> [] then Inl (CycleError (Some xs) np ch) else Inr xs)"
    using loop(1) by (simp add: topsort_def Let_def)
  show thesis
  proof (cases "np = []")
    case True
    then have "set xs = nodes ps" using keys xs(2) by auto
    with True eq xs show thesis by (intro order) (auto simp: topological_order_def)
  next
    case False
    have "\<exists>p \<in> nodes ps - set xs. (p, x) \<in> set ps" if "x \<in> nodes ps - set xs" for x
      using xs(5) that by (force simp: pending_zero_iff nodes_def)
    with False eq xs keys show thesis by (intro cycle) auto
  qed
qed

lemma topsort_acyclic_iff: "(\<exists>xs. topsort ord ps = Inr xs) \<longleftrightarrow> acyclic (set ps)"
proof (cases rule: topsort_cases [of ps])
  case (order xs)
  then show ?thesis using dep_ordered_acyclic [of ps xs] by (simp add: topological_order_def)
next
  case (cycle xs np ch)
  then have "nodes ps - set xs \<noteq> {}" by (metis list.map_disc_iff set_empty2)
  then have "\<not> acyclic (set ps)" using cycle(6) acyclic_has_source [of ps "nodes ps - set xs"] by blast
  with cycle(1) show ?thesis by simp
qed

end

section \<open>Cycles of a graph\<close>

definition edge :: "('k, 'k list) dict \<Rightarrow> 'k \<Rightarrow> 'k \<Rightarrow> bool" where
  "edge pc p c \<longleftrightarrow> (case map_of pc p of None \<Rightarrow> False | Some cs \<Rightarrow> c \<in> set cs)"

definition simple_path :: "('k, 'k list) dict \<Rightarrow> 'k list \<Rightarrow> bool" where
  "simple_path pc xs \<longleftrightarrow> xs \<noteq> [] \<and> distinct xs \<and> successively (edge pc) xs"

definition simple_cycle :: "('k, 'k list) dict \<Rightarrow> 'k list \<Rightarrow> bool" where
  "simple_cycle pc xs \<longleftrightarrow> simple_path pc xs \<and> edge pc (last xs) (hd xs)"

definition rotation :: "'k list \<Rightarrow> 'k list \<Rightarrow> bool" where
  "rotation xs ys \<longleftrightarrow> list_ex (\<lambda>k. xs = rotate k ys) [0..<Suc (length ys)]"

lemma rotation_iff: "rotation xs ys \<longleftrightarrow> (\<exists>k. xs = rotate k ys)"
proof
  assume "\<exists>k. xs = rotate k ys"
  then obtain k where k: "xs = rotate (k mod length ys) ys" by (metis rotate_conv_mod)
  have "k mod length ys \<le> length ys \<or> ys = []"
    by (cases "ys = []") (simp_all add: less_imp_le)
  then show "rotation xs ys"
    using k unfolding rotation_def list_ex_iff
    by (cases "ys = []") (auto intro!: bexI [of _ "k mod length ys"])
qed (unfold rotation_def list_ex_iff, blast)

lemma rotation_refl: "rotation xs xs"
  unfolding rotation_iff by (rule exI [of _ 0]) simp

lemma rotation_trans: "rotation xs ys \<Longrightarrow> rotation ys zs \<Longrightarrow> rotation xs zs"
  unfolding rotation_iff by (metis rotate_rotate)

lemma rotation_symI: "rotation xs ys \<Longrightarrow> rotation ys xs"
  unfolding rotation_iff using rotation_sym by blast

lemma simple_path_snoc:
  "xs \<noteq> [] \<Longrightarrow> simple_path pc (xs @ [c]) \<longleftrightarrow> simple_path pc xs \<and> c \<notin> set xs \<and> edge pc (last xs) c"
  by (auto simp: simple_path_def successively_append_iff)

lemma simple_path_suffix: "simple_path pc (us @ xs) \<Longrightarrow> xs \<noteq> [] \<Longrightarrow> simple_path pc xs"
  by (auto simp: simple_path_def successively_append_iff)

lemma dropWhile_index:
  assumes "c \<in> set xs"
  obtains us vs where "xs = us @ c # vs" "c \<notin> set us" "dropWhile (\<lambda>y. y \<noteq> c) xs = c # vs"
proof -
  obtain us vs where s: "xs = us @ c # vs" "c \<notin> set us" using assms by (meson split_list_first)
  then have "dropWhile (\<lambda>y. y \<noteq> c) xs = c # vs" by (subst s(1), subst dropWhile_append2) auto
  with s show thesis by (rule that)
qed

lemma closing_cycle:
  assumes "simple_path pc path" "c \<in> set path" "edge pc (last path) c"
  shows "simple_cycle pc (dropWhile (\<lambda>y. y \<noteq> c) path)"
proof -
  obtain us vs where "path = us @ c # vs" "dropWhile (\<lambda>y. y \<noteq> c) path = c # vs"
    using dropWhile_index [OF assms(2)] by metis
  with assms show ?thesis using simple_path_suffix [of pc us "c # vs"] by (simp add: simple_cycle_def)
qed

lemma is_dup_cycle:
  "cycle \<noteq> [] \<Longrightarrow> is_dup_cycle cycle cycles = Inr (\<exists>o' \<in> set cycles. rotation o' cycle)"
proof (induction cycles)
  case (Cons c cs)
  have "is_rotated c cycle = Inr (rotation c cycle)"
    unfolding is_rotated_nonempty [OF Cons.prems] rotation_iff using rotation_sym by blast
  with Cons show ?case by auto
qed simp

definition cycles_ok :: "('k, 'k list) dict \<Rightarrow> 'k list list \<Rightarrow> bool" where
  "cycles_ok pc cycles \<longleftrightarrow> (\<forall>c \<in> set cycles. simple_cycle pc c) \<and>
     sorted_wrt (\<lambda>xs ys. \<not> rotation xs ys) cycles"

text \<open>What the search owes to a path once it has taken it from the stack.\<close>

definition expanded :: "('k, 'k list) dict \<Rightarrow> 'k list list \<Rightarrow> 'k set \<Rightarrow> 'k list \<Rightarrow> bool" where
  "expanded pc cycles vis path \<longleftrightarrow>
     (\<forall>c. edge pc (last path) c \<longrightarrow>
        (if c \<in> set path then \<exists>o' \<in> set cycles. rotation o' (dropWhile (\<lambda>y. y \<noteq> c) path) else c \<in> vis))"

lemma expanded_mono:
  "expanded pc cycles vis path \<Longrightarrow> set cycles \<subseteq> set cycles' \<Longrightarrow> vis \<subseteq> vis' \<Longrightarrow> expanded pc cycles' vis' path"
  unfolding expanded_def by (smt (verit) subset_iff)

lemma visit_children:
  assumes "simple_path pc path" "cycles_ok pc cycles" "\<And>c. c \<in> set cs \<Longrightarrow> edge pc (last path) c"
  shows "\<exists>cycles' new. for_each (visit_child path) cs (cycles, vis, paths) =
      Inr (cycles', vis \<union> set new, map (\<lambda>c. path @ [c]) new @ paths) \<and>
    cycles_ok pc cycles' \<and> set cycles \<subseteq> set cycles' \<and> set new = set cs - set path \<and>
    (\<forall>c \<in> set cs \<inter> set path. \<exists>o' \<in> set cycles'. rotation o' (dropWhile (\<lambda>y. y \<noteq> c) path))"
  using assms(2,3)
proof (induction cs arbitrary: cycles vis paths)
  case Nil
  then show ?case by (intro exI [of _ cycles] exI [of _ "[]"]) simp
next
  case (Cons c cs)
  let ?cyc = "dropWhile (\<lambda>y. y \<noteq> c) path"
  have rest: "edge pc (last path) d" if "d \<in> set cs" for d using Cons.prems(2) that by simp
  show ?case
  proof (cases "c \<in> set path")
    case True
    have cyc: "simple_cycle pc ?cyc" using assms(1) True Cons.prems(2) by (intro closing_cycle) simp_all
    then have ne: "?cyc \<noteq> []" by (auto simp: simple_cycle_def simple_path_def)
    define cycles1 where "cycles1 = (if \<exists>o' \<in> set cycles. rotation o' ?cyc then cycles else cycles @ [?cyc])"
    have step: "visit_child path c (cycles, vis, paths) = Inr (cycles1, vis, paths)"
      using True ne by (simp add: visit_child_def is_dup_cycle cycles1_def)
    have ok1: "cycles_ok pc cycles1" "set cycles \<subseteq> set cycles1" "\<exists>o' \<in> set cycles1. rotation o' ?cyc"
      using Cons.prems(1) cyc rotation_refl by (auto simp: cycles1_def cycles_ok_def sorted_wrt_append)
    obtain cycles' new where new:
      "for_each (visit_child path) cs (cycles1, vis, paths) =
        Inr (cycles', vis \<union> set new, map (\<lambda>c. path @ [c]) new @ paths)"
      "cycles_ok pc cycles'" "set cycles1 \<subseteq> set cycles'" "set new = set cs - set path"
      "\<forall>c \<in> set cs \<inter> set path. \<exists>o' \<in> set cycles'. rotation o' (dropWhile (\<lambda>y. y \<noteq> c) path)"
      using Cons.IH [OF ok1(1) rest, of vis paths] by blast
    have "\<exists>o' \<in> set cycles'. rotation o' ?cyc" using ok1(3) new(3) by blast
    with step new ok1(2) True show ?thesis
      by (intro exI [of _ cycles'] exI [of _ new]) auto
  next
    case False
    then have step: "visit_child path c (cycles, vis, paths) = Inr (cycles, insert c vis, (path @ [c]) # paths)"
      by (simp add: visit_child_def)
    obtain cycles' new where new:
      "for_each (visit_child path) cs (cycles, insert c vis, (path @ [c]) # paths) =
        Inr (cycles', insert c vis \<union> set new, map (\<lambda>c. path @ [c]) new @ (path @ [c]) # paths)"
      "cycles_ok pc cycles'" "set cycles \<subseteq> set cycles'" "set new = set cs - set path"
      "\<forall>c \<in> set cs \<inter> set path. \<exists>o' \<in> set cycles'. rotation o' (dropWhile (\<lambda>y. y \<noteq> c) path)"
      using Cons.IH [OF Cons.prems(1) rest, of "insert c vis" "(path @ [c]) # paths"] by blast
    with step False show ?thesis
      by (intro exI [of _ cycles'] exI [of _ "new @ [c]"]) auto
  qed
qed

lemma edge_map_of: "map_of pc p = Some cs \<Longrightarrow> edge pc p c \<longleftrightarrow> c \<in> set cs"
  "map_of pc p = None \<Longrightarrow> \<not> edge pc p c"
  by (simp_all add: edge_def)

lemma simple_path_prefix: "simple_path pc (xs @ ys) \<Longrightarrow> xs \<noteq> [] \<Longrightarrow> simple_path pc xs"
  by (auto simp: simple_path_def successively_append_iff)

lemma path_loop_correct:
  assumes "\<forall>path \<in> set paths. simple_path pc path" "cycles_ok pc cycles"
  shows "\<exists>cycles' vis'. path_loop pc (cycles, vis, paths) = Inr (cycles', vis') \<and> cycles_ok pc cycles' \<and>
    set cycles \<subseteq> set cycles' \<and> vis \<subseteq> vis' \<and>
    (\<forall>path \<in> set paths. \<forall>r. simple_path pc (path @ r) \<longrightarrow> expanded pc cycles' vis' (path @ r)) \<and>
    (\<forall>v \<in> vis' - vis. \<exists>path \<in> set paths. \<exists>r. simple_path pc (path @ r) \<and> r \<noteq> [] \<and> last r = v)"
  using assms
proof (induction pc "(cycles, vis, paths)" arbitrary: cycles vis paths rule: path_loop.induct)
  case (1 pc cycles vis)
  then show ?case by simp
next
  case (2 pc cycles vis path paths)
  have sp: "simple_path pc path" "path \<noteq> []" using 2(3) by (auto simp: simple_path_def)
  show ?case
  proof (cases "map_of pc (last path)")
    case None
    have stuck: "simple_path pc (path @ r) \<longleftrightarrow> r = []" for r
      using sp None by (cases r) (auto simp: simple_path_def successively_append_iff edge_map_of)
    have "\<forall>p \<in> set paths. simple_path pc p" using 2(3) by simp
    from 2(1) [OF None this 2(4)] obtain cycles' vis' where loop:
      "path_loop pc (cycles, vis, paths) = Inr (cycles', vis')" "cycles_ok pc cycles'"
      "set cycles \<subseteq> set cycles'" "vis \<subseteq> vis'"
      "\<forall>path \<in> set paths. \<forall>r. simple_path pc (path @ r) \<longrightarrow> expanded pc cycles' vis' (path @ r)"
      "\<forall>v \<in> vis' - vis. \<exists>path \<in> set paths. \<exists>r. simple_path pc (path @ r) \<and> r \<noteq> [] \<and> last r = v" by blast
    moreover have "expanded pc cycles' vis' path" using None by (simp add: expanded_def edge_map_of)
    ultimately show ?thesis using None by (auto simp: stuck)
  next
    case (Some cs)
    have e: "edge pc (last path) c \<longleftrightarrow> c \<in> set cs" for c using Some by (rule edge_map_of)
    obtain cycles1 new where vc:
      "for_each (visit_child path) cs (cycles, vis, paths) =
        Inr (cycles1, vis \<union> set new, map (\<lambda>c. path @ [c]) new @ paths)"
      "cycles_ok pc cycles1" "set cycles \<subseteq> set cycles1" "set new = set cs - set path"
      "\<forall>c \<in> set cs \<inter> set path. \<exists>o' \<in> set cycles1. rotation o' (dropWhile (\<lambda>y. y \<noteq> c) path)"
      using visit_children [OF sp(1) 2(4), of cs vis paths] e by blast
    have "\<forall>p \<in> set (map (\<lambda>c. path @ [c]) new @ paths). simple_path pc p"
      using 2(3) sp e vc(4) by (auto simp: simple_path_snoc)
    from 2(2) [OF Some vc(1) this vc(2)] obtain cycles' vis' where loop:
      "path_loop pc (cycles1, vis \<union> set new, map (\<lambda>c. path @ [c]) new @ paths) = Inr (cycles', vis')"
      "cycles_ok pc cycles'" "set cycles1 \<subseteq> set cycles'" "vis \<union> set new \<subseteq> vis'"
      "\<forall>p \<in> set (map (\<lambda>c. path @ [c]) new @ paths). \<forall>r. simple_path pc (p @ r) \<longrightarrow> expanded pc cycles' vis' (p @ r)"
      "\<forall>v \<in> vis' - (vis \<union> set new). \<exists>p \<in> set (map (\<lambda>c. path @ [c]) new @ paths).
         \<exists>r. simple_path pc (p @ r) \<and> r \<noteq> [] \<and> last r = v" by blast
    have here: "expanded pc cycles' vis' path"
      using vc(4,5) loop(3,4) e by (auto simp: expanded_def) blast
    have exp: "expanded pc cycles' vis' (path @ r)" if "simple_path pc (path @ r)" for r
    proof (cases r)
      case Nil
      then show ?thesis using here by simp
    next
      case (Cons c r')
      then have "simple_path pc (path @ [c])" using that simple_path_prefix [of pc "path @ [c]" r'] by simp
      then have "path @ [c] \<in> set (map (\<lambda>c. path @ [c]) new @ paths)"
        using sp e vc(4) by (auto simp: simple_path_snoc)
      with loop(5) that Cons show ?thesis by (metis append.assoc append_Cons append_Nil)
    qed
    have reach: "\<exists>p \<in> set (path # paths). \<exists>r. simple_path pc (p @ r) \<and> r \<noteq> [] \<and> last r = v" if "v \<in> vis' - vis" for v
    proof (cases "v \<in> set new")
      case True
      then have "simple_path pc (path @ [v])" using sp e vc(4) by (simp add: simple_path_snoc)
      then show ?thesis by (intro bexI [of _ path] exI [of _ "[v]"]) simp_all
    next
      case False
      then have "v \<in> vis' - (vis \<union> set new)" using that by blast
      from bspec [OF loop(6) this] obtain p r where pr: "p \<in> set (map (\<lambda>c. path @ [c]) new @ paths)" "simple_path pc (p @ r)" "r \<noteq> []" "last r = v"
        by (elim bexE exE) auto
      then consider "p \<in> set paths" | c where "p = path @ [c]" by auto
      then show ?thesis
      proof cases
        case 2
        then show ?thesis using pr by (intro bexI [of _ path] exI [of _ "c # r"]) simp_all
      qed (use pr in auto)
    qed
    have "path_loop pc (cycles, vis, path # paths) = Inr (cycles', vis')"
      unfolding path_loop.simps Some option.case vc(1) res_bind.simps by (rule loop(1))
    moreover have "\<forall>p \<in> set (path # paths). \<forall>r. simple_path pc (p @ r) \<longrightarrow> expanded pc cycles' vis' (p @ r)"
      using exp loop(5) by (simp add: ball_Un)
    moreover have "set cycles \<subseteq> set cycles'" "vis \<subseteq> vis'" using loop(3,4) vc(3) by auto
    ultimately show ?thesis using loop(2) reach by blast
  qed
qed

lemma simple_cycle_rotate1: "simple_cycle pc c \<Longrightarrow> simple_cycle pc (rotate1 c)"
  by (cases c) (auto simp: simple_cycle_def simple_path_def successively_append_iff successively_Cons
      hd_append split: if_splits)

lemma simple_cycle_rotate: "simple_cycle pc c \<Longrightarrow> simple_cycle pc (rotate k c)"
  by (induction k) (simp_all add: simple_cycle_rotate1)

lemma simple_path_exists:
  "(edge pc)\<^sup>*\<^sup>* s x \<Longrightarrow> \<exists>r. simple_path pc (s # r) \<and> last (s # r) = x"
proof (induction rule: rtranclp_induct)
  case base
  show ?case by (rule exI [of _ "[]"]) (simp add: simple_path_def)
next
  case (step y z)
  then obtain r where r: "simple_path pc (s # r)" "last (s # r) = y" by blast
  show ?case
  proof (cases "z \<in> set (s # r)")
    case True
    then obtain us vs where s: "s # r = us @ z # vs" by (meson split_list)
    then have "simple_path pc (us @ [z])" using r(1) simple_path_prefix [of pc "us @ [z]" vs] by simp
    moreover have "us @ [z] = s # (if us = [] then [] else tl us @ [z])" using s by (cases us) auto
    ultimately show ?thesis by (metis last_snoc)
  next
    case False
    then have "simple_path pc ((s # r) @ [z])"
      using r step.hyps(2) simple_path_snoc [of "s # r" pc z] by simp
    then show ?thesis by (intro exI [of _ "r @ [z]"]) simp
  qed
qed

lemma expanded_closing:
  "expanded pc cycles vis path \<Longrightarrow> edge pc (last path) c \<Longrightarrow> c \<in> set path \<Longrightarrow>
   \<exists>o' \<in> set cycles. rotation o' (dropWhile (\<lambda>y. y \<noteq> c) path)"
  by (auto simp: expanded_def)

lemma covered_cycle:
  assumes exp: "\<And>r. simple_path pc (s # r) \<Longrightarrow> expanded pc cycles vis (s # r)"
    and C: "simple_cycle pc C" and x: "x \<in> set C" "(edge pc)\<^sup>*\<^sup>* s x"
  shows "\<exists>o' \<in> set cycles. rotation o' C"
proof -
  obtain r where r: "simple_path pc (s # r)" "last (s # r) = x" using simple_path_exists [OF x(2)] by blast
  have "last (s # r) \<in> set (s # r)" by (rule last_in_set) simp
  then have "\<exists>y \<in> set (s # r). y \<in> set C" using r(2) x(1) by auto
  then obtain us v vs where s: "s # r = us @ v # vs" "v \<in> set C" "\<forall>u \<in> set us. u \<notin> set C"
    using split_list_first_prop [of "s # r" "\<lambda>y. y \<in> set C"] by metis
  obtain cs ds where cd: "C = cs @ v # ds" using s(2) by (meson split_list)
  define C' where "C' = v # ds @ cs"
  have rot: "C' = rotate (length cs) C" by (simp add: C'_def cd rotate_append)
  have C': "simple_cycle pc C'" unfolding rot using C by (rule simple_cycle_rotate)
  have pre: "simple_path pc (us @ [v])" using r(1) s(1) simple_path_prefix [of pc "us @ [v]" vs] by simp
  have sets: "set C' = set C" by (simp add: rot)
  have path: "simple_path pc (us @ C')"
    using pre C' s(3) sets by (auto simp: simple_path_def simple_cycle_def successively_append_iff C'_def)
  have start: "us @ C' = s # tl (us @ C')" using s(1) by (cases us) (auto simp: C'_def)
  have "edge pc (last (us @ C')) v" using C' by (simp add: simple_cycle_def C'_def)
  moreover have "dropWhile (\<lambda>y. y \<noteq> v) (us @ C') = C'"
    using s by (subst dropWhile_append2) (auto simp: C'_def)
  moreover have "v \<in> set (us @ C')" by (simp add: C'_def)
  moreover have "expanded pc cycles vis (us @ C')" using exp [of "tl (us @ C')"] path start by simp
  ultimately obtain o' where "o' \<in> set cycles" "rotation o' C'" using expanded_closing by metis
  moreover have "rotation C' C" unfolding rotation_iff rot by blast
  ultimately show ?thesis using rotation_trans by blast
qed

definition covered :: "('k, 'k list) dict \<Rightarrow> 'k list list \<Rightarrow> 'k \<Rightarrow> bool" where
  "covered pc cycles s \<longleftrightarrow>
     (\<forall>C x. simple_cycle pc C \<longrightarrow> x \<in> set C \<longrightarrow> (edge pc)\<^sup>*\<^sup>* s x \<longrightarrow> (\<exists>o' \<in> set cycles. rotation o' C))"

lemma covered_mono: "covered pc cycles s \<Longrightarrow> set cycles \<subseteq> set cycles' \<Longrightarrow> covered pc cycles' s"
  unfolding covered_def by blast

lemma simple_path_reaches: "successively (edge pc) (s # r) \<Longrightarrow> (edge pc)\<^sup>*\<^sup>* s (last (s # r))"
proof (induction r arbitrary: s)
  case (Cons a r)
  then have "edge pc s a" "(edge pc)\<^sup>*\<^sup>* a (last (a # r))" by simp_all
  then show ?case by (simp add: converse_rtranclp_into_rtranclp)
qed simp

lemma path_loop_covers:
  assumes "cycles_ok pc cycles"
  shows "\<exists>cycles' vis'. path_loop pc (cycles, vis, [[s]]) = Inr (cycles', vis') \<and> cycles_ok pc cycles' \<and>
    set cycles \<subseteq> set cycles' \<and> vis \<subseteq> vis' \<and> (\<forall>v \<in> insert s (vis' - vis). covered pc cycles' v)"
proof -
  have "\<forall>path \<in> set [[s]]. simple_path pc path" by (simp add: simple_path_def)
  from path_loop_correct [OF this assms, of vis] obtain cycles' vis' where loop:
    "path_loop pc (cycles, vis, [[s]]) = Inr (cycles', vis')" "cycles_ok pc cycles'"
    "set cycles \<subseteq> set cycles'" "vis \<subseteq> vis'"
    "\<forall>path \<in> set [[s]]. \<forall>r. simple_path pc (path @ r) \<longrightarrow> expanded pc cycles' vis' (path @ r)"
    "\<forall>v \<in> vis' - vis. \<exists>path \<in> set [[s]]. \<exists>r. simple_path pc (path @ r) \<and> r \<noteq> [] \<and> last r = v"
    by blast
  have exp: "expanded pc cycles' vis' (s # r)" if "simple_path pc (s # r)" for r
    using loop(5) that by simp
  have s: "covered pc cycles' s" unfolding covered_def using covered_cycle [OF exp] by blast
  have "covered pc cycles' v" if v: "v \<in> vis' - vis" for v
  proof -
    obtain r where "simple_path pc (s # r)" "last (s # r) = v"
      using bspec [OF loop(6) v] by (auto split: if_splits)
    then have "(edge pc)\<^sup>*\<^sup>* s v" using simple_path_reaches [of pc s r] by (simp add: simple_path_def)
    with s show ?thesis unfolding covered_def by (meson rtranclp_trans)
  qed
  with loop(1-4) s show ?thesis by blast
qed

abbreviation search_from :: "('k, 'k list) dict \<Rightarrow> 'k \<Rightarrow> 'k list list \<times> 'k set \<Rightarrow> ('k list list \<times> 'k set) result" where
  "search_from pc \<equiv> \<lambda>parent (cycles, visited_nodes).
     if parent \<in> visited_nodes then Inr (cycles, visited_nodes)
     else path_loop pc (cycles, visited_nodes, [[parent]])"

lemma for_each_parent:
  assumes "cycles_ok pc cycles" "\<forall>v \<in> vis. covered pc cycles v"
  shows "\<exists>cycles' vis'. for_each (search_from pc) ks (cycles, vis) = Inr (cycles', vis') \<and>
    cycles_ok pc cycles' \<and> set cycles \<subseteq> set cycles' \<and> (\<forall>v \<in> vis' \<union> set ks. covered pc cycles' v)"
  using assms
proof (induction ks arbitrary: cycles vis)
  case (Cons k ks)
  have step: "\<exists>cycles1 vis1. search_from pc k (cycles, vis) = Inr (cycles1, vis1) \<and> cycles_ok pc cycles1 \<and>
      set cycles \<subseteq> set cycles1 \<and> (\<forall>v \<in> insert k vis1. covered pc cycles1 v)"
  proof (cases "k \<in> vis")
    case True
    then show ?thesis using Cons.prems by auto
  next
    case False
    obtain cycles1 vis1 where l: "path_loop pc (cycles, vis, [[k]]) = Inr (cycles1, vis1)" "cycles_ok pc cycles1"
      "set cycles \<subseteq> set cycles1" "vis \<subseteq> vis1" "\<forall>v \<in> insert k (vis1 - vis). covered pc cycles1 v"
      using path_loop_covers [OF Cons.prems(1), of vis k] by blast
    have "covered pc cycles1 v" if v: "v \<in> insert k vis1" for v
    proof (cases "v \<in> insert k (vis1 - vis)")
      case False
      with v have "v \<in> vis" by blast
      with Cons.prems(2) l(3) show ?thesis by (metis covered_mono)
    qed (use l(5) in blast)
    with l False show ?thesis by simp
  qed
  obtain cycles1 vis1 where s: "search_from pc k (cycles, vis) = Inr (cycles1, vis1)" "cycles_ok pc cycles1"
      "set cycles \<subseteq> set cycles1" "\<forall>v \<in> insert k vis1. covered pc cycles1 v"
    using step by (elim exE conjE) (rule that)
  have "\<forall>v \<in> vis1. covered pc cycles1 v" using s(4) by blast
  from Cons.IH [OF s(2) this] obtain cycles' vis' where
    r: "for_each (search_from pc) ks (cycles1, vis1) = Inr (cycles', vis')"
      "cycles_ok pc cycles'" "set cycles1 \<subseteq> set cycles'" "\<forall>v \<in> vis' \<union> set ks. covered pc cycles' v"
    by (elim exE conjE) (rule that)
  have "covered pc cycles' k" by (rule covered_mono [OF bspec [OF s(4) insertI1] r(3)])
  moreover have "set cycles \<subseteq> set cycles'" using s(3) r(3) by blast
  moreover have "for_each (search_from pc) (k # ks) (cycles, vis) = Inr (cycles', vis')"
    unfolding for_each.simps s(1) res_bind.simps by (rule r(1))
  ultimately show ?case using r(2,4) by (intro exI [of _ cycles'] exI [of _ vis']) simp
qed simp

context key_order
begin

lemma find_cycles_correct:
  "\<exists>cycles. find_cycles ord pc = Inr cycles \<and> cycles_ok pc cycles \<and>
    (\<forall>C. simple_cycle pc C \<longrightarrow> (\<exists>o' \<in> set cycles. rotation o' C))"
proof -
  have "cycles_ok pc []" by (simp add: cycles_ok_def)
  then obtain cycles vis where f: "for_each (search_from pc) (ord (dict_keys pc)) ([], {}) = Inr (cycles, vis)"
      "cycles_ok pc cycles" "\<forall>v \<in> vis \<union> set (ord (dict_keys pc)). covered pc cycles v"
    using for_each_parent [of pc "[]" "{}" "ord (dict_keys pc)"] by auto
  have "\<exists>o' \<in> set cycles. rotation o' C" if C: "simple_cycle pc C" for C
  proof -
    have l: "last C \<in> set C" "edge pc (last C) (hd C)"
      using C by (auto simp: simple_cycle_def simple_path_def)
    then have "last C \<in> set (dict_keys pc)"
      by (auto simp: edge_def split: option.splits dest!: map_of_SomeD) force
    then have "covered pc cycles (last C)" using f(3) by (simp add: ord_simps)
    with C l(1) show ?thesis unfolding covered_def by blast
  qed
  with f show ?thesis by (simp add: find_cycles_def)
qed

end

section \<open>Levels\<close>

definition ready :: "('k \<times> 'k) list \<Rightarrow> 'k set \<Rightarrow> 'k set" where
  "ready ps V = {x \<in> nodes ps - V. \<forall>p. (p, x) \<in> set ps \<longrightarrow> p \<in> V}"

definition level_inv :: "('k \<times> 'k) list \<Rightarrow> 'k set \<Rightarrow> ('k, int) dict \<Rightarrow> ('k, 'k list) dict \<Rightarrow> bool" where
  "level_inv ps V np ch \<longleftrightarrow> V \<subseteq> nodes ps \<and> dict_ok np \<and> map_of np = parents_map ps V \<and>
     (\<forall>q. q \<notin> V \<longrightarrow> map_of ch q = children_map ps q) \<and> (\<forall>x q. x \<in> V \<longrightarrow> (q, x) \<in> set ps \<longrightarrow> q \<in> V)"

lemma for_each_release_child:
  assumes "\<And>x. x \<in> set cs \<Longrightarrow> dict_has np x"
  shows "\<exists>np'. for_each release_child cs np = Inr np' \<and> dict_keys np' = dict_keys np \<and>
    (\<forall>x. map_of np' x = map_option (\<lambda>n. n - int (count_list cs x)) (map_of np x))"
  using assms
proof (induction cs arbitrary: np)
  case Nil
  then show ?case by (simp add: option.map_ident)
next
  case (Cons c cs)
  obtain n where n: "map_of np c = Some n" using Cons.prems [of c] by (auto simp: dict_has_def)
  have keys: "dict_keys (dict_set c (n - 1) np) = dict_keys np"
    using n by (auto simp: dict_set_def update_keys dest: map_of_SomeD intro: rev_image_eqI)
  have "dict_has (dict_set c (n - 1) np) x" if "x \<in> set cs" for x
    using Cons.prems [of x] that by (simp add: dict_simps)
  from Cons.IH [OF this] obtain np' where np': "for_each release_child cs (dict_set c (n - 1) np) = Inr np'"
    "dict_keys np' = dict_keys (dict_set c (n - 1) np)"
    "\<forall>x. map_of np' x = map_option (\<lambda>n. n - int (count_list cs x)) (map_of (dict_set c (n - 1) np) x)"
    by blast
  moreover have "release_child c np = Inr (dict_set c (n - 1) np)" using n by (simp add: release_child_def)
  ultimately show ?case using n keys by (intro exI [of _ np']) (simp add: dict_simps)
qed

lemma release_step:
  assumes "level_inv ps V np ch" "p \<in> ready ps V"
  shows "\<exists>np' ch'. release_parent p (np, ch) = Inr (np', ch') \<and> level_inv ps (insert p V) np' ch'"
proof -
  have pV: "p \<in> nodes ps" "p \<notin> V" "\<And>q. (q, p) \<in> set ps \<Longrightarrow> q \<in> V" using assms(2) by (auto simp: ready_def)
  have np: "map_of np = parents_map ps V" and ch: "\<And>q. q \<notin> V \<Longrightarrow> map_of ch q = children_map ps q"
    and closed: "\<And>x q. x \<in> V \<Longrightarrow> (q, x) \<in> set ps \<Longrightarrow> q \<in> V" and sub: "V \<subseteq> nodes ps" and okd: "dict_ok np"
    using assms(1) by (auto simp: level_inv_def)
  have chp: "map_of ch p = children_map ps p" using ch pV(2) .
  have "dict_has (AList.delete p np) x" if "x \<in> set (children_of ps p)" for x
  proof -
    have e: "(p, x) \<in> set ps" using that by (simp add: set_children_of)
    have "x \<in> nodes ps" using e by (force simp: nodes_def)
    moreover have "x \<notin> V" "x \<noteq> p" using e closed pV by blast+
    ultimately show ?thesis by (simp add: dict_simps dict_has_def np parents_map_def)
  qed
  from for_each_release_child [OF this] obtain np2 where np2:
    "for_each release_child (children_of ps p) (AList.delete p np) = Inr np2"
    "dict_keys np2 = dict_keys (AList.delete p np)"
    "\<And>x. map_of np2 x = map_option (\<lambda>n. n - int (count_list (children_of ps p) x)) (map_of (AList.delete p np) x)"
    by blast
  have ok: "dict_ok np2" using dict_ok_delete [OF okd, of p] np2(2) by (simp add: dict_ok_def)
  have map: "map_of np2 = parents_map ps (insert p V)"
    using pending_insert [OF pV(2), of ps] by (intro ext) (simp add: np2(3) dict_simps np parents_map_def)
  have has: "dict_has np p" using pV by (simp add: dict_has_def np parents_map_def)
  define ch' where "ch' = (if map_of ch p = None then ch else AList.delete p ch)"
  have "release_parent p (np, ch) = Inr (np2, ch')"
  proof (cases "map_of ch p")
    case (Some cs)
    then have "cs = children_of ps p" using chp by (simp add: children_map_def split: if_splits)
    with Some has np2(1) show ?thesis by (simp add: release_parent_def Let_def ch'_def)
  next
    case None
    then have "children_of ps p = []" using chp children_map_cases [of ps p] by simp
    with None has np2(1) show ?thesis by (simp add: release_parent_def Let_def ch'_def)
  qed
  moreover have "level_inv ps (insert p V) np2 ch'"
    using sub pV ok map ch closed by (auto simp: level_inv_def ch'_def dict_simps)
  ultimately show ?thesis by blast
qed

lemma release_level:
  assumes "level_inv ps V np ch" "distinct lp" "set lp \<subseteq> ready ps V"
  shows "\<exists>np' ch'. for_each release_parent lp (np, ch) = Inr (np', ch') \<and> level_inv ps (V \<union> set lp) np' ch'"
  using assms
proof (induction lp arbitrary: V np ch)
  case (Cons p lp)
  then obtain np1 ch1 where s: "release_parent p (np, ch) = Inr (np1, ch1)" "level_inv ps (insert p V) np1 ch1"
    using release_step [of ps V np ch p] by auto
  have "set lp \<subseteq> ready ps (insert p V)" using Cons.prems(2,3) by (auto simp: ready_def)
  from Cons.IH [OF s(2) _ this] Cons.prems(2) obtain np' ch' where
    "for_each release_parent lp (np1, ch1) = Inr (np', ch')" "level_inv ps (insert p V \<union> set lp) np' ch'" by auto
  with s(1) show ?case by simp
qed simp

text \<open>
  Each level is, in some order, the set of the nodes whose parents are all in earlier levels; at the
  end no such node is left.
\<close>

fun levels_from :: "('k \<times> 'k) list \<Rightarrow> 'k set \<Rightarrow> 'k list list \<Rightarrow> bool" where
  "levels_from ps V [] \<longleftrightarrow> True"
| "levels_from ps V (l # ls) \<longleftrightarrow> l \<noteq> [] \<and> distinct l \<and> set l = ready ps V \<and> levels_from ps (V \<union> set l) ls"

definition levels_end :: "('k \<times> 'k) list \<Rightarrow> 'k set \<Rightarrow> 'k topsort_exn option \<Rightarrow> bool" where
  "levels_end ps V e \<longleftrightarrow> ready ps V = {} \<and> V \<subseteq> nodes ps \<and>
     (case e of None \<Rightarrow> V = nodes ps
      | Some (CycleError answer np ch) \<Rightarrow> answer = None \<and> np \<noteq> [] \<and> set (dict_keys np) = nodes ps - V
      | Some TopsortKeyError \<Rightarrow> False)"

context key_order
begin

lemma topsort_levels_core_correct:
  "level_inv ps V np ch \<Longrightarrow> \<exists>levels e. topsort_levels_core ord np ch = (levels, e) \<and>
     levels_from ps V levels \<and> levels_end ps (V \<union> set (concat levels)) e"
proof (induction "length np" arbitrary: V np ch rule: less_induct)
  case less
  let ?lp = "filter (\<lambda>x. map_of np x = Some 0) (ord (dict_keys np))"
  have np: "map_of np = parents_map ps V" "V \<subseteq> nodes ps" "dict_ok np"
    using less.prems by (auto simp: level_inv_def)
  have keys: "set (dict_keys np) = nodes ps - V" using np(1) by (rule dict_keys_parents_map)
  have "set ?lp = {x \<in> nodes ps - V. map_of np x = Some 0}" using keys by (auto simp: ord_simps)
  then have lp: "set ?lp = ready ps V" by (auto simp: np(1) parents_map_def pending_zero_iff ready_def)
  have dl: "distinct ?lp" using np(3) by (simp add: ord_simps dict_ok_def)
  show ?case
  proof (cases "?lp = []")
    case True
    then have "ready ps V = {}" using lp by simp
    moreover have "topsort_levels_core ord np ch = ([], if np \<noteq> [] then Some (CycleError None np ch) else None)"
      using True by (subst topsort_levels_core.simps) (simp add: Let_def)
    ultimately show ?thesis using keys np(2) by (auto simp: levels_end_def)
  next
    case False
    obtain np' ch' where rel: "for_each release_parent ?lp (np, ch) = Inr (np', ch')"
      "level_inv ps (V \<union> set ?lp) np' ch'"
      using release_level [OF less.prems dl] lp by blast
    have "length np' < length np"
      using length_release_level [OF rel(1)] False by (simp flip: length_greater_0_conv)
    from less.hyps [OF this rel(2)] obtain levels e where l: "topsort_levels_core ord np' ch' = (levels, e)"
      "levels_from ps (V \<union> set ?lp) levels" "levels_end ps (V \<union> set ?lp \<union> set (concat levels)) e" by blast
    have "topsort_levels_core ord np ch = (?lp # levels, e)"
      using False rel(1) l(1) by (subst topsort_levels_core.simps) (simp add: Let_def)
    moreover have "V \<union> set ?lp \<union> set (concat levels) = V \<union> set (concat (?lp # levels))" by (simp add: Un_assoc)
    moreover have "levels_from ps V (?lp # levels)" unfolding levels_from.simps using False dl lp l(2) by blast
    ultimately show ?thesis using l(3) by metis
  qed
qed

lemma topsort_levels_correct:
  obtains levels e where "topsort_levels ord ps = (levels, e)" "levels_from ps {} levels"
    "levels_end ps (set (concat levels)) e"
proof -
  have "level_inv ps {} (num_parents (count_pairs ps)) (children (count_pairs ps))"
    using count_pairs_correct [of ps] by (simp add: level_inv_def)
  from topsort_levels_core_correct [OF this] show thesis
    using that by (auto simp: topsort_levels_def Let_def)
qed

end

lemma edge_parent_node: "(p, x) \<in> set ps \<Longrightarrow> p \<in> nodes ps"
  by (force simp: nodes_def)

lemma dep_ordered_append:
  assumes "dep_ordered ps pre" "\<And>x p. x \<in> set l \<Longrightarrow> (p, x) \<in> set ps \<Longrightarrow> p \<in> set pre"
  shows "dep_ordered ps (pre @ l)"
  using assms
proof (induction l rule: rev_induct)
  case (snoc x l)
  have "dep_ordered ps (pre @ l)" by (rule snoc.IH) (use snoc.prems in auto)
  with snoc.prems show ?case using dep_ordered_snoc [of ps "pre @ l" x] by auto
qed simp

lemma levels_from_ordered:
  "levels_from ps (set pre) levels \<Longrightarrow> dep_ordered ps pre \<Longrightarrow> distinct pre \<Longrightarrow>
   dep_ordered ps (pre @ concat levels) \<and> distinct (pre @ concat levels)"
proof (induction levels arbitrary: pre)
  case (Cons l levels)
  then have l: "set l = ready ps (set pre)" "distinct l" "levels_from ps (set (pre @ l)) levels"
    unfolding levels_from.simps set_append by blast+
  have "dep_ordered ps (pre @ l)" using Cons.prems(2) l(1) by (intro dep_ordered_append) (auto simp: ready_def)
  moreover have "distinct (pre @ l)" using Cons.prems(3) l by (auto simp: ready_def)
  ultimately show ?case using Cons.IH [OF l(3)] by (metis append.assoc concat.simps(2))
qed simp

context key_order
begin

lemma topsort_levels_acyclic_iff: "snd (topsort_levels ord ps) = None \<longleftrightarrow> acyclic (set ps)"
proof -
  obtain levels e where l: "topsort_levels ord ps = (levels, e)" "levels_from ps {} levels"
    "levels_end ps (set (concat levels)) e" by (rule topsort_levels_correct)
  show ?thesis
  proof (cases e)
    case None
    then have "dep_ordered ps (concat levels)" "distinct (concat levels)" "set (concat levels) = nodes ps"
      using levels_from_ordered [of ps "[]" levels] l(2,3) by (simp_all add: levels_end_def del: set_concat)
    then have "acyclic (set ps)" by (rule dep_ordered_acyclic)
    with None l(1) show ?thesis by simp
  next
    case (Some x)
    let ?R = "nodes ps - set (concat levels)"
    obtain np' :: "('k, int) dict" where np': "np' \<noteq> []" "set (dict_keys np') = ?R"
      using l(3) Some by (auto simp: levels_end_def split: topsort_exn.splits)
    then have "?R \<noteq> {}" by (metis list.map_disc_iff set_empty2)
    have "\<not> acyclic (set ps)"
    proof
      assume "acyclic (set ps)"
      from acyclic_has_source [OF this _ \<open>?R \<noteq> {}\<close>] obtain x where x: "x \<in> ?R" "\<forall>p. (p, x) \<in> set ps \<longrightarrow> p \<notin> ?R"
        by blast
      then have "\<forall>p. (p, x) \<in> set ps \<longrightarrow> p \<in> set (concat levels)" using edge_parent_node by fast
      with x have "x \<in> ready ps (set (concat levels))" by (auto simp: ready_def simp del: set_concat)
      with l(3) show False by (simp add: levels_end_def)
    qed
    with Some l(1) show ?thesis by simp
  qed
qed

end

section \<open>Properties\<close>

text \<open>
  C15: \<open>topsort\<close> returns an order of all the nodes in which every parent stands before its children, and it
  returns exactly on the acyclic lists of pairs, whatever the order of the dictionary keys. Otherwise it
  raises \<open>CycleError\<close> with the nodes it could order, and the nodes left in the counts, each of which
  has a parent among them. No \<open>KeyError\<close> escapes.
\<close>

theorem topsort_sorts:
  assumes "key_order ord"
  shows "case topsort ord ps of
      Inr xs \<Rightarrow> acyclic (set ps) \<and> topological_order ps xs
    | Inl (CycleError answer np ch) \<Rightarrow> \<not> acyclic (set ps) \<and>
        (\<exists>xs. answer = Some xs \<and> distinct xs \<and> dep_ordered ps xs \<and> set (dict_keys np) = nodes ps - set xs \<and>
          (\<forall>x. x \<in> nodes ps - set xs \<longrightarrow> (\<exists>p. p \<in> nodes ps - set xs \<and> (p, x) \<in> set ps)))
    | Inl TopsortKeyError \<Rightarrow> False"
proof (cases rule: key_order.topsort_cases [OF assms, of ps])
  case (1 xs)
  then show ?thesis using key_order.topsort_acyclic_iff [OF assms, of ps] by simp
next
  case (2 xs np ch)
  then have "\<not> acyclic (set ps)" using key_order.topsort_acyclic_iff [OF assms, of ps] by simp
  with 2 show ?thesis by auto
qed

theorem topsort_sorts_witness: "topological_order [(1, 2), (3, 1 :: int)] [3, 1, 2]"
proof -
  have "topsort rev [(1, 2), (3, 1 :: int)] = Inr [3, 1, 2]" by code_simp
  then show ?thesis using topsort_sorts [OF reversed_order.key_order_axioms, of "[(1, 2), (3, 1 :: int)]"] by simp
qed

text \<open>
  C17: \<open>topsort_levels\<close> yields levels without repetition: each is, in some order, the set of the nodes
  whose parents all are in earlier levels. It ends without an exception exactly on the acyclic lists of
  pairs, and then the levels one after the other are a topological order; otherwise it ends with
  \<open>CycleError\<close> when no further level exists.
\<close>

theorem topsort_levels_by_depth:
  assumes "key_order ord"
  shows "case topsort_levels ord ps of (levels, e) \<Rightarrow>
    levels_from ps {} levels \<and> (e = None \<longleftrightarrow> acyclic (set ps)) \<and>
    (case e of
       None \<Rightarrow> topological_order ps (concat levels)
     | Some (CycleError answer np ch) \<Rightarrow> answer = None \<and> ready ps (set (concat levels)) = {} \<and>
         set (dict_keys np) = nodes ps - set (concat levels)
     | Some TopsortKeyError \<Rightarrow> False)"
proof -
  obtain levels e where l: "topsort_levels ord ps = (levels, e)" "levels_from ps {} levels"
    "levels_end ps (set (concat levels)) e" by (rule key_order.topsort_levels_correct [OF assms])
  have "e = None \<longleftrightarrow> acyclic (set ps)"
    using key_order.topsort_levels_acyclic_iff [OF assms, of ps] l(1) by simp
  moreover have "dep_ordered ps (concat levels) \<and> distinct (concat levels)"
    using levels_from_ordered [of ps "[]" levels] l(2) by simp
  ultimately show ?thesis
    using l by (auto simp: topological_order_def levels_end_def simp del: set_concat split: option.splits topsort_exn.splits)
qed

theorem topsort_levels_by_depth_witness:
  "levels_from [(1, 2), (3, 2), (2, 4 :: int)] {} [[3, 1], [2], [4]]"
proof -
  have "topsort_levels rev [(1, 2), (3, 2), (2, 4 :: int)] = ([[3, 1], [2], [4]], None)" by code_simp
  then show ?thesis
    using topsort_levels_by_depth [OF reversed_order.key_order_axioms, of "[(1, 2), (3, 2), (2, 4 :: int)]"]
    by (simp only: prod.case)
qed

text \<open>
  C16: \<open>find_cycles\<close> finds all the cycles: what it yields are simple cycles along the edges of the
  dictionary, no two of them rotations of each other, and every simple cycle of the graph is a rotation of
  one of them. It ends, and it raises no exception.
\<close>

theorem find_cycles_all:
  assumes "key_order ord"
  shows "case find_cycles ord pc of
      Inl e \<Rightarrow> False
    | Inr cycles \<Rightarrow> list_all (simple_cycle pc) cycles \<and>
        sorted_wrt (\<lambda>xs ys. \<not> rotation xs ys \<and> \<not> rotation ys xs) cycles \<and>
        (\<forall>c. simple_cycle pc c \<longrightarrow> list_ex (\<lambda>found. rotation found c) cycles)"
proof -
  obtain cycles where c: "find_cycles ord pc = Inr cycles" "cycles_ok pc cycles"
    "\<forall>C. simple_cycle pc C \<longrightarrow> (\<exists>found \<in> set cycles. rotation found C)"
    using key_order.find_cycles_correct [OF assms, of pc] by blast
  have "sorted_wrt (\<lambda>xs ys. \<not> rotation xs ys \<and> \<not> rotation ys xs) cycles"
    using c(2) rotation_symI unfolding cycles_ok_def by (metis (mono_tags, lifting) sorted_wrt_mono_rel)
  with c show ?thesis by (simp add: cycles_ok_def list_all_iff list_ex_iff)
qed

theorem find_cycles_all_witness:
  "list_all (simple_cycle [(1, [2]), (2, [1, 3 :: int])]) [[2, 1]]"
proof -
  have "find_cycles rev [(1, [2]), (2, [1, 3 :: int])] = Inr [[2, 1]]" by code_simp
  then show ?thesis
    using find_cycles_all [OF reversed_order.key_order_axioms, of "[(1, [2]), (2, [1, 3 :: int])]"] by simp
qed

end
