(* ===== verification/Py_IO.thy ===== *)
theory Py_IO
  imports Py_Base
begin

text \<open>
  Code with effects on the outside world (files, processes, sockets): a computation takes the world
  and returns a value or an exception together with the world afterwards, so that the effects made
  before an exception are kept. What the operating system does is a parameter of each component.
\<close>

named_theorems io_simps

type_synonym ('w, 'a) io = "'w \<Rightarrow> 'a result \<times> 'w"

definition io_return :: "'a \<Rightarrow> ('w, 'a) io" where
  "io_return a w = (Inr a, w)"

definition io_raise :: "py_exn \<Rightarrow> ('w, 'a) io" where
  "io_raise e w = (Inl e, w)"

definition io_bind :: "('w, 'a) io \<Rightarrow> ('a \<Rightarrow> ('w, 'b) io) \<Rightarrow> ('w, 'b) io" where
  "io_bind m f w = (case m w of (Inl e, w') \<Rightarrow> (Inl e, w') | (Inr a, w') \<Rightarrow> f a w')"

definition io_lift :: "'a result \<Rightarrow> ('w, 'a) io" where
  "io_lift r w = (r, w)"

text \<open>\<open>try: m finally: fin\<close>, with a clean-up that raises nothing.\<close>

definition io_finally :: "('w, 'a) io \<Rightarrow> ('w \<Rightarrow> 'w) \<Rightarrow> ('w, 'a) io" where
  "io_finally m fin w = (case m w of (r, w') \<Rightarrow> (r, fin w'))"

text \<open>\<open>try: m except: handler\<close> with a handler for every exception.\<close>

definition io_catch :: "('w, 'a) io \<Rightarrow> (py_exn \<Rightarrow> ('w, 'a) io) \<Rightarrow> ('w, 'a) io" where
  "io_catch m h w = (case m w of (Inl e, w') \<Rightarrow> h e w' | (Inr a, w') \<Rightarrow> (Inr a, w'))"

lemmas io_basic = io_return_def io_raise_def io_lift_def

lemma io_bind_cong [fundef_cong]:
  "m = m' \<Longrightarrow> w = w' \<Longrightarrow> (\<And>a v. m' w' = (Inr a, v) \<Longrightarrow> f a v = g a v) \<Longrightarrow> io_bind m f w = io_bind m' g w'"
  by (auto simp: io_bind_def split: prod.split sum.split)

lemma io_bind_return [io_simps]: "io_bind (io_return a) f = f a"
  by (simp add: io_bind_def io_return_def fun_eq_iff)

lemma io_bind_return_right [io_simps]: "io_bind m io_return = m"
  by (simp add: io_bind_def io_return_def fun_eq_iff split: prod.split sum.split)

lemma io_bind_raise [io_simps]: "io_bind (io_raise e) f = io_raise e"
  by (simp add: io_bind_def io_raise_def fun_eq_iff)

lemma io_bind_Inr [io_simps]: "m w = (Inr a, w') \<Longrightarrow> io_bind m f w = f a w'"
  by (simp add: io_bind_def)

lemma io_bind_Inl [io_simps]: "m w = (Inl e, w') \<Longrightarrow> io_bind m f w = (Inl e, w')"
  by (simp add: io_bind_def)

lemma io_bind_eq_Inr:
  "io_bind m f w = (Inr b, w2) \<longleftrightarrow> (\<exists>a w1. m w = (Inr a, w1) \<and> f a w1 = (Inr b, w2))"
  by (auto simp: io_bind_def split: prod.split sum.split)

lemma io_bind_assoc: "io_bind (io_bind m f) g = io_bind m (\<lambda>a. io_bind (f a) g)"
  by (auto simp: io_bind_def fun_eq_iff split: prod.split sum.split)

fun io_for_each :: "('x \<Rightarrow> 's \<Rightarrow> ('w, 's) io) \<Rightarrow> 'x list \<Rightarrow> 's \<Rightarrow> ('w, 's) io" where
  "io_for_each body [] s = io_return s"
| "io_for_each body (x # xs) s = io_bind (body x s) (io_for_each body xs)"

lemma io_for_each_append:
  "io_for_each body (xs @ ys) s = io_bind (io_for_each body xs s) (io_for_each body ys)"
proof (induction xs arbitrary: s)
  case (Cons x xs)
  then have "io_for_each body (xs @ ys) = (\<lambda>s. io_bind (io_for_each body xs s) (io_for_each body ys))"
    by blast
  then show ?case by (simp add: io_bind_assoc)
qed (simp add: io_bind_return)

section \<open>Paths\<close>

text \<open>\<open>os.path.join\<close> of two paths, \<open>os.path.split\<close> and \<open>os.path.basename\<close> on POSIX.\<close>

definition path_join :: "string \<Rightarrow> string \<Rightarrow> string" where
  "path_join a b =
     (if take 1 b = ''/'' then b
      else if a = [] \<or> last a = CHR ''/'' then a @ b else a @ ''/'' @ b)"

definition path_tail :: "string \<Rightarrow> string" where
  \<comment> \<open>\<open>os.path.basename\<close>\<close>
  "path_tail p = rev (takeWhile (\<lambda>c. c \<noteq> CHR ''/'') (rev p))"

definition path_head :: "string \<Rightarrow> string" where
  \<comment> \<open>the first component of \<open>os.path.split\<close>: trailing slashes go unless it is all slashes\<close>
  "path_head p =
     (let head = take (length p - length (path_tail p)) p
      in if list_all (\<lambda>c. c = CHR ''/'') head then head
         else rev (dropWhile (\<lambda>c. c = CHR ''/'') (rev head)))"

lemma path_tail_no_slash: "CHR ''/'' \<notin> set (path_tail p)"
  by (auto simp: path_tail_def dest: set_takeWhileD)

end
