(* ===== verification/Shell_Cmd.thy ===== *)
theory Shell_Cmd
  imports Py_IO
begin

text \<open>
  The little shell of the build, \<open>waf-tools/shellcmd.py\<close>: a tokenizer (\<open>shlex.split\<close> as the
  library documents it), the parser of \<open>Pipeline.parse\<close> (a state machine over the tokens), and
  \<open>Pipeline.run\<close>, which starts the commands of a pipeline and decides what to skip. Files and
  processes are a parameter: a record of operations on an unspecified world.
\<close>

section \<open>Nodes\<close>

datatype redirect = PIPE | STDOUT | Path string

record command =
  cmd_name :: string
  cmd_argv :: "string list"
  cmd_stdin :: "string option"
  cmd_stdout :: "redirect option"
  cmd_stderr :: "redirect option"
  cmd_env_vars :: "(string, string) dict option"

definition new_command :: "string \<Rightarrow> command" where
  "new_command name = \<lparr>cmd_name = name, cmd_argv = [name], cmd_stdin = None, cmd_stdout = None,
     cmd_stderr = None, cmd_env_vars = None\<rparr>"

datatype node = Pipe | And | Or | Command command | Chdir "string option"

section \<open>Splitting a command line\<close>

text \<open>
  \<open>shlex.split\<close> in POSIX mode with no comments: \<open>Between\<close> words, \<open>InWord\<close>, \<open>Quoted q\<close>
  between two quotes \<open>q\<close>, \<open>Escaped s\<close> after a backslash seen in state \<open>s\<close>. The flag says
  that the word has had quotes, so that it is a word although it may be empty.
\<close>

datatype shlex_state = Between | InWord | Quoted char | EscapedWord | EscapedQuoted char

definition shlex_space :: "char \<Rightarrow> bool" where
  "shlex_space c \<longleftrightarrow> c \<in> {CHR '' '', CHR 0x09, CHR 0x0A, CHR 0x0D}"

fun shlex_loop :: "shlex_state \<Rightarrow> bool \<Rightarrow> string \<Rightarrow> string \<Rightarrow> string list result" where
  "shlex_loop Between quoted tok [] = Inr (if tok \<noteq> [] \<or> quoted then [tok] else [])"
| "shlex_loop InWord quoted tok [] = Inr (if tok \<noteq> [] \<or> quoted then [tok] else [])"
| "shlex_loop (Quoted q) quoted tok [] = Inl ValueError"
| "shlex_loop EscapedWord quoted tok [] = Inl ValueError"
| "shlex_loop (EscapedQuoted q) quoted tok [] = Inl ValueError"
| "shlex_loop Between quoted tok (c # cs) =
     (if shlex_space c then shlex_loop Between False [] cs
      else if c = CHR 0x5C then shlex_loop EscapedWord False [] cs
      else if c = CHR 0x22 \<or> c = CHR 0x27 then shlex_loop (Quoted c) True [] cs
      else shlex_loop InWord False [c] cs)"
| "shlex_loop InWord quoted tok (c # cs) =
     (if shlex_space c then
        (if tok \<noteq> [] \<or> quoted
         then res_bind (shlex_loop Between False [] cs) (\<lambda>ws. Inr (tok # ws))
         else shlex_loop Between False [] cs)
      else if c = CHR 0x22 \<or> c = CHR 0x27 then shlex_loop (Quoted c) True tok cs
      else if c = CHR 0x5C then shlex_loop EscapedWord quoted tok cs
      else shlex_loop InWord quoted (tok @ [c]) cs)"
| "shlex_loop (Quoted q) quoted tok (c # cs) =
     (if c = q then shlex_loop InWord True tok cs
      else if c = CHR 0x5C \<and> q = CHR 0x22 then shlex_loop (EscapedQuoted q) True tok cs
      else shlex_loop (Quoted q) True (tok @ [c]) cs)"
| "shlex_loop EscapedWord quoted tok (c # cs) = shlex_loop InWord quoted (tok @ [c]) cs"
| "shlex_loop (EscapedQuoted q) quoted tok (c # cs) =
     shlex_loop (Quoted q) quoted (if c \<noteq> CHR 0x5C \<and> c \<noteq> q then tok @ [CHR 0x5C, c] else tok @ [c]) cs"

definition shlex_split :: "string \<Rightarrow> string list result" where
  "shlex_split s = shlex_loop Between False [] s"

text \<open>\<open>env_var_rx\<close>: \<open>$\<close> also matches before a newline that ends the token.\<close>

definition env_var_match :: "string \<Rightarrow> (string \<times> string) option" where
  "env_var_match token =
     (let name = takeWhile is_alnum_us token in
      case dropWhile is_alnum_us token of
        [] \<Rightarrow> None
      | c # v \<Rightarrow>
          let val = (if v \<noteq> [] \<and> last v = CHR 0x0A then butlast v else v) in
          if name \<noteq> [] \<and> c = CHR ''='' \<and> val \<noteq> [] \<and> list_all (\<lambda>x. \<not> is_space x) val
          then Some (name, val) else None)"

section \<open>The parser\<close>

datatype parse_state = BEGIN | COMMAND | CHDIR | STDERR_FILE | STDOUT_FILE | STDIN_FILE

record parser =
  current_command :: "node option"
  pipeline :: "node list"
  env_vars :: "(string, string) dict"
  pstate :: parse_state

definition init_parser :: parser where
  "init_parser = \<lparr>current_command = None, pipeline = [], env_vars = [], pstate = BEGIN\<rparr>"

definition commit_command :: "parser \<Rightarrow> parser result" where
  "commit_command s =
     (case current_command s of
        None \<Rightarrow> Inl AssertionError
      | Some node \<Rightarrow> Inr (s\<lparr>pipeline := pipeline s @ [node], current_command := None\<rparr>))"

definition commit_with :: "node \<Rightarrow> parser \<Rightarrow> parser result" where
  "commit_with operator s =
     res_bind (commit_command s) (\<lambda>s. Inr (s\<lparr>pipeline := pipeline s @ [operator], pstate := BEGIN\<rparr>))"

text \<open>An assignment to a field of \<open>self.current_command\<close>, which must be a \<open>Command\<close>.\<close>

definition on_command :: "(command \<Rightarrow> command result) \<Rightarrow> parser \<Rightarrow> parser result" where
  "on_command f s =
     (case current_command s of
        Some (Command c) \<Rightarrow> res_bind (f c) (\<lambda>c. Inr (s\<lparr>current_command := Some (Command c)\<rparr>))
      | _ \<Rightarrow> Inl AttributeError)"

definition step_begin :: "string \<Rightarrow> parser \<Rightarrow> parser result" where
  "step_begin token s =
     (case env_var_match token of
        Some (name, val) \<Rightarrow> Inr (s\<lparr>env_vars := dict_set name val (env_vars s)\<rparr>)
      | None \<Rightarrow>
          if current_command s \<noteq> None then Inl AssertionError
          else if token = ''cd'' then
            (if env_vars s \<noteq> [] then Inl AssertionError
             else Inr (s\<lparr>current_command := Some (Chdir None), pstate := CHDIR\<rparr>))
          else
            let c = new_command token;
                c = (if env_vars s \<noteq> [] then c\<lparr>cmd_env_vars := Some (env_vars s)\<rparr> else c)
            in Inr (s\<lparr>current_command := Some (Command c), env_vars := [], pstate := COMMAND\<rparr>))"

definition step_command :: "string \<Rightarrow> parser \<Rightarrow> parser result" where
  "step_command token s =
     (if token = ''>'' then Inr (s\<lparr>pstate := STDOUT_FILE\<rparr>)
      else if token = ''2>'' then Inr (s\<lparr>pstate := STDERR_FILE\<rparr>)
      else if token = ''2>&1'' then
        on_command (\<lambda>c. if cmd_stderr c \<noteq> None then Inl AssertionError
          else Inr (c\<lparr>cmd_stderr := Some STDOUT\<rparr>)) s
      else if token = ''<'' then Inr (s\<lparr>pstate := STDIN_FILE\<rparr>)
      else if token = ''|'' then
        res_bind (on_command (\<lambda>c. if cmd_stdout c \<noteq> None then Inl AssertionError
          else Inr (c\<lparr>cmd_stdout := Some PIPE\<rparr>)) s) (commit_with Pipe)
      else if token = ''&&'' then commit_with And s
      else if token = ''||'' then commit_with Or s
      else on_command (\<lambda>c. Inr (c\<lparr>cmd_argv := cmd_argv c @ [token]\<rparr>)) s)"

definition step_chdir :: "string \<Rightarrow> parser \<Rightarrow> parser result" where
  "step_chdir token s =
     (if token = ''&&'' then commit_with And s
      else case current_command s of
        Some (Chdir None) \<Rightarrow> Inr (s\<lparr>current_command := Some (Chdir (Some token))\<rparr>)
      | Some (Chdir (Some d)) \<Rightarrow> Inl AssertionError
      | _ \<Rightarrow> Inl AttributeError)"

definition parse_step :: "string \<Rightarrow> parser \<Rightarrow> parser result" where
  "parse_step token s =
     (case pstate s of
        BEGIN \<Rightarrow> step_begin token s
      | COMMAND \<Rightarrow> step_command token s
      | CHDIR \<Rightarrow> step_chdir token s
      | STDOUT_FILE \<Rightarrow>
          res_bind (on_command (\<lambda>c. if cmd_stdout c \<noteq> None then Inl AssertionError
            else Inr (c\<lparr>cmd_stdout := Some (Path token)\<rparr>)) s) (\<lambda>s. Inr (s\<lparr>pstate := COMMAND\<rparr>))
      | STDERR_FILE \<Rightarrow>
          res_bind (on_command (\<lambda>c. if cmd_stderr c \<noteq> None then Inl AssertionError
            else Inr (c\<lparr>cmd_stderr := Some (Path token)\<rparr>)) s) (\<lambda>s. Inr (s\<lparr>pstate := COMMAND\<rparr>))
      | STDIN_FILE \<Rightarrow>
          res_bind (on_command (\<lambda>c. if cmd_stdin c \<noteq> None then Inl AssertionError
            else Inr (c\<lparr>cmd_stdin := Some token\<rparr>)) s) (\<lambda>s. Inr (s\<lparr>pstate := COMMAND\<rparr>)))"

definition parse :: "string list \<Rightarrow> node list result" where
  "parse tokens =
     res_bind (for_each parse_step tokens init_parser) (\<lambda>s.
       res_bind (commit_command s) (\<lambda>s. Inr (pipeline s)))"

definition parse_string :: "string \<Rightarrow> node list result" where
  "parse_string command = res_bind (shlex_split command) parse"

definition abbreviate :: "node \<Rightarrow> string list" where
  \<comment> \<open>the second test for \<open>And\<close> is never reached, so \<open>||\<close> is not shown\<close>
  "abbreviate node =
     (case node of
        Command c \<Rightarrow> [cmd_name c]
      | Chdir d \<Rightarrow> [''cd '' @ (case d of None \<Rightarrow> ''None'' | Some d \<Rightarrow> d)]
      | Pipe \<Rightarrow> [''|'']
      | And \<Rightarrow> [''&&'']
      | Or \<Rightarrow> [])"

definition get_abbreviated_command :: "node list \<Rightarrow> string" where
  "get_abbreviated_command nodes = join '' '' (concat (map abbreviate nodes))"

section \<open>Running a pipeline\<close>

datatype 'f handle = DevNull | Handle 'f

datatype ('p, 'f) stdin_spec = InheritIn | FromPipe 'p | FromFile 'f

datatype 'f stdout_spec = InheritOut | ToPipe | ToStdout | ToFile "'f handle"

record ('p, 'f) spawn =
  spawn_argv :: "string list"
  spawn_stdin :: "('p, 'f) stdin_spec"
  spawn_stdout :: "'f stdout_spec"
  spawn_stderr :: "'f stdout_spec"
  spawn_env :: "(string, string) dict option"
  spawn_cwd :: "string option"

record ('w, 'p, 'f) os =
  os_environ :: "(string, string) dict"
  os_key_order :: "string list \<Rightarrow> string list"
  os_open_read :: "string \<Rightarrow> ('w, 'f) io"
  os_open_write :: "string \<Rightarrow> ('w, 'f) io"
  os_close :: "'f \<Rightarrow> 'w \<Rightarrow> 'w"
  os_popen :: "('p, 'f) spawn \<Rightarrow> ('w, 'p) io"
  os_wait :: "'p \<Rightarrow> ('w, int) io"
  os_print :: "string \<Rightarrow> 'w \<Rightarrow> 'w"

definition open_out_file :: "('w, 'p, 'f) os \<Rightarrow> string \<Rightarrow> ('w, 'f handle) io" where
  "open_out_file os filename =
     (if filename = ''NUL:'' \<or> filename = ''/dev/null'' then io_return DevNull
      else io_bind (os_open_write os filename) (\<lambda>f. io_return (Handle f)))"

definition close_files :: "('w, 'p, 'f) os \<Rightarrow> 'f handle list \<Rightarrow> 'w \<Rightarrow> 'w" where
  "close_files os files w =
     fold (\<lambda>f w. case f of DevNull \<Rightarrow> w | Handle f \<Rightarrow> os_close os f w) files w"

fun first_nonzero :: "int list \<Rightarrow> int list \<Rightarrow> int" where
  "first_nonzero retvals [] = 0"
| "first_nonzero retvals (r # rs) = (if r \<noteq> 0 then last retvals else first_nonzero retvals rs)"

definition exec_piped_commands :: "('w, 'p, 'f) os \<Rightarrow> 'p list \<Rightarrow> ('w, int) io" where
  "exec_piped_commands os commands =
     io_bind (io_for_each (\<lambda>cmd retvals. io_bind (os_wait os cmd) (\<lambda>r. io_return (retvals @ [r]))) commands [])
       (\<lambda>retvals. io_return (first_nonzero retvals retvals))"

record ('p, 'f) run_state =
  files_to_close :: "'f handle list"
  piped_commands :: "'p list"
  piped_display :: "string list"
  in_pipe :: bool
  cwd :: string

definition init_run :: "('p, 'f) run_state" where
  "init_run = \<lparr>files_to_close = [], piped_commands = [], piped_display = [], in_pipe = False, cwd = ''.''\<rparr>"

definition add_display :: "bool \<Rightarrow> string \<Rightarrow> ('p, 'f) run_state \<Rightarrow> ('p, 'f) run_state" where
  "add_display verbose text st =
     (if verbose then st\<lparr>piped_display := piped_display st @ [text]\<rparr> else st)"

definition show_command :: "('w, 'p, 'f) os \<Rightarrow> command \<Rightarrow> string" where
  "show_command os cmd =
     (case cmd_env_vars cmd of
        None \<Rightarrow> join '' '' (cmd_argv cmd)
      | Some vars \<Rightarrow>
          if vars = [] then join '' '' (cmd_argv cmd)
          else join '' '' (map (\<lambda>key. key @ ''='' @ the (map_of vars key)) (os_key_order os (dict_keys vars)))
            @ '' '' @ join '' '' (cmd_argv cmd))"

definition stdin_for ::
  "('w, 'p, 'f) os \<Rightarrow> bool \<Rightarrow> command \<Rightarrow> ('p, 'f) run_state \<Rightarrow> ('w, ('p, 'f) stdin_spec \<times> ('p, 'f) run_state) io" where
  "stdin_for os verbose cmd st =
     (if in_pipe st then
        (if piped_commands st = [] then io_raise IndexError
         else io_return (FromPipe (last (piped_commands st)), st))
      else case cmd_stdin cmd of
        None \<Rightarrow> io_return (InheritIn, st)
      | Some path \<Rightarrow>
          io_bind (os_open_read os path) (\<lambda>f.
            let st = add_display verbose (''< '' @ path) st
            in io_return (FromFile f, st\<lparr>files_to_close := files_to_close st @ [Handle f]\<rparr>)))"

definition stdout_for ::
  "('w, 'p, 'f) os \<Rightarrow> bool \<Rightarrow> command \<Rightarrow> ('p, 'f) run_state \<Rightarrow> ('w, 'f stdout_spec \<times> ('p, 'f) run_state) io" where
  "stdout_for os verbose cmd st =
     (case cmd_stdout cmd of
        None \<Rightarrow> io_return (InheritOut, st)
      | Some PIPE \<Rightarrow> io_return (ToPipe, st)
      | Some STDOUT \<Rightarrow> io_raise TypeError
      | Some (Path path) \<Rightarrow>
          io_bind (open_out_file os path) (\<lambda>f.
            io_return (ToFile f,
              add_display verbose (''> '' @ path) (st\<lparr>files_to_close := files_to_close st @ [f]\<rparr>))))"

definition stderr_for ::
  "('w, 'p, 'f) os \<Rightarrow> bool \<Rightarrow> command \<Rightarrow> ('p, 'f) run_state \<Rightarrow> ('w, 'f stdout_spec \<times> ('p, 'f) run_state) io" where
  "stderr_for os verbose cmd st =
     (case cmd_stderr cmd of
        None \<Rightarrow> io_return (InheritOut, st)
      | Some PIPE \<Rightarrow> io_return (ToPipe, st)
      | Some STDOUT \<Rightarrow> io_return (ToStdout, add_display verbose ''2>&1'' st)
      | Some (Path path) \<Rightarrow>
          io_bind (open_out_file os path) (\<lambda>f.
            io_return (ToFile f,
              add_display verbose (''2> '' @ path) (st\<lparr>files_to_close := files_to_close st @ [f]\<rparr>))))"

definition env_for :: "('w, 'p, 'f) os \<Rightarrow> command \<Rightarrow> (string, string) dict option" where
  "env_for os cmd =
     (case cmd_env_vars cmd of
        None \<Rightarrow> None
      | Some vars \<Rightarrow>
          if vars = [] then None else Some (fold (\<lambda>(k, v). dict_set k v) vars (os_environ os)))"

definition start_command ::
  "('w, 'p, 'f) os \<Rightarrow> bool \<Rightarrow> command \<Rightarrow> ('p, 'f) run_state \<Rightarrow> ('w, ('p, 'f) run_state) io" where
  "start_command os verbose cmd st =
     (let st = add_display verbose (show_command os cmd) st in
      io_bind (stdin_for os verbose cmd st) (\<lambda>(stdin, st).
      io_bind (stdout_for os verbose cmd st) (\<lambda>(stdout, st).
      io_bind (stderr_for os verbose cmd st) (\<lambda>(stderr, st).
      io_bind (os_popen os \<lparr>spawn_argv = cmd_argv cmd, spawn_stdin = stdin, spawn_stdout = stdout,
          spawn_stderr = stderr, spawn_env = env_for os cmd,
          spawn_cwd = (if cwd st = ''.'' then None else Some (cwd st))\<rparr>) (\<lambda>proc.
      io_return (st\<lparr>piped_commands := piped_commands st @ [proc]\<rparr>))))))"

text \<open>The wait for the commands of a pipe, with its files closed whatever happens.\<close>

definition finish_pipe :: "('w, 'p, 'f) os \<Rightarrow> ('p, 'f) run_state \<Rightarrow> ('w, int) io" where
  "finish_pipe os st =
     io_finally (exec_piped_commands os (piped_commands st)) (close_files os (files_to_close st))"

definition next_pipe :: "('p, 'f) run_state \<Rightarrow> ('p, 'f) run_state" where
  "next_pipe st = st\<lparr>files_to_close := [], piped_commands := [], piped_display := [], in_pipe := False\<rparr>"

text \<open>
  \<open>run\<close> returns \<open>None\<close> where its loop ends without a \<open>return\<close>. After \<open>&&\<close> and \<open>||\<close> the
  verbose mode formats the variable \<open>retval\<close>, which has no value there.
\<close>

fun run_loop ::
  "('w, 'p, 'f) os \<Rightarrow> bool \<Rightarrow> node list \<Rightarrow> ('p, 'f) run_state \<Rightarrow> ('w, int option) io" where
  "run_loop os verbose [] st = io_return None"
| "run_loop os verbose [Chdir d] st = io_raise IndexError"
| "run_loop os verbose (Chdir d # next_op # nodes) st =
     (if next_op \<noteq> And then io_raise AssertionError
      else case d of
        None \<Rightarrow> io_raise AttributeError
      | Some dir \<Rightarrow>
          run_loop os verbose nodes
            (add_display verbose (''cd '' @ dir @ '' &&'') (st\<lparr>cwd := path_join (cwd st) dir\<rparr>)))"
| "run_loop os verbose [Command cmd] st =
     io_bind (start_command os verbose cmd st) (\<lambda>st.
       io_finally
         (io_bind (exec_piped_commands os (piped_commands st)) (\<lambda>retval w.
            (Inr (Some retval),
             if verbose then os_print os (join '' '' (piped_display st) @ '': exit code '' @ int_str retval) w
             else w)))
         (close_files os (files_to_close st)))"
| "run_loop os verbose (Command cmd # next_node # nodes) st =
     io_bind (start_command os verbose cmd st) (\<lambda>st.
       case next_node of
         Pipe \<Rightarrow> run_loop os verbose nodes (st\<lparr>in_pipe := True, piped_display := piped_display st @ [''|'']\<rparr>)
       | Or \<Rightarrow>
           io_bind (finish_pipe os st) (\<lambda>this_retval.
             if verbose then io_raise UnboundLocalError
             else if this_retval = 0 then io_return (Some this_retval)
             else run_loop os verbose nodes (next_pipe st))
       | And \<Rightarrow>
           io_bind (finish_pipe os st) (\<lambda>this_retval.
             if verbose then io_raise UnboundLocalError
             else if this_retval \<noteq> 0 then io_return (Some this_retval)
             else run_loop os verbose nodes (next_pipe st))
       | _ \<Rightarrow> run_loop os verbose nodes st)"
| "run_loop os verbose (operator # nodes) st = io_raise AssertionError"

definition run :: "('w, 'p, 'f) os \<Rightarrow> bool \<Rightarrow> node list \<Rightarrow> ('w, int option) io" where
  "run os verbose nodes = run_loop os verbose nodes init_run"

section \<open>Well-formed pipelines\<close>

definition operators :: "string list" where
  "operators = [''>'', ''2>'', ''2>&1'', ''<'', ''|'', ''&&'', ''||'']"

definition wf_env_vars :: "(string, string) dict \<Rightarrow> bool" where
  "wf_env_vars vars \<longleftrightarrow> dict_ok vars \<and>
     list_all (\<lambda>(name, val). env_var_match (name @ CHR ''='' # val) = Some (name, val)) vars"

definition wf_command :: "command \<Rightarrow> bool" where
  "wf_command c \<longleftrightarrow>
     cmd_name c \<noteq> ''cd'' \<and> env_var_match (cmd_name c) = None \<and>
     cmd_argv c = cmd_name c # tl (cmd_argv c) \<and>
     list_all (\<lambda>arg. arg \<notin> set operators) (tl (cmd_argv c)) \<and>
     cmd_stdout c \<noteq> Some STDOUT \<and> cmd_stderr c \<noteq> Some PIPE \<and>
     (case cmd_env_vars c of None \<Rightarrow> True | Some vars \<Rightarrow> vars \<noteq> [] \<and> wf_env_vars vars)"

fun wf_before :: "node \<Rightarrow> node \<Rightarrow> bool" where
  "wf_before (Command c) Pipe \<longleftrightarrow> wf_command c \<and> cmd_stdout c = Some PIPE"
| "wf_before (Command c) And \<longleftrightarrow> wf_command c \<and> cmd_stdout c \<noteq> Some PIPE"
| "wf_before (Command c) Or \<longleftrightarrow> wf_command c \<and> cmd_stdout c \<noteq> Some PIPE"
| "wf_before (Chdir d) And \<longleftrightarrow> d \<noteq> Some ''&&''"
| "wf_before _ _ \<longleftrightarrow> False"

fun wf_last :: "node \<Rightarrow> bool" where
  "wf_last (Command c) \<longleftrightarrow> wf_command c \<and> cmd_stdout c \<noteq> Some PIPE"
| "wf_last (Chdir d) \<longleftrightarrow> d \<noteq> Some ''&&''"
| "wf_last _ \<longleftrightarrow> False"

fun wf_prefix :: "node list \<Rightarrow> bool" where
  "wf_prefix [] \<longleftrightarrow> True"
| "wf_prefix [n] \<longleftrightarrow> False"
| "wf_prefix (n # operator # nodes) \<longleftrightarrow> wf_before n operator \<and> wf_prefix nodes"

fun wf_pipeline :: "node list \<Rightarrow> bool" where
  "wf_pipeline [] \<longleftrightarrow> False"
| "wf_pipeline [n] \<longleftrightarrow> wf_last n"
| "wf_pipeline (n # operator # nodes) \<longleftrightarrow> wf_before n operator \<and> wf_pipeline nodes"

lemma wf_prefix_snoc: "wf_prefix ns \<Longrightarrow> wf_before n operator \<Longrightarrow> wf_prefix (ns @ [n, operator])"
  by (induction ns rule: wf_prefix.induct) auto

lemma wf_pipeline_snoc: "wf_prefix ns \<Longrightarrow> wf_last n \<Longrightarrow> wf_pipeline (ns @ [n])"
  by (induction ns rule: wf_prefix.induct) auto

definition parser_inv :: "parser \<Rightarrow> bool" where
  "parser_inv s \<longleftrightarrow> wf_prefix (pipeline s) \<and>
     (case pstate s of
        BEGIN \<Rightarrow> current_command s = None \<and> wf_env_vars (env_vars s)
      | CHDIR \<Rightarrow> (\<exists>d. current_command s = Some (Chdir d) \<and> d \<noteq> Some ''&&'') \<and> env_vars s = []
      | _ \<Rightarrow> (\<exists>c. current_command s = Some (Command c) \<and> wf_command c \<and> cmd_stdout c \<noteq> Some PIPE) \<and>
          env_vars s = [])"

lemma set_dict_set: "set (dict_set k v d) \<subseteq> insert (k, v) (set d)"
  unfolding dict_set_def by (induction d) auto

lemma wf_env_vars_Nil [simp]: "wf_env_vars []"
  by (simp add: wf_env_vars_def dict_simps)

lemma env_var_match_eq:
  assumes "env_var_match token = Some (name, val)"
  shows "env_var_match (name @ CHR ''='' # val) = Some (name, val)"
proof -
  obtain c v where d: "dropWhile is_alnum_us token = c # v"
    using assms by (auto simp: env_var_match_def Let_def split: list.splits)
  have nv: "name = takeWhile is_alnum_us token" "name \<noteq> []" "c = CHR ''=''" "val \<noteq> []"
    "list_all (\<lambda>x. \<not> is_space x) val"
    using assms d by (auto simp: env_var_match_def Let_def split: if_splits)
  have t: "takeWhile is_alnum_us (name @ CHR ''='' # val) = name"
    "dropWhile is_alnum_us (name @ CHR ''='' # val) = CHR ''='' # val"
    using nv(1) by (auto simp: takeWhile_append dropWhile_append is_alnum_us_def is_digit_def dest: set_takeWhileD)
  have "last val \<noteq> CHR 0x0A"
    using nv(4,5) by (auto simp: list_all_iff is_space_def dest: last_in_set)
  then show ?thesis using t nv(2,4,5) by (simp add: env_var_match_def)
qed

lemma wf_env_vars_set:
  "wf_env_vars vars \<Longrightarrow> env_var_match token = Some (name, val) \<Longrightarrow> wf_env_vars (dict_set name val vars)"
  using set_dict_set [of name val vars] env_var_match_eq [of token name val]
  by (auto simp: wf_env_vars_def dict_simps list_all_iff)

lemma wf_new_command:
  "token \<noteq> ''cd'' \<Longrightarrow> env_var_match token = None \<Longrightarrow> wf_command (new_command token)"
  by (simp add: wf_command_def new_command_def)

lemma new_command_stdout [simp]: "cmd_stdout (new_command token) = None"
  by (simp add: new_command_def)

lemma wf_command_updates:
  "wf_command c \<Longrightarrow> wf_command (c\<lparr>cmd_stdin := i\<rparr>)"
  "wf_command c \<Longrightarrow> ou \<noteq> Some STDOUT \<Longrightarrow> wf_command (c\<lparr>cmd_stdout := ou\<rparr>)"
  "wf_command c \<Longrightarrow> er \<noteq> Some PIPE \<Longrightarrow> wf_command (c\<lparr>cmd_stderr := er\<rparr>)"
  "wf_command c \<Longrightarrow> vars \<noteq> [] \<Longrightarrow> wf_env_vars vars \<Longrightarrow> wf_command (c\<lparr>cmd_env_vars := Some vars\<rparr>)"
  "wf_command c \<Longrightarrow> arg \<notin> set operators \<Longrightarrow> wf_command (c\<lparr>cmd_argv := cmd_argv c @ [arg]\<rparr>)"
  unfolding wf_command_def by (cases "cmd_argv c"; simp)+

lemmas parser_defs = parse_step_def step_begin_def step_command_def step_chdir_def commit_with_def
  commit_command_def on_command_def

lemma parse_step_inv:
  assumes "parser_inv s" "parse_step token s = Inr s'"
  shows "parser_inv s'"
proof (cases "pstate s")
  case BEGIN
  with assms show ?thesis
    by (auto simp: parser_defs parser_inv_def Let_def wf_env_vars_set wf_new_command wf_command_updates
        split: option.splits if_splits)
next
  case COMMAND
  with assms show ?thesis
    by (auto simp: parser_defs parser_inv_def wf_prefix_snoc wf_command_updates operators_def
        split: if_splits)
next
  case CHDIR
  with assms show ?thesis
    by (auto simp: parser_defs parser_inv_def wf_prefix_snoc split: if_splits option.splits)
qed (use assms in \<open>auto simp: parser_defs parser_inv_def wf_command_updates split: if_splits\<close>)


lemma for_each_parse_inv: "for_each parse_step tokens s = Inr s' \<Longrightarrow> parser_inv s \<Longrightarrow> parser_inv s'"
  by (rule for_each_invariant) (auto intro: parse_step_inv)

lemma init_parser_inv: "parser_inv init_parser"
  by (simp add: parser_inv_def init_parser_def wf_env_vars_def dict_simps)

lemma parse_step_error: "parser_inv s \<Longrightarrow> parse_step token s = Inl e \<Longrightarrow> e = AssertionError"
  by (auto simp: parser_inv_def parser_defs Let_def res_bind_Inl_iff
      split: parse_state.splits option.splits if_splits)

lemma for_each_parse_error: "for_each parse_step tokens s = Inl e \<Longrightarrow> parser_inv s \<Longrightarrow> e = AssertionError"
proof (induction tokens arbitrary: s)
  case (Cons t ts)
  show ?case
  proof (cases "parse_step t s")
    case (Inl e')
    with Cons.prems show ?thesis by (auto dest: parse_step_error)
  next
    case (Inr s')
    with Cons.prems show ?thesis using Cons.IH parse_step_inv [OF Cons.prems(2) Inr] by simp
  qed
qed simp

section \<open>Printing a pipeline\<close>

definition redirect_tokens :: "string \<Rightarrow> redirect option \<Rightarrow> string list" where
  "redirect_tokens operator r =
     (case r of Some (Path path) \<Rightarrow> [operator, path] | Some STDOUT \<Rightarrow> [''2>&1''] | _ \<Rightarrow> [])"

definition command_tokens :: "command \<Rightarrow> string list" where
  "command_tokens c =
     map (\<lambda>(name, val). name @ CHR ''='' # val) (case cmd_env_vars c of None \<Rightarrow> [] | Some vars \<Rightarrow> vars) @
     cmd_argv c @ (case cmd_stdin c of None \<Rightarrow> [] | Some path \<Rightarrow> [''<'', path]) @
     redirect_tokens ''>'' (cmd_stdout c) @ redirect_tokens ''2>'' (cmd_stderr c)"

definition node_tokens :: "node \<Rightarrow> string list" where
  "node_tokens n =
     (case n of
        Pipe \<Rightarrow> [''|''] | And \<Rightarrow> [''&&''] | Or \<Rightarrow> [''||'']
      | Command c \<Rightarrow> command_tokens c
      | Chdir d \<Rightarrow> ''cd'' # (case d of None \<Rightarrow> [] | Some d \<Rightarrow> [d]))"

definition unparse :: "node list \<Rightarrow> string list" where
  "unparse nodes = concat (map node_tokens nodes)"

lemma parse_env_vars:
  assumes "pstate s = BEGIN" "wf_env_vars (env_vars s @ vars)"
  shows "for_each parse_step (map (\<lambda>(name, val). name @ CHR ''='' # val) vars) s =
    Inr (s\<lparr>env_vars := env_vars s @ vars\<rparr>)"
  using assms
proof (induction vars arbitrary: s)
  case (Cons v vars)
  obtain name val where v: "v = (name, val)" by (cases v)
  have m: "env_var_match (name @ CHR ''='' # val) = Some (name, val)"
    and new: "\<not> dict_has (env_vars s) name"
    using Cons.prems(2) unfolding v by (auto simp: wf_env_vars_def dict_ok_def dict_has_iff)
  have "parse_step (name @ CHR ''='' # val) s = Inr (s\<lparr>env_vars := env_vars s @ [v]\<rparr>)"
    using Cons.prems(1) m by (simp add: parse_step_def step_begin_def dict_set_new [OF new] v)
  with Cons.IH [of "s\<lparr>env_vars := env_vars s @ [v]\<rparr>"] Cons.prems show ?case by (simp add: v)
qed simp

lemma parse_args:
  assumes "pstate s = COMMAND" "current_command s = Some (Command c)"
    "list_all (\<lambda>arg. arg \<notin> set operators) args"
  shows "for_each parse_step args s = Inr (s\<lparr>current_command := Some (Command (c\<lparr>cmd_argv := cmd_argv c @ args\<rparr>))\<rparr>)"
  using assms
proof (induction args arbitrary: s c)
  case (Cons arg args)
  let ?c = "c\<lparr>cmd_argv := cmd_argv c @ [arg]\<rparr>"
  have "parse_step arg s = Inr (s\<lparr>current_command := Some (Command ?c)\<rparr>)"
    using Cons.prems by (simp add: parser_defs operators_def)
  with Cons.IH [of "s\<lparr>current_command := Some (Command ?c)\<rparr>" ?c] Cons.prems show ?case by simp
qed simp

lemma parse_command_tokens:
  assumes "wf_command c" "pstate s = BEGIN" "current_command s = None" "env_vars s = []"
  shows "for_each parse_step (command_tokens c) s =
    Inr (s\<lparr>current_command := Some (Command (if cmd_stdout c = Some PIPE then c\<lparr>cmd_stdout := None\<rparr> else c)),
      pstate := COMMAND\<rparr>)"
proof -
  define vars where "vars = (case cmd_env_vars c of None \<Rightarrow> [] | Some vars \<Rightarrow> vars)"
  define args where "args = tl (cmd_argv c)"
  have argv: "cmd_argv c = cmd_name c # args" "list_all (\<lambda>arg. arg \<notin> set operators) args"
    using assms(1) by (auto simp: wf_command_def args_def)
  have wf: "wf_env_vars vars" "cmd_env_vars c = (if vars = [] then None else Some vars)"
    using assms(1) by (auto simp: wf_command_def vars_def wf_env_vars_def dict_simps split: option.splits)
  define s1 where "s1 = s\<lparr>env_vars := vars\<rparr>"
  have 1: "for_each parse_step (map (\<lambda>(name, val). name @ CHR ''='' # val) vars) s = Inr s1"
    using parse_env_vars [of s vars] assms wf(1) by (simp add: s1_def)
  define c2 where "c2 = (new_command (cmd_name c))\<lparr>cmd_env_vars := cmd_env_vars c\<rparr>"
  define s2 where "s2 = s\<lparr>current_command := Some (Command c2), pstate := COMMAND\<rparr>"
  have 2: "parse_step (cmd_name c) s1 = Inr s2"
    using assms wf(2) by (auto simp: wf_command_def parse_step_def step_begin_def s1_def s2_def c2_def
        new_command_def Let_def)
  define c3 where "c3 = c2\<lparr>cmd_argv := cmd_argv c\<rparr>"
  define s3 where "s3 = s2\<lparr>current_command := Some (Command c3)\<rparr>"
  have 3: "for_each parse_step args s2 = Inr s3"
    using parse_args [of s2 c2 args] argv by (simp add: s2_def s3_def c3_def c2_def new_command_def)
  have "command_tokens c = map (\<lambda>(name, val). name @ CHR ''='' # val) vars @ cmd_name c # args @
      (case cmd_stdin c of None \<Rightarrow> [] | Some path \<Rightarrow> [''<'', path]) @
      redirect_tokens ''>'' (cmd_stdout c) @ redirect_tokens ''2>'' (cmd_stderr c)"
    by (simp add: command_tokens_def vars_def argv)
  moreover have "for_each parse_step ((case cmd_stdin c of None \<Rightarrow> [] | Some path \<Rightarrow> [''<'', path]) @
      redirect_tokens ''>'' (cmd_stdout c) @ redirect_tokens ''2>'' (cmd_stderr c)) s3 =
    Inr (s\<lparr>current_command := Some (Command (if cmd_stdout c = Some PIPE then c\<lparr>cmd_stdout := None\<rparr> else c)),
      pstate := COMMAND\<rparr>)"
    using assms(1,4)
    by (cases c) (auto simp: wf_command_def redirect_tokens_def parser_defs s3_def s2_def c3_def c2_def
        new_command_def split: option.splits redirect.splits)
  ultimately show ?thesis using 1 2 3 by simp
qed


lemma parse_before:
  assumes "wf_before n operator" "pstate s = BEGIN" "current_command s = None" "env_vars s = []"
  shows "for_each parse_step (node_tokens n @ node_tokens operator) s =
    Inr (s\<lparr>pipeline := pipeline s @ [n, operator]\<rparr>)"
proof (cases n)
  case (Command c)
  with assms(1) have wf: "wf_command c" by (cases operator) auto
  let ?c = "if cmd_stdout c = Some PIPE then c\<lparr>cmd_stdout := None\<rparr> else c"
  have tokens: "for_each parse_step (command_tokens c) s =
      Inr (s\<lparr>current_command := Some (Command ?c), pstate := COMMAND\<rparr>)"
    using wf assms(2-4) by (rule parse_command_tokens)
  have "for_each parse_step (node_tokens operator) (s\<lparr>current_command := Some (Command ?c), pstate := COMMAND\<rparr>) =
      Inr (s\<lparr>pipeline := pipeline s @ [n, operator]\<rparr>)"
    using assms Command by (cases operator; cases c; cases s) (auto simp: node_tokens_def parser_defs)
  with tokens Command show ?thesis by (simp add: node_tokens_def)
next
  case (Chdir d)
  with assms show ?thesis
    by (cases operator; cases s) (auto simp: node_tokens_def parser_defs env_var_match_def is_alnum_us_def
        is_digit_def split: option.splits)
qed (use assms in auto)

lemma parse_last:
  assumes "wf_last n" "pstate s = BEGIN" "current_command s = None" "env_vars s = []"
  shows "res_bind (for_each parse_step (node_tokens n) s) (\<lambda>s.
      res_bind (commit_command s) (\<lambda>s. Inr (pipeline s))) = Inr (pipeline s @ [n])"
proof (cases n)
  case (Command c)
  with assms(1) have wf: "wf_command c" "cmd_stdout c \<noteq> Some PIPE" by auto
  with parse_command_tokens [OF wf(1) assms(2-4)] Command show ?thesis
    by (simp add: node_tokens_def commit_command_def)
next
  case (Chdir d)
  with assms show ?thesis
    by (cases s) (auto simp: node_tokens_def parser_defs env_var_match_def is_alnum_us_def
        is_digit_def split: option.splits)
qed (use assms in auto)

lemma parse_unparse_from:
  assumes "wf_pipeline nodes" "pstate s = BEGIN" "current_command s = None" "env_vars s = []"
  shows "res_bind (for_each parse_step (unparse nodes) s) (\<lambda>s.
      res_bind (commit_command s) (\<lambda>s. Inr (pipeline s))) = Inr (pipeline s @ nodes)"
  using assms
proof (induction nodes arbitrary: s rule: wf_pipeline.induct)
  case (2 n)
  then show ?case using parse_last [of n s] by (simp add: unparse_def)
next
  case (3 n operator nodes)
  have "for_each parse_step (node_tokens n @ node_tokens operator) s =
      Inr (s\<lparr>pipeline := pipeline s @ [n, operator]\<rparr>)"
    using 3 by (intro parse_before) auto
  moreover have "unparse (n # operator # nodes) = (node_tokens n @ node_tokens operator) @ unparse nodes"
    by (simp add: unparse_def)
  ultimately have "for_each parse_step (unparse (n # operator # nodes)) s =
      for_each parse_step (unparse nodes) (s\<lparr>pipeline := pipeline s @ [n, operator]\<rparr>)"
    by (simp only: for_each_append [of _ "_ @ _"] res_bind.simps)
  with "3.IH" [of "s\<lparr>pipeline := pipeline s @ [n, operator]\<rparr>"] "3.prems" show ?case by simp
qed simp

section \<open>A structured reading of pipelines\<close>

text \<open>
  A job is what stands between \<open>&&\<close> and \<open>||\<close>: commands joined by \<open>|\<close>, each perhaps behind a
  \<open>cd\<close>. The operators associate to the right: what follows an operator is skipped as a whole.
\<close>

datatype script = Job "node list" | AndThen "node list" script | OrElse "node list" script

fun job_cons :: "node list \<Rightarrow> script \<Rightarrow> script" where
  "job_cons ns (Job j) = Job (ns @ j)"
| "job_cons ns (AndThen j s) = AndThen (ns @ j) s"
| "job_cons ns (OrElse j s) = OrElse (ns @ j) s"

fun script_of :: "node list \<Rightarrow> script" where
  "script_of (Chdir d # operator # nodes) = job_cons [Chdir d] (script_of nodes)"
| "script_of (Command c # Pipe # nodes) = job_cons [Command c] (script_of nodes)"
| "script_of (Command c # And # nodes) = AndThen [Command c] (script_of nodes)"
| "script_of (Command c # Or # nodes) = OrElse [Command c] (script_of nodes)"
| "script_of nodes = Job nodes"

fun start_job ::
  "('w, 'p, 'f) os \<Rightarrow> bool \<Rightarrow> node list \<Rightarrow> ('p, 'f) run_state \<Rightarrow> ('w, ('p, 'f) run_state) io" where
  "start_job os verbose [] st = io_return st"
| "start_job os verbose (Chdir d # ns) st =
     start_job os verbose ns
       (add_display verbose (''cd '' @ the d @ '' &&'') (st\<lparr>cwd := path_join (cwd st) (the d)\<rparr>))"
| "start_job os verbose (Command c # ns) st =
     io_bind (start_command os verbose c st) (\<lambda>st.
       if ns = [] then io_return st
       else start_job os verbose ns (st\<lparr>in_pipe := True, piped_display := piped_display st @ [''|'']\<rparr>))"
| "start_job os verbose (operator # ns) st = start_job os verbose ns st"

text \<open>The exit code of a job is that of its last command.\<close>

fun wait_all :: "('w, 'p, 'f) os \<Rightarrow> 'p list \<Rightarrow> int \<Rightarrow> ('w, int) io" where
  "wait_all os [] code = io_return code"
| "wait_all os (p # ps) code = io_bind (os_wait os p) (wait_all os ps)"

fun exec_script :: "('w, 'p, 'f) os \<Rightarrow> script \<Rightarrow> ('p, 'f) run_state \<Rightarrow> ('w, int option) io" where
  "exec_script os (Job j) st =
     io_bind (start_job os False j st) (\<lambda>st.
     io_bind (io_finally (wait_all os (piped_commands st) 0) (close_files os (files_to_close st))) (\<lambda>code.
       io_return (Some code)))"
| "exec_script os (AndThen j s) st =
     io_bind (start_job os False j st) (\<lambda>st.
     io_bind (io_finally (wait_all os (piped_commands st) 0) (close_files os (files_to_close st))) (\<lambda>code.
       if code \<noteq> 0 then io_return (Some code) else exec_script os s (next_pipe st)))"
| "exec_script os (OrElse j s) st =
     io_bind (start_job os False j st) (\<lambda>st.
     io_bind (io_finally (wait_all os (piped_commands st) 0) (close_files os (files_to_close st))) (\<lambda>code.
       if code = 0 then io_return (Some code) else exec_script os s (next_pipe st)))"

text \<open>
  In the verbose mode a script is not run to its end: a single job runs and its line is printed, but after the first
  of several jobs, whatever its exit code, the message cannot be formatted.
\<close>

fun exec_verbose :: "('w, 'p, 'f) os \<Rightarrow> script \<Rightarrow> ('p, 'f) run_state \<Rightarrow> ('w, int option) io" where
  "exec_verbose os (Job j) st =
     io_bind (start_job os True j st) (\<lambda>st.
       io_finally
         (io_bind (wait_all os (piped_commands st) 0) (\<lambda>code w.
            (Inr (Some code), os_print os (join '' '' (piped_display st) @ '': exit code '' @ int_str code) w)))
         (close_files os (files_to_close st)))"
| "exec_verbose os (AndThen j s) st =
     io_bind (start_job os True j st) (\<lambda>st.
     io_bind (io_finally (wait_all os (piped_commands st) 0) (close_files os (files_to_close st))) (\<lambda>code.
       io_raise UnboundLocalError))"
| "exec_verbose os (OrElse j s) st =
     io_bind (start_job os True j st) (\<lambda>st.
     io_bind (io_finally (wait_all os (piped_commands st) 0) (close_files os (files_to_close st))) (\<lambda>code.
       io_raise UnboundLocalError))"

fun runnable :: "node list \<Rightarrow> bool" where
  "runnable [Command c] \<longleftrightarrow> True"
| "runnable (Command c # operator # nodes) \<longleftrightarrow> operator \<in> {Pipe, And, Or} \<and> runnable nodes"
| "runnable (Chdir d # operator # nodes) \<longleftrightarrow> operator = And \<and> d \<noteq> None \<and> runnable nodes"
| "runnable nodes \<longleftrightarrow> False"

lemma first_nonzero_eq:
  "first_nonzero retvals rs = (if \<exists>r \<in> set rs. r \<noteq> 0 then last retvals else 0)"
  by (induction rs) auto

lemma wait_all_retvals:
  "io_bind (io_for_each (\<lambda>cmd retvals. io_bind (os_wait os cmd) (\<lambda>r. io_return (retvals @ [r]))) ps rs)
     (\<lambda>retvals. io_return (if retvals = [] then 0 else last retvals)) =
   wait_all os ps (if rs = [] then 0 else last rs)"
proof (induction ps arbitrary: rs)
  case (Cons p ps)
  have "wait_all os ps = (\<lambda>r. io_bind (io_for_each (\<lambda>cmd retvals. io_bind (os_wait os cmd)
      (\<lambda>r. io_return (retvals @ [r]))) ps (rs @ [r]))
     (\<lambda>retvals. io_return (if retvals = [] then 0 else last retvals)))"
  proof
    show "wait_all os ps r = io_bind (io_for_each (\<lambda>cmd retvals. io_bind (os_wait os cmd)
      (\<lambda>r. io_return (retvals @ [r]))) ps (rs @ [r]))
     (\<lambda>retvals. io_return (if retvals = [] then 0 else last retvals))" for r
      using Cons.IH [of "rs @ [r]"] by simp
  qed
  then show ?case by (simp add: io_bind_assoc io_simps)
qed (simp add: io_simps)

lemma exec_piped_commands_eq: "exec_piped_commands os ps = wait_all os ps 0"
proof -
  have "first_nonzero rs rs = (if rs = [] then 0 else last rs)" for rs
    using last_in_set [of rs] by (auto simp: first_nonzero_eq)
  then show ?thesis
    using wait_all_retvals [of os ps "[]"] by (simp add: exec_piped_commands_def)
qed

lemma job_cons_Chdir:
  "exec_script os (job_cons [Chdir d] s) st = exec_script os s (st\<lparr>cwd := path_join (cwd st) (the d)\<rparr>)"
  "exec_verbose os (job_cons [Chdir d] s) st =
     exec_verbose os s (add_display True (''cd '' @ the d @ '' &&'') (st\<lparr>cwd := path_join (cwd st) (the d)\<rparr>))"
  by (cases s; auto simp: add_display_def)+

lemma first_job: "runnable nodes \<Longrightarrow> script_of nodes \<noteq> Job [] \<and> (\<forall>s. script_of nodes \<noteq> AndThen [] s \<and> script_of nodes \<noteq> OrElse [] s)"
  by (induction nodes rule: script_of.induct) (auto elim: job_cons.elims split: script.splits)

lemma job_cons_Command:
  assumes "s \<noteq> Job []" "\<forall>s'. s \<noteq> AndThen [] s' \<and> s \<noteq> OrElse [] s'"
  shows "exec_script os (job_cons [Command c] s) st =
    io_bind (start_command os False c st) (\<lambda>st.
      exec_script os s (st\<lparr>in_pipe := True, piped_display := piped_display st @ [''|'']\<rparr>))"
    and "exec_verbose os (job_cons [Command c] s) st =
    io_bind (start_command os True c st) (\<lambda>st.
      exec_verbose os s (st\<lparr>in_pipe := True, piped_display := piped_display st @ [''|'']\<rparr>))"
  using assms by (cases s; auto simp: io_bind_assoc)+

lemma run_loop_script:
  "runnable nodes \<Longrightarrow> run_loop os verbose nodes st =
    (if verbose then exec_verbose os (script_of nodes) st else exec_script os (script_of nodes) st)"
proof (induction nodes arbitrary: st rule: runnable.induct)
  case (1 c)
  have "io_finally (io_bind m (\<lambda>r w. (Inr (Some r), w))) fin = io_bind (io_finally m fin) (\<lambda>r. io_return (Some r))"
    for m :: "('a, int) io" and fin
    by (auto simp: io_finally_def io_bind_def io_return_def fun_eq_iff split: prod.splits sum.splits)
  then show ?case by (simp add: exec_piped_commands_eq io_simps)
next
  case (2 c operator nodes)
  then have r: "runnable nodes" by simp
  consider "operator = Pipe" | "operator = And" | "operator = Or" using "2.prems" by auto
  then show ?case
  proof cases
    case 1
    with 2 show ?thesis using first_job [OF r] by (simp add: job_cons_Command)
  qed (use 2 in \<open>cases verbose; simp add: finish_pipe_def exec_piped_commands_eq io_simps cong: if_cong\<close>)+
next
  case (3 d operator nodes)
  then show ?case by (auto simp: job_cons_Chdir add_display_def)
qed auto

section \<open>A tracing operating system\<close>

text \<open>
  An operating system that refuses nothing and only records what is asked of it: handles and processes
  are numbered by the place of their event in the log, and \<open>codes\<close> gives each process its exit code.
\<close>

datatype event = Opened nat | Closed nat | Started nat | Waited nat | Printed string

definition trace_os :: "(nat \<Rightarrow> int) \<Rightarrow> (event list, nat, nat) os" where
  "trace_os codes =
     \<lparr>os_environ = [], os_key_order = (\<lambda>ks. ks),
      os_open_read = (\<lambda>path log. (Inr (length log), log @ [Opened (length log)])),
      os_open_write = (\<lambda>path log. (Inr (length log), log @ [Opened (length log)])),
      os_close = (\<lambda>f log. log @ [Closed f]),
      os_popen = (\<lambda>spawn log. (Inr (length log), log @ [Started (length log)])),
      os_wait = (\<lambda>p log. (Inr (codes p), log @ [Waited p])),
      os_print = (\<lambda>text log. log @ [Printed text])\<rparr>"

lemma trace_os_simps [simp]:
  "os_open_read (trace_os codes) path log = (Inr (length log), log @ [Opened (length log)])"
  "os_open_write (trace_os codes) path log = (Inr (length log), log @ [Opened (length log)])"
  "os_close (trace_os codes) f log = log @ [Closed f]"
  "os_popen (trace_os codes) spawn log = (Inr (length log), log @ [Started (length log)])"
  "os_wait (trace_os codes) p log = (Inr (codes p), log @ [Waited p])"
  "os_print (trace_os codes) text log = log @ [Printed text]"
  by (simp_all add: trace_os_def)

definition opened :: "event list \<Rightarrow> nat list" where
  "opened log = concat (map (\<lambda>e. case e of Opened f \<Rightarrow> [f] | _ \<Rightarrow> []) log)"

definition closed :: "event list \<Rightarrow> nat list" where
  "closed log = concat (map (\<lambda>e. case e of Closed f \<Rightarrow> [f] | _ \<Rightarrow> []) log)"

definition started :: "event list \<Rightarrow> nat list" where
  "started log = concat (map (\<lambda>e. case e of Started p \<Rightarrow> [p] | _ \<Rightarrow> []) log)"

definition waited :: "event list \<Rightarrow> nat list" where
  "waited log = concat (map (\<lambda>e. case e of Waited p \<Rightarrow> [p] | _ \<Rightarrow> []) log)"

lemmas trace_defs = opened_def closed_def started_def waited_def

lemma trace_append [simp]:
  "opened (l @ l') = opened l @ opened l'" "closed (l @ l') = closed l @ closed l'"
  "started (l @ l') = started l @ started l'" "waited (l @ l') = waited l @ waited l'"
  by (simp_all add: trace_defs)

lemma trace_single [simp]:
  "opened [e] = (case e of Opened f \<Rightarrow> [f] | _ \<Rightarrow> [])" "closed [e] = (case e of Closed f \<Rightarrow> [f] | _ \<Rightarrow> [])"
  "started [e] = (case e of Started p \<Rightarrow> [p] | _ \<Rightarrow> [])" "waited [e] = (case e of Waited p \<Rightarrow> [p] | _ \<Rightarrow> [])"
  by (simp_all add: trace_defs)

lemma trace_waited [simp]:
  "opened (map Waited ps) = []" "closed (map Waited ps) = []" "started (map Waited ps) = []"
  "waited (map Waited ps) = ps"
  by (induction ps) (simp_all add: trace_defs)

definition real_handles :: "'f handle list \<Rightarrow> 'f list" where
  "real_handles fs = concat (map (\<lambda>f. case f of DevNull \<Rightarrow> [] | Handle f \<Rightarrow> [f]) fs)"

definition trace_inv :: "(nat, nat) run_state \<Rightarrow> event list \<Rightarrow> bool" where
  "trace_inv st log \<longleftrightarrow> opened log = closed log @ real_handles (files_to_close st) \<and>
     started log = waited log @ piped_commands st"

definition released :: "event list \<Rightarrow> bool" where
  "released log \<longleftrightarrow> opened log = closed log \<and> started log = waited log"

lemma trace_inv_display [simp]: "trace_inv (add_display verbose text st) log = trace_inv st log"
  by (simp add: trace_inv_def add_display_def)

lemma close_files_trace:
  "opened (close_files (trace_os codes) fs log) = opened log \<and>
   closed (close_files (trace_os codes) fs log) = closed log @ real_handles fs \<and>
   started (close_files (trace_os codes) fs log) = started log \<and>
   waited (close_files (trace_os codes) fs log) = waited log"
proof (induction fs arbitrary: log)
  case (Cons f fs)
  have step: "close_files (trace_os codes) (f # fs) log =
      close_files (trace_os codes) fs (case f of DevNull \<Rightarrow> log | Handle f \<Rightarrow> log @ [Closed f])"
    by (cases f) (simp_all add: close_files_def trace_os_def)
  show ?case
    unfolding step using Cons by (cases f) (simp_all add: real_handles_def)
qed (simp add: close_files_def real_handles_def)

lemma wait_all_trace:
  "wait_all (trace_os codes) ps r log =
     (Inr (if ps = [] then r else codes (last ps)), log @ map Waited ps)"
  by (induction ps arbitrary: r log) (simp_all add: io_basic io_bind_def trace_os_def)

lemma finish_pipe_trace:
  assumes "trace_inv st log" "piped_commands st \<noteq> []"
  shows "\<exists>log'. finish_pipe (trace_os codes) st log = (Inr (codes (last (waited log'))), log') \<and> released log'"
proof -
  let ?log = "close_files (trace_os codes) (files_to_close st) (log @ map Waited (piped_commands st))"
  have "waited ?log = waited log @ piped_commands st" "released ?log"
    using assms(1) by (auto simp: released_def trace_inv_def close_files_trace)
  moreover have "finish_pipe (trace_os codes) st log = (Inr (codes (last (piped_commands st))), ?log)"
    using assms(2) by (simp add: finish_pipe_def exec_piped_commands_eq io_finally_def wait_all_trace)
  ultimately show ?thesis using assms(2) by simp
qed

lemma stdin_for_trace:
  "stdin_for (trace_os codes) verbose cmd st log = (Inr (x, st'), log') \<Longrightarrow> trace_inv st log \<Longrightarrow> trace_inv st' log'"
  by (auto simp: stdin_for_def io_basic io_bind_def trace_inv_def add_display_def real_handles_def Let_def
      split: if_splits option.splits)

lemma open_out_file_trace:
  "trace_inv st log \<Longrightarrow> open_out_file (trace_os codes) path log = (Inr f, log') \<Longrightarrow>
   trace_inv (st\<lparr>files_to_close := files_to_close st @ [f]\<rparr>) log'"
  by (auto simp: open_out_file_def io_basic io_bind_def trace_inv_def real_handles_def split: if_splits)

lemma stdout_for_trace:
  "stdout_for (trace_os codes) verbose cmd st log = (Inr (x, st'), log') \<Longrightarrow> trace_inv st log \<Longrightarrow> trace_inv st' log'"
  by (auto simp: stdout_for_def io_bind_eq_Inr io_basic open_out_file_trace split: option.splits redirect.splits)

lemma stderr_for_trace:
  "stderr_for (trace_os codes) verbose cmd st log = (Inr (x, st'), log') \<Longrightarrow> trace_inv st log \<Longrightarrow> trace_inv st' log'"
  by (auto simp: stderr_for_def io_bind_eq_Inr io_basic open_out_file_trace split: option.splits redirect.splits)

lemma start_command_trace:
  assumes "trace_inv st log" "start_command (trace_os codes) verbose cmd st log = (Inr st', log')"
  shows "trace_inv st' log' \<and> piped_commands st' \<noteq> []"
proof -
  let ?st = "add_display verbose (show_command (trace_os codes) cmd) st"
  obtain i st1 log1 ou st2 log2 er st3 log3 where
    1: "stdin_for (trace_os codes) verbose cmd ?st log = (Inr (i, st1), log1)" and
    2: "stdout_for (trace_os codes) verbose cmd st1 log1 = (Inr (ou, st2), log2)" and
    3: "stderr_for (trace_os codes) verbose cmd st2 log2 = (Inr (er, st3), log3)" and
    4: "st' = st3\<lparr>piped_commands := piped_commands st3 @ [length log3]\<rparr>" "log' = log3 @ [Started (length log3)]"
    using assms(2) by (auto simp: start_command_def Let_def io_bind_eq_Inr io_return_def)
  have "trace_inv ?st log" using assms(1) by simp
  from stdin_for_trace [OF 1 this] stdout_for_trace [OF 2] stderr_for_trace [OF 3]
  have "trace_inv st3 log3" by blast
  with 4 show ?thesis by (simp add: trace_inv_def)
qed

definition safe_result :: "(nat \<Rightarrow> int) \<Rightarrow> int option result \<times> event list \<Rightarrow> bool" where
  "safe_result codes r \<longleftrightarrow>
     (case r of (Inr (Some code), log) \<Rightarrow> released log \<and> code = codes (last (waited log)) | _ \<Rightarrow> True)"

lemma safe_result_bind:
  "(\<And>a v. m w = (Inr a, v) \<Longrightarrow> safe_result codes (f a v)) \<Longrightarrow> safe_result codes (io_bind m f w)"
  by (auto simp: io_bind_def safe_result_def split: prod.splits sum.splits)

lemma trace_inv_next: "released log \<Longrightarrow> trace_inv (next_pipe st) log"
  by (simp add: trace_inv_def released_def next_pipe_def real_handles_def)

lemma run_loop_trace:
  "trace_inv st log \<Longrightarrow> safe_result codes (run_loop (trace_os codes) verbose nodes st log)"
proof (induction "trace_os codes" verbose nodes st arbitrary: log rule: run_loop.induct)
  case (4 verbose cmd st)
  show ?case unfolding run_loop.simps
  proof (rule safe_result_bind)
    fix st' log' assume "start_command (trace_os codes) verbose cmd st log = (Inr st', log')"
    from start_command_trace [OF "4.prems" this] have inv: "trace_inv st' log'" "piped_commands st' \<noteq> []" by auto
    then show "safe_result codes (io_finally (io_bind (exec_piped_commands (trace_os codes) (piped_commands st'))
        (\<lambda>retval w. (Inr (Some retval),
             if verbose then os_print (trace_os codes) (join '' '' (piped_display st') @ '': exit code '' @ int_str retval) w
             else w))) (close_files (trace_os codes) (files_to_close st')) log')"
      by (auto simp: safe_result_def released_def exec_piped_commands_eq io_finally_def io_bind_def wait_all_trace
          close_files_trace trace_inv_def)
  qed
next
  case (5 verbose cmd next_node nodes st)
  show ?case unfolding run_loop.simps
  proof (rule safe_result_bind)
    fix st' log' assume "start_command (trace_os codes) verbose cmd st log = (Inr st', log')"
    from start_command_trace [OF "5.prems" this] have inv: "trace_inv st' log'" "piped_commands st' \<noteq> []" by auto
    from finish_pipe_trace [OF this] obtain log2 where fin:
      "finish_pipe (trace_os codes) st' log' = (Inr (codes (last (waited log2))), log2)" "released log2" by blast
    note fin_eq = io_bind_Inr [where m = "finish_pipe (trace_os codes) st'" and w = log', OF fin(1)]
    show "safe_result codes ((case next_node of
         Pipe \<Rightarrow> run_loop (trace_os codes) verbose nodes (st'\<lparr>in_pipe := True, piped_display := piped_display st' @ [''|'']\<rparr>)
       | And \<Rightarrow> io_bind (finish_pipe (trace_os codes) st') (\<lambda>this_retval.
             if verbose then io_raise UnboundLocalError
             else if this_retval \<noteq> 0 then io_return (Some this_retval)
             else run_loop (trace_os codes) verbose nodes (next_pipe st'))
       | Or \<Rightarrow> io_bind (finish_pipe (trace_os codes) st') (\<lambda>this_retval.
             if verbose then io_raise UnboundLocalError
             else if this_retval = 0 then io_return (Some this_retval)
             else run_loop (trace_os codes) verbose nodes (next_pipe st'))
       | _ \<Rightarrow> run_loop (trace_os codes) verbose nodes st') log')"
    proof (cases next_node)
      case Pipe
      then show ?thesis using inv(1) 5 by (simp add: trace_inv_def)
    next
      case And
      then show ?thesis
        using fin 5 trace_inv_next [OF fin(2)] by (auto simp: fin_eq io_basic safe_result_def)
    next
      case Or
      then show ?thesis
        using fin 5 trace_inv_next [OF fin(2)] by (auto simp: fin_eq io_basic safe_result_def)
    qed (use inv(1) 5 in simp_all)
  qed
next
  case (3 verbose d next_op nodes st)
  then show ?case by (auto simp: io_basic safe_result_def trace_inv_def add_display_def split: option.splits)
qed (simp_all add: io_basic safe_result_def)


lemma parse_printed: "wf_pipeline nodes \<Longrightarrow> parse (unparse nodes) = Inr nodes"
  using parse_unparse_from [of nodes init_parser] by (simp add: parse_def init_parser_def)

section \<open>Properties\<close>

text \<open>C12: \<open>parse\<close> either raises an \<open>AssertionError\<close> or returns a pipeline of the right shape: commands
  and \<open>cd\<close>s separated by operators, standard output set to \<open>PIPE\<close> exactly before a \<open>|\<close>, arguments that
  are no operators, variables with proper names and values; and the tokens printed from it parse to the
  same pipeline.\<close>

theorem parse_well_formed:
  "case parse tokens of
     Inl e \<Rightarrow> e = AssertionError
   | Inr nodes \<Rightarrow> wf_pipeline nodes \<and> parse (unparse nodes) = Inr nodes"
proof (cases "for_each parse_step tokens init_parser")
  case (Inl e)
  with for_each_parse_error [OF Inl init_parser_inv] show ?thesis by (simp add: parse_def)
next
  case (Inr s)
  have inv: "parser_inv s" by (rule for_each_parse_inv [OF Inr init_parser_inv])
  show ?thesis
  proof (cases "current_command s")
    case None
    with Inr show ?thesis by (simp add: parse_def commit_command_def)
  next
    case (Some n)
    with inv have "wf_last n" "wf_prefix (pipeline s)"
      by (auto simp: parser_inv_def split: parse_state.splits)
    then have "wf_pipeline (pipeline s @ [n])" by (rule wf_pipeline_snoc [rotated])
    moreover have "parse tokens = Inr (pipeline s @ [n])"
      using Inr Some by (simp add: parse_def commit_command_def)
    ultimately show ?thesis using parse_printed by simp
  qed
qed

text \<open>every pipeline of that shape is the parse of its printed tokens, so that the parser reaches all of
  them: environment settings, redirections, \<open>cd\<close>, pipes and both conditional operators.\<close>

theorem parse_unparse:
  assumes "wf_pipeline nodes"
  shows "parse (unparse nodes) = Inr nodes"
  using assms by (rule parse_printed)

lemma parse_unparse_witness:
  "parse [''A=1'', ''ls'', ''-l'', ''|'', ''cat'', ''>'', ''out'', ''2>&1''] =
   Inr [Command ((new_command ''ls'')\<lparr>cmd_argv := [''ls'', ''-l''], cmd_stdout := Some PIPE,
          cmd_env_vars := Some [(''A'', ''1'')]\<rparr>), Pipe,
        Command ((new_command ''cat'')\<lparr>cmd_stdout := Some (Path ''out''), cmd_stderr := Some STDOUT\<rparr>)]"
proof -
  let ?nodes = "[Command ((new_command ''ls'')\<lparr>cmd_argv := [''ls'', ''-l''], cmd_stdout := Some PIPE,
          cmd_env_vars := Some [(''A'', ''1'')]\<rparr>), Pipe,
        Command ((new_command ''cat'')\<lparr>cmd_stdout := Some (Path ''out''), cmd_stderr := Some STDOUT\<rparr>)]"
  have "wf_pipeline ?nodes" by code_simp
  moreover have "unparse ?nodes = [''A=1'', ''ls'', ''-l'', ''|'', ''cat'', ''>'', ''out'', ''2>&1'']" by code_simp
  ultimately show ?thesis using parse_unparse [of ?nodes] by simp
qed

text \<open>C13: on a pipeline whose nodes alternate properly, with a command last, the loop of \<open>run\<close> over the
  flat list computes, without the verbose mode, what the nested script computes: a job's commands are all started before any is waited
  for, its files are closed then, its exit code is that of its last command whatever the others return, and
  \<open>&&\<close> and \<open>||\<close> skip all that follows, not only the next job; for every operating system. In the verbose mode, which
  \<open>waf -v\<close> asks for, it computes this only for a single job, whose line it prints; with several jobs it runs the first one and raises an
  \<open>UnboundLocalError\<close> after it.\<close>

theorem run_refines_script:
  assumes "runnable nodes"
  shows "run os False nodes w = exec_script os (script_of nodes) init_run w \<and>
    run os True nodes w = exec_verbose os (script_of nodes) init_run w"
  by (simp add: run_def run_loop_script [OF assms])

lemma run_refines_script_witness:
  "case [Command (new_command ''a''), And, Command (new_command ''b''), Or, Command (new_command ''c'')] of nodes \<Rightarrow>
     fst (run (trace_os (\<lambda>p. if p = 0 then 1 else 0)) False nodes []) = Inr (Some 1) \<and>
     fst (run (trace_os (\<lambda>p. if p = 0 then 1 else 0)) True nodes []) = Inl UnboundLocalError"
proof -
  let ?nodes = "[Command (new_command ''a''), And, Command (new_command ''b''), Or, Command (new_command ''c'')]"
  have "fst (exec_script (trace_os (\<lambda>p. if p = 0 then 1 else 0)) (script_of ?nodes) init_run []) = Inr (Some 1)"
    "fst (exec_verbose (trace_os (\<lambda>p. if p = 0 then 1 else 0)) (script_of ?nodes) init_run []) = Inl UnboundLocalError"
    by code_simp+
  moreover have "runnable ?nodes" by simp
  ultimately show ?thesis
    using run_refines_script [of ?nodes "trace_os (\<lambda>p. if p = 0 then 1 else 0)" "[]"] by simp
qed

text \<open>C14: whenever \<open>run\<close> returns an exit code, every file it opened has been closed, in the order of opening,
  and every process it started has been waited for, and the code is that of the process waited for last.\<close>

theorem run_releases:
  "case run (trace_os codes) verbose nodes [] of
     (Inr (Some code), log) \<Rightarrow> opened log = closed log \<and> started log = waited log \<and> code = codes (last (waited log))
   | _ \<Rightarrow> True"
proof -
  have "trace_inv init_run []" by (simp add: trace_inv_def trace_defs init_run_def real_handles_def)
  from run_loop_trace [OF this, of codes verbose nodes] show ?thesis
    by (auto simp: run_def safe_result_def released_def split: prod.splits sum.splits option.splits)
qed

text \<open>in verbose mode a pipeline whose first operator is \<open>&&\<close> or \<open>||\<close> never returns an exit code: if the
  first command could be started and waited for, an \<open>UnboundLocalError\<close> follows; and a pipeline that ends in
  \<open>cd\<close>, which the parser accepts, raises an \<open>IndexError\<close> in every mode.\<close>

theorem run_failures:
  assumes "operator \<in> {And, Or}"
  shows "(case run os True (Command c # operator # nodes) w of
      (Inl e, w') \<Rightarrow> (case io_bind (start_command os True c init_run) (finish_pipe os) w of
          (Inl e', w'') \<Rightarrow> e = e' \<and> w' = w'' | (Inr code, w'') \<Rightarrow> e = UnboundLocalError \<and> w' = w'')
    | (Inr code, w') \<Rightarrow> False) \<and>
    run os verbose [Chdir d] w = (Inl IndexError, w)"
  using assms by (auto simp: run_def io_bind_def io_raise_def split: prod.splits sum.splits)

lemma run_failures_witness:
  "fst (run (trace_os (\<lambda>p. 0)) True [Command (new_command ''a''), And, Command (new_command ''b'')] []) =
    Inl UnboundLocalError \<and> parse [''cd'', ''x''] = Inr [Chdir (Some ''x'')] \<and>
   run (trace_os (\<lambda>p. 0)) False [Chdir (Some ''x'')] [] = (Inl IndexError, [])"
proof -
  have "io_bind (start_command (trace_os (\<lambda>p. 0)) True (new_command ''a'') init_run)
      (finish_pipe (trace_os (\<lambda>p. 0))) [] = (Inr 0, [Started 0, Waited 0])" by code_simp
  moreover have "parse [''cd'', ''x''] = Inr [Chdir (Some ''x'')]" by code_simp
  ultimately show ?thesis
    using run_failures [where operator = And and os = "trace_os (\<lambda>p. 0)" and c = "new_command ''a''"
        and nodes = "[Command (new_command ''b'')]" and w = "[]" and verbose = False and d = "Some ''x''"]
    by (auto split: prod.splits sum.splits)
qed

end
