(* ===== verification/Py_World.thy ===== *)
theory Py_World
  imports Py_IO
begin

text \<open>
  The world of the scripts that read and write files: the files by path, the directories, the console (the
  lines that standard output, standard error and waf's log put on the terminal, in order), the environment
  variables, and a part \<open>ext\<close> for what else the programs they start keep.
  Opening a file for writing succeeds; opening a missing one for reading raises \<open>IOError\<close>.
\<close>

record 'e world =
  files :: "string \<rightharpoonup> string"
  dirs :: "string list"
  console :: "string list"
  environ :: "(string, string) dict"
  ext :: 'e

definition IOError :: py_exn where
  "IOError = PyException ''IOError''"

definition OSError :: py_exn where
  "OSError = PyException ''OSError''"

definition SystemExit :: "int \<Rightarrow> py_exn" where
  "SystemExit n = PyException (''SystemExit '' @ int_str n)"

definition path_exists :: "string \<Rightarrow> 'e world \<Rightarrow> bool" where
  "path_exists p w \<longleftrightarrow> files w p \<noteq> None \<or> p \<in> set (dirs w)"

definition print_line :: "string \<Rightarrow> ('e world, unit) io" where
  "print_line text w = (Inr (), w\<lparr>console := console w @ [text]\<rparr>)"

definition write_file :: "string \<Rightarrow> string \<Rightarrow> ('e world, unit) io" where
  "write_file p text w = (Inr (), w\<lparr>files := (files w)(p \<mapsto> text)\<rparr>)"

definition append_file :: "string \<Rightarrow> string \<Rightarrow> ('e world, unit) io" where
  "append_file p text w =
     (Inr (), w\<lparr>files := (files w)(p \<mapsto> (case files w p of None \<Rightarrow> [] | Some old \<Rightarrow> old) @ text)\<rparr>)"

definition read_file :: "string \<Rightarrow> ('e world, string) io" where
  "read_file p w = (case files w p of None \<Rightarrow> (Inl IOError, w) | Some text \<Rightarrow> (Inr text, w))"

definition make_dirs :: "string \<Rightarrow> ('e world, unit) io" where
  "make_dirs p w = (Inr (), w\<lparr>dirs := p # dirs w\<rparr>)"

definition remove_tree :: "string \<Rightarrow> ('e world, unit) io" where
  "remove_tree p w =
     (Inr (), w\<lparr>files := (\<lambda>q. if prefix (p @ ''/'') q then None else files w q),
               dirs := filter (\<lambda>q. q \<noteq> p \<and> \<not> prefix (p @ ''/'') q) (dirs w)\<rparr>)"

definition io_when :: "bool \<Rightarrow> ('w, unit) io \<Rightarrow> ('w, unit) io" where
  "io_when b m = (if b then m else io_return ())"

definition io_seq :: "('w, 'a) io \<Rightarrow> ('w, 'b) io \<Rightarrow> ('w, 'b) io" where
  "io_seq m n = io_bind m (\<lambda>_. n)"

definition io_get :: "('w \<Rightarrow> 'a) \<Rightarrow> ('w, 'a) io" where
  "io_get f w = (Inr (f w), w)"

lemmas world_defs = print_line_def write_file_def append_file_def read_file_def make_dirs_def
  remove_tree_def io_when_def io_seq_def io_get_def

text \<open>The lines of a text as iteration over a file gives them: with their newlines.\<close>

fun file_lines :: "string \<Rightarrow> string list" where
  "file_lines [] = []"
| "file_lines (c # cs) =
     (if c = CHR 0x0A then [c] # file_lines cs
      else case file_lines cs of
        [] \<Rightarrow> [[c]]
      | l # ls \<Rightarrow> (c # l) # ls)"

lemma concat_file_lines [simp]: "concat (file_lines s) = s"
  by (induction s) (auto split: list.splits)

lemma file_lines_line:
  "CHR 0x0A \<notin> set l \<Longrightarrow> file_lines (l @ [CHR 0x0A] @ s) = (l @ [CHR 0x0A]) # file_lines s"
  by (induction l) auto

text \<open>\<open>needle in text\<close> on strings.\<close>

definition occurs_in :: "string \<Rightarrow> string \<Rightarrow> bool" where
  "occurs_in needle text \<longleftrightarrow> list_ex (\<lambda>t. prefix needle t) (suffixes text)"

lemma occurs_in_iff: "occurs_in needle text \<longleftrightarrow> (\<exists>us vs. text = us @ needle @ vs)"
proof
  assume "occurs_in needle text"
  then show "\<exists>us vs. text = us @ needle @ vs"
    unfolding occurs_in_def list_ex_iff prefix_def by (auto simp: suffix_def) metis
next
  assume "\<exists>us vs. text = us @ needle @ vs"
  then obtain us vs where "text = us @ needle @ vs" by blast
  then have "suffix (needle @ vs) text" "prefix needle (needle @ vs)" by (auto simp: suffix_def)
  then show "occurs_in needle text" unfolding occurs_in_def list_ex_iff by (metis in_set_suffixes)
qed

section \<open>Scanning\<close>

text \<open>
  Pieces of patterns: a fixed text and \<open>[0-9]+\<close>, with what is left of the string after them.
\<close>

definition expect :: "string \<Rightarrow> string \<Rightarrow> string option" where
  "expect p s = (if prefix p s then Some (drop (length p) s) else None)"

definition number :: "string \<Rightarrow> (nat \<times> string) option" where
  "number s =
     (let ds = takeWhile is_digit s in
      if ds = [] then None else Some (digits_value ds, dropWhile is_digit s))"

lemma expect_append: "expect p (p @ s) = Some s"
  by (simp add: expect_def)

lemma number_nat_str:
  assumes "s = [] \<or> \<not> is_digit (hd s)"
  shows "number (nat_str n @ s) = Some (n, s)"
proof -
  have "takeWhile is_digit (nat_str n @ s) = nat_str n" "dropWhile is_digit (nat_str n @ s) = s"
    using nat_str_digits [of n] assms
    by (cases s; auto simp: takeWhile_append dropWhile_append list_all_iff)+
  then show ?thesis by (simp add: number_def digits_value_nat_str)
qed

end
