(* ===== verification/Config_Files.thy ===== *)
theory Config_Files
  imports Py_World
begin

text \<open>
  Reading Python lists and booleans out of configuration files, \<open>utils.py\<close>, and the list of examples
  to run, \<open>parse_examples_to_run_file\<close> of \<open>test.py\<close>. The files are evaluated by \<open>eval\<close>, a
  parameter here (the interpreter applied to the text of a right-hand side).
\<close>

section \<open>Values in files\<close>

text \<open>\<open>s.split('=', 1)[1]\<close>\<close>

definition after_equals :: "string \<Rightarrow> string result" where
  "after_equals s =
     (case dropWhile (\<lambda>c. c \<noteq> CHR ''='') s of [] \<Rightarrow> Inl IndexError | c # rest \<Rightarrow> Inr rest)"

fun find_list ::
  "(string \<Rightarrow> 'v list result) \<Rightarrow> string \<Rightarrow> string list \<Rightarrow> string \<Rightarrow> bool \<Rightarrow> 'v list result" where
  "find_list eval list_name [] list_string multiline = Inr []"
| "find_list eval list_name (line # lines) list_string multiline =
     (if occurs_in list_name line \<or> multiline then
        let list_string = list_string @ line in
        if CHR '']'' \<notin> set list_string then find_list eval list_name lines list_string True
        else res_bind (after_equals list_string) (\<lambda>s. eval (strip s))
      else find_list eval list_name lines list_string multiline)"

definition get_list_from_file ::
  "(string \<Rightarrow> 'v list result) \<Rightarrow> string \<Rightarrow> string \<Rightarrow> 'e world \<Rightarrow> 'v list result" where
  "get_list_from_file eval file_path list_name w =
     (if path_exists file_path w then
        case files w file_path of
          None \<Rightarrow> Inl IOError
        | Some text \<Rightarrow> find_list eval list_name (file_lines text) [] False
      else Inr [])"

fun find_bool :: "(string \<Rightarrow> bool result) \<Rightarrow> string \<Rightarrow> string list \<Rightarrow> bool option result" where
  "find_bool eval bool_name [] = Inr None"
| "find_bool eval bool_name (line # lines) =
     (if occurs_in bool_name line
      then res_bind (after_equals line) (\<lambda>s. res_bind (eval (strip s)) (\<lambda>b. Inr (Some b)))
      else find_bool eval bool_name lines)"

text \<open>\<open>bool_found\<close> has no value when the file does not exist.\<close>

definition get_bool_from_file ::
  "(string \<Rightarrow> bool result) \<Rightarrow> string \<Rightarrow> string \<Rightarrow> bool \<Rightarrow> 'e world \<Rightarrow> bool result" where
  "get_bool_from_file eval file_path bool_name value_if_missing w =
     (if path_exists file_path w then
        case files w file_path of
          None \<Rightarrow> Inl IOError
        | Some text \<Rightarrow>
            res_bind (find_bool eval bool_name (file_lines text)) (\<lambda>found.
              case found of Some b \<Rightarrow> Inr b | None \<Rightarrow> Inr value_if_missing)
      else Inl UnboundLocalError)"

record config =
  config_file_exists :: bool
  modules_enabled :: "string list"
  examples_enabled :: bool
  tests_enabled :: bool

definition read_config_file ::
  "(string \<Rightarrow> string list result) \<Rightarrow> (string \<Rightarrow> bool result) \<Rightarrow> string \<Rightarrow> 'e world \<Rightarrow> config result" where
  "read_config_file eval_list eval_bool home w =
     (let dot_ns3rc_name = ''.ns3rc'';
          dot_ns3rc_path = (if path_exists dot_ns3rc_name w then dot_ns3rc_name else home @ dot_ns3rc_name) in
      if \<not> path_exists dot_ns3rc_path w then
        Inr \<lparr>config_file_exists = False, modules_enabled = [''all_modules''],
             examples_enabled = False, tests_enabled = False\<rparr>
      else
        res_bind (get_list_from_file eval_list dot_ns3rc_path ''modules_enabled'' w) (\<lambda>mods.
        res_bind (get_bool_from_file eval_bool dot_ns3rc_path ''examples_enabled'' False w) (\<lambda>examples.
        res_bind (get_bool_from_file eval_bool dot_ns3rc_path ''tests_enabled'' False w) (\<lambda>tests.
          Inr \<lparr>config_file_exists = True,
               modules_enabled = (if mods = [] then [''all_modules''] else mods),
               examples_enabled = examples, tests_enabled = tests\<rparr>))))"

section \<open>Examples to run\<close>

definition parse_examples_to_run_file ::
  "(string \<Rightarrow> (string \<times> string \<times> string) list result) \<Rightarrow> (string \<Rightarrow> (string \<times> string) list result)
    \<Rightarrow> 'e world \<Rightarrow> string \<Rightarrow> string \<Rightarrow> string
    \<Rightarrow> (string \<times> string \<times> string) list \<times> (string \<times> string) list
    \<Rightarrow> ((string \<times> string \<times> string) list \<times> (string \<times> string) list) result" where
  "parse_examples_to_run_file eval_cpp eval_python w examples_to_run_path cpp_executable_dir python_script_dir tests =
     (let (example_tests, python_tests) = tests in
      if path_exists examples_to_run_path w then
        res_bind (get_list_from_file eval_cpp examples_to_run_path ''cpp_examples'' w) (\<lambda>cpp_examples.
        res_bind (get_list_from_file eval_python examples_to_run_path ''python_examples'' w) (\<lambda>python_examples.
          Inr (example_tests @
                 map (\<lambda>(name, do_run, do_valgrind_run). (path_join cpp_executable_dir name, do_run, do_valgrind_run))
                   (filter (\<lambda>(name, _). path_exists (path_join cpp_executable_dir name) w) cpp_examples),
               python_tests @
                 map (\<lambda>(name, do_run). (path_join python_script_dir name, do_run))
                   (filter (\<lambda>(name, _). path_exists (path_join python_script_dir name) w) python_examples))))
      else Inr (example_tests, python_tests))"

section \<open>Lemmas\<close>

definition list_lines :: "string list \<Rightarrow> string option" where
  \<comment> \<open>the lines up to the first one that closes the bracket, as one text\<close>
  "list_lines lines =
     (let opening = takeWhile (\<lambda>l. CHR '']'' \<notin> set l) lines in
      case drop (length opening) lines of [] \<Rightarrow> None | l # _ \<Rightarrow> Some (concat opening @ l))"

lemma list_lines_Cons:
  "list_lines (l # ls) = (if CHR '']'' \<in> set l then Some l else map_option ((@) l) (list_lines ls))"
  by (auto simp: list_lines_def Let_def split: list.splits)

definition eval_list :: "(string \<Rightarrow> 'v list result) \<Rightarrow> string option \<Rightarrow> 'v list result" where
  "eval_list eval text =
     (case text of None \<Rightarrow> Inr [] | Some s \<Rightarrow> res_bind (after_equals s) (\<lambda>s. eval (strip s)))"

lemma find_list_multiline:
  "CHR '']'' \<notin> set acc \<Longrightarrow>
   find_list eval name lines acc True = eval_list eval (map_option ((@) acc) (list_lines lines))"
proof (induction lines arbitrary: acc)
  case Nil
  then show ?case by (simp add: list_lines_def eval_list_def)
next
  case (Cons line lines)
  then show ?case
    by (cases "list_lines lines") (auto simp: list_lines_Cons eval_list_def)
qed

lemma find_list_eq:
  "find_list eval name lines [] False =
     eval_list eval (list_lines (dropWhile (\<lambda>l. \<not> occurs_in name l) lines))"
proof (induction lines)
  case Nil
  then show ?case by (simp add: list_lines_def eval_list_def)
next
  case (Cons line lines)
  then show ?case
    using find_list_multiline [of line eval name lines]
    by (auto simp: list_lines_Cons eval_list_def)
qed

lemma find_bool_eq:
  "find_bool eval name lines =
     (case find (occurs_in name) lines of
        None \<Rightarrow> Inr None
      | Some line \<Rightarrow> res_bind (after_equals line) (\<lambda>s. res_bind (eval (strip s)) (\<lambda>b. Inr (Some b))))"
  by (induction lines) auto

lemma get_bool_eq:
  "get_bool_from_file eval_bool p name d w =
     (case files w p of
        None \<Rightarrow> Inl (if path_exists p w then IOError else UnboundLocalError)
      | Some text \<Rightarrow>
          (case find (occurs_in name) (file_lines text) of
             None \<Rightarrow> Inr d
           | Some line \<Rightarrow> res_bind (after_equals line) (\<lambda>s. eval_bool (strip s))))"
proof -
  have "res_bind (res_bind r (\<lambda>s. res_bind (f s) (\<lambda>b. Inr (Some b))))
      (\<lambda>found. case found of Some b \<Rightarrow> Inr b | None \<Rightarrow> Inr d) = res_bind r f"
    for r :: "string result" and f
    by (cases r; cases "f (projr r)") auto
  then show ?thesis
    by (auto simp: get_bool_from_file_def path_exists_def find_bool_eq split: option.split)
qed

lemma after_equals_error: "after_equals s = Inl e \<Longrightarrow> e = IndexError"
  by (auto simp: after_equals_def split: list.splits)

lemma get_list_error:
  "get_list_from_file ev p name w = Inl e \<Longrightarrow> e \<in> {IOError, IndexError} \<or> (\<exists>s. ev s = Inl e)"
  by (auto simp: get_list_from_file_def find_list_eq eval_list_def res_bind_Inl_iff
      dest!: after_equals_error split: if_splits option.splits)

lemma get_bool_error:
  "get_bool_from_file ev p name d w = Inl e \<Longrightarrow> path_exists p w \<Longrightarrow>
   e \<in> {IOError, IndexError} \<or> (\<exists>s. ev s = Inl e)"
  by (auto simp: get_bool_from_file_def find_bool_eq res_bind_Inl_iff
      dest!: after_equals_error split: if_splits option.splits)

lemma eval_list_eq:
  "eval_list eval lines =
     (case lines of None \<Rightarrow> Inr []
      | Some s \<Rightarrow> (case dropWhile (\<lambda>c. c \<noteq> CHR ''='') s of [] \<Rightarrow> Inl IndexError | _ # rhs \<Rightarrow> eval (strip rhs)))"
proof -
  have "res_bind (case xs of [] \<Rightarrow> Inl IndexError | _ # rest \<Rightarrow> Inr rest) f =
      (case xs of [] \<Rightarrow> Inl IndexError | _ # rest \<Rightarrow> f rest)" for xs :: string and f :: "string \<Rightarrow> 'a list result"
    by (cases xs) simp_all
  then show ?thesis by (cases lines) (simp_all add: eval_list_def after_equals_def)
qed

section \<open>Properties\<close>

text \<open>\<open>get_list_from_file\<close> evaluates the text after the first \<open>=\<close> of the lines that begin with the
  first line containing the name and end with the first closing bracket from there on; without such
  a line or bracket, and without the file, the list is empty.\<close>

theorem get_list_from_file_reads:
  "get_list_from_file eval p name w =
     (case files w p of
        None \<Rightarrow> if path_exists p w then Inl IOError else Inr []
      | Some text \<Rightarrow>
          (case list_lines (dropWhile (\<lambda>l. \<not> occurs_in name l) (file_lines text)) of
             None \<Rightarrow> Inr []
           | Some s \<Rightarrow>
               (case dropWhile (\<lambda>c. c \<noteq> CHR ''='') s of
                  [] \<Rightarrow> Inl IndexError
                | _ # rhs \<Rightarrow> eval (strip rhs))))"
proof (cases "files w p")
  case None
  then show ?thesis by (simp add: get_list_from_file_def)
next
  case (Some contents)
  then have eq: "get_list_from_file eval p name w =
      eval_list eval (list_lines (dropWhile (\<lambda>l. \<not> occurs_in name l) (file_lines contents)))"
    by (simp add: get_list_from_file_def path_exists_def find_list_eq)
  show ?thesis
    unfolding eq by (simp add: Some eval_list_eq)
qed

text \<open>\<open>get_bool_from_file\<close> evaluates the first line containing the name and gives the default when the
  file has none, but when the file is missing it does not give the default as documented: it raises an
  \<open>UnboundLocalError\<close>. \<open>read_config_file\<close> looks for the file first, so that this never reaches
  its caller; it returns the documented defaults without a file and never an empty list of modules.\<close>

theorem config_defaults:
  "get_bool_from_file eval_bool p name d w =
     (case files w p of
        None \<Rightarrow> Inl (if path_exists p w then IOError else UnboundLocalError)
      | Some text \<Rightarrow>
          (case find (occurs_in name) (file_lines text) of
             None \<Rightarrow> Inr d
           | Some line \<Rightarrow> res_bind (after_equals line) (\<lambda>s. eval_bool (strip s)))) \<and>
   (case read_config_file eval_mods eval_bool home w of
      Inl e \<Rightarrow> e = IOError \<or> e = IndexError \<or> (\<exists>s. eval_mods s = Inl e) \<or> (\<exists>s. eval_bool s = Inl e)
    | Inr c \<Rightarrow> modules_enabled c \<noteq> [] \<and>
        (config_file_exists c \<longleftrightarrow> path_exists ''.ns3rc'' w \<or> path_exists (home @ ''.ns3rc'') w) \<and>
        (config_file_exists c \<or>
         c = \<lparr>config_file_exists = False, modules_enabled = [''all_modules''],
              examples_enabled = False, tests_enabled = False\<rparr>))"
proof
  show "get_bool_from_file eval_bool p name d w =
     (case files w p of
        None \<Rightarrow> Inl (if path_exists p w then IOError else UnboundLocalError)
      | Some text \<Rightarrow>
          (case find (occurs_in name) (file_lines text) of
             None \<Rightarrow> Inr d
           | Some line \<Rightarrow> res_bind (after_equals line) (\<lambda>s. eval_bool (strip s))))"
    by (rule get_bool_eq)
next
  define path where "path = (if path_exists ''.ns3rc'' w then ''.ns3rc'' else home @ ''.ns3rc'')"
  show "case read_config_file eval_mods eval_bool home w of
      Inl e \<Rightarrow> e = IOError \<or> e = IndexError \<or> (\<exists>s. eval_mods s = Inl e) \<or> (\<exists>s. eval_bool s = Inl e)
    | Inr c \<Rightarrow> modules_enabled c \<noteq> [] \<and>
        (config_file_exists c \<longleftrightarrow> path_exists ''.ns3rc'' w \<or> path_exists (home @ ''.ns3rc'') w) \<and>
        (config_file_exists c \<or>
         c = \<lparr>config_file_exists = False, modules_enabled = [''all_modules''],
              examples_enabled = False, tests_enabled = False\<rparr>)"
  proof (cases "path_exists path w")
    case False
    then show ?thesis by (auto simp: read_config_file_def path_def Let_def split: if_splits)
  next
    case True
    then have "path_exists ''.ns3rc'' w \<or> path_exists (home @ ''.ns3rc'') w"
      by (auto simp: path_def split: if_splits)
    moreover have eq: "read_config_file eval_mods eval_bool home w =
        res_bind (get_list_from_file eval_mods path ''modules_enabled'' w) (\<lambda>mods.
        res_bind (get_bool_from_file eval_bool path ''examples_enabled'' False w) (\<lambda>examples.
        res_bind (get_bool_from_file eval_bool path ''tests_enabled'' False w) (\<lambda>tests.
          Inr \<lparr>config_file_exists = True,
               modules_enabled = (if mods = [] then [''all_modules''] else mods),
               examples_enabled = examples, tests_enabled = tests\<rparr>)))"
      using True by (simp add: read_config_file_def path_def Let_def)
    ultimately show ?thesis
    proof (cases "read_config_file eval_mods eval_bool home w")
      case (Inl e)
      then show ?thesis
        using get_list_error [of eval_mods path "''modules_enabled''" w e]
          get_bool_error [OF _ True, of eval_bool "''examples_enabled''" False e]
          get_bool_error [OF _ True, of eval_bool "''tests_enabled''" False e]
        unfolding eq res_bind_Inl_iff by auto
    next
      case (Inr c)
      then show ?thesis
        using \<open>path_exists ''.ns3rc'' w \<or> path_exists (home @ ''.ns3rc'') w\<close> unfolding eq by auto
    qed
  qed
qed

end
