(* ===== verification/Test_Report.thy ===== *)
theory Test_Report
  imports Py_World
begin

text \<open>
  The reports of \<open>test.py\<close>: \<open>read_test\<close>, \<open>node_to_text\<close>, \<open>translate_to_text\<close> and
  \<open>translate_to_html\<close>. An XML document is a tree of elements (\<open>ElementTree\<close>: a tag, attributes,
  the text before the first child, children); parsing it is a parameter. A report writer runs on the
  list of the strings passed to \<open>f.write\<close> so far.
\<close>

section \<open>Elements\<close>

datatype xml =
  Elem (xtag: string) (xattrs: "(string \<times> string) list") (xtext: "string option") (xchildren: "xml list")

definition find_child :: "string \<Rightarrow> xml \<Rightarrow> xml option" where
  "find_child tag e = find (\<lambda>c. xtag c = tag) (xchildren e)"

definition findall :: "string \<Rightarrow> xml \<Rightarrow> xml list" where
  "findall tag e = filter (\<lambda>c. xtag c = tag) (xchildren e)"

text \<open>\<open>e.find(tag).text\<close>: the child may be missing, and its text may be \<open>None\<close>.\<close>

definition child_text :: "string \<Rightarrow> xml \<Rightarrow> string option result" where
  "child_text tag e = (case find_child tag e of None \<Rightarrow> Inl AttributeError | Some c \<Rightarrow> Inr (xtext c))"

definition fmt :: "string option \<Rightarrow> string" where
  \<comment> \<open>\<open>%s\<close>\<close>
  "fmt o' = (case o' of None \<Rightarrow> ''None'' | Some s \<Rightarrow> s)"

definition read_test :: "xml \<Rightarrow> (string option \<times> string option \<times> string option) result" where
  "read_test test =
     res_bind (child_text ''Result'' test) (\<lambda>result.
     res_bind (child_text ''Name'' test) (\<lambda>name.
       Inr (result, name, (case find_child ''Time'' test of
         Some t \<Rightarrow> map_of (xattrs t) ''real'' | None \<Rightarrow> Some []))))"

type_synonym writer = "(string list, unit) io"

definition fwrite :: "string \<Rightarrow> writer" where
  "fwrite text out = (Inr (), out @ [text])"

definition fwrites :: "string list \<Rightarrow> writer" where
  "fwrites texts out = (Inr (), out @ texts)"

definition for_nodes :: "(xml \<Rightarrow> writer) \<Rightarrow> xml list \<Rightarrow> writer" where
  "for_nodes body nodes = io_for_each (\<lambda>node _. body node) nodes ()"

lemma io_for_each_nodes_cong:
  "xs = ys \<Longrightarrow> (\<And>x. x \<in> set ys \<Longrightarrow> f x = g x) \<Longrightarrow>
   io_for_each (\<lambda>x _. f x) xs () = io_for_each (\<lambda>x _. g x) ys ()"
proof (induction xs arbitrary: ys)
  case (Cons x xs)
  then have "io_for_each (\<lambda>x _. f x) xs () = io_for_each (\<lambda>x _. g x) xs ()" by auto
  then have "io_for_each (\<lambda>x _. f x) xs = io_for_each (\<lambda>x _. g x) xs" by (intro ext) simp
  with Cons.prems show ?case by auto
qed simp

lemma for_nodes_cong [fundef_cong]:
  "xs = ys \<Longrightarrow> (\<And>x. x \<in> set ys \<Longrightarrow> f x = g x) \<Longrightarrow> for_nodes f xs = for_nodes g ys"
  unfolding for_nodes_def by (rule io_for_each_nodes_cong)

definition nl :: string where
  "nl = [CHR 0x0A]"

definition dq :: string where
  "dq = [CHR 0x22]"

section \<open>The text report\<close>

definition detail_fields :: "(string \<times> string) list" where
  "detail_fields =
     [(''      Message:   '', ''Message''), (''      Condition: '', ''Condition''),
      (''      Actual:    '', ''Actual''), (''      Limit:     '', ''Limit''),
      (''      File:      '', ''File''), (''      Line:      '', ''Line'')]"

definition details_to_text :: "xml \<Rightarrow> writer" where
  "details_to_text details =
     io_bind (fwrite (''    Details:'' @ nl)) (\<lambda>_.
       io_for_each (\<lambda>(label, field) _.
         io_bind (io_lift (child_text field details)) (\<lambda>t. fwrite (label @ fmt t @ nl))) detail_fields ())"

lemma size_findall: "x \<in> set (findall tag e) \<Longrightarrow> size x < size e"
proof (cases e)
  case (Elem t attrs tx cs)
  assume "x \<in> set (findall tag e)"
  then have "x \<in> set cs" by (simp add: findall_def Elem)
  then have "size x < Suc (size_list size cs)" by (metis le_imp_less_Suc less_imp_le size_list_estimation' order_refl)
  then show ?thesis by (simp add: Elem)
qed

function node_to_text :: "xml \<Rightarrow> writer" where
  "node_to_text test =
     io_bind (io_lift (read_test test)) (\<lambda>(result, name, time_real).
     io_bind (fwrite (fmt result @ '': Test Suite '' @ dq @ fmt name @ dq @ '' ('' @ fmt time_real @ '')'' @ nl)) (\<lambda>_.
     io_bind (for_nodes details_to_text (findall ''FailureDetails'' test)) (\<lambda>_.
       for_nodes node_to_text (findall ''Test'' test))))"
  by pat_completeness auto
termination
  by (relation "measure size") (auto intro: size_findall)

declare node_to_text.simps [simp del]

definition example_to_text :: "xml \<Rightarrow> writer" where
  "example_to_text example =
     io_bind (io_lift (read_test example)) (\<lambda>(result, name, time_real).
       fwrite (fmt result @ '': Example '' @ dq @ fmt name @ dq @ '' ('' @ fmt time_real @ '')'' @ nl))"

definition text_report :: "xml \<Rightarrow> writer" where
  "text_report et =
     io_bind (for_nodes node_to_text (findall ''Test'' et)) (\<lambda>_.
       for_nodes example_to_text (findall ''Example'' et))"

section \<open>The HTML report\<close>

definition row_open :: string where "row_open = ''<tr>'' @ nl"
definition row_close :: string where "row_close = ''</tr>'' @ nl"
definition table_open :: string where "table_open = ''<table border='' @ dq @ ''1'' @ dq @ ''>'' @ nl"
definition table_close :: string where "table_close = ''</table>'' @ nl"

definition colored :: "string \<Rightarrow> string \<Rightarrow> string \<Rightarrow> string \<Rightarrow> string" where
  "colored tag color body close = ''<'' @ tag @ '' style='' @ dq @ ''color:'' @ color @ dq @ ''>'' @ body @ ''</'' @ close @ ''>'' @ nl"

definition cell :: "string \<Rightarrow> string" where
  "cell body = ''<td>'' @ body @ ''</td>'' @ nl"

definition suite_header :: "string option \<Rightarrow> string option \<Rightarrow> string option \<Rightarrow> string" where
  "suite_header result name time =
     colored ''h3''
       (if result = Some ''PASS'' then ''green'' else if result = Some ''SKIP'' then ''#ff6600'' else ''red'')
       (fmt result @ '': '' @ fmt name @ '' ('' @ fmt time @ '')'') ''h3''"

definition html_fields :: "(string \<times> string \<times> string) list" where
  "html_fields =
     [(''<b>Message: </b>'', ''Message'', '', ''), (''<b>Condition: </b>'', ''Condition'', '', ''),
      (''<b>Actual: </b>'', ''Actual'', '', ''), (''<b>Limit: </b>'', ''Limit'', '', ''),
      (''<b>File: </b>'', ''File'', '', ''), (''<b>Line: </b>'', ''Line'', [])]"

text \<open>One row per failure; the state says whether it is the first one. The row is not closed.\<close>

definition html_failure ::
  "string option \<Rightarrow> string option \<Rightarrow> string option \<Rightarrow> xml \<Rightarrow> bool \<Rightarrow> (string list, bool) io" where
  "html_failure result name time details first_row =
     io_bind (fwrite row_open) (\<lambda>_.
     io_bind (fwrites (if first_row
       then [colored ''td'' ''red'' (fmt result) ''td'', cell (fmt name), cell (fmt time)]
       else [cell [], cell [], cell []])) (\<lambda>_.
     io_bind (fwrite ''<td>'') (\<lambda>_.
     io_bind (io_for_each (\<lambda>(label, field, sep) _.
         io_bind (io_lift (child_text field details)) (\<lambda>t. fwrite (label @ fmt t @ sep))) html_fields ()) (\<lambda>_.
     io_bind (fwrites [''</td>'' @ nl, ''</td>'' @ nl]) (\<lambda>_. io_return False)))))"

definition html_case :: "xml \<Rightarrow> writer" where
  "html_case case' =
     io_bind (io_lift (read_test case')) (\<lambda>(result, name, time).
       if result = Some ''FAIL'' then
         io_bind (io_for_each (html_failure result name time) (findall ''FailureDetails'' case') True)
           (\<lambda>_. io_return ())
       else
         fwrites [row_open, colored ''td'' ''green'' (fmt result) ''td'', cell (fmt name), cell (fmt time), cell [], row_close])"

definition html_suite :: "xml \<Rightarrow> writer" where
  "html_suite suite =
     io_bind (io_lift (read_test suite)) (\<lambda>(result, name, time).
     io_bind (fwrites [suite_header result name time, table_open, ''<th> Result </th>'' @ nl]) (\<lambda>_.
       if result \<in> {Some ''CRASH'', Some ''SKIP'', Some ''VALGR''} then
         fwrites [row_open,
           colored ''td'' (if result = Some ''SKIP'' then ''#ff6600'' else ''red'') (fmt result) ''td'',
           row_close, table_close]
       else
         io_bind (fwrites [''<th>Test Case Name</th>'' @ nl, ''<th> Time </th>'' @ nl]) (\<lambda>_.
         io_bind (fwrites (if result = Some ''FAIL'' then [''<th>Failure Details</th>'' @ nl] else [])) (\<lambda>_.
         io_bind (for_nodes html_case (findall ''Test'' suite)) (\<lambda>_.
           fwrite table_close)))))"

definition html_example :: "xml \<Rightarrow> writer" where
  "html_example example =
     io_bind (fwrite row_open) (\<lambda>_.
     io_bind (io_lift (read_test example)) (\<lambda>(result, name, time).
       fwrites
         [if result = Some ''PASS'' then colored ''td'' ''green'' (fmt result) ''td''
          else if result = Some ''SKIP'' then colored ''td'' ''#ff6600'' (fmt result) ''fd''
          else colored ''td'' ''red'' (fmt result) ''td'',
          cell (fmt name), cell (fmt time), row_close]))"

definition html_report :: "xml \<Rightarrow> writer" where
  "html_report et =
     io_bind (fwrite (''<h2>Test Suites</h2>'' @ nl)) (\<lambda>_.
     io_bind (for_nodes html_suite (findall ''Test'' et)) (\<lambda>_.
     io_bind (fwrites [''<h2>Examples</h2>'' @ nl, table_open, ''<th> Result </th>'' @ nl,
         ''<th>Example Name</th>'' @ nl, ''<th>Elapsed Time</th>'' @ nl]) (\<lambda>_.
     io_bind (for_nodes html_example (findall ''Example'' et)) (\<lambda>_.
       fwrites [table_close, ''</body>'' @ nl, ''</html>'' @ nl]))))"

section \<open>Writing the reports\<close>

text \<open>What the writer has written when it stops is in the file, also when it stops with an exception.\<close>

definition write_report :: "string list \<Rightarrow> writer \<Rightarrow> string \<Rightarrow> ('e world, unit) io" where
  "write_report before report path w =
     (let (r, out) = report before in (r, snd (write_file path (concat out) w)))"

definition translate_to_text ::
  "(string \<Rightarrow> xml result) \<Rightarrow> string \<Rightarrow> string \<Rightarrow> ('e world, unit) io" where
  "translate_to_text parse_xml results_file text_file =
     io_bind (write_file text_file []) (\<lambda>_.
     io_bind (read_file results_file) (\<lambda>source.
     io_bind (io_lift (parse_xml source)) (\<lambda>et.
       write_report [] (text_report et) text_file)))"

definition html_head :: "string list" where
  "html_head = [''<html>'' @ nl, ''<body>'' @ nl, ''<center><h1>ns-3 Test Results</h1></center>'' @ nl]"

definition translate_to_html ::
  "(string \<Rightarrow> xml result) \<Rightarrow> string \<Rightarrow> string \<Rightarrow> ('e world, unit) io" where
  "translate_to_html parse_xml results_file html_file =
     io_bind (write_file html_file (concat html_head)) (\<lambda>_.
     io_bind (read_file results_file) (\<lambda>source.
     io_bind (io_lift (parse_xml source)) (\<lambda>et.
       write_report html_head (html_report et) html_file)))"

section \<open>What the text report holds\<close>

primrec preorder :: "xml \<Rightarrow> xml list" where
  "preorder (Elem tag attrs txt cs) =
     Elem tag attrs txt cs # concat (map snd (filter (\<lambda>(t, _). t = ''Test'')
       (map (\<lambda>c. (xtag c, preorder c)) cs)))"

definition has_fields :: "string list \<Rightarrow> xml \<Rightarrow> bool" where
  "has_fields tags e \<longleftrightarrow> list_all (\<lambda>f. find_child f e \<noteq> None) tags"

definition field_text :: "string \<Rightarrow> xml \<Rightarrow> string" where
  "field_text field e = (case find_child field e of None \<Rightarrow> [] | Some c \<Rightarrow> fmt (xtext c))"

definition time_text :: "xml \<Rightarrow> string" where
  "time_text e = (case find_child ''Time'' e of Some t \<Rightarrow> fmt (map_of (xattrs t) ''real'') | None \<Rightarrow> [])"

definition entry_ok :: "xml \<Rightarrow> bool" where
  "entry_ok test \<longleftrightarrow> has_fields [''Result'', ''Name''] test \<and>
     list_all (has_fields (map snd detail_fields)) (findall ''FailureDetails'' test)"

definition detail_lines :: "xml \<Rightarrow> string list" where
  "detail_lines details = (''    Details:'' @ nl) # map (\<lambda>(label, field). label @ field_text field details @ nl) detail_fields"

definition entry_lines :: "xml \<Rightarrow> string list" where
  "entry_lines test =
     (field_text ''Result'' test @ '': Test Suite '' @ dq @ field_text ''Name'' test @ dq @ '' ('' @
        time_text test @ '')'' @ nl) # concat (map detail_lines (findall ''FailureDetails'' test))"

text \<open>A writer that appends the given strings, or stops with an \<open>AttributeError\<close>.\<close>

definition writes :: "writer \<Rightarrow> bool \<Rightarrow> string list \<Rightarrow> bool" where
  "writes m ok texts \<longleftrightarrow>
     (\<forall>out. if ok then m out = (Inr (), out @ texts) else \<exists>out'. m out = (Inl AttributeError, out'))"

lemma writes_fwrite: "writes (fwrite t) True [t]"
  by (simp add: writes_def fwrite_def)

lemma writes_fwrites: "writes (fwrites ts) True ts"
  by (simp add: writes_def fwrites_def)

lemma writes_bind:
  assumes "writes m ok ts" "writes n ok' ts'"
  shows "writes (io_bind m (\<lambda>_. n)) (ok \<and> ok') (ts @ ts')"
  unfolding writes_def
proof
  fix out
  show "if ok \<and> ok' then io_bind m (\<lambda>_. n) out = (Inr (), out @ ts @ ts')
    else \<exists>out'. io_bind m (\<lambda>_. n) out = (Inl AttributeError, out')"
  proof (cases ok)
    case True
    with assms(1) have "m out = (Inr (), out @ ts)" by (simp add: writes_def)
    moreover have "if ok' then n (out @ ts) = (Inr (), (out @ ts) @ ts')
        else \<exists>out'. n (out @ ts) = (Inl AttributeError, out')"
      using assms(2) unfolding writes_def by blast
    ultimately show ?thesis using True by (simp add: io_bind_def)
  next
    case False
    with assms(1) obtain out' where "m out = (Inl AttributeError, out')" by (auto simp: writes_def)
    with False show ?thesis by (simp add: io_bind_def)
  qed
qed

lemma writes_for_each:
  assumes "\<And>x. x \<in> set xs \<Longrightarrow> writes (f x) (ok x) (ts x)"
  shows "writes (io_for_each (\<lambda>x _. f x) xs ()) (list_all ok xs) (concat (map ts xs))"
  using assms
proof (induction xs)
  case Nil
  then show ?case by (simp add: writes_def io_return_def)
next
  case (Cons x xs)
  have "io_for_each (\<lambda>x _. f x) xs = (\<lambda>_. io_for_each (\<lambda>x _. f x) xs ())" by (intro ext) simp
  then have "io_for_each (\<lambda>x _. f x) (x # xs) () = io_bind (f x) (\<lambda>_. io_for_each (\<lambda>x _. f x) xs ())" by simp
  then show ?case using writes_bind [OF Cons.prems Cons.IH] Cons.prems by simp
qed

lemma writes_field:
  "writes (io_bind (io_lift (child_text field e)) (\<lambda>t. fwrite (label @ fmt t @ sep)))
     (find_child field e \<noteq> None) [label @ field_text field e @ sep]"
  by (auto simp: writes_def child_text_def field_text_def io_lift_def io_bind_def fwrite_def split: option.split)

lemma writes_details:
  "writes (details_to_text d) (has_fields (map snd detail_fields) d) (detail_lines d)"
proof -
  have "writes (case lf of (label, field) \<Rightarrow> io_bind (io_lift (child_text field d)) (\<lambda>t. fwrite (label @ fmt t @ nl)))
      (find_child (snd lf) d \<noteq> None) [case lf of (label, field) \<Rightarrow> label @ field_text field d @ nl]" for lf
    using writes_field by (cases lf) simp
  from writes_bind [OF writes_fwrite writes_for_each [OF this]]
  show ?thesis
    by (simp add: details_to_text_def has_fields_def detail_lines_def list_all_iff case_prod_beta' map_concat
        concat_map_singleton)
qed

lemma read_test_cases:
  "read_test t = (if has_fields [''Result'', ''Name''] t
     then Inr (the (map_option xtext (find_child ''Result'' t)), the (map_option xtext (find_child ''Name'' t)),
       (case find_child ''Time'' t of Some t \<Rightarrow> map_of (xattrs t) ''real'' | None \<Rightarrow> Some []))
     else Inl AttributeError)"
  by (auto simp: read_test_def child_text_def has_fields_def split: option.split)

lemma concat_concat_map: "concat (concat (map f xs)) = concat (map (\<lambda>x. concat (f x)) xs)"
  by (induction xs) auto

lemma preorder_unfold: "preorder e = e # concat (map preorder (findall ''Test'' e))"
  by (cases e) (simp add: findall_def filter_map o_def case_prod_beta')

lemma writes_node_to_text:
  "writes (node_to_text t) (list_all entry_ok (preorder t)) (concat (map entry_lines (preorder t)))"
proof (induction t rule: node_to_text.induct)
  case (1 t)
  let ?n = "findall ''Test'' t" and ?d = "findall ''FailureDetails'' t"
  have nested: "writes (for_nodes node_to_text ?n) (list_all (\<lambda>c. list_all entry_ok (preorder c)) ?n)
      (concat (map (\<lambda>c. concat (map entry_lines (preorder c))) ?n))"
    unfolding for_nodes_def by (rule writes_for_each) (use 1 in blast)
  have details: "writes (for_nodes details_to_text ?d) (list_all (has_fields (map snd detail_fields)) ?d)
      (concat (map detail_lines ?d))"
    unfolding for_nodes_def by (rule writes_for_each) (rule writes_details)
  show ?case
  proof (cases "has_fields [''Result'', ''Name''] t")
    case False
    then show ?thesis
      by (subst node_to_text.simps, subst preorder_unfold)
        (simp add: writes_def read_test_cases entry_ok_def io_bind_def io_lift_def)
  next
    case True
    define head where "head = field_text ''Result'' t @ '': Test Suite '' @ dq @ field_text ''Name'' t @ dq @
      '' ('' @ time_text t @ '')'' @ nl"
    have "fmt (the (map_option xtext (find_child ''Result'' t))) = field_text ''Result'' t"
      "fmt (the (map_option xtext (find_child ''Name'' t))) = field_text ''Name'' t"
      "fmt (case find_child ''Time'' t of Some t \<Rightarrow> map_of (xattrs t) ''real'' | None \<Rightarrow> Some []) = time_text t"
      using True by (auto simp: has_fields_def field_text_def time_text_def fmt_def split: option.split)
    then have run: "node_to_text t = io_bind (fwrite head) (\<lambda>_.
        io_bind (for_nodes details_to_text ?d) (\<lambda>_. for_nodes node_to_text ?n))"
      using True by (subst node_to_text.simps) (simp add: read_test_cases io_bind_def io_lift_def fun_eq_iff head_def)
    have ok: "list_all entry_ok (preorder t) \<longleftrightarrow> True \<and>
        list_all (has_fields (map snd detail_fields)) ?d \<and> list_all (\<lambda>c. list_all entry_ok (preorder c)) ?n"
      using True by (subst preorder_unfold) (auto simp: entry_ok_def list_all_iff)
    have lines: "concat (map entry_lines (preorder t)) =
        [head] @ concat (map detail_lines ?d) @ concat (map (\<lambda>c. concat (map entry_lines (preorder c))) ?n)"
      by (subst preorder_unfold) (simp add: entry_lines_def head_def map_concat o_def concat_concat_map)
    show ?thesis
      unfolding run ok lines by (intro writes_bind writes_fwrite details nested)
  qed
qed

definition example_line :: "xml \<Rightarrow> string" where
  "example_line e = field_text ''Result'' e @ '': Example '' @ dq @ field_text ''Name'' e @ dq @ '' ('' @ time_text e @ '')'' @ nl"

lemma writes_example: "writes (example_to_text e) (has_fields [''Result'', ''Name''] e) [example_line e]"
proof (cases "has_fields [''Result'', ''Name''] e")
  case True
  then have "fmt (the (map_option xtext (find_child ''Result'' e))) = field_text ''Result'' e"
    "fmt (the (map_option xtext (find_child ''Name'' e))) = field_text ''Name'' e"
    "fmt (case find_child ''Time'' e of Some t \<Rightarrow> map_of (xattrs t) ''real'' | None \<Rightarrow> Some []) = time_text e"
    by (auto simp: has_fields_def field_text_def time_text_def fmt_def split: option.split)
  with True show ?thesis
    by (simp add: example_to_text_def read_test_cases io_bind_def io_lift_def fwrite_def writes_def example_line_def)
qed (simp add: example_to_text_def read_test_cases io_bind_def io_lift_def writes_def)

section \<open>The rows of the HTML report\<close>

definition balance :: "string \<Rightarrow> string \<Rightarrow> string list \<Rightarrow> int" where
  "balance a b out = int (count_list out a) - int (count_list out b)"

lemma balance_append [simp]: "balance a b (xs @ ys) = balance a b xs + balance a b ys"
  by (simp add: balance_def)

lemma balance_Nil [simp]: "balance a b [] = 0"
  by (simp add: balance_def)

definition adds :: "string \<Rightarrow> string \<Rightarrow> (string list, 'a) io \<Rightarrow> int \<Rightarrow> bool" where
  "adds a b m k \<longleftrightarrow>
     (\<forall>out x out'. m out = (Inr x, out') \<longrightarrow> (\<exists>ts. out' = out @ ts \<and> balance a b ts = k))"

lemma adds_bind:
  assumes "adds a b m k" "\<And>x. adds a b (f x) l"
  shows "adds a b (io_bind m f) (k + l)"
  unfolding adds_def
proof (intro allI impI)
  fix out y out2 assume "io_bind m f out = (Inr y, out2)"
  then obtain x out1 where s: "m out = (Inr x, out1)" "f x out1 = (Inr y, out2)"
    by (auto simp: io_bind_eq_Inr)
  obtain ts where "out1 = out @ ts" "balance a b ts = k" using assms(1) s(1) unfolding adds_def by blast
  moreover obtain ts' where "out2 = out1 @ ts'" "balance a b ts' = l" using assms(2) s(2) unfolding adds_def by blast
  ultimately show "\<exists>ts. out2 = out @ ts \<and> balance a b ts = k + l" by (intro exI [of _ "ts @ ts'"]) simp
qed

lemma adds_for_each:
  assumes "\<And>x s. x \<in> set xs \<Longrightarrow> adds a b (f x s) (k x)"
  shows "adds a b (io_for_each f xs s) (sum_list (map k xs))"
  using assms
proof (induction xs arbitrary: s)
  case Nil
  then show ?case by (simp add: adds_def io_return_def)
next
  case (Cons x xs)
  then show ?case by (auto intro!: adds_bind)
qed

lemma adds_for_nodes:
  "(\<And>x. x \<in> set xs \<Longrightarrow> adds a b (f x) (k x)) \<Longrightarrow> adds a b (for_nodes f xs) (sum_list (map k xs))"
  unfolding for_nodes_def by (rule adds_for_each)

lemma adds_fwrites: "adds a b (fwrites ts) (balance a b ts)"
  by (simp add: adds_def fwrites_def)

lemma adds_fwrite: "adds a b (fwrite t) (balance a b [t])"
  by (simp add: adds_def fwrite_def)

lemma adds_return: "adds a b (io_return x) 0"
  by (simp add: adds_def io_return_def)

lemma adds_lift: "adds a b (io_lift r) 0"
  by (simp add: adds_def io_lift_def)

lemma adds_read_test:
  assumes "\<And>result name time. read_test t = Inr (result, name, time) \<Longrightarrow> adds a b (f result name time) k"
  shows "adds a b (io_bind (io_lift (read_test t)) (\<lambda>(result, name, time). f result name time)) k"
proof (cases "read_test t")
  case (Inl e)
  then show ?thesis by (simp add: adds_def io_bind_def io_lift_def)
next
  case (Inr r)
  obtain result name time where r: "r = (result, name, time)" by (cases r)
  then have "io_bind (io_lift (read_test t)) (\<lambda>(result, name, time). f result name time) = f result name time"
    by (simp add: Inr io_bind_def io_lift_def fun_eq_iff)
  with assms r Inr show ?thesis by simp
qed

lemma adds_eq: "adds a b m k \<Longrightarrow> k = l \<Longrightarrow> adds a b m l"
  by simp

lemmas html_strings = row_open_def row_close_def table_open_def table_close_def colored_def cell_def
  suite_header_def nl_def dq_def

abbreviation rows :: "string list \<Rightarrow> int" where "rows \<equiv> balance row_open row_close"
abbreviation tables :: "string list \<Rightarrow> int" where "tables \<equiv> balance table_open table_close"

lemma adds_html_fields:
  assumes "\<And>t. balance a b [label @ fmt t @ sep] = 0"
  shows "adds a b (io_bind (io_lift (child_text field d)) (\<lambda>t. fwrite (label @ fmt t @ sep))) 0"
  by (rule adds_eq [OF adds_bind [OF adds_lift adds_eq [OF adds_fwrite assms]]]) simp

lemma html_field_strings:
  "(label, field, sep) \<in> set html_fields \<Longrightarrow> balance row_open row_close [label @ t @ sep] = 0"
  "(label, field, sep) \<in> set html_fields \<Longrightarrow> balance table_open table_close [label @ t @ sep] = 0"
  by (auto simp: html_fields_def balance_def html_strings)

definition unclosed_in :: "xml \<Rightarrow> nat" where
  "unclosed_in case' =
     (if child_text ''Result'' case' = Inr (Some ''FAIL'') then length (findall ''FailureDetails'' case') else 0)"

lemma read_test_result: "read_test t = Inr (result, name, time) \<Longrightarrow> child_text ''Result'' t = Inr result"
  by (auto simp: read_test_def)

lemma html_failure_fields:
  assumes "\<And>label field sep t. (label, field, sep) \<in> set html_fields \<Longrightarrow> balance a b [label @ t @ sep] = 0"
  shows "adds a b (io_for_each (\<lambda>(label, field, sep) _.
         io_bind (io_lift (child_text field d)) (\<lambda>t. fwrite (label @ fmt t @ sep))) html_fields ()) 0"
proof -
  have "adds a b (io_for_each (\<lambda>(label, field, sep) _.
         io_bind (io_lift (child_text field d)) (\<lambda>t. fwrite (label @ fmt t @ sep))) html_fields ())
      (sum_list (map (\<lambda>_. 0) html_fields))"
    by (rule adds_for_each) (use assms adds_html_fields in fastforce)
  then show ?thesis by simp
qed

lemma html_failure_adds:
  "adds row_open row_close (html_failure result name time d first) 1"
  "adds table_open table_close (html_failure result name time d first) 0"
  unfolding html_failure_def
  by (rule adds_eq, (rule adds_bind adds_fwrite adds_fwrites adds_return html_failure_fields html_field_strings | assumption)+,
      simp add: balance_def html_strings)+

lemma html_case_adds:
  "adds row_open row_close (html_case c) (int (unclosed_in c))"
  "adds table_open table_close (html_case c) 0"
proof -
  have *: "adds row_open row_close (io_bind (io_for_each (html_failure result name time) ds True) (\<lambda>_. io_return ())) (int (length ds))"
    for result name time ds
    by (rule adds_eq [OF adds_bind [OF adds_for_each [where k = "\<lambda>_. 1"] adds_return]])
      (auto intro: html_failure_adds simp: sum_list_triv)
  have fl: "adds table_open table_close (io_bind (io_for_each (html_failure result name time) ds True) (\<lambda>_. io_return ())) 0"
    for result name time ds
    by (rule adds_eq [OF adds_bind [OF adds_for_each [where k = "\<lambda>_. 0"] adds_return]])
      (auto intro: html_failure_adds)
  have **: "adds row_open row_close (fwrites [row_open, colored ''td'' ''green'' r ''td'', cell n, cell t, cell [], row_close]) 0"
    "adds table_open table_close (fwrites [row_open, colored ''td'' ''green'' r ''td'', cell n, cell t, cell [], row_close]) 0"
    for r n t
    by (rule adds_eq [OF adds_fwrites], simp add: balance_def html_strings)+
  show "adds row_open row_close (html_case c) (int (unclosed_in c))"
    unfolding html_case_def by (rule adds_read_test) (auto dest!: read_test_result simp: unclosed_in_def * **)
  show "adds table_open table_close (html_case c) 0"
    unfolding html_case_def by (rule adds_read_test) (auto simp: fl **)
qed

definition unclosed_in_suite :: "xml \<Rightarrow> nat" where
  "unclosed_in_suite suite =
     (if child_text ''Result'' suite \<in> {Inr (Some ''CRASH''), Inr (Some ''SKIP''), Inr (Some ''VALGR'')} then 0
      else sum_list (map unclosed_in (findall ''Test'' suite)))"

lemma sum_list_int: "sum_list (map (\<lambda>x. int (f x)) xs) = int (sum_list (map f xs))"
  by (induction xs) auto

lemma adds_if: "(p \<Longrightarrow> adds a b m k) \<Longrightarrow> (\<not> p \<Longrightarrow> adds a b n k) \<Longrightarrow> adds a b (if p then m else n) k"
  by simp

lemma html_suite_adds:
  "adds row_open row_close (html_suite s) (int (unclosed_in_suite s))"
  "adds table_open table_close (html_suite s) 0"
proof -
  have head: "adds row_open row_close (fwrites [suite_header r n t, table_open, ''<th> Result </th>'' @ nl]) 0"
    "adds table_open table_close (fwrites [suite_header r n t, table_open, ''<th> Result </th>'' @ nl]) 1"
    "adds row_open row_close (fwrites [row_open, colored ''td'' c x ''td'', row_close, table_close]) 0"
    "adds table_open table_close (fwrites [row_open, colored ''td'' c x ''td'', row_close, table_close]) (-1)"
    "adds row_open row_close (fwrites [''<th>Test Case Name</th>'' @ nl, ''<th> Time </th>'' @ nl]) 0"
    "adds table_open table_close (fwrites [''<th>Test Case Name</th>'' @ nl, ''<th> Time </th>'' @ nl]) 0"
    "adds row_open row_close (fwrites (if p then [''<th>Failure Details</th>'' @ nl] else [])) 0"
    "adds table_open table_close (fwrites (if p then [''<th>Failure Details</th>'' @ nl] else [])) 0"
    "adds row_open row_close (fwrite table_close) 0" "adds table_open table_close (fwrite table_close) (-1)"
    for r n t c x p
    by (rule adds_eq [OF adds_fwrites] adds_eq [OF adds_fwrite], simp add: balance_def html_strings)+
  have cases: "adds row_open row_close (for_nodes html_case cs) (int (sum_list (map unclosed_in cs)))"
    "adds table_open table_close (for_nodes html_case cs) 0" for cs
    using adds_for_nodes [of cs row_open row_close html_case "\<lambda>c. int (unclosed_in c)"]
      adds_for_nodes [of cs table_open table_close html_case "\<lambda>_. 0"] html_case_adds
    by (simp_all add: sum_list_int)
  show "adds row_open row_close (html_suite s) (int (unclosed_in_suite s))"
    unfolding html_suite_def
  proof (rule adds_read_test)
    fix result name time assume "read_test s = Inr (result, name, time)"
    then have r: "child_text ''Result'' s = Inr result" by (rule read_test_result)
    show "adds row_open row_close (io_bind (fwrites [suite_header result name time, table_open, ''<th> Result </th>'' @ nl]) (\<lambda>_.
       if result \<in> {Some ''CRASH'', Some ''SKIP'', Some ''VALGR''} then
         fwrites [row_open,
           colored ''td'' (if result = Some ''SKIP'' then ''#ff6600'' else ''red'') (fmt result) ''td'',
           row_close, table_close]
       else
         io_bind (fwrites [''<th>Test Case Name</th>'' @ nl, ''<th> Time </th>'' @ nl]) (\<lambda>_.
         io_bind (fwrites (if result = Some ''FAIL'' then [''<th>Failure Details</th>'' @ nl] else [])) (\<lambda>_.
         io_bind (for_nodes html_case (findall ''Test'' s)) (\<lambda>_.
           fwrite table_close))))) (int (unclosed_in_suite s))"
    proof (cases "result \<in> {Some ''CRASH'', Some ''SKIP'', Some ''VALGR''}")
      case True
      then have "unclosed_in_suite s = 0" using r by (auto simp: unclosed_in_suite_def)
      then show ?thesis
        unfolding if_P [OF True] by (intro adds_eq [OF adds_bind [OF head(1) head(3)]]) simp
    next
      case False
      then have "int (unclosed_in_suite s) = 0 + (0 + (0 + (int (sum_list (map unclosed_in (findall ''Test'' s))) + 0)))"
        using r by (auto simp: unclosed_in_suite_def)
      with False show ?thesis by (simp only: if_False) (intro adds_bind head cases)
    qed
  qed
  show "adds table_open table_close (html_suite s) 0"
    unfolding html_suite_def
    by (rule adds_read_test, rule adds_eq [OF adds_bind [OF head(2), where l = "-1"]], rule adds_if,
        rule head(4), rule adds_eq, (rule adds_bind head(6) head(8) cases(2) head(10))+, simp_all)
qed

lemma html_example_adds:
  "adds row_open row_close (html_example e) 0" "adds table_open table_close (html_example e) 0"
proof -
  have *: "adds row_open row_close (fwrites [if p then colored ''td'' ''green'' r ''td''
        else if q then colored ''td'' ''#ff6600'' r ''fd'' else colored ''td'' ''red'' r ''td'', cell n, cell t, row_close]) (-1)"
    "adds table_open table_close (fwrites [if p then colored ''td'' ''green'' r ''td''
        else if q then colored ''td'' ''#ff6600'' r ''fd'' else colored ''td'' ''red'' r ''td'', cell n, cell t, row_close]) 0"
    for p q r n t
    by (rule adds_eq [OF adds_fwrites], simp add: balance_def html_strings)+
  have "adds row_open row_close (fwrite row_open) 1" "adds table_open table_close (fwrite row_open) 0"
    by (rule adds_eq [OF adds_fwrite], simp add: balance_def html_strings)+
  note open' = this
  show "adds row_open row_close (html_example e) 0"
    unfolding html_example_def
    by (rule adds_eq [OF adds_bind [OF open'(1) adds_read_test [OF *(1)]]]) simp
  show "adds table_open table_close (html_example e) 0"
    unfolding html_example_def
    by (rule adds_eq [OF adds_bind [OF open'(2) adds_read_test [OF *(2)]]]) simp
qed

lemma html_report_adds:
  "adds row_open row_close (html_report et) (int (sum_list (map unclosed_in_suite (findall ''Test'' et))))"
  "adds table_open table_close (html_report et) 0"
proof -
  have head: "adds row_open row_close (fwrite (''<h2>Test Suites</h2>'' @ nl)) 0"
    "adds table_open table_close (fwrite (''<h2>Test Suites</h2>'' @ nl)) 0"
    "adds row_open row_close (fwrites [''<h2>Examples</h2>'' @ nl, table_open, ''<th> Result </th>'' @ nl,
         ''<th>Example Name</th>'' @ nl, ''<th>Elapsed Time</th>'' @ nl]) 0"
    "adds table_open table_close (fwrites [''<h2>Examples</h2>'' @ nl, table_open, ''<th> Result </th>'' @ nl,
         ''<th>Example Name</th>'' @ nl, ''<th>Elapsed Time</th>'' @ nl]) 1"
    "adds row_open row_close (fwrites [table_close, ''</body>'' @ nl, ''</html>'' @ nl]) 0"
    "adds table_open table_close (fwrites [table_close, ''</body>'' @ nl, ''</html>'' @ nl]) (-1)"
    by (rule adds_eq [OF adds_fwrites] adds_eq [OF adds_fwrite], simp add: balance_def html_strings)+
  have suites: "adds row_open row_close (for_nodes html_suite ss) (int (sum_list (map unclosed_in_suite ss)))"
    "adds table_open table_close (for_nodes html_suite ss) 0" for ss
    using adds_for_nodes [of ss row_open row_close html_suite "\<lambda>c. int (unclosed_in_suite c)"]
      adds_for_nodes [of ss table_open table_close html_suite "\<lambda>_. 0"] html_suite_adds
    by (simp_all add: sum_list_int)
  have examples: "adds row_open row_close (for_nodes html_example es) 0"
    "adds table_open table_close (for_nodes html_example es) 0" for es
    using adds_for_nodes [of es row_open row_close html_example "\<lambda>_. 0"]
      adds_for_nodes [of es table_open table_close html_example "\<lambda>_. 0"] html_example_adds
    by simp_all
  show "adds row_open row_close (html_report et) (int (sum_list (map unclosed_in_suite (findall ''Test'' et))))"
    unfolding html_report_def
    by (rule adds_eq [OF adds_bind [OF head(1) adds_bind [OF suites(1) adds_bind [OF head(3) adds_bind [OF examples(1) head(5)]]]]])
      simp
  show "adds table_open table_close (html_report et) 0"
    unfolding html_report_def
    by (rule adds_eq [OF adds_bind [OF head(2) adds_bind [OF suites(2) adds_bind [OF head(4) adds_bind [OF examples(2) head(6)]]]]])
      simp
qed

section \<open>Properties\<close>

text \<open>C37: \<open>translate_to_text\<close> writes, for every test of the results in document order, tests inside tests
  right after them, the line with its result, name and time and the six lines of each failure, and then a
  line for each example; if a field it needs is missing anywhere it stops with an \<open>AttributeError\<close>.\<close>

theorem translate_to_text_report:
  assumes "files w results_file = Some source" and "text_file \<noteq> results_file" and "parse_xml source = Inr et"
  shows "case translate_to_text parse_xml results_file text_file w of (r, w') \<Rightarrow>
    (let tests = concat (map preorder (findall ''Test'' et)); examples = findall ''Example'' et in
     if list_all entry_ok tests \<and> list_all (has_fields [''Result'', ''Name'']) examples
     then r = Inr () \<and> files w' text_file =
       Some (concat (concat (map entry_lines tests) @ map example_line examples))
     else r = Inl AttributeError)"
proof -
  let ?tests = "concat (map preorder (findall ''Test'' et))" and ?ex = "findall ''Example'' et"
  have "writes (for_nodes node_to_text (findall ''Test'' et)) (list_all entry_ok ?tests)
      (concat (map entry_lines ?tests))"
    using writes_for_each [of "findall ''Test'' et", OF writes_node_to_text]
    by (simp add: for_nodes_def list_all_iff map_concat o_def concat_concat_map)
  moreover have "writes (for_nodes example_to_text ?ex) (list_all (has_fields [''Result'', ''Name'']) ?ex)
      (map example_line ?ex)"
    using writes_for_each [of ?ex, OF writes_example] by (simp add: for_nodes_def concat_map_singleton)
  ultimately have report: "writes (text_report et)
      (list_all entry_ok ?tests \<and> list_all (has_fields [''Result'', ''Name'']) ?ex)
      (concat (map entry_lines ?tests) @ map example_line ?ex)"
    unfolding text_report_def by (rule writes_bind)
  obtain r out where run: "text_report et [] = (r, out)" by fastforce
  from report [unfolded writes_def, rule_format, of "[]"] run assms show ?thesis
    by (auto simp: translate_to_text_def io_bind_def io_lift_def world_defs write_report_def Let_def split: if_splits)
qed

lemma translate_to_text_report_witness:
  "case translate_to_text (\<lambda>_. Inr (Elem ''Results'' [] None
       [Elem ''Test'' [] None [Elem ''Result'' [] (Some ''PASS'') [], Elem ''Name'' [] (Some ''b'') [],
          Elem ''Test'' [] None [Elem ''Result'' [] (Some ''PASS'') [], Elem ''Name'' [] (Some ''c'') []]]]))
      ''r'' ''t'' \<lparr>files = [''r'' \<mapsto> ''x''], dirs = [], console = [], environ = [], ext = ()\<rparr> of
    (r, w') \<Rightarrow> r = Inr () \<and> files w' ''t'' =
      Some (''PASS: Test Suite '' @ dq @ ''b'' @ dq @ '' ()'' @ nl @ ''PASS: Test Suite '' @ dq @ ''c'' @ dq @ '' ()'' @ nl)"
proof -
  let ?et = "Elem ''Results'' [] None
       [Elem ''Test'' [] None [Elem ''Result'' [] (Some ''PASS'') [], Elem ''Name'' [] (Some ''b'') [],
          Elem ''Test'' [] None [Elem ''Result'' [] (Some ''PASS'') [], Elem ''Name'' [] (Some ''c'') []]]]"
  let ?w = "\<lparr>files = [''r'' \<mapsto> ''x''], dirs = [], console = [], environ = [], ext = ()\<rparr>"
  have "list_all entry_ok (concat (map preorder (findall ''Test'' ?et))) \<and>
      list_all (has_fields [''Result'', ''Name'']) (findall ''Example'' ?et)" by code_simp
  moreover have "concat (concat (map entry_lines (concat (map preorder (findall ''Test'' ?et)))) @
      map example_line (findall ''Example'' ?et)) =
      ''PASS: Test Suite '' @ dq @ ''b'' @ dq @ '' ()'' @ nl @ ''PASS: Test Suite '' @ dq @ ''c'' @ dq @ '' ()'' @ nl"
    by code_simp
  ultimately show ?thesis
    using translate_to_text_report [of ?w "''r''" "''x''" "''t''" "\<lambda>_. Inr ?et" ?et]
    by (simp add: Let_def split: prod.splits del: map_append concat_append append_Cons append.simps)
qed

text \<open>in the HTML report every table is closed, and every row, except that each failure of a failing test
  case leaves its row open: the code closes it with a second \<open></td>\<close>.\<close>

theorem html_report_rows:
  "case html_report et [] of
     (Inl e, out) \<Rightarrow> True
   | (Inr _, out) \<Rightarrow>
       count_list out row_open =
         count_list out row_close + sum_list (map unclosed_in_suite (findall ''Test'' et)) \<and>
       count_list out table_open = count_list out table_close"
  using html_report_adds [of et]
  by (fastforce simp: adds_def balance_def split: prod.split sum.split)

end
