(* ===== verification/Test_Jobs.thy ===== *)
theory Test_Jobs
  imports Py_World
begin

text \<open>
  The jobs of \<open>test.py\<close> and the threads that run them: the options, the \<open>Job\<close> class,
  \<open>run_job_synchronously\<close>, \<open>make_paths\<close>, the body of \<open>worker_thread.run\<close>, and a pool of
  worker threads as a step relation on the two queues. Running a shell command, the clock and the
  platform are parameters. Times are counted in milliseconds, the precision of the report.
\<close>

section \<open>Options and jobs\<close>

record options =
  opt_buildpath :: string
  opt_constrain :: string
  opt_example :: string
  opt_update_data :: bool
  opt_valgrind :: bool
  opt_kinds :: bool
  opt_list :: bool
  opt_multiple :: bool
  opt_nowaf :: bool
  opt_pyexample :: string
  opt_retain :: bool
  opt_suite :: string
  opt_text :: string
  opt_verbose :: bool
  opt_html :: string
  opt_xml :: string

definition default_options :: options where
  "default_options =
     \<lparr>opt_buildpath = [], opt_constrain = [], opt_example = [], opt_update_data = False,
      opt_valgrind = False, opt_kinds = False, opt_list = False, opt_multiple = False, opt_nowaf = False,
      opt_pyexample = [], opt_retain = False, opt_suite = [], opt_text = [], opt_verbose = False,
      opt_html = [], opt_xml = []\<rparr>"

record job =
  is_break :: bool
  is_skip :: bool
  is_example :: bool
  is_pyexample :: bool
  shell_command :: string
  display_name :: string
  basedir :: string
  tempdir :: string
  job_cwd :: string
  tmp_file_name :: string
  returncode :: int
  elapsed_time :: nat
  build_path :: string

definition new_job :: job where
  "new_job =
     \<lparr>is_break = False, is_skip = False, is_example = False, is_pyexample = False, shell_command = [],
      display_name = [], basedir = [], tempdir = [], job_cwd = [], tmp_file_name = [], returncode = 0,
      elapsed_time = 0, build_path = []\<rparr>"

text \<open>
  The system: \<open>sys_shell command directory\<close> runs a shell command to its end and gives its exit code,
  standard output and standard error; \<open>sys_clock\<close> reads the time.
\<close>

record 'e system =
  sys_shell :: "string \<Rightarrow> string \<Rightarrow> 'e world \<Rightarrow> (int \<times> string \<times> string) \<times> 'e world"
  sys_clock :: "'e world \<Rightarrow> nat"
  sys_platform :: string
  sys_getcwd :: string

definition valgrind_suppressions_file :: string where
  "valgrind_suppressions_file = ''testpy.supp''"

definition job_command :: "string \<Rightarrow> string \<Rightarrow> bool \<Rightarrow> bool \<Rightarrow> string \<Rightarrow> string" where
  "job_command builddir command valgrind is_python buildpath =
     (let base = path_head builddir;
          suppressions_path = path_join base valgrind_suppressions_file;
          path_cmd =
            (if is_python then ''python '' @ path_join base command
             else if buildpath \<noteq> [] then path_join buildpath command
             else path_join builddir command)
      in if valgrind then
           ''valgrind --suppressions='' @ suppressions_path @
           '' --leak-check=full --show-reachable=yes --error-exitcode=2 '' @ path_cmd
         else path_cmd)"

definition run_job_synchronously ::
  "'e system \<Rightarrow> options \<Rightarrow> string \<Rightarrow> string \<Rightarrow> string \<Rightarrow> bool \<Rightarrow> bool \<Rightarrow> string
    \<Rightarrow> 'e world \<Rightarrow> (int \<times> string \<times> string \<times> nat) \<times> 'e world" where
  "run_job_synchronously sys opts builddir command directory valgrind is_python buildpath w =
     (let cmd = job_command builddir command valgrind is_python buildpath;
          w = (if opt_verbose opts then snd (print_line (''Synchronously execute '' @ cmd) w) else w);
          start_time = sys_clock sys w;
          ((retval, standard_out, standard_err), w) = sys_shell sys cmd directory w;
          elapsed = sys_clock sys w - start_time;
          retval = (if valgrind \<and> retval = 0 \<and> occurs_in ''== LEAK SUMMARY:'' standard_err then 2 else retval);
          w = (if opt_verbose opts
               then snd (print_line (''stderr =  '' @ standard_err) (snd (print_line (''Return code =  '' @ int_str retval) w)))
               else w)
      in ((retval, standard_out, standard_err, elapsed), w))"

section \<open>The environment\<close>

definition extend_path :: "string \<Rightarrow> char \<Rightarrow> string list \<Rightarrow> (string, string) dict \<Rightarrow> (string, string) dict" where
  "extend_path var sep paths env =
     (let env = (if dict_has env var then env else dict_set var [] env)
      in fold (\<lambda>path env. dict_set var ((case map_of env var of Some old \<Rightarrow> old | None \<Rightarrow> []) @ [sep] @ path) env)
           paths env)"

definition make_paths :: "'e system \<Rightarrow> string \<Rightarrow> string list \<Rightarrow> (string, string) dict \<Rightarrow> (string, string) dict" where
  "make_paths sys builddir module_path env =
     (let have_PYTHONPATH = dict_has env ''PYTHONPATH'';
          pypath = path_join (path_join builddir ''bindings'') ''python'';
          env = dict_set ''PYTHONPATH'' pypath env;
          env = (if \<not> have_PYTHONPATH then dict_set ''PYTHONPATH'' pypath env
                 else dict_set ''PYTHONPATH'' (pypath @ '':'' @ pypath) env)
      in if sys_platform sys = ''darwin'' then extend_path ''DYLD_LIBRARY_PATH'' CHR '':'' module_path env
         else if sys_platform sys = ''win32'' then extend_path ''PATH'' CHR '';'' module_path env
         else if sys_platform sys = ''cygwin'' then extend_path ''PATH'' CHR '':'' module_path env
         else extend_path ''LD_LIBRARY_PATH'' CHR '':'' module_path env)"

section \<open>The worker threads\<close>

text \<open>
  What a worker does with a job that is no break job, from \<open>if thread_exit\<close> to
  \<open>output_queue.put\<close>: the job it puts into the output queue.
\<close>

definition process_job :: "'e system \<Rightarrow> options \<Rightarrow> string \<Rightarrow> bool \<Rightarrow> job \<Rightarrow> 'e world \<Rightarrow> job \<times> 'e world" where
  "process_job sys opts builddir thread_exit job w =
     (if thread_exit then (job\<lparr>is_break := True\<rparr>, w)
      else if is_skip job then
        (job, if opt_verbose opts then snd (print_line (''Skip '' @ shell_command job) w) else w)
      else
        let w = (if opt_verbose opts then snd (print_line (''Launch '' @ shell_command job) w) else w);
            ((retval, standard_out, standard_err, et), w) =
              (if is_example job \<or> is_pyexample job then
                 run_job_synchronously sys opts builddir (shell_command job) (job_cwd job) (opt_valgrind opts)
                   (is_pyexample job) (build_path job) w
               else
                 let update_data = (if opt_update_data opts then ''--update-data'' else []) in
                 run_job_synchronously sys opts builddir
                   (shell_command job @ '' --xml --tempdir='' @ tempdir job @ '' --out='' @ tmp_file_name job @ '' '' @ update_data)
                   (job_cwd job) (opt_valgrind opts) False [] w);
            w = (if opt_verbose opts
                 then fold (\<lambda>line w. snd (print_line line w))
                   [''returncode = '' @ int_str retval, ''---------- begin standard out ----------'', standard_out,
                    ''---------- begin standard err ----------'', standard_err,
                    ''---------- end standard err ----------''] w
                 else w)
        in (job\<lparr>returncode := retval, elapsed_time := et\<rparr>, w))"

text \<open>
  The pool: the main thread still has \<open>todo\<close> to put into the input queue (its jobs and then one break
  job per thread). A thread waits for a job, holds one, or has returned. Queues are lists with their
  front at the head.
\<close>

datatype worker = Waiting | Holding job | Stopped

record 'e pool =
  todo :: "job list"
  input_queue :: "job list"
  output_queue :: "job list"
  workers :: "worker list"
  thread_exit :: bool
  pool_world :: "'e world"

definition break_job :: job where
  "break_job = new_job\<lparr>is_break := True\<rparr>"

definition init_pool :: "job list \<Rightarrow> nat \<Rightarrow> 'e world \<Rightarrow> 'e pool" where
  "init_pool jobs processors w =
     \<lparr>todo = jobs @ replicate processors break_job, input_queue = [], output_queue = [],
      workers = replicate processors Waiting, thread_exit = False, pool_world = w\<rparr>"

inductive pool_step :: "'e system \<Rightarrow> options \<Rightarrow> string \<Rightarrow> 'e pool \<Rightarrow> 'e pool \<Rightarrow> bool"
  for sys :: "'e system" and opts :: options and builddir :: string where
  submit: "todo p = j # js \<Longrightarrow>
    pool_step sys opts builddir p (p\<lparr>todo := js, input_queue := input_queue p @ [j]\<rparr>)"
| take_job: "input_queue p = j # js \<Longrightarrow> i < length (workers p) \<Longrightarrow> workers p ! i = Waiting \<Longrightarrow>
    pool_step sys opts builddir p
      (p\<lparr>input_queue := js, workers := (workers p)[i := if is_break j then Stopped else Holding j]\<rparr>)"
| finish_job: "i < length (workers p) \<Longrightarrow> workers p ! i = Holding j \<Longrightarrow>
    process_job sys opts builddir (thread_exit p) j (pool_world p) = (j', w') \<Longrightarrow>
    pool_step sys opts builddir p
      (p\<lparr>workers := (workers p)[i := Waiting], output_queue := output_queue p @ [j'], pool_world := w'\<rparr>)"
| interrupt: "\<not> thread_exit p \<Longrightarrow> pool_step sys opts builddir p (p\<lparr>thread_exit := True\<rparr>)"

section \<open>The pool loses no job\<close>

text \<open>What a job keeps whatever happens to it, and the jobs in the hands of the workers.\<close>

definition job_key :: "job \<Rightarrow> job" where
  "job_key j = j\<lparr>is_break := False, returncode := 0, elapsed_time := 0\<rparr>"

definition processed :: "'e system \<Rightarrow> options \<Rightarrow> string \<Rightarrow> job \<Rightarrow> job \<Rightarrow> bool" where
  \<comment> \<open>a worker has made the one of the other, before or after an interrupt, in some state of the world\<close>
  "processed sys opts builddir j j' \<longleftrightarrow> (\<exists>ex w. j' = fst (process_job sys opts builddir ex j w))"

definition held :: "worker list \<Rightarrow> job list" where
  "held ws = concat (map (\<lambda>t. case t of Holding j \<Rightarrow> [j] | _ \<Rightarrow> []) ws)"

definition stopped :: "worker list \<Rightarrow> nat" where
  "stopped ws = length (filter (\<lambda>t. t = Stopped) ws)"

lemma process_job_key: "process_job sys opts builddir ex j w = (j', w') \<Longrightarrow> job_key j' = job_key j"
  by (auto simp: process_job_def job_key_def Let_def split: if_splits prod.splits)

lemma processed_key: "processed sys opts builddir j j' \<Longrightarrow> job_key j' = job_key j"
  unfolding processed_def by (metis process_job_key prod.collapse)

lemma processed_keys: "list_all2 (processed sys opts builddir) js out \<Longrightarrow> map job_key out = map job_key js"
  by (induction rule: list_all2_induct) (simp_all add: processed_key)

lemma mset_held_update:
  "i < length ws \<Longrightarrow> add_mset (ws ! i) (mset (ws[i := t])) = add_mset t (mset ws)"
  by (simp add: mset_update)

lemma held_update:
  assumes "i < length ws"
  shows "mset (held (ws[i := t])) + mset (held [ws ! i]) = mset (held ws) + mset (held [t])"
  using assms
proof (induction ws arbitrary: i)
  case (Cons x ws)
  then show ?case by (cases i) (auto simp: held_def)
qed simp

lemma stopped_update:
  "i < length ws \<Longrightarrow> stopped (ws[i := t]) + (if ws ! i = Stopped then 1 else 0) = stopped ws + (if t = Stopped then 1 else 0)"
proof (induction ws arbitrary: i)
  case (Cons x ws)
  show ?case
  proof (cases i)
    case (Suc k)
    with Cons.prems Cons.IH [of k] show ?thesis by (auto simp: stopped_def)
  qed (auto simp: stopped_def)
qed simp

lemma held_simps [simp]: "held [Waiting] = []" "held [Stopped] = []" "held [Holding j] = [j]"
  by (simp_all add: held_def)

definition pool_inv :: "'e system \<Rightarrow> options \<Rightarrow> string \<Rightarrow> job list \<Rightarrow> nat \<Rightarrow> 'e pool \<Rightarrow> bool" where
  "pool_inv sys opts builddir jobs n p \<longleftrightarrow> length (workers p) = n \<and>
     (\<exists>rest m started. input_queue p @ todo p = rest @ replicate m break_job \<and> list_all (\<lambda>j. \<not> is_break j) rest \<and>
       m + stopped (workers p) = n \<and> (stopped (workers p) = 0 \<or> rest = []) \<and>
       mset rest + mset (held (workers p)) + mset started = mset jobs \<and>
       list_all2 (processed sys opts builddir) started (output_queue p))"

lemma init_pool_inv: "list_all (\<lambda>j. \<not> is_break j) jobs \<Longrightarrow> pool_inv sys opts builddir jobs n (init_pool jobs n w)"
proof -
  assume "list_all (\<lambda>j. \<not> is_break j) jobs"
  moreover have "held (replicate n Waiting) = []" by (induction n) (auto simp: held_def)
  ultimately show ?thesis
    unfolding pool_inv_def init_pool_def
    by (intro conjI exI [of _ jobs] exI [of _ n] exI [of _ "[]"]) (auto simp: stopped_def)
qed

lemma pool_step_inv:
  assumes "pool_inv sys opts builddir jobs n p" "pool_step sys opts builddir p q"
  shows "pool_inv sys opts builddir jobs n q"
proof -
  obtain rest m started where inv: "length (workers p) = n" "input_queue p @ todo p = rest @ replicate m break_job"
    "list_all (\<lambda>j. \<not> is_break j) rest" "m + stopped (workers p) = n" "stopped (workers p) = 0 \<or> rest = []"
    "mset rest + mset (held (workers p)) + mset started = mset jobs"
    "list_all2 (processed sys opts builddir) started (output_queue p)"
    using assms(1) unfolding pool_inv_def by blast
  from assms(2) show ?thesis
  proof (cases rule: pool_step.cases)
    case (submit j js)
    with inv show ?thesis unfolding pool_inv_def by (intro conjI exI [of _ rest] exI [of _ m] exI [of _ started]) auto
  next
    case (take_job j js i)
    show ?thesis
    proof (cases rest)
      case Nil
      then obtain m' where m': "m = Suc m'" "j = break_job" "js @ todo p = replicate m' break_job"
        using inv(2) take_job(2) by (cases m) auto
      then have q: "q = p\<lparr>input_queue := js, workers := (workers p)[i := Stopped]\<rparr>"
        using take_job by (simp add: break_job_def)
      have "stopped ((workers p)[i := Stopped]) = Suc (stopped (workers p))"
        using stopped_update [OF take_job(3), of Stopped] take_job(4) by simp
      moreover have "mset (held ((workers p)[i := Stopped])) = mset (held (workers p))"
        using held_update [OF take_job(3), of Stopped] take_job(4) by simp
      ultimately show ?thesis
        using inv m' Nil unfolding pool_inv_def q by (intro conjI exI [of _ "[]"] exI [of _ m'] exI [of _ started]) auto
    next
      case (Cons j' rest')
      then have j: "j' = j" "js @ todo p = rest' @ replicate m break_job" "\<not> is_break j"
        using inv(2,3) take_job(2) by auto
      then have q: "q = p\<lparr>input_queue := js, workers := (workers p)[i := Holding j]\<rparr>"
        using take_job by simp
      have s0: "stopped (workers p) = 0" using inv(5) Cons by simp
      have "stopped ((workers p)[i := Holding j]) = 0"
        using stopped_update [OF take_job(3), of "Holding j"] take_job(4) s0 by simp
      moreover have "mset (held ((workers p)[i := Holding j])) = add_mset j (mset (held (workers p)))"
        using held_update [OF take_job(3), of "Holding j"] take_job(4) by simp
      ultimately show ?thesis
        using inv j Cons s0 unfolding pool_inv_def q by (intro conjI exI [of _ rest'] exI [of _ m] exI [of _ started]) auto
    qed
  next
    case (finish_job i j j' w')
    have "stopped ((workers p)[i := Waiting]) = stopped (workers p)"
      using stopped_update [OF finish_job(2), of Waiting] finish_job(3) by simp
    moreover have "add_mset j (mset (held ((workers p)[i := Waiting]))) = mset (held (workers p))"
      using held_update [OF finish_job(2), of Waiting] finish_job(3) by simp
    moreover have "processed sys opts builddir j j'"
      unfolding processed_def using finish_job(4) by (metis fst_conv)
    ultimately show ?thesis
      using inv unfolding pool_inv_def finish_job(1)
      by (intro conjI exI [of _ rest] exI [of _ m] exI [of _ "started @ [j]"])
         (auto simp flip: \<open>add_mset j _ = _\<close> simp: list_all2_appendI)
  next
    case interrupt
    with inv show ?thesis unfolding pool_inv_def by auto
  qed
qed

definition stuck :: "'e system \<Rightarrow> options \<Rightarrow> string \<Rightarrow> 'e pool \<Rightarrow> bool" where
  "stuck sys opts builddir p \<longleftrightarrow>
     (\<forall>q. pool_step sys opts builddir p q \<longrightarrow> q = p\<lparr>thread_exit := True\<rparr>)"

definition pool_measure :: "'e pool \<Rightarrow> nat" where
  "pool_measure p =
     3 * length (todo p) + 2 * length (input_queue p) + length (held (workers p)) + (if thread_exit p then 0 else 1)"

lemma pool_step_decreases:
  assumes "pool_step sys opts builddir p q"
  shows "pool_measure q < pool_measure p"
  using assms
proof (cases rule: pool_step.cases)
  case (take_job j js i)
  have "mset (held ((workers p)[i := t])) = mset (held (workers p)) + mset (held [t])" for t
    using held_update [OF take_job(3), of t] take_job(4) by simp
  from arg_cong [OF this, of size]
  have "length (held ((workers p)[i := t])) = length (held (workers p)) + length (held [t])" for t
    by simp
  with take_job show ?thesis by (simp add: pool_measure_def)
next
  case (finish_job i j j' w')
  have "add_mset j (mset (held ((workers p)[i := Waiting]))) = mset (held (workers p))"
    using held_update [OF finish_job(2), of Waiting] finish_job(3) by simp
  from arg_cong [OF this, of size] finish_job show ?thesis by (simp add: pool_measure_def)
qed (auto simp: pool_measure_def)


lemma held_stopped: "held ws = [] \<Longrightarrow> stopped ws < length ws \<Longrightarrow> \<exists>i < length ws. ws ! i = Waiting"
proof (induction ws)
  case (Cons t ws)
  show ?case
  proof (cases t)
    case Stopped
    with Cons have "\<exists>i < length ws. ws ! i = Waiting" by (auto simp: held_def stopped_def)
    then show ?thesis by (metis Suc_less_eq length_Cons nth_Cons_Suc)
  qed (use Cons.prems in \<open>auto simp: held_def\<close>)
qed simp

lemma held_Holding: "held ws \<noteq> [] \<Longrightarrow> \<exists>i j. i < length ws \<and> ws ! i = Holding j"
proof (induction ws)
  case (Cons t ws)
  show ?case
  proof (cases "held ws = []")
    case True
    with Cons.prems show ?thesis by (cases t) (force simp: held_def)+
  next
    case False
    with Cons.IH obtain i j where "i < length ws" "ws ! i = Holding j" by blast
    then show ?thesis by (intro exI [of _ "Suc i"] exI [of _ j]) simp
  qed
qed (simp add: held_def)

lemma stuck_pool:
  assumes inv: "pool_inv sys opts builddir jobs n p" and n: "0 < n" and stuck: "stuck sys opts builddir p"
  shows "todo p = [] \<and> input_queue p = [] \<and> list_all (\<lambda>t. t = Stopped) (workers p) \<and>
    (\<exists>started. mset started = mset jobs \<and> list_all2 (processed sys opts builddir) started (output_queue p))"
proof -
  obtain rest m started where i: "length (workers p) = n" "input_queue p @ todo p = rest @ replicate m break_job"
    "m + stopped (workers p) = n" "stopped (workers p) = 0 \<or> rest = []"
    "mset rest + mset (held (workers p)) + mset started = mset jobs"
    "list_all2 (processed sys opts builddir) started (output_queue p)"
    using inv unfolding pool_inv_def by blast
  have no: "q = p\<lparr>thread_exit := True\<rparr>" if "pool_step sys opts builddir p q" for q
    using that stuck unfolding stuck_def by blast
  have t: "todo p = []"
  proof (rule ccontr)
    assume "todo p \<noteq> []"
    then obtain j js where "todo p = j # js" by (cases "todo p") auto
    from no [OF submit [OF this]] this show False by (auto dest: arg_cong [where f = todo])
  qed
  have h: "held (workers p) = []"
  proof (rule ccontr)
    assume "held (workers p) \<noteq> []"
    then obtain i j where ij: "i < length (workers p)" "workers p ! i = Holding j" using held_Holding by blast
    obtain j' w' where "process_job sys opts builddir (thread_exit p) j (pool_world p) = (j', w')" by fastforce
    from no [OF finish_job [OF ij this]] show False by (auto dest: arg_cong [where f = output_queue])
  qed
  have inp: "input_queue p = []"
  proof (rule ccontr)
    assume ne: "input_queue p \<noteq> []"
    then obtain j js where j: "input_queue p = j # js" by (cases "input_queue p") auto
    have "stopped (workers p) < length (workers p)"
    proof (cases "stopped (workers p) = 0")
      case False
      with i(2,4) ne have "m \<noteq> 0" by (cases m) auto
      with i(1,3) show ?thesis by simp
    qed (use i(1) n in simp)
    from held_stopped [OF h this] obtain k where "k < length (workers p)" "workers p ! k = Waiting" by blast
    from no [OF take_job [OF j this]] j show False by (auto dest: arg_cong [where f = input_queue])
  qed
  have "rest = []" "m = 0" using i(2) t inp by auto
  then have "stopped (workers p) = length (workers p)" using i(1,3) by simp
  then have "\<forall>t \<in> set (workers p). t = Stopped"
    using length_filter_less [of _ "workers p" "\<lambda>t. t = Stopped"] unfolding stopped_def by fastforce
  then show ?thesis using t inp h i(5,6) \<open>rest = []\<close> by (auto simp: list_all_iff)
qed

lemma reachable_inv:
  assumes "(pool_step sys opts builddir)\<^sup>*\<^sup>* (init_pool jobs n w) p" "list_all (\<lambda>j. \<not> is_break j) jobs"
  shows "pool_inv sys opts builddir jobs n p"
  using assms(1) by induction (auto intro: init_pool_inv [OF assms(2)] pool_step_inv)

lemma no_break_output:
  assumes "(pool_step sys opts builddir)\<^sup>*\<^sup>* (init_pool jobs n w) p"
  shows "\<not> thread_exit p \<Longrightarrow> list_all (\<lambda>j. \<not> is_break j) (output_queue p @ held (workers p))"
  using assms
proof induction
  case base
  have "held (replicate n Waiting) = []" by (induction n) (auto simp: held_def)
  then show ?case by (simp add: init_pool_def)
next
  case (step p q)
  from step.hyps(2) step.IH step.prems show ?case
  proof (cases rule: pool_step.cases)
    case (take_job j js i)
    then have "set (held (workers q)) \<subseteq> (if is_break j then {} else {j}) \<union> set (held (workers p))"
      using held_update [OF take_job(3), of "if is_break j then Stopped else Holding j"]
      by (auto dest!: arg_cong [where f = set_mset] split: if_splits)
    with step.IH step.prems take_job show ?thesis by (auto simp: list_all_iff split: if_splits)
  next
    case (finish_job i j j' w')
    have h: "add_mset j (mset (held (workers q))) = mset (held (workers p))"
      using held_update [OF finish_job(2), of Waiting] finish_job(1,3) by simp
    then have "set (held (workers p)) = insert j (set (held (workers q)))"
      by (metis set_mset_add_mset_insert set_mset_mset)
    moreover have "\<not> thread_exit p" using step.prems finish_job(1) by simp
    ultimately have "\<not> is_break j" "list_all (\<lambda>j. \<not> is_break j) (output_queue p @ held (workers q))"
      using step.IH by (auto simp: list_all_iff)
    moreover have "is_break j' = is_break j"
      using finish_job(4) \<open>\<not> thread_exit p\<close> by (auto simp: process_job_def Let_def split: if_splits prod.splits)
    ultimately show ?thesis using finish_job(1) by (auto simp: list_all_iff)
  qed auto
qed

text \<open>
  The contract of a pool, as a relation between the jobs it gets and the jobs it returns: each is returned once, as
  a worker has made it. The threads above keep it under every schedule.
\<close>

locale worker_pool =
  fixes returns :: "job list \<Rightarrow> job list \<Rightarrow> bool" and made :: "job \<Rightarrow> job \<Rightarrow> bool"
  assumes returns_made:
    "list_all (\<lambda>j. \<not> is_break j) jobs \<Longrightarrow> returns jobs out \<Longrightarrow>
     \<exists>started. mset started = mset jobs \<and> list_all2 made started out"
    and made_key: "made j j' \<Longrightarrow> job_key j' = job_key j"
begin

lemma made_keys: "list_all2 made js out \<Longrightarrow> map job_key out = map job_key js"
  by (induction rule: list_all2_induct) (simp_all add: made_key)

lemma returns_keys:
  assumes "list_all (\<lambda>j. \<not> is_break j) jobs" "returns jobs out"
  shows "image_mset job_key (mset out) = image_mset job_key (mset jobs)"
proof -
  obtain started where "mset started = mset jobs" "list_all2 made started out" using returns_made [OF assms] by blast
  with made_keys show ?thesis by (metis mset_map)
qed

lemma returns_length:
  "list_all (\<lambda>j. \<not> is_break j) jobs \<Longrightarrow> returns jobs out \<Longrightarrow> length out = length jobs"
  using arg_cong [OF returns_keys, of _ _ size] by simp

end

definition pool_returns :: "'e system \<Rightarrow> options \<Rightarrow> string \<Rightarrow> nat \<Rightarrow> 'e world \<Rightarrow> job list \<Rightarrow> job list \<Rightarrow> bool" where
  "pool_returns sys opts builddir n w jobs out \<longleftrightarrow> 0 < n \<and>
     (\<exists>p. (pool_step sys opts builddir)\<^sup>*\<^sup>* (init_pool jobs n w) p \<and> stuck sys opts builddir p \<and>
       out = output_queue p)"

interpretation threads: worker_pool "pool_returns sys opts builddir n w" "processed sys opts builddir"
  by unfold_locales (auto simp: pool_returns_def processed_key dest: stuck_pool [OF reachable_inv])

lemma extend_path_var:
  "map_of (extend_path var sep paths env) x =
     (if x = var then Some ((case map_of env var of Some old \<Rightarrow> old | None \<Rightarrow> []) @ concat (map ((#) sep) paths))
      else map_of env x)"
proof -
  have "map_of (fold (\<lambda>path env. dict_set var ((case map_of env var of Some old \<Rightarrow> old | None \<Rightarrow> []) @ [sep] @ path) env) paths env) x =
      (if x = var \<and> (paths \<noteq> [] \<or> dict_has env var)
       then Some ((case map_of env var of Some old \<Rightarrow> old | None \<Rightarrow> []) @ concat (map ((#) sep) paths)) else map_of env x)"
    for env :: "(string, string) dict"
  proof (induction paths arbitrary: env)
    case Nil
    then show ?case by (auto simp: dict_has_def)
  next
    case (Cons p paths)
    then show ?case by (simp add: dict_simps)
  qed
  then show ?thesis by (auto simp: extend_path_def Let_def dict_simps dict_has_def)
qed

section \<open>Properties\<close>

text \<open>C2: whatever the order in which the main thread fills the queue and the workers take, run and return jobs,
  and whether or not an interrupt arrives, no run of the pool is infinite.\<close>

theorem pool_terminates: "wf {(q, p). pool_step sys opts builddir p q}"
proof (rule wf_subset [OF wf_measure])
  show "{(q, p). pool_step sys opts builddir p q} \<subseteq> measure pool_measure"
    using pool_step_decreases by auto
qed

text \<open>C1: and when no thread can go on, with at least one thread, all of them have returned, the queues to
  them are empty, and every job has come back exactly once; without an interrupt none of them is
  marked as a break, so that the main thread counts each. In particular the break jobs, which are
  queued behind all others, stop no worker early.\<close>

theorem pool_returns_jobs:
  assumes "(pool_step sys opts builddir)\<^sup>*\<^sup>* (init_pool jobs n w) p"
    and "stuck sys opts builddir p" and "0 < n" and "list_all (\<lambda>j. \<not> is_break j) jobs"
  shows "todo p = [] \<and> input_queue p = [] \<and> list_all (\<lambda>t. t = Stopped) (workers p) \<and>
    image_mset job_key (mset (output_queue p)) = image_mset job_key (mset jobs) \<and>
    (thread_exit p \<or> list_all (\<lambda>j. \<not> is_break j) (output_queue p))"
  using stuck_pool [OF reachable_inv [OF assms(1,4)] assms(3,2)] no_break_output [OF assms(1)]
    threads.returns_keys [OF assms(4), of sys opts builddir n w "output_queue p"] assms(1-3)
  by (auto simp: pool_returns_def)

definition example_system :: "unit system" where
  "example_system = \<lparr>sys_shell = (\<lambda>cmd dir w. ((0, [], []), w)), sys_clock = (\<lambda>w. 0),
     sys_platform = ''linux2'', sys_getcwd = ''/''\<rparr>"

definition example_world :: "unit world" where
  "example_world = \<lparr>files = (\<lambda>p. None), dirs = [], console = [], environ = [], ext = ()\<rparr>"

lemma pool_returns_jobs_witness:
  "\<exists>p. (pool_step example_system default_options ''b'')\<^sup>*\<^sup>*
       (init_pool [new_job\<lparr>is_skip := True\<rparr>] 1 example_world) p \<and>
     image_mset job_key (mset (output_queue p)) = {#new_job\<lparr>is_skip := True\<rparr>#}"
proof -
  let ?S = "pool_step example_system default_options ''b''" and ?j = "new_job\<lparr>is_skip := True\<rparr>"
  let ?p = "\<lambda>t i out ws. \<lparr>todo = t, input_queue = i, output_queue = out, workers = ws, thread_exit = False, pool_world = example_world\<rparr>"
  have nb: "\<not> is_break ?j" "is_break break_job" by (simp_all add: new_job_def break_job_def)
  have "?S (?p [?j, break_job] [] [] [Waiting]) (?p [break_job] [?j] [] [Waiting])"
    using submit [of "?p [?j, break_job] [] [] [Waiting]"] by simp
  moreover have "?S (?p [break_job] [?j] [] [Waiting]) (?p [] [?j, break_job] [] [Waiting])"
    using submit [of "?p [break_job] [?j] [] [Waiting]"] by simp
  moreover have "?S (?p [] [?j, break_job] [] [Waiting]) (?p [] [break_job] [] [Holding ?j])"
    using take_job [of "?p [] [?j, break_job] [] [Waiting]" ?j "[break_job]" 0] nb by simp
  moreover have "?S (?p [] [break_job] [] [Holding ?j]) (?p [] [break_job] [?j] [Waiting])"
    using finish_job [of 0 "?p [] [break_job] [] [Holding ?j]" ?j example_system default_options "''b''" ?j example_world]
    by (simp add: process_job_def default_options_def)
  moreover have "?S (?p [] [break_job] [?j] [Waiting]) (?p [] [] [?j] [Stopped])"
    using take_job [of "?p [] [break_job] [?j] [Waiting]" break_job "[]" 0] nb by simp
  ultimately have reach: "?S\<^sup>*\<^sup>* (init_pool [?j] 1 example_world) (?p [] [] [?j] [Stopped])"
    by (auto simp: init_pool_def intro: converse_rtranclp_into_rtranclp)
  have "stuck example_system default_options ''b'' (?p [] [] [?j] [Stopped])"
    unfolding stuck_def by (auto elim!: pool_step.cases)
  from pool_returns_jobs [OF reach this] nb reach show ?thesis
    by (intro exI [of _ "?p [] [] [?j] [Stopped]"]) (auto simp: job_key_def new_job_def)
qed

text \<open>\<open>make_paths\<close> adds the module paths behind the old library path of the platform, but loses the old
  value of \<open>PYTHONPATH\<close>: it overwrites the variable before appending to it, so that the bindings
  stand there twice instead. Other variables stay.\<close>

theorem make_paths_variables:
  "case make_paths sys builddir module_path env of env' \<Rightarrow>
    (let bindings = path_join (path_join builddir ''bindings'') ''python'';
         (var, sep) =
           (if sys_platform sys = ''darwin'' then (''DYLD_LIBRARY_PATH'', CHR '':'')
            else if sys_platform sys = ''win32'' then (''PATH'', CHR '';'')
            else if sys_platform sys = ''cygwin'' then (''PATH'', CHR '':'')
            else (''LD_LIBRARY_PATH'', CHR '':''))
     in map_of env' x =
       (if x = ''PYTHONPATH'' then Some (if dict_has env ''PYTHONPATH'' then bindings @ '':'' @ bindings else bindings)
        else if x = var then
          Some ((case map_of env var of Some old \<Rightarrow> old | None \<Rightarrow> []) @ concat (map ((#) sep) module_path))
        else map_of env x))"
  by (auto simp: make_paths_def Let_def extend_path_var dict_simps)

end
