(* ===== verification/Test_Collect.thy ===== *)
theory Test_Collect
  imports Test_Jobs Test_Report
begin

text \<open>
  What the main thread of \<open>test.py\<close> does with the jobs that come back, and how it takes turns with the worker threads:
  it puts all jobs into the input queue, then takes one job after the other from the output queue while the
  workers still run. A schedule says who goes on in which state; nothing is assumed of it.
\<close>

section \<open>Collecting the results\<close>

record counts =
  passed_tests :: nat
  failed_tests :: nat
  crashed_tests :: nat
  valgrind_errors :: nat
  skipped_tests :: nat

definition no_counts :: counts where
  "no_counts = \<lparr>passed_tests = 0, failed_tests = 0, crashed_tests = 0, valgrind_errors = 0, skipped_tests = 0\<rparr>"

definition judge :: "job \<Rightarrow> counts \<Rightarrow> string \<times> counts" where
  "judge job c =
     (if is_skip job then (''SKIP'', c\<lparr>skipped_tests := skipped_tests c + 1\<rparr>)
      else if returncode job = 0 then (''PASS'', c\<lparr>passed_tests := passed_tests c + 1\<rparr>)
      else if returncode job = 1 then (''FAIL'', c\<lparr>failed_tests := failed_tests c + 1\<rparr>)
      else if returncode job = 2 then (''VALGR'', c\<lparr>valgrind_errors := valgrind_errors c + 1\<rparr>)
      else (''CRASH'', c\<lparr>crashed_tests := crashed_tests c + 1\<rparr>))"

definition seconds :: "nat \<Rightarrow> string" where
  \<comment> \<open>\<open>%.3f\<close> of a time in milliseconds\<close>
  "seconds ms = nat_str (ms div 1000) @ ''.'' @ nat_str (ms div 100 mod 10) @ nat_str (ms div 10 mod 10) @ nat_str (ms mod 10)"

definition example_entry :: "string \<Rightarrow> job \<Rightarrow> string" where
  "example_entry status job =
     ''<Example>'' @ nl @ ''  <Name>'' @ display_name job @ ''</Name>'' @ nl @
     ''  <Result>'' @ (if status \<in> {''PASS'', ''FAIL'', ''VALGR'', ''SKIP''} then status else ''CRASH'') @ ''</Result>'' @ nl @
     ''  <Time real='' @ dq @ seconds (elapsed_time job) @ dq @ ''/>'' @ nl @ ''</Example>'' @ nl"

definition test_entry :: "string \<Rightarrow> job \<Rightarrow> string" where
  "test_entry result job =
     ''<Test>'' @ nl @ ''  <Name>'' @ display_name job @ ''</Name>'' @ nl @ ''  '' @ result @ nl @ ''</Test>'' @ nl"

definition collect_job :: "string \<Rightarrow> job \<Rightarrow> counts \<Rightarrow> ('e world, counts) io" where
  "collect_job xml_results_file job c =
     (if is_break job then io_return c
      else
        let kind = (if is_example job \<or> is_pyexample job then ''Example'' else ''TestSuite'');
            (status, c) = judge job c in
        io_bind (print_line (status @ '': '' @ kind @ '' '' @ display_name job)) (\<lambda>_.
        io_bind
          (if is_example job \<or> is_pyexample job then
             append_file xml_results_file (example_entry status job)
           else if is_skip job then
             append_file xml_results_file (test_entry ''<Result>SKIP</Result>'' job)
           else if returncode job = 0 \<or> returncode job = 1 \<or> returncode job = 2 then
             io_bind (append_file xml_results_file []) (\<lambda>_.
             io_bind (read_file (tmp_file_name job)) (append_file xml_results_file))
           else
             io_bind (append_file xml_results_file (test_entry ''<Result>CRASH</Suite>'' job)) (\<lambda>_.
               if returncode job = 2
               then append_file xml_results_file (test_entry ''<Result>VALGR</Result>'' job)
               else io_return ()))
          (\<lambda>_. io_return c)))"

section \<open>The main thread and its workers\<close>

record 'e test_state =
  threads :: "'e pool"
  collected :: "job list"
  run_counts :: counts
  failure :: "py_exn option"

datatype actor = Main_thread | Worker nat | Interrupt

definition start_state :: "job list \<Rightarrow> nat \<Rightarrow> 'e world \<Rightarrow> 'e test_state" where
  "start_state jobs processors w =
     \<lparr>threads = init_pool jobs processors w, collected = [], run_counts = no_counts, failure = None\<rparr>"

text \<open>
  The main thread: a job or break job into the input queue, or, of the \<open>total_jobs\<close> jobs, the next one from the output
  queue, where it waits when that is empty. An exception ends it, not the workers.
\<close>

definition main_step :: "string \<Rightarrow> nat \<Rightarrow> 'e test_state \<Rightarrow> 'e test_state option" where
  "main_step xml_results_file total_jobs s =
     (let p = threads s in
      if failure s \<noteq> None then None
      else case todo p of
        j # js \<Rightarrow> Some (s\<lparr>threads := p\<lparr>todo := js, input_queue := input_queue p @ [j]\<rparr>\<rparr>)
      | [] \<Rightarrow>
          if length (collected s) = total_jobs then None
          else case output_queue p of
            [] \<Rightarrow> None
          | j # js \<Rightarrow>
              let (r, w) = collect_job xml_results_file j (run_counts s) (pool_world p);
                  s = s\<lparr>threads := p\<lparr>output_queue := js, pool_world := w\<rparr>, collected := collected s @ [j]\<rparr>
              in case r of Inl e \<Rightarrow> Some (s\<lparr>failure := Some e\<rparr>) | Inr c \<Rightarrow> Some (s\<lparr>run_counts := c\<rparr>))"

text \<open>The steps of \<open>pool_step\<close> that a worker makes, as a function.\<close>

definition worker_step :: "'e system \<Rightarrow> options \<Rightarrow> string \<Rightarrow> nat \<Rightarrow> 'e pool \<Rightarrow> 'e pool option" where
  "worker_step sys opts builddir i p =
     (if i < length (workers p) then
        (case workers p ! i of
           Waiting \<Rightarrow>
             (case input_queue p of
                [] \<Rightarrow> None
              | j # js \<Rightarrow>
                  Some (p\<lparr>input_queue := js, workers := (workers p)[i := if is_break j then Stopped else Holding j]\<rparr>))
         | Holding j \<Rightarrow>
             (case process_job sys opts builddir (thread_exit p) j (pool_world p) of
                (j', w) \<Rightarrow>
                  Some (p\<lparr>workers := (workers p)[i := Waiting], output_queue := output_queue p @ [j'], pool_world := w\<rparr>))
         | Stopped \<Rightarrow> None)
      else None)"

definition actor_step ::
  "'e system \<Rightarrow> options \<Rightarrow> string \<Rightarrow> string \<Rightarrow> nat \<Rightarrow> 'e test_state \<Rightarrow> actor \<Rightarrow> 'e test_state option" where
  "actor_step sys opts builddir xml total_jobs s a =
     (case a of
        Main_thread \<Rightarrow> main_step xml total_jobs s
      | Worker i \<Rightarrow> map_option (\<lambda>p. s\<lparr>threads := p\<rparr>) (worker_step sys opts builddir i (threads s))
      | Interrupt \<Rightarrow> if thread_exit (threads s) then None else Some (s\<lparr>threads := (threads s)\<lparr>thread_exit := True\<rparr>\<rparr>))"

text \<open>
  The schedule names the one that goes on in a state; when that one waits, it is the first that can. So a thread that
  can go on does so at last, and every order of steps is that of some schedule.
\<close>

definition all_actors :: "'e test_state \<Rightarrow> actor list" where
  "all_actors s = Main_thread # map Worker [0..<length (workers (threads s))]"

definition next_state ::
  "'e system \<Rightarrow> options \<Rightarrow> string \<Rightarrow> string \<Rightarrow> nat \<Rightarrow> ('e test_state \<Rightarrow> actor) \<Rightarrow> 'e test_state \<Rightarrow> 'e test_state option" where
  "next_state sys opts builddir xml total_jobs schedule s =
     (let step = actor_step sys opts builddir xml total_jobs s in
      case find (\<lambda>a. step a \<noteq> None) (schedule s # all_actors s) of
        None \<Rightarrow> None
      | Some a \<Rightarrow> step a)"

subsection \<open>The run ends\<close>

definition test_measure :: "'e test_state \<Rightarrow> nat" where
  "test_measure s = 2 * pool_measure (threads s) + length (output_queue (threads s))"

lemma worker_step_pool: "worker_step sys opts builddir i p = Some q \<Longrightarrow> pool_step sys opts builddir p q"
  unfolding worker_step_def
  by (auto split: if_splits worker.splits list.splits prod.splits intro: pool_step.intros
      intro: take_job [of p _ _ i, simplified] dest: take_job [of p _ _ i])

lemma pool_step_output: "pool_step sys opts builddir p q \<Longrightarrow> length (output_queue q) \<le> Suc (length (output_queue p))"
  by (erule pool_step.cases) auto

lemma pool_step_measure:
  assumes "pool_step sys opts builddir p q"
  shows "2 * pool_measure q + length (output_queue q) < 2 * pool_measure p + length (output_queue p)"
  using pool_step_decreases [OF assms] pool_step_output [OF assms] by linarith

lemma main_step_cases:
  assumes "main_step xml total_jobs s = Some s'"
  obtains (submits) j js where "failure s = None" "todo (threads s) = j # js"
      "s' = s\<lparr>threads := (threads s)\<lparr>todo := js, input_queue := input_queue (threads s) @ [j]\<rparr>\<rparr>"
    | (collects) j js r w where "failure s = None" "todo (threads s) = []" "length (collected s) \<noteq> total_jobs"
      "output_queue (threads s) = j # js" "collect_job xml j (run_counts s) (pool_world (threads s)) = (r, w)"
      "threads s' = (threads s)\<lparr>output_queue := js, pool_world := w\<rparr>" "collected s' = collected s @ [j]"
      "run_counts s' = (case r of Inl e \<Rightarrow> run_counts s | Inr c \<Rightarrow> c)"
      "failure s' = (case r of Inl e \<Rightarrow> Some e | Inr c \<Rightarrow> None)"
  using assms unfolding main_step_def Let_def
  by (auto split: if_splits list.splits prod.splits sum.splits)

lemma actor_step_measure:
  assumes "actor_step sys opts builddir xml total_jobs s a = Some s'"
  shows "test_measure s' < test_measure s"
proof (cases a)
  case Main_thread
  with assms have "main_step xml total_jobs s = Some s'" by (simp add: actor_step_def)
  then show ?thesis
  proof (cases rule: main_step_cases)
    case (submits j js)
    from pool_step_measure [OF submit [OF submits(2)]] submits(3) show ?thesis by (simp add: test_measure_def)
  next
    case (collects j js r w)
    then show ?thesis by (simp add: test_measure_def pool_measure_def)
  qed
next
  case (Worker i)
  with assms obtain p where p: "worker_step sys opts builddir i (threads s) = Some p" "s' = s\<lparr>threads := p\<rparr>"
    by (auto simp: actor_step_def)
  from pool_step_measure [OF worker_step_pool [OF p(1)]] p(2) show ?thesis by (simp add: test_measure_def)
next
  case Interrupt
  with assms show ?thesis by (auto simp: actor_step_def test_measure_def pool_measure_def split: if_splits)
qed

lemma next_state_actor:
  assumes "next_state sys opts builddir xml total_jobs schedule s = Some s'"
  obtains a where "actor_step sys opts builddir xml total_jobs s a = Some s'"
  using assms by (auto simp: next_state_def Let_def split: option.splits)

function run_threads ::
  "'e system \<Rightarrow> options \<Rightarrow> string \<Rightarrow> string \<Rightarrow> nat \<Rightarrow> ('e test_state \<Rightarrow> actor) \<Rightarrow> 'e test_state \<Rightarrow> 'e test_state" where
  "run_threads sys opts builddir xml total_jobs schedule s =
     (case next_state sys opts builddir xml total_jobs schedule s of
        None \<Rightarrow> s
      | Some s' \<Rightarrow> run_threads sys opts builddir xml total_jobs schedule s')"
  by pat_completeness auto

termination
  by (relation "measure (\<lambda>(sys, opts, builddir, xml, total_jobs, schedule, s). test_measure s)")
     (auto elim!: next_state_actor dest: actor_step_measure)

declare run_threads.simps [simp del]

section \<open>Counting\<close>

definition reported :: "job list \<Rightarrow> job list" where
  "reported = filter (\<lambda>j. \<not> is_break j)"

definition tally :: "job list \<Rightarrow> counts" where
  "tally js =
     \<lparr>passed_tests = length (filter (\<lambda>j. \<not> is_skip j \<and> returncode j = 0) js),
      failed_tests = length (filter (\<lambda>j. \<not> is_skip j \<and> returncode j = 1) js),
      crashed_tests = length (filter (\<lambda>j. \<not> is_skip j \<and> returncode j \<notin> {0, 1, 2}) js),
      valgrind_errors = length (filter (\<lambda>j. \<not> is_skip j \<and> returncode j = 2) js),
      skipped_tests = length (filter is_skip js)\<rparr>"

lemma tally_snoc: "tally (js @ [j]) = snd (judge j (tally js))"
  by (auto simp: tally_def judge_def)

lemma tally_total:
  "passed_tests (tally js) + failed_tests (tally js) + crashed_tests (tally js) + valgrind_errors (tally js) +
     skipped_tests (tally js) = length js"
proof (induction js rule: rev_induct)
  case Nil
  show ?case by (simp add: tally_def)
next
  case (snoc j js)
  then show ?case by (auto simp: tally_snoc judge_def)
qed

lemma fold_judge: "fold (\<lambda>j c. snd (judge j c)) js (tally js0) = tally (js0 @ js)"
  by (induction js arbitrary: js0) (simp_all flip: tally_snoc)

lemma tally_Nil: "tally [] = no_counts"
  by (simp add: tally_def no_counts_def)

lemma collect_job_counts:
  "collect_job xml j c w = (Inr c', w') \<Longrightarrow> c' = (if is_break j then c else snd (judge j c))"
  by (auto simp: collect_job_def io_return_def io_bind_eq_Inr Let_def split: if_splits prod.splits)

definition status_of :: "job \<Rightarrow> string" where
  "status_of job = fst (judge job no_counts)"

lemma judge_status: "fst (judge job c) = status_of job"
  by (simp add: judge_def status_of_def)

definition reads_file :: "job \<Rightarrow> bool" where
  "reads_file job \<longleftrightarrow> \<not> is_break job \<and> \<not> is_example job \<and> \<not> is_pyexample job \<and> \<not> is_skip job \<and>
     returncode job \<in> {0, 1, 2}"

definition result_entry :: "(string \<rightharpoonup> string) \<Rightarrow> job \<Rightarrow> string" where
  "result_entry fs job =
     (if is_example job \<or> is_pyexample job then example_entry (status_of job) job
      else if is_skip job then test_entry ''<Result>SKIP</Result>'' job
      else if reads_file job then the (fs (tmp_file_name job))
      else test_entry ''<Result>CRASH</Suite>'' job)"

definition result_line :: "job \<Rightarrow> string" where
  "result_line job = status_of job @ '': '' @
     (if is_example job \<or> is_pyexample job then ''Example'' else ''TestSuite'') @ '' '' @ display_name job"

lemma collect_job_eq:
  assumes "\<not> is_break job" "files w xml = Some old"
    and "reads_file job \<Longrightarrow> tmp_file_name job \<noteq> xml \<and> files w (tmp_file_name job) \<noteq> None"
  shows "collect_job xml job c w = (Inr (snd (judge job c)),
    w\<lparr>files := (files w)(xml \<mapsto> old @ result_entry (files w) job), console := console w @ [result_line job]\<rparr>)"
proof -
  obtain status c' where j: "judge job c = (status, c')" by fastforce
  then have status: "status = status_of job" using judge_status [of job c] by simp
  have shown: "\<not> is_skip job \<Longrightarrow> returncode job \<in> {0, 1, 2} \<Longrightarrow> \<not> is_example job \<and> \<not> is_pyexample job \<Longrightarrow> reads_file job"
    using assms(1) by (simp add: reads_file_def)
  show ?thesis
    using assms shown unfolding collect_job_def Let_def j
    by (auto simp: io_bind_def io_return_def world_defs result_entry_def status result_line_def reads_file_def fun_eq_iff
        split: option.splits) blast+
qed

lemma passed_all:
  "passed_tests (tally (reported js)) + skipped_tests (tally (reported js)) = length js \<longleftrightarrow>
   list_all (\<lambda>j. \<not> is_break j \<and> (is_skip j \<or> returncode j = 0)) js"
proof -
  let ?ok = "\<lambda>j. \<not> is_break j \<and> (is_skip j \<or> returncode j = 0)"
  have "passed_tests (tally (reported js)) + skipped_tests (tally (reported js)) = length (filter ?ok js)"
    by (induction js) (auto simp: tally_def reported_def)
  moreover have "length (filter ?ok js) = length js \<longleftrightarrow> list_all ?ok js"
    by (metis (mono_tags, lifting) filter_True length_filter_less less_irrefl list_all_iff)
  ultimately show ?thesis by simp
qed

section \<open>No job is lost between the threads\<close>

lemma collect_job_error:
  "collect_job xml j c w = (Inl e, w') \<Longrightarrow> e = IOError \<and> reads_file j"
  by (auto simp: collect_job_def io_bind_def io_return_def world_defs reads_file_def Let_def
      split: if_splits prod.splits option.splits)

text \<open>The pool with what the main thread has taken from it put back.\<close>

definition before_collecting :: "'e test_state \<Rightarrow> 'e pool" where
  "before_collecting s = (threads s)\<lparr>output_queue := collected s @ output_queue (threads s)\<rparr>"

definition test_inv :: "'e system \<Rightarrow> options \<Rightarrow> string \<Rightarrow> job list \<Rightarrow> nat \<Rightarrow> 'e test_state \<Rightarrow> bool" where
  "test_inv sys opts builddir jobs n s \<longleftrightarrow> pool_inv sys opts builddir jobs n (before_collecting s) \<and>
     (case failure s of
        None \<Rightarrow> run_counts s = tally (reported (collected s))
      | Some e \<Rightarrow> e = IOError \<and> list_ex reads_file (collected s))"

lemma pool_step_front:
  "pool_step sys opts builddir p q \<Longrightarrow>
   pool_step sys opts builddir (p\<lparr>output_queue := c @ output_queue p\<rparr>) (q\<lparr>output_queue := c @ output_queue q\<rparr>)"
proof (induction rule: pool_step.induct)
  case (submit p j js)
  then show ?case using pool_step.submit [of "p\<lparr>output_queue := c @ output_queue p\<rparr>" j js] by (cases p) simp
next
  case (take_job p j js i)
  then show ?case using pool_step.take_job [of "p\<lparr>output_queue := c @ output_queue p\<rparr>" j js i] by (cases p) simp
next
  case (finish_job i p j j' w')
  then show ?case using pool_step.finish_job [of i "p\<lparr>output_queue := c @ output_queue p\<rparr>" j sys opts builddir j' w'] by (cases p) simp
next
  case (interrupt p)
  then show ?case using pool_step.interrupt [of "p\<lparr>output_queue := c @ output_queue p\<rparr>"] by (cases p) simp
qed

lemma pool_inv_world: "pool_inv sys opts builddir jobs n (p\<lparr>pool_world := w\<rparr>) = pool_inv sys opts builddir jobs n p"
  by (simp add: pool_inv_def)

lemma start_state_inv: "list_all (\<lambda>j. \<not> is_break j) jobs \<Longrightarrow> test_inv sys opts builddir jobs n (start_state jobs n w)"
  using init_pool_inv [of jobs sys opts builddir n w]
  by (simp add: test_inv_def before_collecting_def start_state_def init_pool_def reported_def tally_Nil)

lemma actor_step_inv:
  assumes inv: "test_inv sys opts builddir jobs n s" and step: "actor_step sys opts builddir xml total_jobs s a = Some s'"
  shows "test_inv sys opts builddir jobs n s'"
proof -
  have pool: ?thesis if "pool_step sys opts builddir (threads s) p" "s' = s\<lparr>threads := p\<rparr>" for p
    using pool_step_inv [OF _ pool_step_front [OF that(1), of "collected s"]] inv that(2)
    by (simp add: test_inv_def before_collecting_def split: option.splits)
  show ?thesis
  proof (cases a)
    case Main_thread
    with step have "main_step xml total_jobs s = Some s'" by (simp add: actor_step_def)
    then show ?thesis
    proof (cases rule: main_step_cases)
      case (submits j js)
      from pool [OF submit [OF submits(2)] submits(3)] show ?thesis .
    next
      case (collects j js r w)
      have "before_collecting s' = (before_collecting s)\<lparr>pool_world := w\<rparr>"
        using collects by (simp add: before_collecting_def)
      then have "pool_inv sys opts builddir jobs n (before_collecting s')"
        using inv by (simp add: test_inv_def pool_inv_world)
      moreover have counts: "run_counts s = tally (reported (collected s))" using inv collects(1) by (simp add: test_inv_def)
      moreover have "r = Inr c \<Longrightarrow> c = tally (reported (collected s @ [j]))" for c
        using collect_job_counts [of xml j "run_counts s" _ c w] collects(5) counts
        by (auto simp: reported_def simp flip: tally_snoc split: if_splits)
      moreover have "r = Inl e \<Longrightarrow> e = IOError \<and> reads_file j" for e
        using collect_job_error [of xml j "run_counts s" _ e w] collects(5) by simp
      ultimately show ?thesis using collects by (cases r) (simp_all add: test_inv_def)
    qed
  next
    case (Worker i)
    with step obtain p where "worker_step sys opts builddir i (threads s) = Some p" "s' = s\<lparr>threads := p\<rparr>"
      by (auto simp: actor_step_def)
    with pool [OF worker_step_pool] show ?thesis by blast
  next
    case Interrupt
    with step pool [OF interrupt] show ?thesis by (auto simp: actor_step_def split: if_splits)
  qed
qed

lemma run_threads_inv:
  assumes "test_inv sys opts builddir jobs n s"
  shows "test_inv sys opts builddir jobs n (run_threads sys opts builddir xml total_jobs schedule s)"
  using assms
proof (induction sys opts builddir xml total_jobs schedule s rule: run_threads.induct)
  case (1 sys opts builddir xml total_jobs schedule s)
  show ?case
  proof (cases "next_state sys opts builddir xml total_jobs schedule s")
    case None
    with 1 show ?thesis by (simp add: run_threads.simps)
  next
    case (Some s')
    then obtain a where "actor_step sys opts builddir xml total_jobs s a = Some s'" by (rule next_state_actor)
    from actor_step_inv [OF "1.prems" this] 1(1) [OF Some] Some show ?thesis by (simp add: run_threads.simps)
  qed
qed

lemma run_threads_end:
  "next_state sys opts builddir xml total_jobs schedule (run_threads sys opts builddir xml total_jobs schedule s) = None"
proof (induction sys opts builddir xml total_jobs schedule s rule: run_threads.induct)
  case (1 sys opts builddir xml total_jobs schedule s)
  then show ?case
    by (cases "next_state sys opts builddir xml total_jobs schedule s") (simp_all add: run_threads.simps [of _ _ _ _ _ _ s])
qed

lemma collected_all:
  assumes "test_inv sys opts builddir jobs n s" "length (collected s) = length jobs"
  shows "\<exists>started. mset started = mset jobs \<and> list_all2 (processed sys opts builddir) started (collected s)"
proof -
  obtain rest started where s: "mset rest + mset (held (workers (threads s))) + mset started = mset jobs"
    "list_all2 (processed sys opts builddir) started (collected s @ output_queue (threads s))"
    using assms(1) by (auto simp: test_inv_def before_collecting_def pool_inv_def)
  have "length rest + length (held (workers (threads s))) + length started = length jobs"
    using arg_cong [OF s(1), of size] by simp
  moreover have "length started = length (collected s) + length (output_queue (threads s))"
    using list_all2_lengthD [OF s(2)] by simp
  ultimately have "rest = []" "held (workers (threads s)) = []" "output_queue (threads s) = []" using assms(2) by simp_all
  with s show ?thesis by auto
qed

text \<open>When nothing can go on and there are workers, the main thread has got all jobs, unless it failed.\<close>

lemma ended_collected:
  assumes inv: "test_inv sys opts builddir jobs n s" and n: "0 < n"
    and ended: "next_state sys opts builddir xml (length jobs) schedule s = None" and ok: "failure s = None"
  shows "length (collected s) = length jobs"
proof -
  let ?p = "threads s" and ?q = "before_collecting s"
  have none: "actor_step sys opts builddir xml (length jobs) s a = None" if "a \<in> set (all_actors s)" for a
  proof -
    have "find (\<lambda>a. actor_step sys opts builddir xml (length jobs) s a \<noteq> None) (schedule s # all_actors s) = None"
    proof (rule ccontr)
      assume "\<not> ?thesis"
      then obtain b where b: "find (\<lambda>a. actor_step sys opts builddir xml (length jobs) s a \<noteq> None) (schedule s # all_actors s) = Some b"
        by blast
      then have "actor_step sys opts builddir xml (length jobs) s b \<noteq> None" unfolding find_Some_iff by auto
      with b ended show False by (simp add: next_state_def Let_def)
    qed
    with that show ?thesis unfolding find_None_iff by (meson list.set_intros(2))
  qed
  have main: "main_step xml (length jobs) s = None"
    using none [of Main_thread] by (simp add: all_actors_def actor_step_def)
  have todo: "todo ?p = []" using main ok by (auto simp: main_step_def Let_def split: list.splits)
  have worker: "worker_step sys opts builddir i ?p = None" if "i < length (workers ?p)" for i
    using none [of "Worker i"] that by (simp add: all_actors_def actor_step_def)
  have "q = ?q\<lparr>thread_exit := True\<rparr>" if "pool_step sys opts builddir ?q q" for q
    using that
  proof (cases rule: pool_step.cases)
    case (take_job j js i)
    with worker [of i] show ?thesis by (simp add: before_collecting_def worker_step_def)
  next
    case (finish_job i j j' w')
    with worker [of i] show ?thesis by (simp add: before_collecting_def worker_step_def split: prod.splits)
  qed (use todo in \<open>simp_all add: before_collecting_def\<close>)
  then have "stuck sys opts builddir ?q" by (simp add: stuck_def)
  from stuck_pool [OF _ n this, of jobs] inv obtain started where st: "mset started = mset jobs"
    "list_all2 (processed sys opts builddir) started (collected s @ output_queue ?p)"
    by (auto simp: test_inv_def before_collecting_def)
  have l: "length jobs = length (collected s) + length (output_queue ?p)"
    using list_all2_lengthD [OF st(2)] arg_cong [OF st(1), of size] by simp
  show ?thesis
  proof (rule ccontr)
    assume "length (collected s) \<noteq> length jobs"
    with l obtain j js where "output_queue ?p = j # js" by (cases "output_queue ?p") auto
    with main ok todo \<open>length (collected s) \<noteq> length jobs\<close> show False
      by (auto simp: main_step_def Let_def split: prod.splits sum.splits)
  qed
qed

text \<open>The whole run as a pool: what the main thread collects, whatever the schedule.\<close>

definition run_collects ::
  "'e system \<Rightarrow> options \<Rightarrow> string \<Rightarrow> string \<Rightarrow> nat \<Rightarrow> 'e world \<Rightarrow> job list \<Rightarrow> job list \<Rightarrow> bool" where
  "run_collects sys opts builddir xml n w jobs out \<longleftrightarrow>
     (\<exists>schedule. case run_threads sys opts builddir xml (length jobs) schedule (start_state jobs n w) of
        s \<Rightarrow> length (collected s) = length jobs \<and> out = collected s)"

interpretation runs: worker_pool "run_collects sys opts builddir xml n w" "processed sys opts builddir"
proof
  show "\<exists>started. mset started = mset jobs \<and> list_all2 (processed sys opts builddir) started out"
    if "list_all (\<lambda>j. \<not> is_break j) jobs" "run_collects sys opts builddir xml n w jobs out" for jobs out
    using that collected_all [OF run_threads_inv [OF start_state_inv]] by (auto simp: run_collects_def)
  show "job_key j' = job_key j" if "processed sys opts builddir j j'" for j j' by (rule processed_key [OF that])
qed

end
