(* ===== verification/Test_Runner.thy ===== *)
theory Test_Runner
  imports Config_Files Test_Collect
begin

text \<open>
  The main program of \<open>test.py\<close>: \<open>run_tests\<close> in the order of the code. It builds with waf, reads the
  configuration and the build status, lists what to run, dispatches the jobs to the threads, and turns what comes back
  into the results file, the counters and the exit code. Parameters are bundled in the record
  \<open>runner\<close>: the system, the interpreter (\<open>eval\<close>, \<open>exec\<close>), the XML parser, the date, and the
  schedule of the threads.
\<close>

section \<open>Configuration\<close>

record waf_config =
  builddir :: string
  module_path :: "string list"
  enabled_modules :: "string list"
  nsc_enabled :: bool
  enable_examples :: bool
  enable_tests :: bool
  enable_python_bindings :: bool
  example_directories :: "string list"

record 'e runner =
  run_system :: "'e system"
  run_eval_string :: "string \<Rightarrow> string result"
  run_exec :: "string \<Rightarrow> waf_config \<Rightarrow> waf_config result"
  run_show_item :: "string \<Rightarrow> waf_config \<Rightarrow> string result"
  run_eval_cond :: "waf_config \<Rightarrow> string \<Rightarrow> bool result"
  run_eval_names :: "string \<Rightarrow> string list result"
  run_eval_cpp :: "string \<Rightarrow> (string \<times> string \<times> string) list result"
  run_eval_python :: "string \<Rightarrow> (string \<times> string) list result"
  run_parse_xml :: "string \<Rightarrow> xml result"
  run_date :: "'e world \<Rightarrow> string"
  run_sysconf :: "nat option"
  run_parse_nat :: "string \<Rightarrow> nat result"
  run_schedule :: "'e test_state \<Rightarrow> actor"

definition core_kinds :: "string list" where
  "core_kinds = [''bvt'', ''core'', ''system'', ''unit'']"

definition core_valgrind_skip_tests :: "string list" where
  "core_valgrind_skip_tests = [''ns3-tcp-cwnd'', ''nsc-tcp-loss'', ''ns3-tcp-interoperability'', ''routing-click'']"

definition core_nsc_missing_skip_tests :: "string list" where
  "core_nsc_missing_skip_tests = [''ns3-tcp-cwnd'', ''nsc-tcp-loss'', ''ns3-tcp-interoperability'']"

definition interesting_config_items :: "string list" where
  "interesting_config_items =
     [''NS3_ENABLED_MODULES'', ''NS3_MODULE_PATH'', ''NSC_ENABLED'', ''ENABLE_REAL_TIME'', ''ENABLE_THREADING'',
      ''ENABLE_EXAMPLES'', ''ENABLE_TESTS'', ''EXAMPLE_DIRECTORIES'', ''ENABLE_PYTHON_BINDINGS'',
      ''ENABLE_CLICK'', ''ENABLE_OPENFLOW'']"

definition out_dir_line :: "'e runner \<Rightarrow> string \<Rightarrow> string option \<Rightarrow> string option result" where
  "out_dir_line R line out_dir =
     (if prefix ''out_dir ='' line then
        case split_on CHR ''='' line of
          [key, val] \<Rightarrow> res_bind (run_eval_string R (strip val)) (\<lambda>d. Inr (Some d))
        | _ \<Rightarrow> Inl ValueError
      else Inr out_dir)"

definition read_waf_config :: "'e runner \<Rightarrow> options \<Rightarrow> waf_config \<Rightarrow> ('e world, waf_config) io" where
  "read_waf_config R opts cfg =
     io_bind (read_file ''.lock-wafbuild'') (\<lambda>lock.
     io_bind (io_lift (for_each (out_dir_line R) (file_lines lock) None)) (\<lambda>out_dir.
     case out_dir of
       None \<Rightarrow> io_raise UnboundLocalError
     | Some out_dir \<Rightarrow>
         io_bind (read_file (out_dir @ ''/c4che/_cache.py'')) (\<lambda>cache.
         io_bind (io_lift (for_each
           (\<lambda>line. for_each (\<lambda>item cfg. if prefix item line then run_exec R line cfg else Inr cfg)
             interesting_config_items) (file_lines cache) (cfg\<lparr>builddir := out_dir\<rparr>))) (\<lambda>cfg.
         io_bind (io_when (opt_verbose opts) (io_for_each (\<lambda>item _.
             io_bind (io_lift (run_show_item R item cfg)) (\<lambda>v. print_line (item @ '' == '' @ v)))
           interesting_config_items ())) (\<lambda>_.
         io_return cfg)))))"

definition set_paths :: "'e runner \<Rightarrow> options \<Rightarrow> waf_config \<Rightarrow> ('e world, unit) io" where
  "set_paths R opts cfg w =
     (let env = make_paths (run_system R) (builddir cfg) (module_path cfg) (environ w);
          platform = sys_platform (run_system R);
          var = (if platform = ''darwin'' then ''DYLD_LIBRARY_PATH''
                 else if platform = ''win32'' \<or> platform = ''cygwin'' then ''PATH'' else ''LD_LIBRARY_PATH'');
          show = (\<lambda>v. ''os.environ['' @ dq @ v @ dq @ ''] == '' @ (case map_of env v of Some s \<Rightarrow> s | None \<Rightarrow> []))
      in (Inr (), w\<lparr>environ := env,
            console := console w @ (if opt_verbose opts then [show ''PYTHONPATH'', show var] else [])\<rparr>))"

section \<open>Building\<close>

definition waf_command :: "options \<Rightarrow> string \<Rightarrow> string" where
  "waf_command opts platform =
     (if opt_kinds opts \<or> opt_list opts \<or> (opt_constrain opts \<noteq> [] \<and> opt_constrain opts \<in> set core_kinds) then
        (if platform = ''win32'' then ''waf --target=test-runner'' else ''./waf --target=test-runner'')
      else if opt_example opts \<noteq> [] then
        (if platform = ''win32'' then ''waf --target='' @ path_tail (opt_example opts)
         else ''./waf --target='' @ path_tail (opt_example opts))
      else (if platform = ''win32'' then ''waf'' else ''./waf''))"

definition run_waf :: "'e runner \<Rightarrow> options \<Rightarrow> ('e world, int) io" where
  "run_waf R opts w =
     (if opt_nowaf opts then (Inr 0, w)
      else
        let waf_cmd = waf_command opts (sys_platform (run_system R));
            w = (if opt_verbose opts then snd (print_line (''Building: '' @ waf_cmd) w) else w);
            ((retval, _, _), w) = sys_shell (run_system R) waf_cmd (sys_getcwd (run_system R)) w
        in (Inr retval, if retval \<noteq> 0 then snd (print_line ''Waf died. Not running tests'' w) else w))"

section \<open>Examples and suites\<close>

definition examples_in ::
  "'e runner \<Rightarrow> waf_config \<Rightarrow> 'e world \<Rightarrow> string \<times> string
    \<Rightarrow> (string \<times> string \<times> string) list \<times> (string \<times> string) list
    \<Rightarrow> ((string \<times> string \<times> string) list \<times> (string \<times> string) list) result" where
  "examples_in R cfg w paths tests =
     (let (example_directory, examples_to_run_path) = paths in
      parse_examples_to_run_file (run_eval_cpp R) (run_eval_python R) w examples_to_run_path
        (path_join (builddir cfg) example_directory) example_directory tests)"

definition find_examples ::
  "'e runner \<Rightarrow> waf_config \<Rightarrow> 'e world
    \<Rightarrow> ((string \<times> string \<times> string) list \<times> (string \<times> string) list) result" where
  "find_examples R cfg w =
     res_bind
       (for_each (examples_in R cfg w)
         (map (\<lambda>directory. let d = path_join ''examples'' directory in (d, path_join d ''examples-to-run.py''))
           (example_directories cfg)) ([], []))
       (for_each (examples_in R cfg w)
         (map (\<lambda>module. let d = path_join ''src'' (drop (length ''ns3-'') module) in
             (path_join d ''examples'', path_join (path_join d ''test'') ''examples-to-run.py''))
           (enabled_modules cfg)))"

text \<open>A call of \<open>run_job_synchronously\<close> for the test runner's own listings.\<close>

definition ask_test_runner :: "'e runner \<Rightarrow> options \<Rightarrow> waf_config \<Rightarrow> string \<Rightarrow> ('e world, string) io" where
  "ask_test_runner R opts cfg args w =
     (let ((rc, standard_out, standard_err, et), w) =
        run_job_synchronously (run_system R) opts (builddir cfg) (path_join ''utils'' (''test-runner '' @ args))
          (sys_getcwd (run_system R)) False False [] w
      in (Inr standard_out, w))"

definition choose_suites :: "'e runner \<Rightarrow> options \<Rightarrow> waf_config \<Rightarrow> ('e world, string list) io" where
  "choose_suites R opts cfg =
     io_bind
       (if opt_suite opts \<noteq> [] then
          io_bind (ask_test_runner R opts cfg ''--print-test-name-list'') (\<lambda>suites.
            if occurs_in (opt_suite opts) suites then io_return (opt_suite opts @ nl)
            else io_bind (print_line ''The test suite was not run because an unknown test suite name was requested.'')
              (\<lambda>_. io_raise (SystemExit 2)))
        else if opt_example opts = [] \<and> opt_pyexample opts = [] then
          (if opt_constrain opts \<noteq> []
           then ask_test_runner R opts cfg (''--print-test-name-list --test-type='' @ opt_constrain opts)
           else ask_test_runner R opts cfg ''--print-test-name-list'')
        else io_return [])
       (\<lambda>suites. io_return (split_on CHR 0x0A suites))"

definition count_processors :: "'e runner \<Rightarrow> ('e world, nat) io" where
  "count_processors R w =
     (if sys_platform (run_system R) = ''win32'' then (Inr 1, w)
      else case run_sysconf R of
        Some n \<Rightarrow> (Inr n, w)
      | None \<Rightarrow>
          let ((_, standard_out, standard_err), w) =
                sys_shell (run_system R) ''sysctl -n hw.ncpu'' (sys_getcwd (run_system R)) w
          in if standard_err = [] then (run_parse_nat R standard_out, w) else (Inr 1, w))"

section \<open>Dispatching\<close>

definition suite_job :: "'e runner \<Rightarrow> options \<Rightarrow> waf_config \<Rightarrow> string \<Rightarrow> string \<Rightarrow> job" where
  "suite_job R opts cfg outdir test =
     new_job\<lparr>display_name := test,
       tmp_file_name := path_join outdir (test @ ''.xml''),
       job_cwd := sys_getcwd (run_system R),
       basedir := sys_getcwd (run_system R),
       tempdir := outdir,
       shell_command := path_join ''utils''
         (''test-runner --test-name='' @ test @ (if opt_multiple opts then [] else '' --stop-on-failure'')),
       is_skip := (opt_valgrind opts \<and> test \<in> set core_valgrind_skip_tests) \<or>
         (\<not> nsc_enabled cfg \<and> test \<in> set core_nsc_missing_skip_tests)\<rparr>"

definition queue_job :: "options \<Rightarrow> job \<Rightarrow> job list \<Rightarrow> ('e world, job list) io" where
  "queue_job opts job jobs =
     io_bind (io_when (opt_verbose opts) (print_line (''Queue '' @ display_name job)))
       (\<lambda>_. io_return (jobs @ [job]))"

definition dispatch_suites ::
  "'e runner \<Rightarrow> options \<Rightarrow> waf_config \<Rightarrow> string \<Rightarrow> string list \<Rightarrow> job list \<Rightarrow> ('e world, job list) io" where
  "dispatch_suites R opts cfg outdir suite_list =
     io_for_each (\<lambda>test jobs.
       let test = strip test in
       if test \<noteq> [] then queue_job opts (suite_job R opts cfg outdir test) jobs else io_return jobs) suite_list"

definition example_job :: "'e runner \<Rightarrow> string \<Rightarrow> bool \<Rightarrow> string \<Rightarrow> string \<Rightarrow> job" where
  "example_job R outdir python test buildpath =
     new_job\<lparr>is_example := \<not> python, is_pyexample := python, display_name := test, tmp_file_name := [],
       job_cwd := outdir, basedir := sys_getcwd (run_system R), tempdir := outdir,
       shell_command := test, build_path := buildpath\<rparr>"

definition dispatch_examples ::
  "'e runner \<Rightarrow> options \<Rightarrow> waf_config \<Rightarrow> string \<Rightarrow> string list \<Rightarrow> (string \<times> string \<times> string) list
    \<Rightarrow> job list \<Rightarrow> ('e world, job list) io" where
  "dispatch_examples R opts cfg outdir runnable_programs example_tests jobs =
     (if opt_suite opts = [] \<and> opt_example opts = [] \<and> opt_pyexample opts = [] then
        if (opt_constrain opts = [] \<or> opt_constrain opts = ''example'') \<and> enable_examples cfg then
          io_for_each (\<lambda>(test, do_run, do_valgrind_run) jobs.
            if path_tail test \<in> set runnable_programs then
              io_bind (io_lift (run_eval_cond R cfg do_run)) (\<lambda>run.
                if run then
                  io_bind (if opt_valgrind opts then io_lift (run_eval_cond R cfg do_valgrind_run) else io_return True)
                    (\<lambda>valgrind_run.
                      queue_job opts
                        ((example_job R outdir False test [])
                          \<lparr>is_skip := opt_valgrind opts \<and> \<not> valgrind_run\<rparr>) jobs)
                else io_return jobs)
            else io_return jobs) example_tests jobs
        else io_return jobs
      else if opt_example opts \<noteq> [] then
        if path_tail (opt_example opts) \<notin> set runnable_programs then
          io_bind (print_line (''Example '' @ path_tail (opt_example opts) @ '' is not runnable.''))
            (\<lambda>_. io_return jobs)
        else queue_job opts (example_job R outdir False (opt_example opts) (opt_buildpath opts)) jobs
      else io_return jobs)"

definition dispatch_pyexamples ::
  "'e runner \<Rightarrow> options \<Rightarrow> waf_config \<Rightarrow> string \<Rightarrow> string list \<Rightarrow> (string \<times> string) list
    \<Rightarrow> job list \<Rightarrow> ('e world, job list) io" where
  "dispatch_pyexamples R opts cfg outdir runnable_scripts python_tests jobs =
     (if opt_suite opts = [] \<and> opt_example opts = [] \<and> opt_pyexample opts = [] then
        if (opt_constrain opts = [] \<or> opt_constrain opts = ''pyexample'') \<and> enable_examples cfg then
          io_for_each (\<lambda>(test, do_run) jobs.
            if path_tail test \<in> set runnable_scripts then
              io_bind (io_lift (run_eval_cond R cfg do_run)) (\<lambda>run.
                if run then
                  queue_job opts
                    ((example_job R outdir True test [])
                      \<lparr>is_skip := opt_valgrind opts \<or> \<not> enable_python_bindings cfg\<rparr>) jobs
                else io_return jobs)
            else io_return jobs) python_tests jobs
        else io_return jobs
      else if opt_pyexample opts \<noteq> [] then
        if path_tail (opt_pyexample opts) \<notin> set runnable_scripts then
          io_bind (print_line (''Example '' @ path_tail (opt_pyexample opts) @ '' is not runnable.''))
            (\<lambda>_. io_return jobs)
        else queue_job opts (example_job R outdir True (opt_pyexample opts) []) jobs
      else io_return jobs)"

section \<open>Collecting the results\<close>

definition summary :: "counts \<Rightarrow> nat \<Rightarrow> string" where
  "summary c total_tests =
     nat_str (passed_tests c) @ '' of '' @ nat_str total_tests @ '' tests passed ('' @ nat_str (passed_tests c) @ '' passed, '' @
     nat_str (skipped_tests c) @ '' skipped, '' @ nat_str (failed_tests c) @ '' failed, '' @
     nat_str (crashed_tests c) @ '' crashed, '' @ nat_str (valgrind_errors c) @ '' valgrind errors)''"

definition copy_file :: "string \<Rightarrow> string \<Rightarrow> ('e world, unit) io" where
  "copy_file src dst = io_bind (read_file src) (write_file dst)"

definition disabled_notes :: "waf_config \<Rightarrow> string list" where
  "disabled_notes cfg =
     (if \<not> enable_tests cfg \<or> \<not> enable_examples cfg then
        [[]] @
        (if \<not> enable_tests cfg then
           [''***  Note: ns-3 tests are currently disabled. Enable them by adding'',
            ''***  '' @ dq @ ''--enable-tests'' @ dq @ '' to ./waf configure or modifying your .ns3rc file.'', []]
         else []) @
        (if \<not> enable_examples cfg then
           [''***  Note: ns-3 examples are currently disabled. Enable them by adding'',
            ''***  '' @ dq @ ''--enable-examples'' @ dq @ '' to ./waf configure or modifying your .ns3rc file.'', []]
         else [])
      else [])"

definition finish_run ::
  "'e runner \<Rightarrow> options \<Rightarrow> waf_config \<Rightarrow> string \<Rightarrow> string \<Rightarrow> nat \<Rightarrow> counts \<Rightarrow> ('e world, int) io" where
  "finish_run R opts cfg outdir xml_results_file total_tests c =
     io_seq (append_file xml_results_file (''</Results>'' @ nl))
    (io_seq (print_line (summary c total_tests))
    (io_seq (io_when (opt_html opts \<noteq> []) (translate_to_html (run_parse_xml R) xml_results_file (opt_html opts)))
    (io_seq (io_when (opt_text opts \<noteq> []) (translate_to_text (run_parse_xml R) xml_results_file (opt_text opts)))
    (io_seq (io_when (opt_xml opts \<noteq> []) (copy_file xml_results_file (opt_xml opts)))
    (io_seq (io_for_each (\<lambda>line _. print_line line) (disabled_notes cfg) ())
    (io_seq (io_when (\<not> opt_retain opts) (remove_tree outdir))
      (io_return (if passed_tests c + skipped_tests c = total_tests then 0 else 1))))))))"

definition dispatch_all ::
  "'e runner \<Rightarrow> options \<Rightarrow> waf_config \<Rightarrow> string \<Rightarrow> string list \<Rightarrow> string list \<Rightarrow> string list
    \<Rightarrow> (string \<times> string \<times> string) list \<times> (string \<times> string) list \<Rightarrow> ('e world, job list) io" where
  "dispatch_all R opts cfg outdir suite_list programs scripts tests =
     io_bind (dispatch_suites R opts cfg outdir suite_list []) (\<lambda>jobs.
     io_bind (dispatch_examples R opts cfg outdir programs (fst tests) jobs)
       (dispatch_pyexamples R opts cfg outdir scripts (snd tests)))"

text \<open>
  From the start of the threads to the exit code. Without a worker thread the main thread waits for ever for the first
  job; \<open>blocked\<close>, which is no exception of Python, is the value of such a call.
\<close>

definition blocked :: py_exn where
  "blocked = PyException ''(waits for ever)''"

definition run_jobs ::
  "'e runner \<Rightarrow> options \<Rightarrow> waf_config \<Rightarrow> string \<Rightarrow> string \<Rightarrow> nat \<Rightarrow> job list \<Rightarrow> ('e world, int) io" where
  "run_jobs R opts cfg outdir xml_results_file processors jobs w =
     (let s = run_threads (run_system R) opts (builddir cfg) xml_results_file (length jobs) (run_schedule R)
                (start_state jobs processors w) in
      case failure s of
        Some e \<Rightarrow> (Inl e, pool_world (threads s))
      | None \<Rightarrow>
          if length (collected s) = length jobs
          then finish_run R opts cfg outdir xml_results_file (length jobs) (run_counts s) (pool_world (threads s))
          else (Inl blocked, pool_world (threads s)))"

definition start_results :: "string \<Rightarrow> string \<Rightarrow> ('e world, unit) io" where
  "start_results outdir xml_results_file w =
     (let w = (if path_exists ''testpy-output'' w then w else snd (make_dirs ''testpy-output'' w));
          w = (if path_exists outdir w then w else snd (make_dirs outdir w))
      in write_file xml_results_file (''<?xml version='' @ dq @ ''1.0'' @ dq @ ''?>'' @ nl @ ''<Results>'' @ nl) w)"

definition list_kinds :: "'e runner \<Rightarrow> options \<Rightarrow> waf_config \<Rightarrow> ('e world, unit) io" where
  "list_kinds R opts cfg =
     io_seq (io_when (opt_kinds opts)
       (io_bind (ask_test_runner R opts cfg ''--print-test-type-list'') print_line))
     (io_when (opt_list opts)
       (io_bind (ask_test_runner R opts cfg ''--print-test-name-list'') print_line))"

text \<open>The configuration and the lists of the build status file.\<close>

definition read_build :: "'e runner \<Rightarrow> options \<Rightarrow> waf_config \<Rightarrow> ('e world, waf_config \<times> string list \<times> string list) io" where
  "read_build R opts cfg =
     io_bind (read_waf_config R opts cfg) (\<lambda>cfg.
     io_bind (set_paths R opts cfg) (\<lambda>_.
     let build_status_file = path_join (builddir cfg) ''build-status.py'' in
     io_bind (io_get (path_exists build_status_file)) (\<lambda>present.
     if \<not> present then
       io_bind (print_line ''The build status file was not found.  You must do waf build before running test.py.'')
         (\<lambda>_. io_raise (SystemExit 2))
     else
     io_bind (\<lambda>w. (get_list_from_file (run_eval_names R) build_status_file ''ns3_runnable_programs'' w, w)) (\<lambda>programs.
     io_bind (\<lambda>w. (get_list_from_file (run_eval_names R) build_status_file ''ns3_runnable_scripts'' w, w)) (\<lambda>scripts.
       io_return (cfg, programs, scripts))))))"

text \<open>What there is to do once all is set up: the exit code of waf, nothing after a listing, or jobs to run.\<close>

datatype prepared =
    Waf_failed int
  | Kinds_listed
  | Prepared waf_config string nat "job list"

definition prepare_jobs ::
  "'e runner \<Rightarrow> options \<Rightarrow> waf_config \<times> string list \<times> string list \<Rightarrow> ('e world, prepared) io" where
  "prepare_jobs R opts =
     (\<lambda>(cfg, programs, scripts).
     io_bind (\<lambda>w. (find_examples R cfg w, w)) (\<lambda>tests.
     io_bind (\<lambda>w. (Inr (), w\<lparr>environ := dict_set ''NS_LOG'' [] (environ w)\<rparr>)) (\<lambda>_.
     io_bind (list_kinds R opts cfg) (\<lambda>_.
     if opt_kinds opts \<or> opt_list opts then io_return Kinds_listed
     else
     io_bind (io_get (run_date R)) (\<lambda>date.
     let outdir = path_join ''testpy-output'' date in
     io_bind (start_results outdir (path_join outdir ''results.xml'')) (\<lambda>_.
     io_bind (choose_suites R opts cfg) (\<lambda>suite_list.
     io_bind (count_processors R) (\<lambda>processors.
     io_bind (dispatch_all R opts cfg outdir suite_list programs scripts tests) (\<lambda>jobs.
       io_return (Prepared cfg outdir processors jobs))))))))))"

definition prepare_tests :: "'e runner \<Rightarrow> options \<Rightarrow> waf_config \<Rightarrow> ('e world, prepared) io" where
  "prepare_tests R opts cfg =
     io_bind (run_waf R opts) (\<lambda>waf_code.
       if waf_code \<noteq> 0 then io_return (Waf_failed waf_code)
       else io_bind (read_build R opts cfg) (prepare_jobs R opts))"

definition run_prepared :: "'e runner \<Rightarrow> options \<Rightarrow> prepared \<Rightarrow> ('e world, int option) io" where
  "run_prepared R opts p =
     (case p of
        Waf_failed code \<Rightarrow> io_return (Some code)
      | Kinds_listed \<Rightarrow> io_return None
      | Prepared cfg outdir processors jobs \<Rightarrow>
          io_bind (run_jobs R opts cfg outdir (path_join outdir ''results.xml'') processors jobs) (\<lambda>code.
            io_return (Some code)))"

definition run_tests :: "'e runner \<Rightarrow> options \<Rightarrow> waf_config \<Rightarrow> ('e world, int option) io" where
  "run_tests R opts cfg = io_bind (prepare_tests R opts cfg) (run_prepared R opts)"

section \<open>Dispatched jobs\<close>

lemma queue_job_jobs: "fst (queue_job opts job jobs w) = Inr (jobs @ [job])"
  by (simp add: queue_job_def io_when_def io_bind_def io_return_def print_line_def)

lemma io_for_each_results:
  assumes "\<And>x s w. fst (f x s w) = Inr (g x s)"
  shows "fst (io_for_each f xs s w) = Inr (fold g xs s)"
proof (induction xs arbitrary: s w)
  case (Cons x xs)
  obtain w' where "f x s w = (Inr (g x s), w')" using assms [of x s w] by (metis prod.collapse)
  with Cons show ?case by (simp add: io_bind_def)
qed (simp add: io_return_def)

lemma dispatch_suites_jobs:
  "fst (dispatch_suites R opts cfg outdir suite_list jobs w) =
     Inr (jobs @ map (suite_job R opts cfg outdir) (filter (\<lambda>test. test \<noteq> []) (map strip suite_list)))"
proof -
  have "fst ((let test = strip test in
       if test \<noteq> [] then queue_job opts (suite_job R opts cfg outdir test) jobs else io_return jobs) w) =
    Inr (jobs @ (if strip test \<noteq> [] then [suite_job R opts cfg outdir (strip test)] else []))"
    for test jobs and w :: "'a world"
    by (simp add: Let_def queue_job_jobs io_return_def)
  from io_for_each_results [OF this]
  have "fst (dispatch_suites R opts cfg outdir suite_list jobs w) = Inr (fold
      (\<lambda>test jobs. jobs @ (if strip test \<noteq> [] then [suite_job R opts cfg outdir (strip test)] else [])) suite_list jobs)"
    unfolding dispatch_suites_def .
  moreover have "fold (\<lambda>test jobs. jobs @ (if strip test \<noteq> [] then [suite_job R opts cfg outdir (strip test)] else [])) suite_list jobs =
      jobs @ map (suite_job R opts cfg outdir) (filter (\<lambda>test. test \<noteq> []) (map strip suite_list))"
    by (induction suite_list arbitrary: jobs) simp_all
  ultimately show ?thesis by simp
qed

lemma queue_job_eq: "queue_job opts job jobs w = (Inr jobs', w') \<Longrightarrow> jobs' = jobs @ [job]"
  using queue_job_jobs [of opts job jobs w] by simp

definition extends_with :: "(job \<Rightarrow> bool) \<Rightarrow> (job list \<Rightarrow> ('e world, job list) io) \<Rightarrow> bool" where
  "extends_with P m \<longleftrightarrow>
     (\<forall>jobs w jobs' w'. m jobs w = (Inr jobs', w') \<longrightarrow> (\<exists>new. jobs' = jobs @ new \<and> list_all P new))"

lemma extends_with_return: "extends_with P (\<lambda>jobs. io_return jobs)"
  by (simp add: extends_with_def io_return_def)

lemma extends_with_queue: "P job \<Longrightarrow> extends_with P (queue_job opts job)"
  by (auto simp: extends_with_def dest: queue_job_eq)

lemma extends_with_bind: "(\<And>x. extends_with P (f x)) \<Longrightarrow> extends_with P (\<lambda>jobs. io_bind m (\<lambda>x. f x jobs))"
  unfolding extends_with_def by (auto simp: io_bind_eq_Inr) blast

lemma extends_with_seq:
  assumes "extends_with P m" "extends_with P n"
  shows "extends_with P (\<lambda>jobs. io_bind (m jobs) n)"
  unfolding extends_with_def
proof (intro allI impI)
  fix jobs w jobs' w' assume "io_bind (m jobs) n w = (Inr jobs', w')"
  then obtain js v where 1: "m jobs w = (Inr js, v)" and 2: "n js v = (Inr jobs', w')"
    by (auto simp: io_bind_eq_Inr)
  obtain new where "js = jobs @ new" "list_all P new" using assms(1) 1 unfolding extends_with_def by blast
  moreover obtain new' where "jobs' = js @ new'" "list_all P new'" using assms(2) 2 unfolding extends_with_def by blast
  ultimately show "\<exists>new. jobs' = jobs @ new \<and> list_all P new" by (intro exI [of _ "new @ new'"]) simp
qed

lemma extends_with_for_each:
  assumes "\<And>x. extends_with P (f x)"
  shows "extends_with P (io_for_each f xs)"
proof (induction xs)
  case Nil
  then show ?case by (simp add: extends_with_def io_return_def)
next
  case (Cons x xs)
  have "io_for_each f (x # xs) = (\<lambda>s. io_bind (f x s) (io_for_each f xs))" by (intro ext) simp
  with extends_with_seq [OF assms Cons] show ?case by simp
qed

lemma extends_with_if: "extends_with P m \<Longrightarrow> extends_with P n \<Longrightarrow> extends_with P (\<lambda>jobs. if b then m jobs else n jobs)"
  by (simp add: extends_with_def)

lemma extends_with_case: "(\<And>a b. extends_with P (f a b)) \<Longrightarrow> extends_with P (case x of (a, b) \<Rightarrow> f a b)"
  by (cases x) simp

lemma job_no_break [simp]:
  "\<not> is_break (suite_job R opts cfg outdir test)" "\<not> is_break (example_job R outdir python test bp)"
  by (simp_all add: suite_job_def example_job_def new_job_def)

lemmas extends_rules = extends_with_return extends_with_queue extends_with_bind extends_with_if extends_with_case
  extends_with_for_each

lemma dispatch_all_no_break:
  assumes "dispatch_all R opts cfg outdir suite_list programs scripts tests w = (Inr jobs, w')"
  shows "list_all (\<lambda>j. \<not> is_break j) jobs"
proof -
  let ?P = "\<lambda>j. \<not> is_break j"
  have "extends_with ?P (dispatch_suites R opts cfg outdir suite_list)"
    unfolding dispatch_suites_def Let_def
    by (intro extends_rules) simp_all
  moreover have "extends_with ?P (dispatch_examples R opts cfg outdir programs (fst tests))"
    unfolding dispatch_examples_def
    by (rule extends_rules | simp (no_asm_simp))+
  moreover have "extends_with ?P (dispatch_pyexamples R opts cfg outdir scripts (snd tests))"
    unfolding dispatch_pyexamples_def
    by (rule extends_rules | simp (no_asm_simp))+
  ultimately have "extends_with ?P (\<lambda>js. io_bind (dispatch_suites R opts cfg outdir suite_list js) (\<lambda>jobs.
     io_bind (dispatch_examples R opts cfg outdir programs (fst tests) jobs)
       (dispatch_pyexamples R opts cfg outdir scripts (snd tests))))"
    by (intro extends_with_seq)
  with assms show ?thesis unfolding extends_with_def dispatch_all_def by fastforce
qed

section \<open>The end of a run\<close>

lemma finish_run_code:
  "finish_run R opts cfg outdir xml n c w = (Inr code, w') \<Longrightarrow>
   code = (if passed_tests c + skipped_tests c = n then 0 else 1)"
  by (auto simp: finish_run_def io_seq_def io_bind_eq_Inr io_return_def)

lemma for_each_print: "io_for_each (\<lambda>line _. print_line line) ls () w = (Inr (), w\<lparr>console := console w @ ls\<rparr>)"
  by (induction ls arbitrary: w) (simp_all add: io_return_def io_bind_def print_line_def)

lemma finish_run_returns:
  assumes "opt_html opts = []" "opt_text opts = []" "opt_xml opts = []"
  shows "\<exists>code w'. finish_run R opts cfg outdir xml n c w = (Inr code, w')"
  using assms by (simp add: finish_run_def io_seq_def io_when_def io_bind_def io_return_def append_file_def
      print_line_def for_each_print remove_tree_def)

lemma run_jobs_result:
  assumes "list_all (\<lambda>j. \<not> is_break j) jobs" "run_jobs R opts cfg outdir xml n jobs w = (Inr code, w')"
  shows "\<exists>started returned. mset started = mset jobs \<and>
    list_all2 (processed (run_system R) opts (builddir cfg)) started returned \<and>
    code = (if list_all (\<lambda>j. \<not> is_break j \<and> (is_skip j \<or> returncode j = 0)) returned then 0 else 1)"
proof -
  define s where "s = run_threads (run_system R) opts (builddir cfg) xml (length jobs) (run_schedule R) (start_state jobs n w)"
  have ok: "failure s = None" "length (collected s) = length jobs"
    "finish_run R opts cfg outdir xml (length jobs) (run_counts s) (pool_world (threads s)) = (Inr code, w')"
    using assms(2) by (auto simp: run_jobs_def s_def [symmetric] Let_def split: option.splits if_splits)
  have "run_collects (run_system R) opts (builddir cfg) xml n w jobs (collected s)"
    using ok(2) unfolding run_collects_def s_def by blast
  from runs.returns_made [OF assms(1) this] obtain started where made: "mset started = mset jobs"
    "list_all2 (processed (run_system R) opts (builddir cfg)) started (collected s)" by blast
  have "test_inv (run_system R) opts (builddir cfg) jobs n s"
    unfolding s_def by (rule run_threads_inv [OF start_state_inv [OF assms(1)]])
  then have "run_counts s = tally (reported (collected s))" using ok(1) by (simp add: test_inv_def)
  with finish_run_code [OF ok(3)] passed_all [of "collected s"] ok(2) made show ?thesis by auto
qed

text \<open>A job without a file of its own to read.\<close>

definition no_suite :: "job \<Rightarrow> bool" where
  "no_suite j \<longleftrightarrow> is_example j \<or> is_pyexample j \<or> is_skip j"

lemma no_suite_key: "no_suite (job_key j) = no_suite j"
  by (simp add: no_suite_def job_key_def)

lemma run_jobs_error:
  assumes "list_all (\<lambda>j. \<not> is_break j) jobs" "0 < n" "opt_html opts = []" "opt_text opts = []" "opt_xml opts = []"
    and "run_jobs R opts cfg outdir xml n jobs w = (Inl e, w')"
  shows "e = IOError \<and> \<not> list_all no_suite jobs"
proof -
  define s where "s = run_threads (run_system R) opts (builddir cfg) xml (length jobs) (run_schedule R) (start_state jobs n w)"
  have inv: "test_inv (run_system R) opts (builddir cfg) jobs n s"
    unfolding s_def by (rule run_threads_inv [OF start_state_inv [OF assms(1)]])
  have ended: "next_state (run_system R) opts (builddir cfg) xml (length jobs) (run_schedule R) s = None"
    unfolding s_def by (rule run_threads_end)
  have "failure s = Some e"
  proof (cases "failure s")
    case None
    obtain code w1 where "finish_run R opts cfg outdir xml (length jobs) (run_counts s) (pool_world (threads s)) = (Inr code, w1)"
      using finish_run_returns [OF assms(3-5)] by blast
    with ended_collected [OF inv assms(2) ended None] None assms(6) show ?thesis
      by (simp add: run_jobs_def s_def [symmetric] Let_def)
  qed (use assms(6) in \<open>simp add: run_jobs_def s_def [symmetric] Let_def\<close>)
  with inv have failed: "e = IOError" "list_ex reads_file (collected s)" by (simp_all add: test_inv_def)
  obtain rest started where pool: "mset rest + mset (held (workers (threads s))) + mset started = mset jobs"
    "list_all2 (processed (run_system R) opts (builddir cfg)) started (collected s @ output_queue (threads s))"
    using inv by (auto simp: test_inv_def before_collecting_def pool_inv_def)
  obtain j where "j \<in> set (collected s)" "\<not> no_suite j"
    using failed(2) by (auto simp: list_ex_iff no_suite_def reads_file_def)
  then have "job_key j \<in> set (map job_key started)" "\<not> no_suite (job_key j)"
    unfolding processed_keys [OF pool(2), symmetric] by (simp_all add: no_suite_key)
  then obtain j0 where "j0 \<in> set started" "\<not> no_suite j0" unfolding set_map image_iff by (metis no_suite_key)
  moreover have "set_mset (mset started) \<subseteq> set_mset (mset jobs)" unfolding pool(1) [symmetric] by simp
  ultimately show ?thesis using failed(1) by (auto simp: list_all_iff)
qed

section \<open>A runner for evaluation\<close>

text \<open>
  Every shell command has the given exit code and no output. The main thread goes on whenever it can. A line of the
  configuration sets nothing, and a list is read as the one name it holds.
\<close>

definition test_runner_double :: "(string \<Rightarrow> int) \<Rightarrow> unit runner" where
  "test_runner_double codes =
     \<lparr>run_system = \<lparr>sys_shell = (\<lambda>cmd dir w. ((codes cmd, [], []), w)), sys_clock = (\<lambda>w. 0),
        sys_platform = ''linux2'', sys_getcwd = ''/''\<rparr>,
      run_eval_string = Inr, run_exec = (\<lambda>line. Inr), run_show_item = (\<lambda>item cfg. Inr item),
      run_eval_cond = (\<lambda>cfg c. Inr True), run_eval_names = (\<lambda>s. Inr [s]), run_eval_cpp = (\<lambda>s. Inr []),
      run_eval_python = (\<lambda>s. Inr []), run_parse_xml = (\<lambda>s. Inl ValueError), run_date = (\<lambda>w. ''date''),
      run_sysconf = Some 2, run_parse_nat = (\<lambda>s. Inl ValueError), run_schedule = (\<lambda>s. Main_thread)\<rparr>"

definition double_config :: waf_config where
  "double_config = \<lparr>builddir = [], module_path = [], enabled_modules = [], nsc_enabled = True, enable_examples = True,
     enable_tests = True, enable_python_bindings = True, example_directories = []\<rparr>"

section \<open>Properties\<close>

text \<open>\<open>run_tests\<close> dispatches one job per suite named by the test runner, in its order, blank lines left out;
  the job of a suite carries its own results file and is marked to be skipped exactly when the suite is on the
  list of those that valgrind, or a missing NSC, would break.\<close>

theorem dispatch_suites_one_job_each:
  "case dispatch_suites R opts cfg outdir suite_list [] w of
     (Inl e, w') \<Rightarrow> False
   | (Inr jobs, w') \<Rightarrow>
       map display_name jobs = filter (\<lambda>test. test \<noteq> []) (map strip suite_list) \<and>
       list_all (\<lambda>j. \<not> is_break j \<and> \<not> is_example j \<and> \<not> is_pyexample j \<and> tempdir j = outdir \<and>
         tmp_file_name j = path_join outdir (display_name j @ ''.xml'') \<and>
         (is_skip j \<longleftrightarrow> opt_valgrind opts \<and> display_name j \<in> set core_valgrind_skip_tests \<or>
            \<not> nsc_enabled cfg \<and> display_name j \<in> set core_nsc_missing_skip_tests)) jobs"
proof -
  obtain w' where "dispatch_suites R opts cfg outdir suite_list [] w =
      (Inr (map (suite_job R opts cfg outdir) (filter (\<lambda>test. test \<noteq> []) (map strip suite_list))), w')"
    using dispatch_suites_jobs [of R opts cfg outdir suite_list "[]" w] by (metis append_Nil prod.collapse)
  then show ?thesis by (auto simp: suite_job_def new_job_def list_all_iff o_def)
qed

lemma prepare_jobs_no_break:
  "prepare_jobs R opts build w = (Inr (Prepared cfg outdir n jobs), w') \<Longrightarrow> list_all (\<lambda>j. \<not> is_break j) jobs"
  by (auto simp: prepare_jobs_def io_bind_eq_Inr io_return_def Let_def split: prod.splits if_splits
      intro: dispatch_all_no_break)

lemma prepare_tests_cases:
  assumes "prepare_tests R opts cfg w = (Inr p, w')"
  shows "case p of Waf_failed code \<Rightarrow> code \<noteq> 0 | Kinds_listed \<Rightarrow> opt_kinds opts \<or> opt_list opts
    | Prepared cfg' outdir n jobs \<Rightarrow> list_all (\<lambda>j. \<not> is_break j) jobs"
proof -
  obtain waf_code w1 where waf: "run_waf R opts w = (Inr waf_code, w1)"
    "(if waf_code \<noteq> 0 then io_return (Waf_failed waf_code) else io_bind (read_build R opts cfg) (prepare_jobs R opts)) w1 = (Inr p, w')"
    using assms by (auto simp: prepare_tests_def io_bind_eq_Inr)
  show ?thesis
  proof (cases "waf_code = 0")
    case False
    with waf(2) show ?thesis by (auto simp: io_return_def)
  next
    case True
    with waf(2) obtain build v where b: "prepare_jobs R opts build v = (Inr p, w')" by (auto simp: io_bind_eq_Inr)
    have "p \<noteq> Waf_failed code" for code
      using b by (auto simp: prepare_jobs_def io_bind_eq_Inr io_return_def Let_def split: prod.splits if_splits)
    moreover have "p = Kinds_listed \<Longrightarrow> opt_kinds opts \<or> opt_list opts"
      using b by (auto simp: prepare_jobs_def io_bind_eq_Inr io_return_def Let_def split: prod.splits if_splits)
    moreover have "p = Prepared cfg' outdir n jobs \<Longrightarrow> list_all (\<lambda>j. \<not> is_break j) jobs" for cfg' outdir n jobs
      using prepare_jobs_no_break [of R opts build v] b by blast
    ultimately show ?thesis by (cases p) auto
  qed
qed


text \<open>One example, whose program fails: the build has left its configuration and the build status file.\<close>

definition double_options :: options where
  "double_options = default_options\<lparr>opt_nowaf := True, opt_example := ''sim'', opt_retain := True\<rparr>"

definition double_world :: "unit world" where
  "double_world =
     \<lparr>files = [''.lock-wafbuild'' \<mapsto> ''out_dir = b'' @ nl, ''b/c4che/_cache.py'' \<mapsto> ''ENABLE_TESTS = True'' @ nl,
        ''b/build-status.py'' \<mapsto> ''ns3_runnable_programs = [sim]'' @ nl @ ''ns3_runnable_scripts = [x]'' @ nl],
      dirs = [], console = [], environ = [], ext = ()\<rparr>"

definition double_names :: "string \<Rightarrow> string list result" where
  "double_names s = (if s = ''[sim]'' then Inr [''sim''] else Inr [])"


end
