(* ===== verification/Check_Style.thy ===== *)
theory Check_Style
  imports Py_World
begin

text \<open>
  The style checker, \<open>utils/check-style.py\<close>: the configuration of uncrustify by level, patches
  (\<open>PatchChunkLine\<close>, \<open>PatchChunk\<close>, \<open>Patch\<close>) and their text, \<open>parse_patchset\<close>,
  \<open>remove_trailing_whitespace_changes\<close>, \<open>indent\<close>, \<open>indent_files\<close> and the two entry points.
  The programs uncrustify and patch, each of which may be missing, the library's \<open>unified_diff\<close> and the
  list of modified files are parameters. Temporary files are values: what the code writes into one and reads
  back. What \<open>--debug\<close> adds on standard error is left out. \<open>filecmp.cmp\<close> compares the texts: it
  takes files of equal size and time of change for equal without reading them, and the result of patch has
  just been written.
\<close>

section \<open>Configuration\<close>

definition level2_lines :: "string list" where
  "level2_lines =
     [''nl_collapse_empty_body=False'', ''nl_if_brace=Add'', ''nl_brace_else=Add'', ''nl_elseif_brace=Add'',
      ''nl_else_brace=Add'', ''nl_while_brace=Add'', ''nl_do_brace=Add'', ''nl_for_brace=Add'',
      ''nl_brace_while=Add'', ''nl_switch_brace=Add'', ''nl_after_case=True'', ''nl_namespace_brace=Remove'',
      ''nl_after_brace_open=True'', ''nl_class_leave_one_liners=False'', ''nl_enum_leave_one_liners=False'',
      ''nl_func_leave_one_liners=False'', ''nl_if_leave_one_liners=False'', ''nl_class_colon=Ignore'',
      ''nl_after_access_spec=1'', ''nl_after_semicolon=True'', ''pos_class_colon=Lead'', ''pos_class_comma=Trail'',
      ''pos_bool=Lead'', ''nl_class_init_args=Add'', ''nl_template_class=Add'', ''nl_class_brace=Add'',
      ''# does not work very well'', ''nl_func_type_name=Ignore'', ''nl_func_scope_name=Ignore'',
      ''nl_func_type_name_class=Ignore'', ''nl_func_proto_type_name=Ignore'', ''# function'' @ [CHR 0x5C] @ ''n('',
      ''nl_func_paren=Remove'', ''nl_fdef_brace=Add'', ''nl_struct_brace=Add'', ''nl_enum_brace=Add'',
      ''nl_union_brace=Add'', ''mod_full_brace_do=Add'', ''mod_full_brace_for=Add'', ''mod_full_brace_if=Add'',
      ''mod_full_brace_while=Add'', ''mod_full_brace_for=Add'', ''mod_remove_extra_semicolon=True'',
      ''# max code width'', ''#code_width=128'', ''#ls_for_split_full=True'', ''#ls_func_split_full=True'']"

definition level1_lines :: "string list" where
  "level1_lines =
     [''# extra spaces here and there'', ''sp_brace_typedef=Add'', ''sp_enum_assign=Add'',
      ''sp_before_sparen=Add'', ''sp_after_semi_for=Add'', ''sp_arith=Add'', ''sp_assign=Add'', ''sp_compare=Add'',
      ''sp_func_class_paren=Add'', ''sp_after_type=Add'', ''sp_type_func=Add'', ''sp_angle_paren=Add'']"

definition level0_lines :: "string list" where
  "level0_lines =
     [''sp_func_proto_paren=Add'', ''sp_func_def_paren=Add'', ''sp_func_call_paren=Add'',
      ''sp_after_semi_for=Ignore'', ''sp_before_sparen=Ignore'', ''sp_type_func=Ignore'', ''sp_after_type=Ignore'',
      ''nl_class_leave_one_liners=True'', ''nl_enum_leave_one_liners=True'', ''nl_func_leave_one_liners=True'',
      ''nl_assign_leave_one_liners=True'', ''#nl_collapse_empty_body=False'', ''nl_getset_leave_one_liners=True'',
      ''nl_if_leave_one_liners=True'', ''nl_fdef_brace=Ignore'', ''# finally, indentation configuration'',
      ''indent_with_tabs=0'', ''indent_namespace=false'', ''indent_columns=2'', ''indent_brace=2'',
      ''indent_case_brace=2'', ''indent_class=true'', ''indent_class_colon=True'', ''# alignment'',
      ''indent_align_assign=False'', ''align_left_shift=True'', ''# comment reformating disabled'',
      ''cmt_reflow_mode=1 # do not touch comments at all'', ''cmt_indent_multi=False # really, do not touch them'']"

definition text_block :: "string list \<Rightarrow> string" where
  \<comment> \<open>a triple-quoted string that starts with a newline\<close>
  "text_block ls = [CHR 0x0A] @ concat (map (\<lambda>l. l @ [CHR 0x0A]) ls)"

definition uncrustify_config_file :: "int \<Rightarrow> string" where
  "uncrustify_config_file level =
     text_block level0_lines @
     (if level \<ge> 1 then text_block level1_lines else []) @
     (if level \<ge> 2 then text_block level2_lines else [])"

section \<open>Patches\<close>

datatype line_type = NoType | SRC | DST | BOTH

record patch_line =
  ltype :: line_type
  ltext :: string

record patch_chunk =
  chunk_lines :: "patch_line list"
  src_pos :: nat
  dst_pos :: nat

record patch =
  patch_src :: string
  patch_dst :: string
  patch_chunks :: "patch_chunk list"

definition is_src :: "patch_line \<Rightarrow> bool" where
  "is_src l \<longleftrightarrow> ltype l = SRC \<or> ltype l = BOTH"

definition is_dst :: "patch_line \<Rightarrow> bool" where
  "is_dst l \<longleftrightarrow> ltype l = DST \<or> ltype l = BOTH"

definition newline :: string where
  "newline = [CHR 0x0A]"

definition write_line :: "patch_line \<Rightarrow> string result" where
  "write_line l =
     (case ltype l of
        SRC \<Rightarrow> Inr (''-'' @ ltext l @ newline)
      | DST \<Rightarrow> Inr (''+'' @ ltext l @ newline)
      | BOTH \<Rightarrow> Inr ('' '' @ ltext l @ newline)
      | NoType \<Rightarrow> Inl (PyException ''invalid patch''))"

text \<open>
  \<open>src()\<close> and \<open>dst()\<close> return lists of the line objects themselves; here they are the places of these
  lines in the chunk, so that an assignment to a line is seen through both.
\<close>

definition src_lines :: "patch_chunk \<Rightarrow> nat list" where
  "src_lines c = filter (\<lambda>i. is_src (chunk_lines c ! i)) [0..<length (chunk_lines c)]"

definition dst_lines :: "patch_chunk \<Rightarrow> nat list" where
  "dst_lines c = filter (\<lambda>i. is_dst (chunk_lines c ! i)) [0..<length (chunk_lines c)]"

definition chunk_header :: "patch_chunk \<Rightarrow> string" where
  "chunk_header c =
     ''@@ -'' @ nat_str (src_pos c) @ '','' @ nat_str (length (src_lines c)) @ '' +'' @
     nat_str (dst_pos c) @ '','' @ nat_str (length (dst_lines c)) @ '' @@'' @ newline"

definition write_chunk :: "patch_chunk \<Rightarrow> string \<Rightarrow> string result" where
  "write_chunk c out =
     for_each (\<lambda>l out. res_bind (write_line l) (\<lambda>s. Inr (out @ s))) (chunk_lines c) (out @ chunk_header c)"

definition write_patch :: "patch \<Rightarrow> string \<Rightarrow> string result" where
  "write_patch p out =
     for_each write_chunk (patch_chunks p)
       (out @ ''--- '' @ patch_src p @ newline @ ''+++ '' @ patch_dst p @ newline)"

section \<open>Parsing patches\<close>

text \<open>
  The patterns: \<open>group1 p line\<close> is \<open>m.group(1)\<close> of \<open>^p(.*)$\<close>, which does not look past a newline
  that ends the line and does not match when another one comes before.
\<close>

definition chomp :: "string \<Rightarrow> string" where
  "chomp line = (if line \<noteq> [] \<and> last line = CHR 0x0A then butlast line else line)"

definition group1 :: "string \<Rightarrow> string \<Rightarrow> string option" where
  "group1 p line =
     (let body = chomp line in
      if prefix p body \<and> CHR 0x0A \<notin> set (drop (length p) body) then Some (drop (length p) body) else None)"

text \<open>\<open>chunk_start\<close>, groups 1 and 3\<close>

definition chunk_start :: "string \<Rightarrow> (nat \<times> nat) option" where
  "chunk_start line =
     Option.bind (expect ''@@ -'' line) (\<lambda>s.
     Option.bind (number s) (\<lambda>(a, s).
     Option.bind (expect '','' s) (\<lambda>s.
     Option.bind (number s) (\<lambda>(b, s).
     Option.bind (expect '' +'' s) (\<lambda>s.
     Option.bind (number s) (\<lambda>(c, s).
     Option.bind (expect '','' s) (\<lambda>s.
     Option.bind (number s) (\<lambda>(d, s).
     Option.bind (expect '' @@'' s) (\<lambda>s. Some (a, c))))))))))"

text \<open>
  The parser's state: the patches, of which the last one is \<open>current_patch\<close>, and the place of
  \<open>current_chunk\<close>, which stays that of the previous patch until the next \<open>@@\<close> line.
\<close>

record patch_parser =
  patchset :: "patch list"
  current_chunk :: "(nat \<times> nat) option"

definition on_patch :: "(patch \<Rightarrow> patch) \<Rightarrow> patch list \<Rightarrow> patch list" where
  "on_patch f ps = butlast ps @ [f (last ps)]"

definition add_line_at :: "nat \<Rightarrow> nat \<Rightarrow> patch_line \<Rightarrow> patch list \<Rightarrow> patch list" where
  "add_line_at i j l ps =
     (let p = ps ! i; c = patch_chunks p ! j
      in ps[i := p\<lparr>patch_chunks := (patch_chunks p)[j := c\<lparr>chunk_lines := chunk_lines c @ [l]\<rparr>]\<rparr>])"

definition add_line :: "patch_line \<Rightarrow> patch_parser \<Rightarrow> patch_parser result" where
  "add_line l s =
     (case current_chunk s of
        None \<Rightarrow> Inl UnboundLocalError
      | Some (i, j) \<Rightarrow> Inr (s\<lparr>patchset := add_line_at i j l (patchset s)\<rparr>))"

definition parse_line :: "string \<Rightarrow> patch_parser \<Rightarrow> patch_parser result" where
  "parse_line line s =
     (case group1 ''--- '' line of
        Some name \<Rightarrow> Inr (s\<lparr>patchset := patchset s @ [\<lparr>patch_src = name, patch_dst = [], patch_chunks = []\<rparr>]\<rparr>)
      | None \<Rightarrow>
     (case group1 ''+++ '' line of
        Some name \<Rightarrow>
          (if patchset s = [] then Inl AttributeError
           else Inr (s\<lparr>patchset := on_patch (\<lambda>p. p\<lparr>patch_dst := name\<rparr>) (patchset s)\<rparr>))
      | None \<Rightarrow>
     (case chunk_start line of
        Some (a, c) \<Rightarrow>
          (if patchset s = [] then Inl AttributeError
           else Inr (s\<lparr>patchset := on_patch (\<lambda>p. p\<lparr>patch_chunks := patch_chunks p @
                  [\<lparr>chunk_lines = [], src_pos = a, dst_pos = c\<rparr>]\<rparr>) (patchset s),
                current_chunk := Some (length (patchset s) - 1, length (patch_chunks (last (patchset s))))\<rparr>))
      | None \<Rightarrow>
     (case group1 ''-'' line of
        Some t \<Rightarrow> add_line \<lparr>ltype = SRC, ltext = t\<rparr> s
      | None \<Rightarrow>
     (case group1 ''+'' line of
        Some t \<Rightarrow> add_line \<lparr>ltype = DST, ltext = t\<rparr> s
      | None \<Rightarrow>
     (case group1 '' '' line of
        Some t \<Rightarrow> add_line \<lparr>ltype = BOTH, ltext = t\<rparr> s
      | None \<Rightarrow> Inl (PyException [])))))))"

definition parse_patchset :: "string list \<Rightarrow> patch list result" where
  "parse_patchset generator =
     res_bind (for_each parse_line generator \<lparr>patchset = [], current_chunk = None\<rparr>) (\<lambda>s. Inr (patchset s))"

section \<open>Changes of trailing blanks\<close>

text \<open>
  The pattern \<open>^(.*)([ \t]+)$\<close> is greedy in its first group, which leaves one character to the second.
\<close>

definition trailing_blank :: "string \<Rightarrow> (string \<times> string) option" where
  "trailing_blank s =
     (if s \<noteq> [] \<and> last s \<in> {CHR '' '', CHR 0x09} then Some (butlast s, [last s]) else None)"

definition append_to_line :: "string \<Rightarrow> patch_line \<Rightarrow> patch_line" where
  "append_to_line t l = l\<lparr>ltext := ltext l @ t\<rparr>"

text \<open>One round of the inner loop; \<open>dst[i]\<close> may be out of range.\<close>

definition restore_blank :: "nat list \<Rightarrow> nat list \<Rightarrow> nat \<Rightarrow> patch_line list \<Rightarrow> patch_line list result" where
  "restore_blank src dst i ls =
     (if length dst \<le> i then Inl IndexError
      else
        case trailing_blank (ltext (ls ! (src ! i))) of
          Some (body, blank) \<Rightarrow>
            Inr (if body = ltext (ls ! (dst ! i)) then ls[dst ! i := append_to_line blank (ls ! (dst ! i))] else ls)
        | None \<Rightarrow> Inr ls)"

text \<open>The changes made before an exception stay; the flag says that the function has returned.\<close>

fun restore_loop :: "nat list \<Rightarrow> nat list \<Rightarrow> nat list \<Rightarrow> patch_line list \<Rightarrow> patch_line list \<times> bool" where
  "restore_loop src dst [] ls = (ls, False)"
| "restore_loop src dst (i # is) ls =
     (case restore_blank src dst i ls of
        Inl e \<Rightarrow> (ls, True)
      | Inr ls \<Rightarrow> restore_loop src dst is ls)"

definition restore_chunk :: "patch_chunk \<Rightarrow> patch_chunk \<times> bool" where
  "restore_chunk c =
     (let (ls, returned) = restore_loop (src_lines c) (dst_lines c) [0..<length (src_lines c)] (chunk_lines c)
      in (c\<lparr>chunk_lines := ls\<rparr>, returned))"

fun restore_chunks :: "patch_chunk list \<Rightarrow> patch_chunk list \<times> bool" where
  "restore_chunks [] = ([], False)"
| "restore_chunks (c # cs) =
     (let (c', returned) = restore_chunk c in
      if returned then (c' # cs, True)
      else let (cs', returned) = restore_chunks cs in (c' # cs', returned))"

fun restore_patches :: "patch list \<Rightarrow> patch list \<times> bool" where
  "restore_patches [] = ([], False)"
| "restore_patches (p # ps) =
     (let (cs, returned) = restore_chunks (patch_chunks p); p' = p\<lparr>patch_chunks := cs\<rparr> in
      if returned then (p' # ps, True)
      else let (ps', returned) = restore_patches ps in (p' # ps', returned))"

definition remove_trailing_whitespace_changes :: "string list \<Rightarrow> patch list result" where
  "remove_trailing_whitespace_changes patch_generator =
     res_bind (parse_patchset patch_generator) (\<lambda>patchset. Inr (fst (restore_patches patchset)))"

section \<open>Indenting files\<close>

record style_tools =
  uncrustify :: "(string \<Rightarrow> string \<Rightarrow> string) option"
  unified_diff :: "string list \<Rightarrow> string list \<Rightarrow> string list"
  apply_patch :: "(string \<Rightarrow> string \<Rightarrow> string) option"

text \<open>
  \<open>unified_diff\<close> returns a generator: once it has been written to the debug file nothing is left of it.
\<close>

definition final_diff :: "style_tools \<Rightarrow> bool \<Rightarrow> int \<Rightarrow> string \<Rightarrow> string \<Rightarrow> string result" where
  "final_diff tools debug level source output =
     (let diff = unified_diff tools (file_lines source) (file_lines output);
          diff = (if debug then [] else diff)
      in if level < 3 then
           res_bind (remove_trailing_whitespace_changes diff) (\<lambda>patchset.
             case patchset of [] \<Rightarrow> Inr [] | p # _ \<Rightarrow> write_patch p [])
         else Inr (concat diff))"

definition indent :: "style_tools \<Rightarrow> bool \<Rightarrow> int \<Rightarrow> string \<Rightarrow> ('e world, string) io" where
  "indent tools debug level path =
     (case uncrustify tools of
        None \<Rightarrow> io_raise (PyException ''uncrustify not installed'')
      | Some run \<Rightarrow>
          io_bind (read_file path) (\<lambda>source.
          io_bind (io_lift (final_diff tools debug level source (run (uncrustify_config_file level) source))) (\<lambda>d.
            case apply_patch tools of None \<Rightarrow> io_raise OSError | Some patch \<Rightarrow> io_return (patch d source))))"

definition indent_all ::
  "style_tools \<Rightarrow> bool \<Rightarrow> int \<Rightarrow> string list \<Rightarrow> ('e world, (string \<times> string) list) io" where
  "indent_all tools debug level fs =
     io_for_each (\<lambda>f output.
       io_bind (indent tools debug level f) (\<lambda>dst. io_return (output @ [(f, dst)]))) fs []"

definition indent_files ::
  "style_tools \<Rightarrow> string list \<Rightarrow> bool \<Rightarrow> bool \<Rightarrow> int \<Rightarrow> bool \<Rightarrow> ('e world, bool) io" where
  "indent_files tools fs diff debug level inplace =
     io_bind (indent_all tools debug level fs) (\<lambda>output.
     if inplace then
       io_bind (io_for_each (\<lambda>(src, dst) _. write_file src dst) output ()) (\<lambda>_. io_return True)
     else
       io_bind (io_for_each (\<lambda>(src, dst) failed.
           io_bind (read_file src) (\<lambda>source.
             io_return (if source = dst then failed else failed @ [(src, dst)]))) output []) (\<lambda>failed.
       if failed \<noteq> [] then
         io_bind
           (if \<not> diff then
              io_for_each (\<lambda>line _. print_line line)
                ((''Found '' @ nat_str (length failed) @ '' badly indented files:'') #
                 map (\<lambda>(src, dst). ''  '' @ src) failed) ()
            else
              io_for_each (\<lambda>(src, dst) _.
                io_bind (read_file src) (\<lambda>source.
                  io_for_each (\<lambda>line _. print_line line)
                    (unified_diff tools (file_lines source) (file_lines dst)) ())) failed ())
           (\<lambda>_. io_return False)
       else io_return True))"

definition run_as_hg_hook :: "style_tools \<Rightarrow> string list \<Rightarrow> ('e world, bool) io" where
  "run_as_hg_hook tools hg_status =
     io_bind (indent_files tools (map strip hg_status) False False 0 False) (\<lambda>ok. io_return (\<not> ok))"

record style_options =
  so_debug :: bool
  so_level :: int
  so_hg_hook :: bool
  so_hg :: bool
  so_file :: string
  so_diff :: bool
  so_in_place :: bool

definition run_as_main :: "style_tools \<Rightarrow> style_options \<Rightarrow> string list \<Rightarrow> ('e world, int) io" where
  \<comment> \<open>the exit status\<close>
  "run_as_main tools opts hg_status =
     (if so_hg_hook opts then
        io_bind (indent_files tools (map strip hg_status) False (so_debug opts) (so_level opts) False)
          (\<lambda>ok. io_return (if ok then 0 else 1))
      else if so_hg opts then
        io_bind (indent_files tools (map strip hg_status) (so_diff opts) (so_debug opts) (so_level opts) (so_in_place opts))
          (\<lambda>ok. io_return 0)
      else if so_file opts \<noteq> [] then
        io_bind (io_get (\<lambda>w. files w (so_file opts) \<noteq> None)) (\<lambda>present.
          if \<not> present then
            io_bind (print_line (''file '' @ so_file opts @ '' does not exist'')) (\<lambda>_. io_return 1)
          else
            io_bind (indent_files tools [so_file opts] (so_diff opts) (so_debug opts) (so_level opts) (so_in_place opts))
              (\<lambda>ok. io_return 0))
      else io_return 0)"

section \<open>Numbers and lines\<close>

lemma no_digit [simp]: "\<not> is_digit CHR '',''" "\<not> is_digit CHR '' ''"
  by (simp_all add: is_digit_def)

lemma chunk_start_header: "chunk_start (chunk_header c) = Some (src_pos c, dst_pos c)"
  unfolding chunk_start_def chunk_header_def
  by (simp add: expect_append number_nat_str expect_def [of "'',''"] expect_def [of "'' +''"] expect_def [of "'' @@''"]
      expect_def [of "''@@ -''"])

lemma group1_printed:
  "CHR 0x0A \<notin> set p \<Longrightarrow> CHR 0x0A \<notin> set t \<Longrightarrow>
   group1 q (p @ t @ newline) = (if prefix q (p @ t) then Some (drop (length q) (p @ t)) else None)"
  by (auto simp: group1_def chomp_def newline_def butlast_append dest: in_set_dropD)

section \<open>Printing and parsing\<close>

definition line_text :: "patch_line \<Rightarrow> string" where
  "line_text l = (case ltype l of SRC \<Rightarrow> ''-'' | DST \<Rightarrow> ''+'' | BOTH \<Rightarrow> '' '' | NoType \<Rightarrow> []) @ ltext l @ newline"

definition wf_line :: "patch_line \<Rightarrow> bool" where
  "wf_line l \<longleftrightarrow> CHR 0x0A \<notin> set (ltext l) \<and>
     (case ltype l of
        NoType \<Rightarrow> False | BOTH \<Rightarrow> True
      | SRC \<Rightarrow> \<not> prefix ''-- '' (ltext l) | DST \<Rightarrow> \<not> prefix ''++ '' (ltext l))"

definition wf_patch :: "patch \<Rightarrow> bool" where
  "wf_patch p \<longleftrightarrow> CHR 0x0A \<notin> set (patch_src p) \<and> CHR 0x0A \<notin> set (patch_dst p) \<and>
     list_all (\<lambda>c. list_all wf_line (chunk_lines c)) (patch_chunks p)"

definition chunk_text :: "patch_chunk \<Rightarrow> string list" where
  "chunk_text c = chunk_header c # map line_text (chunk_lines c)"

definition patch_text :: "patch \<Rightarrow> string list" where
  "patch_text p = (''--- '' @ patch_src p @ newline) # (''+++ '' @ patch_dst p @ newline) #
     concat (map chunk_text (patch_chunks p))"

lemma write_line_text: "wf_line l \<Longrightarrow> write_line l = Inr (line_text l)"
  by (auto simp: write_line_def wf_line_def line_text_def split: line_type.splits)

lemma write_chunk_text:
  assumes "list_all wf_line (chunk_lines c)"
  shows "write_chunk c out = Inr (out @ concat (chunk_text c))"
proof -
  have "for_each (\<lambda>l out. res_bind (write_line l) (\<lambda>s. Inr (out @ s))) ls out = Inr (out @ concat (map line_text ls))"
    if "list_all wf_line ls" for ls out
    using that by (induction ls arbitrary: out) (simp_all add: write_line_text)
  from this [OF assms] show ?thesis by (simp add: write_chunk_def chunk_text_def)
qed

lemma write_patch_text: "wf_patch p \<Longrightarrow> write_patch p out = Inr (out @ concat (patch_text p))"
proof -
  have "for_each write_chunk cs out = Inr (out @ concat (concat (map chunk_text cs)))"
    if "list_all (\<lambda>c. list_all wf_line (chunk_lines c)) cs" for cs out
    using that by (induction cs arbitrary: out) (simp_all add: write_chunk_text)
  then show "wf_patch p \<Longrightarrow> write_patch p out = Inr (out @ concat (patch_text p))"
    by (simp add: write_patch_def wf_patch_def patch_text_def)
qed

lemma write_patches_text:
  "list_all wf_patch ps \<Longrightarrow> for_each write_patch ps out = Inr (out @ concat (concat (map patch_text ps)))"
  by (induction ps arbitrary: out) (simp_all add: write_patch_text)

definition is_line :: "string \<Rightarrow> bool" where
  "is_line s \<longleftrightarrow> (\<exists>l. s = l @ newline \<and> CHR 0x0A \<notin> set l)"

lemma file_lines_concat: "list_all is_line ls \<Longrightarrow> file_lines (concat ls) = ls"
proof (induction ls)
  case (Cons s ls)
  then obtain l where "s = l @ newline" "CHR 0x0A \<notin> set l" by (auto simp: is_line_def)
  with Cons file_lines_line [of l "concat ls"] show ?case by (simp add: newline_def)
qed simp

lemma is_line_append: "CHR 0x0A \<notin> set p \<Longrightarrow> CHR 0x0A \<notin> set t \<Longrightarrow> is_line (p @ t @ newline)"
  unfolding is_line_def by (rule exI [of _ "p @ t"]) simp

lemma patch_text_lines: "wf_patch p \<Longrightarrow> list_all is_line (patch_text p)"
proof -
  assume wf: "wf_patch p"
  have "is_line (chunk_header c)" for c
    unfolding is_line_def chunk_header_def
    by (rule exI [of _ "''@@ -'' @ nat_str (src_pos c) @ '','' @ nat_str (length (src_lines c)) @ '' +'' @
     nat_str (dst_pos c) @ '','' @ nat_str (length (dst_lines c)) @ '' @@''"]) (simp add: nat_str_no_newline)
  moreover have "is_line (line_text l)" if "wf_line l" for l
    using that unfolding line_text_def by (intro is_line_append) (auto simp: wf_line_def split: line_type.splits)
  moreover have "is_line (''--- '' @ patch_src p @ newline)" "is_line (''+++ '' @ patch_dst p @ newline)"
    using wf by (auto simp: wf_patch_def simp del: append_Cons intro!: is_line_append)
  ultimately show ?thesis
    using wf by (auto simp: patch_text_def wf_patch_def chunk_text_def list_all_iff simp del: append_Cons)
qed

lemma parse_src_name:
  "CHR 0x0A \<notin> set n \<Longrightarrow> parse_line (''--- '' @ n @ newline) s =
     Inr (s\<lparr>patchset := patchset s @ [\<lparr>patch_src = n, patch_dst = [], patch_chunks = []\<rparr>]\<rparr>)"
  using group1_printed [of "''--- ''" n "''--- ''"] by (simp add: parse_line_def)

lemma parse_dst_name:
  "CHR 0x0A \<notin> set n \<Longrightarrow> patchset s \<noteq> [] \<Longrightarrow> parse_line (''+++ '' @ n @ newline) s =
     Inr (s\<lparr>patchset := on_patch (\<lambda>p. p\<lparr>patch_dst := n\<rparr>) (patchset s)\<rparr>)"
  using group1_printed [of "''+++ ''" n "''+++ ''"] group1_printed [of "''+++ ''" n "''--- ''"]
  by (simp add: parse_line_def)

lemma chunk_start_none: "hd s \<noteq> CHR ''@'' \<Longrightarrow> s \<noteq> [] \<Longrightarrow> chunk_start s = None"
  by (cases s) (auto simp: chunk_start_def expect_def)

lemma parse_header:
  "patchset s \<noteq> [] \<Longrightarrow> parse_line (chunk_header c) s =
     Inr (s\<lparr>patchset := on_patch (\<lambda>p. p\<lparr>patch_chunks := patch_chunks p @
            [\<lparr>chunk_lines = [], src_pos = src_pos c, dst_pos = dst_pos c\<rparr>]\<rparr>) (patchset s),
          current_chunk := Some (length (patchset s) - 1, length (patch_chunks (last (patchset s))))\<rparr>)"
proof -
  have "group1 q (chunk_header c) = None" if "q = ''--- '' \<or> q = ''+++ ''" for q
    using that by (auto simp: group1_def chomp_def chunk_header_def newline_def butlast_append Let_def)
  then show "patchset s \<noteq> [] \<Longrightarrow> ?thesis" by (simp add: parse_line_def chunk_start_header)
qed

lemma parse_chunk_line:
  assumes "wf_line l"
  shows "parse_line (line_text l) s = add_line l s"
proof (cases "ltype l")
  case SRC
  then show ?thesis
    using assms group1_printed [of "''-''" "ltext l" "''--- ''"] group1_printed [of "''-''" "ltext l" "''+++ ''"]
      group1_printed [of "''-''" "ltext l" "''-''"] chunk_start_none [of "''-'' @ ltext l @ newline"]
    by (cases l) (auto simp: parse_line_def line_text_def wf_line_def)
next
  case DST
  then show ?thesis
    using assms group1_printed [of "''+''" "ltext l" "''--- ''"] group1_printed [of "''+''" "ltext l" "''+++ ''"]
      group1_printed [of "''+''" "ltext l" "''-''"] group1_printed [of "''+''" "ltext l" "''+''"]
      chunk_start_none [of "''+'' @ ltext l @ newline"]
    by (cases l) (auto simp: parse_line_def line_text_def wf_line_def)
next
  case BOTH
  then show ?thesis
    using assms group1_printed [of "'' ''" "ltext l" "''--- ''"] group1_printed [of "'' ''" "ltext l" "''+++ ''"]
      group1_printed [of "'' ''" "ltext l" "''-''"] group1_printed [of "'' ''" "ltext l" "''+''"]
      group1_printed [of "'' ''" "ltext l" "'' ''"] chunk_start_none [of "'' '' @ ltext l @ newline"]
    by (cases l) (auto simp: parse_line_def line_text_def wf_line_def)
qed (use assms in \<open>simp add: wf_line_def\<close>)

lemma parse_chunk_lines:
  assumes "list_all wf_line ls"
  shows "for_each parse_line (map line_text ls)
      \<lparr>patchset = ps @ [p\<lparr>patch_chunks := cs @ [c]\<rparr>], current_chunk = Some (length ps, length cs)\<rparr> =
    Inr \<lparr>patchset = ps @ [p\<lparr>patch_chunks := cs @ [c\<lparr>chunk_lines := chunk_lines c @ ls\<rparr>]\<rparr>],
      current_chunk = Some (length ps, length cs)\<rparr>"
  using assms
proof (induction ls arbitrary: c)
  case (Cons l ls)
  then show ?case
    by (simp add: parse_chunk_line add_line_def add_line_at_def Let_def del: for_each_append)
qed simp

lemma parse_chunk:
  assumes "list_all wf_line (chunk_lines c)"
  shows "for_each parse_line (chunk_text c) \<lparr>patchset = ps @ [p], current_chunk = k\<rparr> =
    Inr \<lparr>patchset = ps @ [p\<lparr>patch_chunks := patch_chunks p @ [c]\<rparr>],
      current_chunk = Some (length ps, length (patch_chunks p))\<rparr>"
  using parse_chunk_lines [OF assms, where ps = ps and p = p and cs = "patch_chunks p" and c = "\<lparr>chunk_lines = [], src_pos = src_pos c, dst_pos = dst_pos c\<rparr>"]
  by (cases c) (simp add: chunk_text_def parse_header on_patch_def)

lemma parse_chunks:
  assumes "list_all (\<lambda>c. list_all wf_line (chunk_lines c)) cs"
  shows "\<exists>k'. for_each parse_line (concat (map chunk_text cs)) \<lparr>patchset = ps @ [p], current_chunk = k\<rparr> =
    Inr \<lparr>patchset = ps @ [p\<lparr>patch_chunks := patch_chunks p @ cs\<rparr>], current_chunk = k'\<rparr>"
  using assms
proof (induction cs arbitrary: p k)
  case (Cons c cs)
  have "for_each parse_line (chunk_text c) \<lparr>patchset = ps @ [p], current_chunk = k\<rparr> =
    Inr \<lparr>patchset = ps @ [p\<lparr>patch_chunks := patch_chunks p @ [c]\<rparr>],
      current_chunk = Some (length ps, length (patch_chunks p))\<rparr>"
    using Cons.prems by (intro parse_chunk) simp
  with Cons.IH [of "p\<lparr>patch_chunks := patch_chunks p @ [c]\<rparr>" "Some (length ps, length (patch_chunks p))"] Cons.prems
  show ?case by simp
qed simp

lemma parse_patches:
  assumes "list_all wf_patch ps"
  shows "\<exists>k'. for_each parse_line (concat (map patch_text ps)) \<lparr>patchset = ps0, current_chunk = k\<rparr> =
    Inr \<lparr>patchset = ps0 @ ps, current_chunk = k'\<rparr>"
  using assms
proof (induction ps arbitrary: ps0 k)
  case (Cons p ps)
  then have wf: "CHR 0x0A \<notin> set (patch_src p)" "CHR 0x0A \<notin> set (patch_dst p)"
    "list_all (\<lambda>c. list_all wf_line (chunk_lines c)) (patch_chunks p)"
    by (simp_all add: wf_patch_def)
  obtain k' where "for_each parse_line (concat (map chunk_text (patch_chunks p)))
      \<lparr>patchset = ps0 @ [\<lparr>patch_src = patch_src p, patch_dst = patch_dst p, patch_chunks = []\<rparr>], current_chunk = k\<rparr> =
    Inr \<lparr>patchset = ps0 @ [p], current_chunk = k'\<rparr>"
    using parse_chunks [OF wf(3), of ps0 "\<lparr>patch_src = patch_src p, patch_dst = patch_dst p, patch_chunks = []\<rparr>" k]
    by (cases p) auto
  then have "for_each parse_line (patch_text p) \<lparr>patchset = ps0, current_chunk = k\<rparr> =
    Inr \<lparr>patchset = ps0 @ [p], current_chunk = k'\<rparr>"
    using wf by (simp add: patch_text_def parse_src_name [simplified] parse_dst_name [simplified] on_patch_def)
  with Cons.IH [of "ps0 @ [p]" k'] Cons.prems show ?case by simp
qed simp

text \<open>
  C35: whatever patches the checker writes, its parser reads back: the lines of the text of well-formed
  patches, printed one after the other, parse to exactly these patches, with their file names, the
  positions of their chunks, and the kind and text of every line. (A line that is removed may not start
  with two dashes and a blank, nor an added one with two plus signs and a blank: in the text they
  would be headers.)
\<close>

theorem patch_round_trip:
  assumes "list_all wf_patch ps"
  shows "res_bind (for_each write_patch ps []) (\<lambda>text. parse_patchset (file_lines text)) = Inr ps"
proof -
  have "list_all is_line (concat (map patch_text ps))"
    using assms patch_text_lines by (auto simp: list_all_iff)
  then have "file_lines (concat (concat (map patch_text ps))) = concat (map patch_text ps)"
    by (rule file_lines_concat)
  moreover obtain k where "for_each parse_line (concat (map patch_text ps)) \<lparr>patchset = [], current_chunk = None\<rparr> =
      Inr \<lparr>patchset = [] @ ps, current_chunk = k\<rparr>"
    using parse_patches [OF assms] by blast
  ultimately show ?thesis
    by (simp add: write_patches_text [OF assms] parse_patchset_def)
qed

definition sample_patch :: patch where
  "sample_patch = \<lparr>patch_src = ''a/x.cc'', patch_dst = ''b/x.cc'', patch_chunks =
     [\<lparr>chunk_lines = [\<lparr>ltype = BOTH, ltext = ''{''\<rparr>, \<lparr>ltype = SRC, ltext = ''  x; ''\<rparr>,
        \<lparr>ltype = DST, ltext = ''  x;''\<rparr>], src_pos = 10, dst_pos = 12\<rparr>]\<rparr>"

theorem patch_round_trip_witness:
  "res_bind (for_each write_patch [sample_patch, sample_patch] [])
     (\<lambda>text. parse_patchset (file_lines text)) = Inr [sample_patch, sample_patch]"
  by (rule patch_round_trip) (simp add: sample_patch_def wf_patch_def wf_line_def)

section \<open>What is restored\<close>

lemma trailing_blank_Some:
  "trailing_blank s = Some (b, t) \<Longrightarrow> s = b @ t \<and> (t = '' '' \<or> t = [CHR 0x09])"
  by (auto simp: trailing_blank_def split: if_splits)
    (metis append_butlast_last_id)+

definition restored :: "string \<Rightarrow> string \<Rightarrow> string" where
  "restored s d = (if s = d @ '' '' \<or> s = d @ [CHR 0x09] then s else d)"

lemma restore_blank_text:
  assumes "i < length dst" "dst ! i < length ls"
  shows "restore_blank src dst i ls = Inr (ls[dst ! i := (ls ! (dst ! i))\<lparr>ltext :=
    restored (ltext (ls ! (src ! i))) (ltext (ls ! (dst ! i)))\<rparr>])"
proof (cases "trailing_blank (ltext (ls ! (src ! i)))")
  case None
  then have "\<not> (\<exists>d. ltext (ls ! (src ! i)) = d @ '' '' \<or> ltext (ls ! (src ! i)) = d @ [CHR 0x09])"
    by (auto simp: trailing_blank_def split: if_splits)
  with None assms show ?thesis by (auto simp: restore_blank_def restored_def)
next
  case (Some r)
  then obtain b t where r: "trailing_blank (ltext (ls ! (src ! i))) = Some (b, t)" by (cases r) auto
  show ?thesis
    using assms r trailing_blank_Some [OF r]
    by (auto simp: restore_blank_def restored_def append_to_line_def)
qed

definition line_step :: "patch_line \<Rightarrow> patch_line \<Rightarrow> bool" where
  "line_step l l' \<longleftrightarrow> l' = l \<or>
     (is_dst l \<and> (l' = append_to_line '' '' l \<or> l' = append_to_line [CHR 0x09] l))"

lemma restored_step:
  "is_dst l \<Longrightarrow> line_step l (l\<lparr>ltext := restored s (ltext l)\<rparr>)"
  by (auto simp: line_step_def restored_def append_to_line_def)

lemma restore_loop_step:
  assumes "distinct dst" "\<And>d. d \<in> set dst \<Longrightarrow> d < length ls" "\<And>d. d \<in> set (drop k dst) \<Longrightarrow> is_dst (ls ! d)"
  shows "length (fst (restore_loop src dst [k..<n] ls)) = length ls \<and>
    (\<forall>x < length ls. line_step (ls ! x) (fst (restore_loop src dst [k..<n] ls) ! x) \<and>
      (x \<notin> set (drop k dst) \<longrightarrow> fst (restore_loop src dst [k..<n] ls) ! x = ls ! x))"
  using assms
proof (induction "n - k" arbitrary: k ls)
  case 0
  then show ?case by (simp add: line_step_def)
next
  case (Suc m)
  then have upt: "[k..<n] = k # [Suc k..<n]" by (simp add: upt_conv_Cons)
  show ?case
  proof (cases "k < length dst")
    case False
    then have "restore_blank src dst k ls = Inl IndexError" by (simp add: restore_blank_def)
    then show ?thesis by (simp add: upt line_step_def)
  next
    case True
    let ?d = "dst ! k"
    define ls' where "ls' = ls[?d := (ls ! ?d)\<lparr>ltext := restored (ltext (ls ! (src ! k))) (ltext (ls ! ?d))\<rparr>]"
    have drop: "drop k dst = ?d # drop (Suc k) dst" using True by (simp add: Cons_nth_drop_Suc)
    have d: "?d < length ls" "is_dst (ls ! ?d)" using True Suc.prems drop by auto
    have fresh: "?d \<notin> set (drop (Suc k) dst)"
      using Suc.prems(1) drop by (metis distinct.simps(2) distinct_drop)
    have blank: "restore_blank src dst k ls = Inr ls'"
      using restore_blank_text [of k dst ls src] True d by (simp add: ls'_def)
    have IH: "length (fst (restore_loop src dst [Suc k..<n] ls')) = length ls' \<and>
      (\<forall>x < length ls'. line_step (ls' ! x) (fst (restore_loop src dst [Suc k..<n] ls') ! x) \<and>
        (x \<notin> set (drop (Suc k) dst) \<longrightarrow> fst (restore_loop src dst [Suc k..<n] ls') ! x = ls' ! x))"
    proof (rule Suc.hyps(1))
      show "m = n - Suc k" using Suc.hyps(2) by simp
      show "distinct dst" by (rule Suc.prems(1))
      show "e < length ls'" if "e \<in> set dst" for e using Suc.prems(2) [OF that] by (simp add: ls'_def)
      show "is_dst (ls' ! e)" if "e \<in> set (drop (Suc k) dst)" for e
        using Suc.prems(3) [of e] that fresh drop by (cases "e = ?d") (auto simp: ls'_def)
    qed
    moreover have "length ls' = length ls" by (simp add: ls'_def)
    moreover have "ls' ! x = ls ! x" if "x \<noteq> ?d" for x using that by (simp add: ls'_def)
    moreover have "line_step (ls ! ?d) (ls' ! ?d)" using d by (simp add: ls'_def restored_step)
    ultimately show ?thesis
      using fresh by (simp add: upt blank drop) (metis (no_types))
  qed
qed

lemma dst_lines_props:
  "distinct (dst_lines c)" "d \<in> set (dst_lines c) \<longleftrightarrow> d < length (chunk_lines c) \<and> is_dst (chunk_lines c ! d)"
  by (auto simp: dst_lines_def)

lemma src_lines_props:
  "distinct (src_lines c)" "d \<in> set (src_lines c) \<longleftrightarrow> d < length (chunk_lines c) \<and> is_src (chunk_lines c ! d)"
  by (auto simp: src_lines_def)

definition chunk_step :: "patch_chunk \<Rightarrow> patch_chunk \<Rightarrow> bool" where
  "chunk_step c c' \<longleftrightarrow> src_pos c' = src_pos c \<and> dst_pos c' = dst_pos c \<and>
     list_all2 line_step (chunk_lines c) (chunk_lines c')"

definition patch_step :: "patch \<Rightarrow> patch \<Rightarrow> bool" where
  "patch_step p p' \<longleftrightarrow> patch_src p' = patch_src p \<and> patch_dst p' = patch_dst p \<and>
     list_all2 chunk_step (patch_chunks p) (patch_chunks p')"

lemma line_step_refl [simp]: "line_step l l" by (simp add: line_step_def)
lemma chunk_step_refl [simp]: "chunk_step c c" by (simp add: chunk_step_def list_all2_refl)
lemma patch_step_refl [simp]: "patch_step p p" by (simp add: patch_step_def list_all2_refl)

lemma restore_chunk_step: "chunk_step c (fst (restore_chunk c))"
proof -
  have "length (fst (restore_loop (src_lines c) (dst_lines c) [0..<n] (chunk_lines c))) = length (chunk_lines c) \<and>
    (\<forall>x < length (chunk_lines c). line_step (chunk_lines c ! x)
       (fst (restore_loop (src_lines c) (dst_lines c) [0..<n] (chunk_lines c)) ! x) \<and>
      (x \<notin> set (drop 0 (dst_lines c)) \<longrightarrow>
        fst (restore_loop (src_lines c) (dst_lines c) [0..<n] (chunk_lines c)) ! x = chunk_lines c ! x))" for n
    by (rule restore_loop_step) (auto simp: dst_lines_props)
  then show ?thesis
    by (simp add: chunk_step_def restore_chunk_def list_all2_conv_all_nth split: prod.split)
      (metis fst_conv)
qed

lemma restore_chunks_step: "list_all2 chunk_step cs (fst (restore_chunks cs))"
proof (induction cs)
  case (Cons c cs)
  then show ?case
    using restore_chunk_step [of c] by (auto simp: list_all2_refl split: prod.split)
qed simp

text \<open>
  taking out the changes of trailing white space is harmless to a patch: the patches, their file
  names, the chunks, their positions, and the number, order and kind of their lines stay; the lines
  the patch removes keep their text, and a line of the destination keeps its text or gets one blank or
  tabulator at its end. This holds too when the function gives up half way because of a chunk with
  fewer destination than source lines.
\<close>

theorem restore_only_adds_blanks: "list_all2 patch_step ps (fst (restore_patches ps))"
proof (induction ps)
  case (Cons p ps)
  then show ?case
    using restore_chunks_step [of "patch_chunks p"]
    by (auto simp: Let_def patch_step_def list_all2_refl split: prod.split)
qed simp

lemma restore_loop_append:
  "restore_loop src dst (is @ js) ls =
     (case restore_loop src dst is ls of (ls', returned) \<Rightarrow>
        if returned then (ls', True) else restore_loop src dst js ls')"
  by (induction "is" arbitrary: ls) (simp_all split: sum.split)

lemma restore_loop_exact:
  assumes "distinct dst" "\<And>d. d \<in> set dst \<Longrightarrow> d < length ls" "n \<le> length dst"
  shows "\<exists>ls'. restore_loop src dst [0..<n] ls = (ls', False) \<and> length ls' = length ls \<and>
    (\<forall>x. x \<notin> set (take n dst) \<longrightarrow> ls' ! x = ls ! x) \<and>
    (\<forall>i < n. src ! i \<notin> set (take i dst) \<longrightarrow>
      ltext (ls' ! (dst ! i)) = restored (ltext (ls ! (src ! i))) (ltext (ls ! (dst ! i))))"
  using assms(3)
proof (induction n)
  case (Suc n)
  then obtain ls' where ls': "restore_loop src dst [0..<n] ls = (ls', False)" "length ls' = length ls"
    "\<And>x. x \<notin> set (take n dst) \<Longrightarrow> ls' ! x = ls ! x"
    "\<And>i. i < n \<Longrightarrow> src ! i \<notin> set (take i dst) \<Longrightarrow>
      ltext (ls' ! (dst ! i)) = restored (ltext (ls ! (src ! i))) (ltext (ls ! (dst ! i)))"
    by auto
  let ?d = "dst ! n"
  let ?l = "(ls' ! ?d)\<lparr>ltext := restored (ltext (ls' ! (src ! n))) (ltext (ls' ! ?d))\<rparr>"
  have d: "?d < length ls'" using Suc.prems assms(2) ls'(2) by simp
  have take: "take (Suc n) dst = take n dst @ [?d]" using Suc.prems by (simp add: take_Suc_conv_app_nth)
  then have new: "?d \<notin> set (take n dst)" using assms(1) by (metis distinct_take not_distinct_conv_prefix)
  have "restore_loop src dst [0..<Suc n] ls = (ls'[?d := ?l], False)"
    using restore_blank_text [of n dst ls' src] Suc.prems d by (simp add: restore_loop_append ls'(1))
  moreover have "ls'[?d := ?l] ! x = ls ! x" if "x \<notin> set (take (Suc n) dst)" for x
    using that ls'(3) by (simp add: take)
  moreover have "ltext (ls'[?d := ?l] ! (dst ! i)) = restored (ltext (ls ! (src ! i))) (ltext (ls ! (dst ! i)))"
    if "i < Suc n" "src ! i \<notin> set (take i dst)" for i
  proof (cases "i = n")
    case True
    then show ?thesis using that ls'(3) [OF new] ls'(3) [of "src ! n"] d by simp
  next
    case False
    then have "dst ! i \<noteq> ?d" using that Suc.prems assms(1) by (simp add: nth_eq_iff_index_eq)
    then show ?thesis using that False ls'(4) [of i] by simp
  qed
  ultimately show ?case using ls'(2) by (intro exI [of _ "ls'[?d := ?l]"]) (simp add: take)
qed simp

text \<open>
  in a chunk with at least as many destination as source lines, the \<open>i\<close>-th destination line becomes
  the \<open>i\<close>-th source line when that differs from it by one blank or tabulator at its end, and
  stays as it is otherwise (provided that the source line is not a common line that was itself changed
  in an earlier round); the destination lines past the source lines stay as they are. A line
  that lost two trailing blanks is not restored.
\<close>

theorem restore_exact:
  assumes "length (src_lines c) \<le> length (dst_lines c)"
    and "i < length (src_lines c) \<Longrightarrow> src_lines c ! i \<notin> set (take i (dst_lines c))"
    and "i < length (dst_lines c)"
  shows "snd (restore_chunk c) = False \<and>
    ltext (chunk_lines (fst (restore_chunk c)) ! (dst_lines c ! i)) =
      (let d = ltext (chunk_lines c ! (dst_lines c ! i)); s = ltext (chunk_lines c ! (src_lines c ! i))
       in if i < length (src_lines c) \<and> (s = d @ '' '' \<or> s = d @ [CHR 0x09]) then s else d)"
proof -
  obtain ls' where ls': "restore_loop (src_lines c) (dst_lines c) [0..<length (src_lines c)] (chunk_lines c) = (ls', False)"
    "\<And>x. x \<notin> set (take (length (src_lines c)) (dst_lines c)) \<Longrightarrow> ls' ! x = chunk_lines c ! x"
    "\<And>i. i < length (src_lines c) \<Longrightarrow> src_lines c ! i \<notin> set (take i (dst_lines c)) \<Longrightarrow>
      ltext (ls' ! (dst_lines c ! i)) =
        restored (ltext (chunk_lines c ! (src_lines c ! i))) (ltext (chunk_lines c ! (dst_lines c ! i)))"
    using restore_loop_exact [of "dst_lines c" "chunk_lines c" "length (src_lines c)" "src_lines c"] assms(1)
    by (auto simp: dst_lines_props)
  show ?thesis
  proof (cases "i < length (src_lines c)")
    case True
    then show ?thesis using ls' assms(2) by (simp add: restore_chunk_def restored_def Let_def)
  next
    case False
    have "dst_lines c ! i \<in> set (drop (length (src_lines c)) (dst_lines c))"
      using False assms(3) by (auto simp: in_set_conv_nth intro!: exI [of _ "i - length (src_lines c)"])
    then have "dst_lines c ! i \<notin> set (take (length (src_lines c)) (dst_lines c))"
      using dst_lines_props(1) [of c] set_take_disj_set_drop_if_distinct [of "dst_lines c"] by blast
    then show ?thesis using False ls' by (simp add: restore_chunk_def)
  qed
qed

definition blank_chunk :: patch_chunk where
  "blank_chunk = \<lparr>chunk_lines = [\<lparr>ltype = BOTH, ltext = ''{''\<rparr>, \<lparr>ltype = SRC, ltext = ''  x; ''\<rparr>,
     \<lparr>ltype = DST, ltext = ''  x;''\<rparr>], src_pos = 10, dst_pos = 12\<rparr>"

theorem restore_exact_witness:
  "snd (restore_chunk blank_chunk) = False \<and>
   ltext (chunk_lines (fst (restore_chunk blank_chunk)) ! 2) = ''  x; ''"
proof -
  have dst: "dst_lines blank_chunk = [0, 2]" and src: "src_lines blank_chunk = [0, 1]"
    by (simp_all add: dst_lines_def src_lines_def blank_chunk_def is_dst_def is_src_def upt_rec)
  show ?thesis
    using restore_exact [of blank_chunk 1] by (simp add: dst src) (simp add: blank_chunk_def Let_def)
qed

lemma final_diff_debug: "final_diff tools True level source output = Inr []"
  by (simp add: final_diff_def parse_patchset_def remove_trailing_whitespace_changes_def)

lemma read_file_Some: "files w p = Some t \<Longrightarrow> read_file p w = (Inr t, w)"
  by (simp add: read_file_def)

definition text_of :: "'e world \<Rightarrow> string \<Rightarrow> string" where
  "text_of w p = (case files w p of Some t \<Rightarrow> t | None \<Rightarrow> [])"

definition indented :: "style_tools \<Rightarrow> int \<Rightarrow> string \<Rightarrow> string \<Rightarrow> bool" where
  "indented tools level source result \<longleftrightarrow>
     (\<exists>run d. uncrustify tools = Some run \<and>
        final_diff tools False level source (run (uncrustify_config_file level) source) = Inr d \<and>
        map_option (\<lambda>patch. patch d source) (apply_patch tools) = Some result)"

lemma indent_Inr:
  assumes "indented tools level (text_of w p) t" "files w p \<noteq> None"
  shows "indent tools False level p w = (Inr t, w)"
  using assms by (auto simp: indented_def indent_def io_simps io_basic text_of_def read_file_Some io_bind_def
      split: option.splits)

lemma indent_all_step:
  assumes "\<And>f. f \<in> set fs \<Longrightarrow> indent tools debug level f w = (Inr (g f), w)"
  shows "io_for_each (\<lambda>f output. io_bind (indent tools debug level f) (\<lambda>dst. io_return (output @ [(f, dst)]))) fs out w =
    (Inr (out @ map (\<lambda>f. (f, g f)) fs), w)"
  using assms by (induction fs arbitrary: out) (simp_all add: io_bind_def io_basic)

lemma failed_step:
  assumes "\<And>f. f \<in> set fs \<Longrightarrow> files w f \<noteq> None"
  shows "io_for_each (\<lambda>(src, dst) failed. io_bind (read_file src) (\<lambda>source.
      io_return (if source = dst then failed else failed @ [(src, dst)]))) (map (\<lambda>f. (f, g f)) fs) out w =
    (Inr (out @ map (\<lambda>f. (f, g f)) (filter (\<lambda>f. text_of w f \<noteq> g f) fs)), w)"
  using assms
proof (induction fs arbitrary: out)
  case (Cons f fs)
  obtain t where "files w f = Some t" using Cons.prems [of f] by auto
  then show ?case using Cons by (simp add: io_bind_def io_basic read_file_def text_of_def)
qed (simp add: io_basic)

lemma print_all: "io_for_each (\<lambda>line _. print_line line) ls () w = (Inr (), w\<lparr>console := console w @ ls\<rparr>)"
  by (induction ls arbitrary: w) (simp_all add: io_basic io_bind_def print_line_def)

lemma indent_files_check:
  assumes "\<And>f. f \<in> set fs \<Longrightarrow> files w f \<noteq> None"
    and "\<And>f. f \<in> set fs \<Longrightarrow> indent tools debug level f w = (Inr (g f), w)"
  shows "indent_files tools fs False debug level False w =
    (let failed = filter (\<lambda>f. text_of w f \<noteq> g f) fs in
     if failed = [] then (Inr True, w)
     else (Inr False, w\<lparr>console := console w @
       (''Found '' @ nat_str (length failed) @ '' badly indented files:'') # map (\<lambda>f. ''  '' @ f) failed\<rparr>))"
proof -
  have "indent_all tools debug level fs w = (Inr (map (\<lambda>f. (f, g f)) fs), w)"
    using indent_all_step [OF assms(2), where out = "[]"] by (simp add: indent_all_def)
  moreover have "io_for_each (\<lambda>(src, dst) failed. io_bind (read_file src) (\<lambda>source.
      io_return (if source = dst then failed else failed @ [(src, dst)]))) (map (\<lambda>f. (f, g f)) fs) [] w =
    (Inr (map (\<lambda>f. (f, g f)) (filter (\<lambda>f. text_of w f \<noteq> g f) fs)), w)"
    using failed_step [OF assms(1), of fs g "[]"] by simp
  ultimately show ?thesis
    by (simp add: indent_files_def io_simps Let_def io_basic print_all comp_def del: io_for_each.simps)
qed

text \<open>
  the debugging option makes the checker blind. The difference is a generator, which the option
  writes to a temporary file first: what is parsed or written afterwards is empty. As applying an empty
  patch changes nothing, no file is ever reported with it, whatever uncrustify would make of it.
\<close>

theorem debug_reports_nothing:
  assumes "uncrustify tools \<noteq> None" "apply_patch tools = Some patch" "\<And>s. patch [] s = s" "\<And>f. f \<in> set fs \<Longrightarrow> files w f \<noteq> None"
  shows "indent_files tools fs False True level False w = (Inr True, w)"
proof -
  have "indent tools True level f w = (Inr (text_of w f), w)" if "f \<in> set fs" for f
    using assms(4) [OF that] assms(1-3)
    by (auto simp: indent_def io_simps io_basic text_of_def read_file_Some io_bind_def final_diff_debug)
  with assms(4) show ?thesis by (subst indent_files_check [where g = "text_of w"]) auto
qed

definition sample_tools :: style_tools where
  \<comment> \<open>uncrustify takes out the blanks, and every difference is given as one patch\<close>
  "sample_tools = \<lparr>uncrustify = Some (\<lambda>_ s. filter (\<lambda>c. c \<noteq> CHR '' '') s),
     unified_diff = (\<lambda>a b. if a = b then [] else
       [''--- a'' @ newline, ''+++ b'' @ newline, ''@@ -1,1 +1,1 @@'' @ newline] @
       map (\<lambda>l. ''-'' @ l) a @ map (\<lambda>l. ''+'' @ l) b),
     apply_patch = Some (\<lambda>d s. concat (map (\<lambda>l. if prefix ''+'' l \<and> \<not> prefix ''+++ '' l then drop 1 l
       else []) (file_lines d)) @ (if d = [] then s else []))\<rparr>"

definition sample_world :: "unit world" where
  "sample_world = \<lparr>files = [''a.cc'' \<mapsto> ''x ;'' @ newline, ''b.cc'' \<mapsto> ''y;'' @ newline], dirs = [],
     console = [], environ = [], ext = ()\<rparr>"

theorem debug_reports_nothing_witness:
  "indent_files sample_tools [''a.cc'', ''b.cc''] False True 0 False sample_world = (Inr True, sample_world)"
  by (rule debug_reports_nothing [where patch = "the (apply_patch sample_tools)"]) (auto simp: sample_tools_def sample_world_def)

definition checked_files :: "style_options \<Rightarrow> string list \<Rightarrow> 'e world \<Rightarrow> string list" where
  \<comment> \<open>the files a run of the program looks at\<close>
  "checked_files opts hg_status w =
     (if so_hg_hook opts \<or> so_hg opts then map strip hg_status
      else if so_file opts = [] \<or> files w (so_file opts) = None then [] else [so_file opts])"

definition missing_file :: "style_options \<Rightarrow> 'e world \<Rightarrow> bool" where
  "missing_file opts w \<longleftrightarrow>
     \<not> so_hg_hook opts \<and> \<not> so_hg opts \<and> so_file opts \<noteq> [] \<and> files w (so_file opts) = None"

definition badly_indented :: "(string \<Rightarrow> string) \<Rightarrow> 'e world \<Rightarrow> string list \<Rightarrow> string list" where
  "badly_indented result w fs = filter (\<lambda>f. text_of w f \<noteq> result f) fs"

definition style_report :: "string list \<Rightarrow> string list" where
  "style_report failed =
     (if failed = [] then []
      else (''Found '' @ nat_str (length failed) @ '' badly indented files:'') # map (\<lambda>f. ''  '' @ f) failed)"

lemma indent_files_verdict:
  assumes "uncrustify tools = Some run" "apply_patch tools = Some patch" "\<And>f. f \<in> set fs \<Longrightarrow> files w f \<noteq> None"
    and "\<And>f. f \<in> set fs \<Longrightarrow>
      final_diff tools False level (text_of w f) (run (uncrustify_config_file level) (text_of w f)) = Inr (d f)"
  defines "failed \<equiv> badly_indented (\<lambda>f. patch (d f) (text_of w f)) w fs"
  shows "indent_files tools fs False False level False w =
    (Inr (failed = []), w\<lparr>console := console w @ style_report failed\<rparr>)"
proof -
  have "indent tools False level f w = (Inr (patch (d f) (text_of w f)), w)" if "f \<in> set fs" for f
    using that assms(1-4) by (intro indent_Inr) (auto simp: indented_def)
  then show ?thesis
    using assms(3) by (subst indent_files_check [where g = "\<lambda>f. patch (d f) (text_of w f)"])
      (auto simp: Let_def failed_def badly_indented_def style_report_def)
qed

text \<open>
  C36: a run of the checker that only reports: without \<open>--debug\<close>, and, unless it runs as the hook,
  which ignores them, without \<open>--diff\<close> and \<open>--in-place\<close>. When uncrustify and patch are installed, the
  files to check exist and the parser can read the differences, it reports exactly the files whose text is
  not their indented text, by their number and their names in order, or that the one file asked for does
  not exist, and changes no file. It exits with 1 as the hook if it has reported a file, and if the file
  asked for does not exist, and otherwise with 0: checking a single file or the modified ones outside the
  hook it exits with 0 whatever it has reported. Called by Mercurial, \<open>run_as_hg_hook\<close> does the same at
  level 0 and answers whether it has reported a file.
\<close>

theorem style_check_verdict:
  assumes "uncrustify tools = Some run" "apply_patch tools = Some patch"
    and "\<And>f. f \<in> set (checked_files opts hg_status w) \<Longrightarrow> files w f \<noteq> None"
    and "\<And>f. f \<in> set (checked_files opts hg_status w) \<Longrightarrow>
      final_diff tools False (so_level opts) (text_of w f)
        (run (uncrustify_config_file (so_level opts)) (text_of w f)) = Inr (d f)"
    and "\<not> so_debug opts" "so_hg_hook opts \<or> \<not> so_diff opts \<and> \<not> so_in_place opts"
  defines "failed \<equiv> badly_indented (\<lambda>f. patch (d f) (text_of w f)) w (checked_files opts hg_status w)"
  shows "run_as_main tools opts hg_status w =
      (Inr (if so_hg_hook opts \<and> failed \<noteq> [] \<or> missing_file opts w then 1 else 0),
       w\<lparr>console := console w @
         (if missing_file opts w then [''file '' @ so_file opts @ '' does not exist''] else style_report failed)\<rparr>) \<and>
    (so_hg_hook opts \<and> so_level opts = 0 \<longrightarrow> run_as_hg_hook tools hg_status w =
      (Inr (failed \<noteq> []), w\<lparr>console := console w @ style_report failed\<rparr>))"
proof -
  have run: "indent_files tools (checked_files opts hg_status w) False False (so_level opts) False w =
      (Inr (failed = []), w\<lparr>console := console w @ style_report failed\<rparr>)"
    unfolding failed_def by (rule indent_files_verdict [OF assms(1-4)])
  have none: "failed = []" if "missing_file opts w \<or> \<not> so_hg_hook opts \<and> \<not> so_hg opts \<and> so_file opts = []"
    using that by (auto simp: failed_def checked_files_def missing_file_def badly_indented_def)
  have "w\<lparr>console := console w\<rparr> = w" by simp
  then show ?thesis
    using run none assms(5,6)
    by (auto simp: run_as_main_def run_as_hg_hook_def checked_files_def missing_file_def io_simps io_basic io_get_def
        print_line_def style_report_def split: if_splits)
qed

definition check_file_a :: style_options where
  "check_file_a = \<lparr>so_debug = False, so_level = 3, so_hg_hook = False, so_hg = False, so_file = ''a.cc'',
     so_diff = False, so_in_place = False\<rparr>"

theorem style_check_verdict_witness:
  "run_as_main sample_tools check_file_a [] sample_world =
     (Inr 0, sample_world\<lparr>console := [''Found 1 badly indented files:'', ''  a.cc'']\<rparr>)"
proof -
  define d where "d = (\<lambda>f :: string. concat (unified_diff sample_tools [''x ;'' @ newline] [''x;'' @ newline]))"
  define p where "p = the (apply_patch sample_tools)"
  have files: "checked_files check_file_a [] sample_world = [''a.cc'']"
    by (simp add: checked_files_def check_file_a_def sample_world_def)
  have content: "text_of sample_world ''a.cc'' = ''x ;'' @ newline"
    by (simp add: sample_world_def text_of_def)
  have diff: "final_diff sample_tools False 3 (''x ;'' @ newline) (filter (\<lambda>c. c \<noteq> CHR '' '') (''x ;'' @ newline)) =
      Inr (d ''a.cc'')"
    by (simp add: final_diff_def d_def sample_tools_def newline_def)
  have "p (d ''a.cc'') (''x ;'' @ newline) = ''x;'' @ newline"
    by (simp add: p_def d_def sample_tools_def newline_def)
  then have failed: "badly_indented (\<lambda>f. p (d f) (text_of sample_world f)) sample_world [''a.cc''] = [''a.cc'']"
    by (simp add: badly_indented_def content newline_def)
  have one: "nat_str 1 = ''1''" by (subst nat_str.simps) (simp add: char_of_def bit_0)
  have opts: "so_level check_file_a = 3" "\<not> so_hg_hook check_file_a" "\<not> so_debug check_file_a"
    "\<not> so_diff check_file_a" "\<not> so_in_place check_file_a" "\<not> missing_file check_file_a sample_world"
    by (simp_all add: check_file_a_def missing_file_def sample_world_def)
  have tools: "uncrustify sample_tools = Some (\<lambda>_ s. filter (\<lambda>c. c \<noteq> CHR '' '') s)" "apply_patch sample_tools = Some p"
    and present: "files sample_world ''a.cc'' \<noteq> None"
    by (simp_all add: sample_tools_def sample_world_def p_def)
  have "run_as_main sample_tools check_file_a [] sample_world =
      (Inr 0, sample_world\<lparr>console := console sample_world @ style_report [''a.cc'']\<rparr>)"
    using style_check_verdict [OF tools, of check_file_a "[]" sample_world d] diff present
    unfolding files opts(1) by (simp add: opts content failed)
  then show ?thesis by (simp add: style_report_def one [simplified] sample_world_def)
qed

end
