(* ===== verification/Py_Number.thy ===== *)
theory Py_Number
  imports Complex_Main Py_World
begin

text \<open>
  Numbers as text: Python's \<open>int(s)\<close>, \<open>long(s)\<close> and \<open>float(s)\<close> on strings, division, and the format \<open>%.2f\<close>. Floating
  point numbers are exact rationals; the texts \<open>inf\<close> and \<open>nan\<close>, which Python accepts, have no value here.
\<close>

section \<open>Readers\<close>

text \<open>\<open>int(s)\<close> on a string: white space around an optional sign and digits.\<close>

definition py_int :: "string \<Rightarrow> int result" where
  "py_int s =
     (let t = strip s;
          (neg, ds) = (case t of
             c # cs \<Rightarrow> if c = CHR ''-'' then (True, cs) else if c = CHR ''+'' then (False, cs) else (False, t)
           | [] \<Rightarrow> (False, []))
      in if ds \<noteq> [] \<and> list_all is_digit ds
         then Inr (if neg then - int (digits_value ds) else int (digits_value ds))
         else Inl ValueError)"

text \<open>\<open>long(s)\<close> also accepts the suffix of a long literal.\<close>

definition py_long :: "string \<Rightarrow> int result" where
  "py_long s =
     (let t = strip s in
      if t \<noteq> [] \<and> last t \<in> {CHR ''l'', CHR ''L''} then
        if butlast t \<noteq> [] \<and> is_digit (last (butlast t)) then py_int (butlast t) else Inl ValueError
      else py_int t)"

definition ten_power :: "int \<Rightarrow> rat" where
  "ten_power e = (if 0 \<le> e then 10 ^ nat e else 1 / 10 ^ nat (- e))"

definition exponent :: "string \<Rightarrow> int option" where
  "exponent s =
     (case s of
        [] \<Rightarrow> Some 0
      | c # ds \<Rightarrow>
          if c \<in> {CHR ''e'', CHR ''E''} \<and> list_all (\<lambda>d. \<not> is_space d) ds
          then (case py_int ds of Inl _ \<Rightarrow> None | Inr e \<Rightarrow> Some e) else None)"

definition decimal :: "string \<Rightarrow> rat option" where
  \<comment> \<open>digits, perhaps a point with digits, perhaps an exponent\<close>
  "decimal s =
     (let whole = takeWhile is_digit s; rest = dropWhile is_digit s;
          (part, rest) = (case rest of c # cs \<Rightarrow> if c = CHR ''.'' then (takeWhile is_digit cs, dropWhile is_digit cs) else ([], rest)
            | [] \<Rightarrow> ([], []))
      in if whole @ part = [] then None
         else map_option (\<lambda>e. of_nat (digits_value (whole @ part)) / 10 ^ length part * ten_power e) (exponent rest))"

definition py_float :: "string \<Rightarrow> rat result" where
  "py_float s =
     (let t = strip s;
          (neg, body) = (case t of
             c # cs \<Rightarrow> if c = CHR ''-'' then (True, cs) else if c = CHR ''+'' then (False, cs) else (False, t)
           | [] \<Rightarrow> (False, []))
      in case decimal body of None \<Rightarrow> Inl ValueError | Some q \<Rightarrow> Inr (if neg then - q else q))"

definition py_divide :: "rat \<Rightarrow> rat \<Rightarrow> rat result" where
  "py_divide a b = (if b = 0 then Inl ZeroDivisionError else Inr (a / b))"

section \<open>Formats with decimals\<close>

definition scaled_decimals :: "nat \<Rightarrow> rat \<Rightarrow> nat" where
  \<comment> \<open>the digits of \<open>%.df\<close>: rounded to the nearest, and from the middle to the even one\<close>
  "scaled_decimals dp q =
     (let m = q * 10 ^ dp; k = nat \<lfloor>m\<rfloor>; f = m - of_nat k in if f > 1 / 2 \<or> (f = 1 / 2 \<and> odd k) then k + 1 else k)"

fun digits_of :: "nat \<Rightarrow> nat \<Rightarrow> string" where
  \<comment> \<open>the last digits of a number\<close>
  "digits_of 0 n = []"
| "digits_of (Suc k) n = digits_of k (n div 10) @ nat_str (n mod 10)"

definition fixed_format :: "nat \<Rightarrow> rat \<Rightarrow> string" where
  "fixed_format dp q =
     (let n = scaled_decimals dp \<bar>q\<bar>
      in (if q < 0 then ''-'' else []) @ nat_str (n div 10 ^ dp) @ (if dp = 0 then [] else ''.'' @ digits_of dp n))"

definition two_decimals :: "rat \<Rightarrow> string" where
  \<comment> \<open>\<open>%.2f\<close>\<close>
  "two_decimals q = fixed_format 2 q"

section \<open>Lemmas\<close>

lemma strip_around:
  assumes "\<And>c. c \<in> set s \<Longrightarrow> \<not> is_space c" "list_all is_space u" "list_all is_space v"
  shows "strip (u @ s @ v) = s"
proof -
  have drop: "dropWhile is_space (a @ t) = dropWhile is_space t" if "list_all is_space a" for a t
    using that by (induction a) auto
  have none: "dropWhile is_space t = t" if "\<And>c. c \<in> set t \<Longrightarrow> \<not> is_space c" for t
    using that by (cases t) auto
  have all: "dropWhile is_space v = []" using drop [OF assms(3), of "[]"] by simp
  show ?thesis
  proof (cases "s = []")
    case True
    then show ?thesis by (simp add: strip_def drop [OF assms(2)] all del: dropWhile_eq_Nil_conv)
  next
    case False
    then have "dropWhile is_space (s @ v) = s @ v" using assms(1) [of "hd s"] by (cases s) auto
    moreover have "dropWhile is_space (rev v @ rev s) = rev s"
      using assms(3) none [of "rev s"] assms(1) drop [of "rev v" "rev s"] by (simp add: list_all_iff)
    ultimately show ?thesis by (simp add: strip_def drop [OF assms(2)])
  qed
qed

lemma strip_id: "(\<And>c. c \<in> set s \<Longrightarrow> \<not> is_space c) \<Longrightarrow> strip s = s"
  using strip_around [of s "[]" "[]"] by simp

lemma digit_not_special: "is_digit c \<Longrightarrow> \<not> is_space c \<and> c \<noteq> CHR ''-'' \<and> c \<noteq> CHR ''+'' \<and> c \<noteq> CHR ''='' \<and> c \<noteq> CHR '':''"
  by (auto simp: is_digit_def is_space_def)

lemma nat_str_plain:
  "c \<in> set (nat_str n) \<Longrightarrow> \<not> is_space c \<and> c \<noteq> CHR ''-'' \<and> c \<noteq> CHR ''+'' \<and> c \<noteq> CHR ''='' \<and> c \<noteq> CHR '':''"
  using nat_str_digits [of n] by (intro digit_not_special) (simp add: list_all_iff)

lemma py_int_nat_str: "py_int (nat_str n) = Inr (int n)"
proof -
  have "strip (nat_str n) = nat_str n" by (rule strip_id) (simp add: nat_str_plain)
  moreover obtain c cs where n: "nat_str n = c # cs" by (cases "nat_str n") auto
  moreover have "c \<noteq> CHR ''-'' \<and> c \<noteq> CHR ''+''" using nat_str_plain [of c n] n by simp
  ultimately show ?thesis
    using nat_str_digits [of n] digits_value_nat_str [of n] by (simp add: py_int_def)
qed

lemma py_int_int_str: "py_int (int_str i) = Inr i"
proof (cases "i < 0")
  case True
  have "strip (CHR ''-'' # nat_str (nat (- i))) = CHR ''-'' # nat_str (nat (- i))"
    by (rule strip_id) (use nat_str_plain [of _ "nat (- i)"] in \<open>auto simp: is_space_def\<close>)
  with True show ?thesis
    using nat_str_digits [of "nat (- i)"] digits_value_nat_str [of "nat (- i)"] by (simp add: py_int_def int_str_def)
next
  case False
  then show ?thesis by (simp add: int_str_def py_int_nat_str)
qed

lemma int_str_plain:
  "c \<in> set (int_str i) \<Longrightarrow> \<not> is_space c \<and> c \<noteq> CHR ''l'' \<and> c \<noteq> CHR ''L''"
  using nat_str_digits [of "nat (- i)"] nat_str_digits [of "nat i"]
  by (auto simp: int_str_def list_all_iff is_space_def is_digit_def split: if_splits)

lemma int_str_nonempty [simp]: "int_str i \<noteq> []"
  by (simp add: int_str_def)

lemma py_long_int_str: "py_long (int_str i) = Inr i"
proof -
  have "strip (int_str i) = int_str i" by (rule strip_id) (simp add: int_str_plain)
  moreover have "last (int_str i) \<noteq> CHR ''l''" "last (int_str i) \<noteq> CHR ''L''"
    using int_str_plain [of "last (int_str i)" i] by auto
  ultimately show ?thesis by (simp add: py_long_def py_int_int_str)
qed

lemma decimal_nat_str: "decimal (nat_str n) = Some (of_nat n)"
proof -
  have whole: "takeWhile is_digit (nat_str n) = nat_str n" "dropWhile is_digit (nat_str n) = []"
    using nat_str_digits [of n] by (simp_all add: list_all_iff)
  show ?thesis unfolding decimal_def whole by (simp add: exponent_def ten_power_def digits_value_nat_str)
qed

lemma py_float_int_str: "py_float (int_str i) = Inr (of_int i)"
proof -
  have "strip (int_str i) = int_str i" by (rule strip_id) (simp add: int_str_plain)
  moreover obtain c cs where n: "nat_str (nat i) = c # cs" by (cases "nat_str (nat i)") auto
  moreover have "c \<noteq> CHR ''-'' \<and> c \<noteq> CHR ''+''" using nat_str_plain [of c "nat i"] n by simp
  ultimately show ?thesis
    using decimal_nat_str [of "nat i"] decimal_nat_str [of "nat (- i)"]
    by (auto simp: py_float_def int_str_def)
qed

text \<open>A text with a point in it is no integer.\<close>

lemma strip_keeps: "c \<in> set s \<Longrightarrow> \<not> is_space c \<Longrightarrow> c \<in> set (strip s)"
proof -
  have keep: "c \<in> set (dropWhile is_space t)" if "c \<in> set t" "\<not> is_space c" for t
    using that by (induction t) auto
  assume "c \<in> set s" "\<not> is_space c"
  then show ?thesis unfolding strip_def using keep [of s] keep [of "rev (dropWhile is_space s)"] by simp
qed

lemma py_int_point: "CHR ''.'' \<in> set s \<Longrightarrow> py_int s = Inl ValueError"
proof -
  assume "CHR ''.'' \<in> set s"
  then have point: "CHR ''.'' \<in> set (strip s)" by (rule strip_keeps) (simp add: is_space_def)
  have "\<not> list_all is_digit ds" if "CHR ''.'' \<in> set ds" for ds
    using that by (auto simp: list_all_iff is_digit_def intro!: bexI [of _ "CHR ''.''"])
  note no = this
  obtain c cs where t: "strip s = c # cs" using point by (cases "strip s") auto
  show ?thesis using point no [of cs] no [of "c # cs"] by (auto simp: py_int_def t)
qed

lemma py_long_point: "CHR ''.'' \<in> set s \<Longrightarrow> py_long s = Inl ValueError"
proof -
  assume "CHR ''.'' \<in> set s"
  then have point: "CHR ''.'' \<in> set (strip s)" by (rule strip_keeps) (simp add: is_space_def)
  then have "strip s \<noteq> []" by auto
  then have "CHR ''.'' \<in> set (butlast (strip s))" if "last (strip s) \<in> {CHR ''l'', CHR ''L''}"
    using point that by (cases "strip s" rule: rev_cases) auto
  with point show ?thesis unfolding py_long_def Let_def by (auto simp: py_int_point)
qed

end
