(* ===== verification/Haystack.thy ===== *)
theory Haystack
  imports Py_Number
begin

text \<open>
  The photo store controller, \<open>facebook_haystack/haystackStoreController\<close>: the class
  \<open>haystackCacheController\<close> (its configuration file, the connection to memcached, query and write) and
  the two request handlers of \<open>server.py\<close>. The client of pymemcache is not in the repository: its
  constructor, \<open>get\<close> and \<open>set\<close> are parameters, which may raise, and the state of the servers and of the
  connections is the part \<open>ext\<close> of the world. A handler returns a Python value, a string, \<open>None\<close> or a
  number, to Flask, or raises; what Flask makes of that for the browser is the parameter \<open>make_response\<close>,
  of which nothing is assumed.
\<close>

section \<open>The configuration\<close>

type_synonym server = "string \<times> int"

definition parse_server :: "string \<Rightarrow> server result" where
  "parse_server line =
     res_bind (py_get (split_on (CHR ''='') line) 1) (\<lambda>address.
     res_bind (py_get (split_on (CHR '':'') address) 0) (\<lambda>ip.
     res_bind (py_get (split_on (CHR '':'') address) 1) (\<lambda>port.
     res_bind (py_int (strip port)) (\<lambda>port. Inr (strip ip, port)))))"

definition get_memcache_servers :: "string \<Rightarrow> ('e world, server list) io" where
  "get_memcache_servers config_file =
     io_bind (read_file config_file) (\<lambda>data.
       io_for_each (\<lambda>line s. io_bind (io_lift (parse_server line)) (\<lambda>server. io_return (s @ [server])))
         (file_lines data) [])"

section \<open>The controller\<close>

record ('c, 'v, 'e) pymemcache =
  connect :: "server \<Rightarrow> 'c"
  client_get :: "'c \<Rightarrow> string \<Rightarrow> 'e \<Rightarrow> 'v option result \<times> 'e"
  client_set :: "'c \<Rightarrow> string \<Rightarrow> 'v \<Rightarrow> 'e \<Rightarrow> unit result \<times> 'e"

record 'c cache_controller =
  memcache_servers :: "server list"
  client :: 'c

definition show_server :: "server \<Rightarrow> string" where
  "show_server s = [CHR ''('', CHR 0x27] @ fst s @ [CHR 0x27] @ '', '' @ int_str (snd s) @ '')''"

definition new_controller :: "('c, 'v, 'e) pymemcache \<Rightarrow> ('e world, 'c cache_controller) io" where
  "new_controller lib =
     io_seq (print_line ''Creating instance of haystackCacheController'')
     (io_bind (get_memcache_servers ''haystackCacheConfig.txt'') (\<lambda>servers.
      io_seq (print_line (''['' @ join '', '' (map show_server servers) @ '']''))
     (io_seq (print_line ''Creating memcache instance'')
     (io_bind (io_lift (py_get servers 0)) (\<lambda>server.
      io_return \<lparr>memcache_servers = servers, client = connect lib server\<rparr>)))))"

definition query_memcache ::
  "('c, 'v, 'e) pymemcache \<Rightarrow> 'c cache_controller \<Rightarrow> string \<Rightarrow> ('e world, 'v option) io" where
  "query_memcache lib self key w =
     (case client_get lib (client self) key (ext w) of (photo, e) \<Rightarrow> (photo, w\<lparr>ext := e\<rparr>))"

definition write_memcache ::
  "('c, 'v, 'e) pymemcache \<Rightarrow> 'c cache_controller \<Rightarrow> string \<Rightarrow> 'v \<Rightarrow> ('e world, unit) io" where
  "write_memcache lib self key v w =
     (case client_set lib (client self) key v (ext w) of (done, e) \<Rightarrow> (done, w\<lparr>ext := e\<rparr>))"

section \<open>The requests\<close>

datatype request = GET string | POST string

text \<open>What a view function returns to Flask.\<close>

datatype 'v view_value = PyNone | Photo 'v | Number int

definition view_of :: "'v option \<Rightarrow> 'v view_value" where
  "view_of photo = (case photo of None \<Rightarrow> PyNone | Some v \<Rightarrow> Photo v)"

definition HTTP_400_BAD_REQUEST :: int where
  "HTTP_400_BAD_REQUEST = 400"

definition get_photo ::
  "('c, 'v, 'e) pymemcache \<Rightarrow> ('v option \<Rightarrow> string) \<Rightarrow> 'c cache_controller \<Rightarrow> string \<Rightarrow> ('e world, 'v view_value) io" where
  "get_photo lib show_result controller photo_id =
     io_seq (print_line (''request to get photo with id:  '' @ photo_id))
     (io_bind (query_memcache lib controller photo_id) (\<lambda>query_result.
      io_seq (print_line (''Trying to get from cache, returned:  '' @ show_result query_result))
        (io_return (view_of query_result))))"

definition write_photo :: "string \<Rightarrow> ('e world, 'v view_value) io" where
  "write_photo photo_id =
     io_seq (print_line ''Write request should go to the store directly'')
       (io_return (Number HTTP_400_BAD_REQUEST))"

definition handle ::
  "('c, 'v, 'e) pymemcache \<Rightarrow> ('v option \<Rightarrow> string) \<Rightarrow> 'c cache_controller \<Rightarrow> request \<Rightarrow> ('e world, 'v view_value) io" where
  "handle lib show_result controller r =
     (case r of GET k \<Rightarrow> get_photo lib show_result controller k | POST k \<Rightarrow> write_photo k)"

text \<open>Flask calls the handler and makes an answer of what it returns or raises; the server goes on.\<close>

definition answer ::
  "('c, 'v, 'e) pymemcache \<Rightarrow> ('v option \<Rightarrow> string) \<Rightarrow> ('v view_value result \<Rightarrow> 'r) \<Rightarrow> 'c cache_controller \<Rightarrow>
   request \<Rightarrow> ('e world, 'r) io" where
  "answer lib show_result make_response controller r w =
     (case handle lib show_result controller r w of (v, w') \<Rightarrow> (Inr (make_response v), w'))"

definition serve ::
  "('c, 'v, 'e) pymemcache \<Rightarrow> ('v option \<Rightarrow> string) \<Rightarrow> ('v view_value result \<Rightarrow> 'r) \<Rightarrow> 'c cache_controller \<Rightarrow>
   request list \<Rightarrow> ('e world, 'r list) io" where
  "serve lib show_result make_response controller rs =
     io_for_each (\<lambda>r replies.
       io_bind (answer lib show_result make_response controller r) (\<lambda>a. io_return (replies @ [a]))) rs []"

section \<open>Lemmas\<close>

text \<open>The line of the configuration file for a server.\<close>

definition server_line :: "string \<times> server \<Rightarrow> string" where
  "server_line e = (case e of (name, ip, port) \<Rightarrow> name @ ''= '' @ ip @ '':'' @ int_str port @ [CHR 0x0A])"

definition wf_entry :: "string \<times> server \<Rightarrow> bool" where
  "wf_entry e \<longleftrightarrow> (case e of (name, ip, port) \<Rightarrow>
     CHR ''='' \<notin> set name \<and> CHR 0x0A \<notin> set name \<and> 0 \<le> port \<and>
     list_all (\<lambda>c. \<not> is_space c \<and> c \<noteq> CHR '':'' \<and> c \<noteq> CHR ''='') ip)"

lemma parse_server_line:
  assumes "wf_entry e"
  shows "parse_server (server_line e) = Inr (snd e)"
proof -
  obtain name ip port where e: "e = (name, ip, port)" by (cases e)
  with assms have wf: "CHR ''='' \<notin> set name" "0 \<le> port"
    "\<And>c. c \<in> set ip \<Longrightarrow> \<not> is_space c \<and> c \<noteq> CHR '':'' \<and> c \<noteq> CHR ''=''"
    by (simp_all add: wf_entry_def list_all_iff)
  obtain n where n: "port = int n" using wf(2) nonneg_int_cases by blast
  define address where "address = '' '' @ ip @ '':'' @ nat_str n @ [CHR 0x0A]"
  have line: "server_line e = name @ CHR ''='' # address"
    by (simp add: e server_line_def address_def int_str_def n)
  have "CHR ''='' \<notin> set address" using wf(3) nat_str_plain by (auto simp: address_def)
  then have "split_on (CHR ''='') (server_line e) = [name, address]"
    unfolding line using wf(1) by (simp add: split_on_append_sep split_on_no_sep)
  moreover have "CHR '':'' \<notin> set ('' '' @ ip)" "CHR '':'' \<notin> set (nat_str n @ [CHR 0x0A])"
    using wf(3) nat_str_plain by auto
  then have "split_on (CHR '':'') (('' '' @ ip) @ CHR '':'' # nat_str n @ [CHR 0x0A]) =
      ['' '' @ ip, nat_str n @ [CHR 0x0A]]"
    by (subst split_on_append_sep) (simp_all only: split_on_no_sep not_False_eq_True)
  then have "split_on (CHR '':'') address = ['' '' @ ip, nat_str n @ [CHR 0x0A]]"
    by (simp only: address_def append.assoc append_Cons append_Nil)
  moreover have "strip (nat_str n @ [CHR 0x0A]) = nat_str n"
    using strip_around [of "nat_str n" "[]" "[CHR 0x0A]"] nat_str_plain by (auto simp: is_space_def)
  moreover have "strip ('' '' @ ip) = ip"
    using strip_around [of ip "'' ''" "[]"] wf(3) by (auto simp: is_space_def)
  ultimately show ?thesis by (simp add: e n parse_server_def py_get_def py_int_nat_str)
qed

lemma server_line_ends: "wf_entry e \<Longrightarrow> \<exists>l. server_line e = l @ [CHR 0x0A] \<and> CHR 0x0A \<notin> set l"
proof -
  assume wf: "wf_entry e"
  obtain name ip port where e: "e = (name, ip, port)" by (cases e)
  show ?thesis
    using wf nat_str_no_newline [of "nat port"] by (intro exI [of _ "name @ ''= '' @ ip @ '':'' @ int_str port"])
      (auto simp: e wf_entry_def server_line_def int_str_def list_all_iff is_space_def)
qed

lemma file_lines_append:
  assumes "list_all wf_entry es" "CHR 0x0A \<notin> set line"
  shows "file_lines (concat (map server_line es) @ line @ [CHR 0x0A]) = map server_line es @ [line @ [CHR 0x0A]]"
  using assms(1)
proof (induction es)
  case Nil
  show ?case using file_lines_line [OF assms(2), of "[]"] by simp
next
  case (Cons e es)
  then obtain l where "server_line e = l @ [CHR 0x0A]" "CHR 0x0A \<notin> set l"
    using server_line_ends [of e] by auto
  with Cons file_lines_line [of l "concat (map server_line es) @ line @ [CHR 0x0A]"] show ?case by simp
qed

lemma file_lines_servers: "list_all wf_entry es \<Longrightarrow> file_lines (concat (map server_line es)) = map server_line es"
proof (induction es)
  case (Cons e es)
  then obtain l where "server_line e = l @ [CHR 0x0A]" "CHR 0x0A \<notin> set l"
    using server_line_ends [of e] by auto
  with Cons file_lines_line [of l "concat (map server_line es)"] show ?case by simp
qed simp

lemma parse_bad_line:
  assumes "CHR ''='' \<notin> set line"
  shows "parse_server (line @ [CHR 0x0A]) = Inl IndexError"
proof -
  have "split_on (CHR ''='') (line @ [CHR 0x0A]) = [line @ [CHR 0x0A]]" using assms by (simp add: split_on_no_sep)
  then show ?thesis by (simp add: parse_server_def py_get_def)
qed

lemma parse_all:
  "list_all wf_entry es \<Longrightarrow>
   io_for_each (\<lambda>line s. io_bind (io_lift (parse_server line)) (\<lambda>server. io_return (s @ [server])))
     (map server_line es) acc w = (Inr (acc @ map snd es), w)"
  by (induction es arbitrary: acc) (simp_all add: parse_server_line io_bind_def io_basic)

text \<open>What each handler may hand to Flask, given the photos that the server of the controller holds.\<close>

definition handed_over :: "(string \<rightharpoonup> 'v) \<Rightarrow> request \<Rightarrow> 'v view_value result \<Rightarrow> bool" where
  "handed_over photos r v \<longleftrightarrow>
     (case r of GET k \<Rightarrow> v = Inr (view_of (photos k)) \<or> (\<exists>e. v = Inl e) | POST k \<Rightarrow> v = Inr (Number 400))"

text \<open>A library whose \<open>get\<close> stores nothing and returns, if it returns, what the server holds.\<close>

definition get_reads :: "('c, 'v, 'e) pymemcache \<Rightarrow> ('c \<Rightarrow> 'e \<Rightarrow> (string \<rightharpoonup> 'v)) \<Rightarrow> bool" where
  "get_reads lib stored \<longleftrightarrow> (\<forall>c k e. case client_get lib c k e of (r, e') \<Rightarrow>
     (\<forall>c'. stored c' e' = stored c' e) \<and> (\<forall>v. r = Inr v \<longrightarrow> v = stored c e k))"

definition same_photos :: "('c \<Rightarrow> 'e \<Rightarrow> (string \<rightharpoonup> 'v)) \<Rightarrow> 'e world \<Rightarrow> 'e world \<Rightarrow> bool" where
  "same_photos stored w w' \<longleftrightarrow> (\<forall>c. stored c (ext w') = stored c (ext w)) \<and> files w' = files w"

lemma handle_effect:
  assumes "get_reads lib stored" and "handle lib sh controller r w = (v, w')"
  shows "handed_over (stored (client controller) (ext w)) r v" "same_photos stored w w'"
    "(\<exists>k. r = POST k) \<Longrightarrow> ext w' = ext w"
proof -
  have law: "(\<forall>c'. stored c' e' = stored c' e) \<and> (\<forall>v. r = Inr v \<longrightarrow> v = stored c e k)"
    if "client_get lib c k e = (r, e')" for c k e r e'
    using assms(1) [unfolded get_reads_def, THEN spec [of _ c], THEN spec [of _ k], THEN spec [of _ e]] that
    by simp
  obtain q e' where q: "client_get lib (client controller) (case r of GET k \<Rightarrow> k | POST k \<Rightarrow> k) (ext w) = (q, e')"
    by (cases "client_get lib (client controller) (case r of GET k \<Rightarrow> k | POST k \<Rightarrow> k) (ext w)")
  show "handed_over (stored (client controller) (ext w)) r v" "same_photos stored w w'"
    "(\<exists>k. r = POST k) \<Longrightarrow> ext w' = ext w"
    using assms(2) law [OF q] q
    by (cases r; cases q; auto simp: handle_def get_photo_def write_photo_def query_memcache_def handed_over_def
        same_photos_def HTTP_400_BAD_REQUEST_def io_seq_def io_bind_def io_basic print_line_def)+
qed

lemma serve_effect:
  assumes "get_reads lib stored"
  shows "\<exists>vs w'. io_for_each (\<lambda>r replies.
       io_bind (answer lib sh make_response controller r) (\<lambda>a. io_return (replies @ [a]))) rs acc w =
      (Inr (acc @ map make_response vs), w') \<and>
    list_all2 (handed_over (stored (client controller) (ext w))) rs vs \<and> same_photos stored w w' \<and>
    (list_all (\<lambda>r. \<exists>k. r = POST k) rs \<longrightarrow> ext w' = ext w)"
proof (induction rs arbitrary: acc w)
  case Nil
  show ?case by (simp add: io_basic same_photos_def)
next
  case (Cons r rs)
  obtain v w1 where h: "handle lib sh controller r w = (v, w1)" by (cases "handle lib sh controller r w")
  note effect = handle_effect [OF assms h]
  from Cons.IH [of "acc @ [make_response v]" w1] obtain vs w' where
    rest: "io_for_each (\<lambda>r replies.
       io_bind (answer lib sh make_response controller r) (\<lambda>a. io_return (replies @ [a]))) rs (acc @ [make_response v]) w1 =
      (Inr ((acc @ [make_response v]) @ map make_response vs), w')"
    "list_all2 (handed_over (stored (client controller) (ext w1))) rs vs" "same_photos stored w1 w'"
    "list_all (\<lambda>r. \<exists>k. r = POST k) rs \<longrightarrow> ext w' = ext w1" by blast
  have "io_bind (answer lib sh make_response controller r) (\<lambda>a. io_return (acc @ [a])) w =
      (Inr (acc @ [make_response v]), w1)"
    by (simp add: io_bind_def io_basic answer_def h)
  then show ?case
    using effect rest by (intro exI [of _ "v # vs"] exI [of _ w']) (auto simp: io_bind_def [of _ _ w] same_photos_def)
qed

lemma servers_read:
  assumes "list_all wf_entry es" "files w f = Some (concat (map server_line es))"
  shows "get_memcache_servers f w = (Inr (map snd es), w)"
  using parse_all [OF assms(1), of "[]" w] file_lines_servers [OF assms(1)] assms(2)
  by (simp add: get_memcache_servers_def io_bind_def read_file_def)

lemma servers_bad_line:
  assumes "list_all wf_entry es" "CHR ''='' \<notin> set line" "CHR 0x0A \<notin> set line"
    and "files w f = Some (concat (map server_line es) @ line @ [CHR 0x0A])"
  shows "get_memcache_servers f w = (Inl IndexError, w)"
  using parse_all [OF assms(1), of "[]" w] file_lines_append [OF assms(1,3)] assms(4)
  by (simp add: get_memcache_servers_def io_bind_def read_file_def io_for_each_append parse_bad_line [OF assms(2)]
      io_basic)

section \<open>Properties\<close>

text \<open>
  C39: the controller reads back the servers of a configuration file with a line \<open>name= address:port\<close> per
  server, in their order, and connects to the first one. It cannot be created without a server or with a
  line that has no \<open>=\<close> (\<open>IndexError\<close>), or without the file (\<open>IOError\<close>).
\<close>

theorem controller_servers:
  assumes "list_all wf_entry es" "CHR ''='' \<notin> set line" "CHR 0x0A \<notin> set line"
  shows "(files w ''haystackCacheConfig.txt'' = Some (concat (map server_line es)) \<longrightarrow>
      fst (new_controller lib w) =
        (case map snd es of
           [] \<Rightarrow> Inl IndexError
         | s # ss \<Rightarrow> Inr \<lparr>memcache_servers = s # ss, client = connect lib s\<rparr>)) \<and>
    (files w ''haystackCacheConfig.txt'' = Some (concat (map server_line es) @ line @ [CHR 0x0A]) \<longrightarrow>
      fst (new_controller lib w) = Inl IndexError) \<and>
    (files w ''haystackCacheConfig.txt'' = None \<longrightarrow> fst (new_controller lib w) = Inl IOError)"
proof -
  let ?text = "concat (map server_line es)" and ?file = "''haystackCacheConfig.txt''"
  have good: "fst (new_controller lib w) =
      (case map snd es of [] \<Rightarrow> Inl IndexError | s # ss \<Rightarrow> Inr \<lparr>memcache_servers = s # ss, client = connect lib s\<rparr>)"
    if "files w ?file = Some ?text"
    using servers_read [OF assms(1), of "w\<lparr>console := c\<rparr>" ?file for c] that
    by (cases es) (simp_all add: new_controller_def io_seq_def io_bind_def print_line_def io_basic py_get_def)
  have bad: "fst (new_controller lib w) = Inl IndexError" if "files w ?file = Some (?text @ line @ [CHR 0x0A])"
    using servers_bad_line [OF assms, of "w\<lparr>console := c\<rparr>" ?file for c] that
    by (simp add: new_controller_def io_seq_def io_bind_def print_line_def)
  have missing: "fst (new_controller lib w) = Inl IOError" if "files w ?file = None"
    using that by (simp add: new_controller_def get_memcache_servers_def io_seq_def io_bind_def print_line_def
        read_file_def)
  from good bad missing show ?thesis by blast
qed

theorem controller_servers_witness:
  "fst (new_controller \<lparr>connect = (\<lambda>s. s), client_get = (\<lambda>c k e. (Inr (None :: nat option), e)),
       client_set = (\<lambda>c k v e. (Inr (), e))\<rparr>
      \<lparr>files = [''haystackCacheConfig.txt'' \<mapsto> ''memcache = 127.0.0.1:10000'' @ [CHR 0x0A]],
        dirs = [], console = [], environ = [], ext = ()\<rparr>) =
    Inr \<lparr>memcache_servers = [(''127.0.0.1'', 10000)], client = (''127.0.0.1'', 10000)\<rparr>"
proof -
  let ?es = "[(''memcache '', ''127.0.0.1'', 10000)]"
  have wf: "list_all wf_entry ?es" by (simp add: wf_entry_def is_space_def)
  have digits: "char_of (48 :: nat) = CHR ''0''" "char_of (49 :: nat) = CHR ''1''"
    by (simp_all add: char_of_def bit_0)
  have "nat_str 10000 = ''10000''"
    by (simp add: nat_str.simps [of 10000] nat_str.simps [of 1000] nat_str.simps [of 100]
        nat_str.simps [of 10] nat_str.simps [of "Suc 0"] digits)
  then have line: "concat (map server_line ?es) = ''memcache = 127.0.0.1:10000'' @ [CHR 0x0A]"
    by (simp add: server_line_def int_str_def)
  let ?w = "\<lparr>files = [''haystackCacheConfig.txt'' \<mapsto> ''memcache = 127.0.0.1:10000'' @ [CHR 0x0A]],
    dirs = [], console = [], environ = [], ext = ()\<rparr>"
  let ?lib = "\<lparr>connect = (\<lambda>s. s), client_get = (\<lambda>c k e. (Inr (None :: nat option), e)),
       client_set = (\<lambda>c k v e. (Inr (), e))\<rparr>"
  have "files ?w ''haystackCacheConfig.txt'' = Some (concat (map server_line ?es))"
    unfolding line by simp
  from mp [OF conjunct1 [OF controller_servers [OF wf, of "[]" ?w ?lib]] this] show ?thesis
    by (simp only: list.set empty_iff not_False_eq_True simp_thms list.map list.case snd_conv
        pymemcache.select_convs)
qed



end
