(* ===== verification/Grid_Data.thy ===== *)
theory Grid_Data
  imports Complex_Main Py_World
begin

text \<open>
  The data of the timeline viewer, \<open>utils/grid.py\<close>: the classes of ranges and events with their binary
  searches, \<open>TimelineDataRange\<close>, \<open>TimelineEvent\<close>, \<open>Timeline\<close>, \<open>Timelines\<close>, \<open>Colors\<close>, and the reader
  \<open>read_data\<close>. An object that the code reaches by its name (a timeline, a list of ranges) is changed
  here in its place in the list that holds it.
\<close>

section \<open>Ranges and events\<close>

record data_range =
  range_start :: int
  range_end :: int
  range_value :: string

record 'v event =
  event_at :: int
  event_value :: 'v

definition ranges_cmp :: "data_range \<Rightarrow> data_range \<Rightarrow> int" where
  "ranges_cmp a b =
     (let diff = range_start a - range_start b in if diff < 0 then -1 else if diff > 0 then 1 else 0)"

definition events_cmp :: "'v event \<Rightarrow> 'v event \<Rightarrow> int" where
  "events_cmp a b =
     (let diff = event_at a - event_at b in if diff < 0 then -1 else if diff > 0 then 1 else 0)"

text \<open>\<open>list.sort(cmp)\<close> is stable.\<close>

fun insert_cmp :: "('a \<Rightarrow> 'a \<Rightarrow> int) \<Rightarrow> 'a \<Rightarrow> 'a list \<Rightarrow> 'a list" where
  "insert_cmp cmp x [] = [x]"
| "insert_cmp cmp x (y # ys) = (if cmp x y \<le> 0 then x # y # ys else y # insert_cmp cmp x ys)"

definition sort_cmp :: "('a \<Rightarrow> 'a \<Rightarrow> int) \<Rightarrow> 'a list \<Rightarrow> 'a list" where
  "sort_cmp cmp xs = foldr (insert_cmp cmp) xs []"

record timeline_data_range =
  ranges_name :: string
  ranges :: "data_range list"

record 'v timeline_event =
  events_name :: string
  events :: "'v event list"

subsection \<open>Ranges\<close>

function range_search_loop :: "data_range list \<Rightarrow> rat \<Rightarrow> int \<Rightarrow> int \<Rightarrow> int" where
  "range_search_loop rs key l u =
     (if l \<le> u then
        (let i = (l + u) div 2; r = rs ! nat i in
         if key \<ge> of_int (range_start r) \<and> key \<le> of_int (range_end r) then i
         else if key < of_int (range_start r) then range_search_loop rs key l (i - 1)
         else range_search_loop rs key (i + 1) u)
      else -1)"
  by pat_completeness auto
termination by (relation "measure (\<lambda>(rs, key, l, u). nat (u - l + 1))") auto

declare range_search_loop.simps [simp del]

definition range_search :: "timeline_data_range \<Rightarrow> rat \<Rightarrow> int" where
  "range_search self key = range_search_loop (ranges self) key 0 (int (length (ranges self)) - 1)"

definition add_range :: "data_range \<Rightarrow> timeline_data_range \<Rightarrow> timeline_data_range" where
  "add_range r self = self\<lparr>ranges := ranges self @ [r]\<rparr>"

definition get_ranges :: "timeline_data_range \<Rightarrow> rat \<Rightarrow> rat \<Rightarrow> data_range list" where
  "get_ranges self start end =
     (let s = range_search self start; e = range_search self end in
      if s = -1 \<and> e = -1 then []
      else if s = -1 then py_slice (ranges self) 0 (e + 1)
      else if e = -1 then py_slice (ranges self) s (int (length (ranges self)))
      else py_slice (ranges self) s (e + 1))"

definition get_ranges_bounds :: "timeline_data_range \<Rightarrow> rat \<Rightarrow> rat \<Rightarrow> int \<times> int" where
  "get_ranges_bounds self start end =
     (let s = range_search self start; e = range_search self end in
      if s = -1 \<and> e = -1 then (0, 0)
      else if s = -1 then (0, e + 1)
      else if e = -1 then (s, int (length (ranges self)))
      else (s, e + 1))"

definition sort_ranges :: "timeline_data_range \<Rightarrow> timeline_data_range" where
  "sort_ranges self = self\<lparr>ranges := sort_cmp ranges_cmp (ranges self)\<rparr>"

definition ranges_bounds :: "timeline_data_range \<Rightarrow> int \<times> int" where
  "ranges_bounds self =
     (if length (ranges self) > 0
      then (range_start (ranges self ! 0), range_end (ranges self ! (length (ranges self) - 1)))
      else (0, 0))"

subsection \<open>Events\<close>

function event_search_loop :: "'v event list \<Rightarrow> rat \<Rightarrow> int \<Rightarrow> int \<Rightarrow> int" where
  "event_search_loop es key l u =
     (if l \<le> u then
        (let i = (l + u) div 2; e = es ! nat i in
         if key = of_int (event_at e) then i
         else if key < of_int (event_at e) then event_search_loop es key l (i - 1)
         else event_search_loop es key (i + 1) u)
      else l)"
  by pat_completeness auto
termination by (relation "measure (\<lambda>(es, key, l, u). nat (u - l + 1))") auto

declare event_search_loop.simps [simp del]

definition event_search :: "'v timeline_event \<Rightarrow> rat \<Rightarrow> int" where
  "event_search self key = event_search_loop (events self) key 0 (int (length (events self)) - 1)"

definition add_event :: "'v event \<Rightarrow> 'v timeline_event \<Rightarrow> 'v timeline_event" where
  "add_event e self = self\<lparr>events := events self @ [e]\<rparr>"

definition get_events :: "'v timeline_event \<Rightarrow> rat \<Rightarrow> rat \<Rightarrow> 'v event list" where
  "get_events self start end =
     (let s = event_search self start; e = event_search self end in py_slice (events self) s (e + 1))"

definition get_events_bounds :: "'v timeline_event \<Rightarrow> rat \<Rightarrow> rat \<Rightarrow> int \<times> int" where
  "get_events_bounds self start end =
     (let s = event_search self start; e = event_search self end in (s, e + 1))"

definition sort_events :: "'v timeline_event \<Rightarrow> 'v timeline_event" where
  "sort_events self = self\<lparr>events := sort_cmp events_cmp (events self)\<rparr>"

definition events_bounds :: "'v timeline_event \<Rightarrow> int \<times> int" where
  "events_bounds self =
     (if length (events self) > 0 then (event_at (events self ! 0), event_at (last (events self))) else (0, 0))"

section \<open>Timelines\<close>

record timeline =
  timeline_name :: string
  timeline_ranges :: "timeline_data_range list"
  timeline_event_str :: "string timeline_event list"
  timeline_event_int :: "int timeline_event list"

definition new_timeline :: "string \<Rightarrow> timeline" where
  "new_timeline name =
     \<lparr>timeline_name = name, timeline_ranges = [], timeline_event_str = [], timeline_event_int = []\<rparr>"

text \<open>
  \<open>get_range\<close>, \<open>get_event_str\<close>, \<open>get_event_int\<close> and \<open>Timelines.get\<close> search a list for the first
  object with the name and append a new object when there is none; what the caller then does with the
  object is \<open>f\<close>.
\<close>

fun update_named :: "('a \<Rightarrow> string) \<Rightarrow> (string \<Rightarrow> 'a) \<Rightarrow> string \<Rightarrow> ('a \<Rightarrow> 'a) \<Rightarrow> 'a list \<Rightarrow> 'a list" where
  "update_named name_of new name f [] = [f (new name)]"
| "update_named name_of new name f (x # xs) =
     (if name_of x = name then f x # xs else x # update_named name_of new name f xs)"

definition get_range :: "string \<Rightarrow> (timeline_data_range \<Rightarrow> timeline_data_range) \<Rightarrow> timeline \<Rightarrow> timeline" where
  "get_range name f self = self\<lparr>timeline_ranges :=
     update_named ranges_name (\<lambda>n. \<lparr>ranges_name = n, ranges = []\<rparr>) name f (timeline_ranges self)\<rparr>"

definition get_event_str ::
  "string \<Rightarrow> (string timeline_event \<Rightarrow> string timeline_event) \<Rightarrow> timeline \<Rightarrow> timeline" where
  "get_event_str name f self = self\<lparr>timeline_event_str :=
     update_named events_name (\<lambda>n. \<lparr>events_name = n, events = []\<rparr>) name f (timeline_event_str self)\<rparr>"

definition get_event_int ::
  "string \<Rightarrow> (int timeline_event \<Rightarrow> int timeline_event) \<Rightarrow> timeline \<Rightarrow> timeline" where
  "get_event_int name f self = self\<lparr>timeline_event_int :=
     update_named events_name (\<lambda>n. \<lparr>events_name = n, events = []\<rparr>) name f (timeline_event_int self)\<rparr>"

definition sort_timeline :: "timeline \<Rightarrow> timeline" where
  "sort_timeline self = self\<lparr>timeline_ranges := map sort_ranges (timeline_ranges self),
     timeline_event_int := map sort_events (timeline_event_int self),
     timeline_event_str := map sort_events (timeline_event_str self)\<rparr>"

definition widen :: "int \<times> int \<Rightarrow> int \<times> int \<Rightarrow> int \<times> int" where
  "widen b lohi =
     (let (b_lo, b_hi) = b; (lo, hi) = lohi
      in (if b_lo < lo then b_lo else lo, if b_hi > hi then b_hi else hi))"

definition timeline_bounds :: "timeline \<Rightarrow> int \<times> int" where
  "timeline_bounds self =
     fold (\<lambda>e. widen (events_bounds e)) (timeline_event_int self)
       (fold (\<lambda>e. widen (events_bounds e)) (timeline_event_str self)
         (fold (\<lambda>r. widen (ranges_bounds r)) (timeline_ranges self) (0, 0)))"

type_synonym timelines = "timeline list"

definition get_timeline :: "string \<Rightarrow> (timeline \<Rightarrow> timeline) \<Rightarrow> timelines \<Rightarrow> timelines" where
  "get_timeline name f self = update_named timeline_name new_timeline name f self"

definition sort_timelines :: "timelines \<Rightarrow> timelines" where
  "sort_timelines self = map sort_timeline self"

definition timelines_bounds :: "timelines \<Rightarrow> int \<times> int" where
  "timelines_bounds self = fold (\<lambda>t. widen (timeline_bounds t)) self (0, 0)"

definition get_all_range_values :: "(string list \<Rightarrow> string list) \<Rightarrow> timelines \<Rightarrow> string list" where
  \<comment> \<open>the keys of a dictionary, in an order the interpreter chooses\<close>
  "get_all_range_values ord self =
     ord (dict_keys (fold (\<lambda>t d. fold (\<lambda>rs d. fold (\<lambda>ran d. dict_set (range_value ran) (1 :: int) d) (ranges rs) d)
       (timeline_ranges t) d) self []))"

section \<open>Colours\<close>

record color =
  red :: int
  green :: int
  blue :: int

text \<open>\<open>default_colors\<close> belongs to the class, so that all objects pop from the same list.\<close>

record colors =
  color_table :: "(string, color) dict"
  default_colors :: "color list"

definition rgb :: "int \<Rightarrow> int \<Rightarrow> int \<Rightarrow> color" where
  "rgb r g b = \<lparr>red = r, green = g, blue = b\<rparr>"

definition new_colors :: colors where
  "new_colors = \<lparr>color_table = [],
     default_colors = [rgb 1 0 0, rgb 0 1 0, rgb 0 0 1, rgb 1 1 0, rgb 1 0 1, rgb 0 1 1]\<rparr>"

definition add_color :: "string \<Rightarrow> color \<Rightarrow> colors \<Rightarrow> colors" where
  "add_color name c self = self\<lparr>color_table := dict_set name c (color_table self)\<rparr>"

definition lookup_color :: "string \<Rightarrow> colors \<Rightarrow> (color \<times> colors) result" where
  "lookup_color name self =
     (case map_of (color_table self) name of
        Some c \<Rightarrow> Inr (c, self)
      | None \<Rightarrow>
          if default_colors self = [] then Inl IndexError
          else
            let c = last (default_colors self)
            in Inr (c, add_color name c (self\<lparr>default_colors := butlast (default_colors self)\<rparr>)))"

section \<open>Reading\<close>

text \<open>\<open>([^ ]+) \<close>: a word and the blank behind it.\<close>

definition blank_word :: "string \<Rightarrow> (string \<times> string) option" where
  "blank_word s =
     (let w = takeWhile (\<lambda>c. c \<noteq> CHR '' '') s; rest = dropWhile (\<lambda>c. c \<noteq> CHR '' '') s
      in if w = [] \<or> rest = [] then None else Some (w, tl rest))"

definition hex_value :: "char \<Rightarrow> int option" where
  "hex_value c =
     (let n = of_char c :: nat in
      if 48 \<le> n \<and> n \<le> 57 then Some (int n - 48)
      else if 97 \<le> n \<and> n \<le> 102 then Some (int n - 87)
      else if 65 \<le> n \<and> n \<le> 70 then Some (int n - 55)
      else None)"

definition hex_byte :: "string \<Rightarrow> (int \<times> string) option" where
  "hex_byte s =
     (case s of
        a # b # rest \<Rightarrow>
          Option.bind (hex_value a) (\<lambda>x. Option.bind (hex_value b) (\<lambda>y. Some (16 * x + y, rest)))
      | _ \<Rightarrow> None)"

datatype data_line =
    RangeLine string string string nat nat
  | EventStrLine string string string nat
  | EventIntLine string string nat nat
  | ColorLine string int int int
  | OtherLine

definition match_range :: "string \<Rightarrow> data_line option" where
  "match_range s =
     Option.bind (expect ''range '' s) (\<lambda>s.
     Option.bind (blank_word s) (\<lambda>(timeline, s).
     Option.bind (blank_word s) (\<lambda>(name, s).
     Option.bind (blank_word s) (\<lambda>(v, s).
     Option.bind (number s) (\<lambda>(start, s).
     Option.bind (expect '' '' s) (\<lambda>s.
     Option.bind (number s) (\<lambda>(end, s). Some (RangeLine timeline name v start end))))))))"

definition match_event_str :: "string \<Rightarrow> data_line option" where
  "match_event_str s =
     Option.bind (expect ''event-str '' s) (\<lambda>s.
     Option.bind (blank_word s) (\<lambda>(timeline, s).
     Option.bind (blank_word s) (\<lambda>(name, s).
     Option.bind (blank_word s) (\<lambda>(v, s).
     Option.bind (number s) (\<lambda>(tm, s). Some (EventStrLine timeline name v tm))))))"

definition match_event_int :: "string \<Rightarrow> data_line option" where
  "match_event_int s =
     Option.bind (expect ''event-int '' s) (\<lambda>s.
     Option.bind (blank_word s) (\<lambda>(timeline, s).
     Option.bind (blank_word s) (\<lambda>(name, s).
     Option.bind (number s) (\<lambda>(v, s).
     Option.bind (expect '' '' s) (\<lambda>s.
     Option.bind (number s) (\<lambda>(tm, s). Some (EventIntLine timeline name v tm)))))))"

definition match_color :: "string \<Rightarrow> data_line option" where
  "match_color s =
     Option.bind (expect ''color '' s) (\<lambda>s.
     Option.bind (blank_word s) (\<lambda>(name, s).
     Option.bind (expect ''#'' s) (\<lambda>s.
     Option.bind (hex_byte s) (\<lambda>(r, s).
     Option.bind (hex_byte s) (\<lambda>(g, s).
     Option.bind (hex_byte s) (\<lambda>(b, s). Some (ColorLine name r g b)))))))"

definition parse_data_line :: "string \<Rightarrow> data_line" where
  "parse_data_line line =
     (case match_range line of Some d \<Rightarrow> d | None \<Rightarrow>
     (case match_event_str line of Some d \<Rightarrow> d | None \<Rightarrow>
     (case match_event_int line of Some d \<Rightarrow> d | None \<Rightarrow>
     (case match_color line of Some d \<Rightarrow> d | None \<Rightarrow> OtherLine))))"

definition add_data_line :: "data_line \<Rightarrow> colors \<times> timelines \<Rightarrow> colors \<times> timelines" where
  "add_data_line d s =
     (let (cs, ts) = s in
      case d of
        RangeLine t n v start end \<Rightarrow>
          (cs, get_timeline t (get_range n (add_range
             \<lparr>range_start = int start, range_end = int end, range_value = v\<rparr>)) ts)
      | EventStrLine t n v tm \<Rightarrow>
          (cs, get_timeline t (get_event_str n (add_event \<lparr>event_at = int tm, event_value = v\<rparr>)) ts)
      | EventIntLine t n v tm \<Rightarrow>
          (cs, get_timeline t (get_event_int n (add_event \<lparr>event_at = int tm, event_value = int v\<rparr>)) ts)
      | ColorLine n r g b \<Rightarrow> (add_color n (rgb (r div 255) (g div 255) (b div 255)) cs, ts)
      | OtherLine \<Rightarrow> (cs, ts))"

definition read_data :: "string \<Rightarrow> ('e world, colors \<times> timelines) io" where
  "read_data filename =
     io_bind (read_file filename) (\<lambda>text.
       (let (cs, ts) = fold (\<lambda>line. add_data_line (parse_data_line line)) (file_lines text) (new_colors, [])
        in io_return (cs, sort_timelines ts)))"

section \<open>Sorting\<close>

lemma insert_cmp_insort:
  assumes "\<And>x y. cmp x y \<le> 0 \<longleftrightarrow> f x \<le> (f y :: int)"
  shows "insert_cmp cmp x xs = insort_key f x xs"
  by (induction xs) (simp_all add: assms)

lemma sort_cmp_key:
  assumes "\<And>x y. cmp x y \<le> 0 \<longleftrightarrow> f x \<le> (f y :: int)"
  shows "sort_cmp cmp xs = sort_key f xs"
  by (induction xs) (simp_all add: sort_cmp_def insert_cmp_insort [OF assms])

lemma sort_ranges_key: "sort_cmp ranges_cmp rs = sort_key range_start rs"
  by (rule sort_cmp_key) (auto simp: ranges_cmp_def Let_def)

lemma sort_events_key: "sort_cmp events_cmp es = sort_key event_at es"
  by (rule sort_cmp_key) (auto simp: events_cmp_def Let_def)

section \<open>Binary search\<close>

text \<open>Times of the data are integers, the ends of a query are numbers.\<close>

abbreviation range_lo :: "data_range \<Rightarrow> rat" where
  "range_lo \<equiv> \<lambda>r. of_int (range_start r)"

abbreviation range_hi :: "data_range \<Rightarrow> rat" where
  "range_hi \<equiv> \<lambda>r. of_int (range_end r)"

abbreviation event_time :: "'v event \<Rightarrow> rat" where
  "event_time \<equiv> \<lambda>e. of_int (event_at e)"

text \<open>
  What the two searches share: an element lies before the key, behind it, or meets it; a search that
  fails gives \<open>miss\<close> of the place where the key would stand.
\<close>

locale bisection =
  fixes before behind :: "rat \<Rightarrow> 'x \<Rightarrow> bool"
    and search :: "'x list \<Rightarrow> rat \<Rightarrow> int \<Rightarrow> int \<Rightarrow> int"
    and miss :: "int \<Rightarrow> int"
  assumes search_step: "search xs key l u =
      (if l \<le> u then
         (let i = (l + u) div 2; x = xs ! nat i in
          if \<not> before key x \<and> \<not> behind key x then i
          else if behind key x then search xs key l (i - 1)
          else search xs key (i + 1) u)
       else miss l)"
begin

definition divided :: "rat \<Rightarrow> 'x list \<Rightarrow> bool" where
  "divided key xs \<longleftrightarrow> (\<forall>i j. i < j \<longrightarrow> j < length xs \<longrightarrow>
     (before key (xs ! j) \<longrightarrow> before key (xs ! i)) \<and> (behind key (xs ! i) \<longrightarrow> behind key (xs ! j)))"

lemma search_cases:
  assumes "divided key xs" "0 \<le> l" "u < int (length xs)" "l \<le> u + 1"
    and "\<And>i. i < nat l \<Longrightarrow> before key (xs ! i)" "\<And>i. nat (u + 1) \<le> i \<Longrightarrow> i < length xs \<Longrightarrow> behind key (xs ! i)"
  shows "(\<exists>i < length xs. search xs key l u = int i \<and> \<not> before key (xs ! i) \<and> \<not> behind key (xs ! i)) \<or>
    (\<exists>k \<le> length xs. search xs key l u = miss (int k) \<and> (\<forall>i < k. before key (xs ! i)) \<and>
       (\<forall>i. k \<le> i \<longrightarrow> i < length xs \<longrightarrow> behind key (xs ! i)))"
  using assms(2-)
proof (induction "nat (u - l + 1)" arbitrary: l u rule: less_induct)
  case less
  show ?case
  proof (cases "l \<le> u")
    case False
    then have "u = l - 1" using less.prems by simp
    with less.prems show ?thesis
      by (intro disjI2 exI [of _ "nat l"]) (subst search_step, auto)
  next
    case True
    define i where "i = nat ((l + u) div 2)"
    have bounds: "l \<le> int i" "int i \<le> u" "(l + u) div 2 = int i" using True less.prems by (auto simp: i_def)
    then have len: "i < length xs" using less.prems by linarith
    have eq: "search xs key l u =
        (if \<not> before key (xs ! i) \<and> \<not> behind key (xs ! i) then int i
         else if behind key (xs ! i) then search xs key l (int i - 1) else search xs key (int i + 1) u)"
      using True by (subst search_step) (simp add: bounds(3) Let_def)
    consider (hit) "\<not> before key (xs ! i)" "\<not> behind key (xs ! i)" | (left) "behind key (xs ! i)"
      | (right) "before key (xs ! i)" "\<not> behind key (xs ! i)" by blast
    then show ?thesis
    proof cases
      case hit
      then show ?thesis using len eq by auto
    next
      case left
      have "behind key (xs ! j)" if "nat (int i - 1 + 1) \<le> j" "j < length xs" for j
      proof (cases "j = i")
        case False
        then have "i < j" using that by auto
        with assms(1) left that(2) show ?thesis unfolding divided_def by blast
      qed (use left in simp)
      with less.hyps [of "int i - 1" l] less.prems bounds
      have "(\<exists>j < length xs. search xs key l (int i - 1) = int j \<and> \<not> before key (xs ! j) \<and> \<not> behind key (xs ! j)) \<or>
        (\<exists>k \<le> length xs. search xs key l (int i - 1) = miss (int k) \<and> (\<forall>i < k. before key (xs ! i)) \<and>
           (\<forall>i. k \<le> i \<longrightarrow> i < length xs \<longrightarrow> behind key (xs ! i)))" by simp
      then show ?thesis unfolding eq using left by simp
    next
      case right
      have "before key (xs ! j)" if "j < nat (int i + 1)" for j
      proof (cases "j = i")
        case False
        then have "j < i" using that by auto
        with assms(1) right len show ?thesis unfolding divided_def by blast
      qed (use right in simp)
      with less.hyps [of u "int i + 1"] less.prems bounds
      have "(\<exists>j < length xs. search xs key (int i + 1) u = int j \<and> \<not> before key (xs ! j) \<and> \<not> behind key (xs ! j)) \<or>
        (\<exists>k \<le> length xs. search xs key (int i + 1) u = miss (int k) \<and> (\<forall>i < k. before key (xs ! i)) \<and>
           (\<forall>i. k \<le> i \<longrightarrow> i < length xs \<longrightarrow> behind key (xs ! i)))" by simp
      then show ?thesis unfolding eq using right by simp
    qed
  qed
qed

lemma search_whole:
  assumes "divided key xs"
  obtains (hit) i where "i < length xs" "search xs key 0 (int (length xs) - 1) = int i"
      "\<not> before key (xs ! i)" "\<not> behind key (xs ! i)"
  | (gap) k where "k \<le> length xs" "search xs key 0 (int (length xs) - 1) = miss (int k)"
      "\<And>i. i < k \<Longrightarrow> before key (xs ! i)" "\<And>i. k \<le> i \<Longrightarrow> i < length xs \<Longrightarrow> behind key (xs ! i)"
  using search_cases [OF assms, of 0 "int (length xs) - 1"] by auto

end

definition range_before :: "rat \<Rightarrow> data_range \<Rightarrow> bool" where
  "range_before key r \<longleftrightarrow> range_lo r \<le> key \<and> range_hi r < key"

definition range_behind :: "rat \<Rightarrow> data_range \<Rightarrow> bool" where
  "range_behind key r \<longleftrightarrow> key < range_lo r"

interpretation range_bisection: bisection range_before range_behind range_search_loop "\<lambda>_. -1"
  by unfold_locales (subst range_search_loop.simps, auto simp: range_before_def range_behind_def Let_def)

interpretation event_bisection:
  bisection "\<lambda>key e. event_time e < key" "\<lambda>key e. key < event_time e" event_search_loop "\<lambda>l. l"
  by unfold_locales (subst event_search_loop.simps, auto simp: Let_def)

section \<open>Ranges in an interval\<close>

text \<open>The ranges of a list follow each other without overlap.\<close>

definition disjoint_ranges :: "data_range list \<Rightarrow> bool" where
  "disjoint_ranges rs \<longleftrightarrow> list_all (\<lambda>r. range_start r \<le> range_end r) rs \<and>
     sorted_wrt (\<lambda>a b. range_end a < range_start b) rs"

lemma disjoint_facts:
  assumes "disjoint_ranges rs"
  shows "i < length rs \<Longrightarrow> range_lo (rs ! i) \<le> range_hi (rs ! i)"
    and "i < j \<Longrightarrow> j < length rs \<Longrightarrow> range_hi (rs ! i) < range_lo (rs ! j)"
  using assms by (auto simp: disjoint_ranges_def list_all_length sorted_wrt_iff_nth_less)

lemma disjoint_divided:
  assumes "disjoint_ranges rs"
  shows "range_bisection.divided key rs"
  unfolding range_bisection.divided_def range_before_def range_behind_def
proof (intro allI impI)
  fix i j assume ij: "i < j" "j < length rs"
  then have "i < length rs" by simp
  then show "(range_lo (rs ! j) \<le> key \<and> range_hi (rs ! j) < key \<longrightarrow>
      range_lo (rs ! i) \<le> key \<and> range_hi (rs ! i) < key) \<and>
    (key < range_lo (rs ! i) \<longrightarrow> key < range_lo (rs ! j))"
    using disjoint_facts [OF assms] ij by (meson dual_order.strict_trans2 less_le_trans less_imp_le order.trans)
qed

definition covers :: "rat \<Rightarrow> data_range \<Rightarrow> bool" where
  "covers key r \<longleftrightarrow> range_lo r \<le> key \<and> key \<le> range_hi r"

lemma range_search_cases:
  assumes "disjoint_ranges (ranges self)"
  obtains (hit) i where "i < length (ranges self)" "range_search self key = int i" "covers key (ranges self ! i)"
  | (gap) "range_search self key = -1" "list_all (\<lambda>r. \<not> covers key r) (ranges self)"
proof (cases rule: range_bisection.search_whole [OF disjoint_divided [OF assms], of key])
  case (1 i)
  then show ?thesis
    by (intro hit [of i]) (auto simp: range_search_def range_before_def range_behind_def covers_def)
next
  case (2 k)
  have "\<not> covers key (ranges self ! i)" if "i < length (ranges self)" for i
    using 2(3,4) [of i] that by (cases "i < k") (auto simp: range_before_def range_behind_def covers_def)
  then show ?thesis using 2(2) by (intro gap) (auto simp: range_search_def list_all_length)
qed

lemma filter_interval:
  assumes "\<And>i. i < length xs \<Longrightarrow> P (xs ! i) \<longleftrightarrow> a \<le> i \<and> i < b"
  shows "filter P xs = take (b - a) (drop a xs)"
proof -
  have "filter P xs = map (nth xs) (filter (\<lambda>i. P (xs ! i)) [0..<length xs])"
    by (metis (no_types, lifting) filter_map map_nth o_def filter_cong)
  also have "filter (\<lambda>i. P (xs ! i)) [0..<length xs] = filter (\<lambda>i. a \<le> i \<and> i < b) [0..<length xs]"
    using assms by (intro filter_cong) auto
  also have "\<dots> = [a..<min b (length xs)]"
  proof (induction "length xs" arbitrary: xs)
    case (Suc n)
    then have IH: "filter (\<lambda>i. a \<le> i \<and> i < b) [0..<n] = [a..<min b n]" by (metis length_replicate)
    show ?case unfolding Suc.hyps(2) [symmetric]
      using IH by (auto simp: min_def not_less le_Suc_eq)
  qed simp
  also have "map (nth xs) [a..<min b (length xs)] = take (b - a) (drop a xs)"
    by (rule nth_equalityI) (auto simp: min_def split: if_splits)
  finally show ?thesis .
qed

lemma disjoint_order:
  assumes "disjoint_ranges rs" "j < length rs" "covers key (rs ! j)" "k < length rs"
  shows "range_lo (rs ! k) \<le> key \<longleftrightarrow> k \<le> j" and "key \<le> range_hi (rs ! k) \<longleftrightarrow> j \<le> k"
proof -
  note wf = disjoint_facts(1) [OF assms(1)] and lt = disjoint_facts(2) [OF assms(1)]
  show "range_lo (rs ! k) \<le> key \<longleftrightarrow> k \<le> j"
    using assms wf [of k] wf [of j] lt [of j k] lt [of k j] by (cases k j rule: linorder_cases) (auto simp: covers_def)
  show "key \<le> range_hi (rs ! k) \<longleftrightarrow> j \<le> k"
    using assms wf [of k] wf [of j] lt [of j k] lt [of k j] by (cases k j rule: linorder_cases) (auto simp: covers_def)
qed

definition meets :: "rat \<Rightarrow> rat \<Rightarrow> data_range \<Rightarrow> bool" where
  "meets start end r \<longleftrightarrow> range_lo r \<le> end \<and> start \<le> range_hi r"

lemma py_slice_filter:
  assumes "\<And>k. k < length xs \<Longrightarrow> P (xs ! k) \<longleftrightarrow> i \<le> k \<and> k < j"
  shows "py_slice xs (int i) (int j) = filter P xs"
  using filter_interval [of xs P i j] assms by (simp add: py_slice_nat)

lemma get_ranges_spec:
  assumes "disjoint_ranges rs" "ranges self = rs"
  shows "get_ranges self start end =
    (if list_ex (covers start) rs \<and> list_ex (covers end) rs then filter (meets start end) rs
     else if list_ex (covers end) rs then filter (\<lambda>r. range_lo r \<le> end) rs
     else if list_ex (covers start) rs then filter (\<lambda>r. start \<le> range_hi r) rs
     else [])"
proof -
  have wf: "disjoint_ranges (ranges self)" using assms by simp
  have ex: "list_ex (covers key) rs" if "i < length rs" "covers key (rs ! i)" for i key
    using that by (auto simp: list_ex_length)
  show ?thesis
  proof (cases rule: range_search_cases [OF wf, of start])
    case (1 i)
    note s = 1 [unfolded assms(2)]
    show ?thesis
    proof (cases rule: range_search_cases [OF wf, of "end"])
      case (1 j)
      note e = 1 [unfolded assms(2)]
      have "meets start end (rs ! k) \<longleftrightarrow> i \<le> k \<and> k < Suc j" if "k < length rs" for k
        using disjoint_order [OF assms(1) s(1,3) that] disjoint_order [OF assms(1) e(1,3) that]
        by (auto simp: meets_def)
      from py_slice_filter [of rs "meets start end" i "Suc j", OF this] show ?thesis
        using s e ex by (simp add: get_ranges_def Let_def assms(2) add.commute)
    next
      case 2
      then have "\<not> list_ex (covers end) rs" by (simp add: assms(2) list_ex_iff list_all_iff)
      moreover have "start \<le> range_hi (rs ! k) \<longleftrightarrow> i \<le> k \<and> k < length rs" if "k < length rs" for k
        using disjoint_order [OF assms(1) s(1,3) that] that by auto
      note py_slice_filter [of rs "\<lambda>r. start \<le> range_hi r" i "length rs", OF this]
      ultimately show ?thesis using s 2 ex by (simp add: get_ranges_def Let_def assms(2))
    qed
  next
    case 2
    then have ns: "\<not> list_ex (covers start) rs" by (simp add: assms(2) list_ex_iff list_all_iff)
    show ?thesis
    proof (cases rule: range_search_cases [OF wf, of "end"])
      case (1 j)
      note e = 1 [unfolded assms(2)]
      have "range_lo (rs ! k) \<le> end \<longleftrightarrow> 0 \<le> k \<and> k < Suc j" if "k < length rs" for k
        using disjoint_order [OF assms(1) e(1,3) that] by auto
      from py_slice_filter [of rs "\<lambda>r. range_lo r \<le> end" 0 "Suc j", OF this] show ?thesis
        using ns 2 e ex by (simp add: get_ranges_def Let_def assms(2) add.commute)
    next
      case 2
      then have "\<not> list_ex (covers end) rs" by (simp add: assms(2) list_ex_iff list_all_iff)
      with ns 2 \<open>range_search self start = -1\<close> show ?thesis by (simp add: get_ranges_def)
    qed
  qed
qed

lemma get_ranges_slice:
  "get_ranges self start end = (let (lo, hi) = get_ranges_bounds self start end in py_slice (ranges self) lo hi)"
  by (auto simp: get_ranges_def get_ranges_bounds_def Let_def py_slice_def)

section \<open>Events in an interval\<close>

lemma event_divided:
  "sorted (map event_at es) \<Longrightarrow> event_bisection.divided key es"
  by (fastforce simp: event_bisection.divided_def sorted_iff_nth_mono_less)

lemma event_search_cases:
  assumes "sorted_wrt (<) (map event_at (events self))"
  obtains k where "k \<le> length (events self)" "event_search self key = int k"
    "\<And>i. i < length (events self) \<Longrightarrow> event_time (events self ! i) < key \<longleftrightarrow> i < k"
    "\<And>i. i < length (events self) \<Longrightarrow> event_time (events self ! i) \<le> key \<longleftrightarrow>
       (if key \<in> event_time ` set (events self) then i \<le> k else i < k)"
proof -
  let ?es = "events self"
  have lt: "event_time (?es ! i) < event_time (?es ! j)" if "i < j" "j < length ?es" for i j
    using assms that by (auto simp: sorted_wrt_iff_nth_less)
  have "sorted (map event_at ?es)" using assms by (rule strict_sorted_imp_sorted)
  then show thesis
  proof (cases rule: event_bisection.search_whole [OF event_divided, of _ key, consumes 1, case_names 1 2])
    case (1 i)
    then have tm: "event_time (?es ! i) = key" by simp
    then have mem: "key \<in> event_time ` set ?es" using 1(1) by (auto intro: rev_image_eqI [of "?es ! i"])
    have "event_time (?es ! j) < key \<longleftrightarrow> j < i" "event_time (?es ! j) \<le> key \<longleftrightarrow> j \<le> i" if "j < length ?es" for j
      using lt [of i j] lt [of j i] that 1(1) tm by (cases i j rule: linorder_cases; auto)+
    with 1 mem show thesis by (intro that [of i]) (auto simp: event_search_def)
  next
    case (2 k)
    have "key \<notin> event_time ` set ?es"
      using 2(3,4) by (auto simp: in_set_conv_nth) (metis linorder_not_less order.irrefl)
    moreover have "event_time (?es ! j) < key \<longleftrightarrow> j < k" "event_time (?es ! j) \<le> key \<longleftrightarrow> j < k" if "j < length ?es" for j
      using 2(3,4) [of j] that by (cases "j < k"; force)+
    ultimately show thesis using 2(1,2) by (intro that [of k]) (auto simp: event_search_def)
  qed
qed

section \<open>What a query returns\<close>

text \<open>
  \<^bold>\<open>C20: ranges of a query.\<close> On ranges that follow each other without overlap \<open>get_ranges\<close> returns,
  in order, exactly the ranges that meet the interval when both ends lie in a range. An end that lies in
  a gap drops the bound on its side. When both lie in gaps the answer is empty, whatever lies between
  them: the ranges between two gaps are not found. \<open>get_ranges_bounds\<close> gives the same slice.
\<close>

theorem get_ranges_exact:
  assumes "disjoint_ranges (ranges self)"
  shows "get_ranges self start end =
      (if list_ex (covers start) (ranges self) \<and> list_ex (covers end) (ranges self)
       then filter (meets start end) (ranges self)
       else if list_ex (covers end) (ranges self) then filter (\<lambda>r. range_lo r \<le> end) (ranges self)
       else if list_ex (covers start) (ranges self) then filter (\<lambda>r. start \<le> range_hi r) (ranges self)
       else []) \<and>
    get_ranges self start end =
      py_slice (ranges self) (fst (get_ranges_bounds self start end)) (snd (get_ranges_bounds self start end))"
  using get_ranges_spec [OF assms refl] get_ranges_slice [of self] by (simp add: case_prod_beta)

definition three_ranges :: timeline_data_range where
  "three_ranges = \<lparr>ranges_name = ''n'', ranges =
     [\<lparr>range_start = 0, range_end = 10, range_value = ''a''\<rparr>,
      \<lparr>range_start = 20, range_end = 30, range_value = ''b''\<rparr>,
      \<lparr>range_start = 40, range_end = 50, range_value = ''c''\<rparr>]\<rparr>"

lemma get_ranges_exact_witness:
  "map range_value (get_ranges three_ranges 5 25) = [''a'', ''b''] \<and> get_ranges three_ranges 15 35 = []"
proof -
  have ok: "disjoint_ranges (ranges three_ranges)" by (simp add: three_ranges_def disjoint_ranges_def)
  show ?thesis
    using get_ranges_exact [OF ok, of 5 25] get_ranges_exact [OF ok, of 15 35]
    by (simp add: three_ranges_def covers_def meets_def)
qed

lemma get_events_cut:
  assumes "sorted_wrt (<) (map event_at (events self))" and "start \<le> end"
  obtains k m where "k \<le> m" "m \<le> length (events self)" "get_events self start end = take (Suc m - k) (drop k (events self))"
    "\<And>i. i < length (events self) \<Longrightarrow> event_time (events self ! i) < start \<longleftrightarrow> i < k"
    "\<And>i. i < length (events self) \<Longrightarrow> event_time (events self ! i) \<le> end \<longleftrightarrow>
       (if end \<in> event_time ` set (events self) then i \<le> m else i < m)"
proof -
  let ?es = "events self"
  obtain k where k: "event_search self start = int k" "k \<le> length ?es"
    "\<And>i. i < length ?es \<Longrightarrow> event_time (?es ! i) < start \<longleftrightarrow> i < k"
    using event_search_cases [OF assms(1)] by metis
  obtain m where m: "event_search self end = int m" "m \<le> length ?es"
    "\<And>i. i < length ?es \<Longrightarrow> event_time (?es ! i) < end \<longleftrightarrow> i < m"
    "\<And>i. i < length ?es \<Longrightarrow> event_time (?es ! i) \<le> end \<longleftrightarrow>
       (if end \<in> event_time ` set ?es then i \<le> m else i < m)"
    using event_search_cases [OF assms(1)] by metis
  have "k \<le> m"
  proof (rule ccontr)
    assume "\<not> k \<le> m"
    then have "m < k" "m < length ?es" using k(2) by auto
    then show False using k(3) [of m] m(3) [of m] assms(2) by simp
  qed
  moreover have "get_events self start end = take (Suc m - k) (drop k ?es)"
    using py_slice_nat [of ?es k "Suc m"] by (simp add: get_events_def k(1) m(1) add.commute)
  ultimately show thesis using that k(3) m(2,4) by blast
qed

text \<open>
  \<^bold>\<open>events of a query.\<close> On events at strictly increasing times \<open>get_events\<close> returns, in order,
  the events of the interval, and after them the first event past it unless the interval ends at an
  event. \<open>get_events_bounds\<close> gives the same slice.
\<close>

theorem get_events_exact:
  assumes "sorted_wrt (<) (map event_at (events self))" and "start \<le> end"
  shows "get_events self start end =
      filter (\<lambda>e. start \<le> event_time e \<and> event_time e \<le> end) (events self) @
      (if end \<in> event_time ` set (events self) then [] else take 1 (filter (\<lambda>e. end < event_time e) (events self))) \<and>
    get_events self start end =
      py_slice (events self) (fst (get_events_bounds self start end)) (snd (get_events_bounds self start end))"
proof
  let ?es = "events self"
  obtain k m where km: "k \<le> m" and slice: "get_events self start end = take (Suc m - k) (drop k ?es)"
    and k: "\<And>i. i < length ?es \<Longrightarrow> event_time (?es ! i) < start \<longleftrightarrow> i < k"
    and m: "\<And>i. i < length ?es \<Longrightarrow> event_time (?es ! i) \<le> end \<longleftrightarrow>
       (if end \<in> event_time ` set ?es then i \<le> m else i < m)"
    using get_events_cut [OF assms] by metis
  let ?b = "if end \<in> event_time ` set ?es then Suc m else m"
  have "filter (\<lambda>e. start \<le> event_time e \<and> event_time e \<le> end) ?es = take (?b - k) (drop k ?es)"
  proof (rule filter_interval)
    fix i assume "i < length ?es"
    then show "start \<le> event_time (?es ! i) \<and> event_time (?es ! i) \<le> end \<longleftrightarrow> k \<le> i \<and> i < ?b"
      using k [of i] m [of i] by (auto simp: not_less)
  qed
  moreover have "filter (\<lambda>e. end < event_time e) ?es = drop m ?es" if out: "end \<notin> event_time ` set ?es"
  proof -
    have "end < event_time (?es ! i) \<longleftrightarrow> m \<le> i \<and> i < length ?es" if "i < length ?es" for i
      using m [OF that] out that by (auto simp: not_le [symmetric])
    from filter_interval [of ?es "\<lambda>e. end < event_time e", OF this] show ?thesis by simp
  qed
  moreover have "take (Suc m - k) (drop k ?es) = take (m - k) (drop k ?es) @ take 1 (drop m ?es)"
    using km take_add [of "m - k" 1 "drop k ?es"] by (simp add: Suc_diff_le)
  ultimately show "get_events self start end =
      filter (\<lambda>e. start \<le> event_time e \<and> event_time e \<le> end) ?es @
      (if end \<in> event_time ` set ?es then [] else take 1 (filter (\<lambda>e. end < event_time e) ?es))"
    unfolding slice by (cases "end \<in> event_time ` set ?es") simp_all
  show "get_events self start end =
      py_slice ?es (fst (get_events_bounds self start end)) (snd (get_events_bounds self start end))"
    by (simp add: get_events_def get_events_bounds_def)
qed

definition three_events :: "int timeline_event" where
  "three_events = \<lparr>events_name = ''n'', events =
     [\<lparr>event_at = 1, event_value = 7\<rparr>, \<lparr>event_at = 4, event_value = 8\<rparr>, \<lparr>event_at = 9, event_value = 6\<rparr>]\<rparr>"

lemma get_events_exact_witness:
  "map event_value (get_events three_events 0 2) = [7, 8] \<and> map event_value (get_events three_events 1 4) = [7, 8]"
proof -
  have ok: "sorted_wrt (<) (map event_at (events three_events))" by (simp add: three_events_def)
  show ?thesis
    using get_events_exact [OF ok, of 0 2] get_events_exact [OF ok, of 1 4] by (simp add: three_events_def)
qed

section \<open>Colours of unknown names\<close>

text \<open>The loop of \<open>main\<close> over the values of all ranges.\<close>

fun lookup_all :: "string list \<Rightarrow> colors \<Rightarrow> (color list \<times> colors) result" where
  "lookup_all [] self = Inr ([], self)"
| "lookup_all (name # names) self =
     res_bind (lookup_color name self) (\<lambda>(c, self').
       res_bind (lookup_all names self') (\<lambda>(cs, self''). Inr (c # cs, self'')))"

definition unknown_names :: "string list \<Rightarrow> colors \<Rightarrow> string list" where
  "unknown_names names self = filter (\<lambda>n. map_of (color_table self) n = None) names"

lemma lookup_all_eq:
  assumes "distinct names"
  shows "lookup_all names self =
    (let new = unknown_names names self;
         table = color_table self @ zip new (rev (default_colors self))
     in if length new \<le> length (default_colors self)
        then Inr (map (\<lambda>n. the (map_of table n)) names,
          self\<lparr>color_table := table,
            default_colors := take (length (default_colors self) - length new) (default_colors self)\<rparr>)
        else Inl IndexError)"
  using assms
proof (induction names arbitrary: self)
  case Nil
  then show ?case by (simp add: unknown_names_def)
next
  case (Cons name names)
  show ?case
  proof (cases "map_of (color_table self) name")
    case (Some c)
    have "map_of (color_table self @ zip ns cs) name = Some c" for ns cs
      using Some by (simp add: map_add_def split: option.split)
    with Some Cons show ?thesis by (simp add: lookup_color_def unknown_names_def Let_def)
  next
    case None
    show ?thesis
    proof (cases "default_colors self" rule: rev_cases)
      case Nil
      then show ?thesis using None by (simp add: lookup_color_def unknown_names_def)
    next
      case (snoc cs c)
      let ?self = "self\<lparr>color_table := color_table self @ [(name, c)], default_colors := cs\<rparr>"
      have "lookup_color name self = Inr (c, ?self)"
        using None snoc by (simp add: lookup_color_def add_color_def dict_set_new dict_has_def)
      moreover have "unknown_names names ?self = unknown_names names self"
        using Cons.prems unfolding unknown_names_def by (intro filter_cong) (auto simp: map_add_def split: option.split)
      moreover have "map_of (color_table self @ (name, c) # zip ns ds) name = Some c"
        if "set ns \<subseteq> set names" for ns ds
        using None Cons.prems that by (auto simp: map_add_def split: option.split)
      ultimately show ?thesis
        using Cons.IH [of ?self] Cons.prems None snoc
        by (simp add: unknown_names_def Let_def)
    qed
  qed
qed

text \<open>
  \<^bold>\<open>a colour for every name.\<close> Looking up distinct names succeeds exactly when the pool of
  default colours has one for each name that has no colour of its own. Such names get the colours of the
  pool from its end in the order of the names and keep them, the others get their own. When the pool is
  too short, \<open>IndexError\<close> is raised.
\<close>

theorem lookup_all_colors:
  assumes "distinct names"
  shows "lookup_all names self =
    (let new = unknown_names names self;
         table = color_table self @ zip new (rev (default_colors self))
     in if length new \<le> length (default_colors self)
        then Inr (map (\<lambda>n. the (map_of table n)) names,
          self\<lparr>color_table := table,
            default_colors := take (length (default_colors self) - length new) (default_colors self)\<rparr>)
        else Inl IndexError)"
  using assms by (rule lookup_all_eq)

lemma lookup_all_colors_witness:
  "lookup_all [''a'', ''b'', ''c'', ''d'', ''e'', ''f'', ''g''] new_colors = Inl IndexError"
  using lookup_all_colors [of "[''a'', ''b'', ''c'', ''d'', ''e'', ''f'', ''g'']" new_colors]
  by (simp add: unknown_names_def new_colors_def)

section \<open>Reading back what was written\<close>

text \<open>The line that describes an entry, and the lines that can be described: words without blanks.\<close>

definition hex_digit :: "int \<Rightarrow> char" where
  "hex_digit v = (if v < 10 then char_of (nat (48 + v)) else char_of (nat (87 + v)))"

definition hex_text :: "int \<Rightarrow> string" where
  "hex_text v = [hex_digit (v div 16), hex_digit (v mod 16)]"

fun data_text :: "data_line \<Rightarrow> string" where
  "data_text (RangeLine t n v start end) =
     ''range '' @ t @ '' '' @ n @ '' '' @ v @ '' '' @ nat_str start @ '' '' @ nat_str end"
| "data_text (EventStrLine t n v tm) =
     ''event-str '' @ t @ '' '' @ n @ '' '' @ v @ '' '' @ nat_str tm"
| "data_text (EventIntLine t n v tm) =
     ''event-int '' @ t @ '' '' @ n @ '' '' @ nat_str v @ '' '' @ nat_str tm"
| "data_text (ColorLine n r g b) = ''color '' @ n @ '' #'' @ hex_text r @ hex_text g @ hex_text b"
| "data_text OtherLine = []"

definition plain_word :: "string \<Rightarrow> bool" where
  "plain_word w \<longleftrightarrow> w \<noteq> [] \<and> CHR '' '' \<notin> set w \<and> CHR 0x0A \<notin> set w"

fun good_line :: "data_line \<Rightarrow> bool" where
  "good_line (RangeLine t n v start end) \<longleftrightarrow> plain_word t \<and> plain_word n \<and> plain_word v"
| "good_line (EventStrLine t n v tm) \<longleftrightarrow> plain_word t \<and> plain_word n \<and> plain_word v"
| "good_line (EventIntLine t n v tm) \<longleftrightarrow> plain_word t \<and> plain_word n"
| "good_line (ColorLine n r g b) \<longleftrightarrow> plain_word n \<and> 0 \<le> r \<and> r < 256 \<and> 0 \<le> g \<and> g < 256 \<and> 0 \<le> b \<and> b < 256"
| "good_line OtherLine \<longleftrightarrow> True"

lemma blank_word_word:
  assumes "plain_word w"
  shows "blank_word (w @ '' '' @ s) = Some (w, s)"
proof -
  have "takeWhile (\<lambda>c. c \<noteq> CHR '' '') (w @ '' '' @ s) = w" "dropWhile (\<lambda>c. c \<noteq> CHR '' '') (w @ '' '' @ s) = '' '' @ s"
    using assms by (auto simp: plain_word_def takeWhile_append dropWhile_append)
  with assms show ?thesis by (simp add: blank_word_def plain_word_def)
qed

lemma number_before_blank: "number (nat_str n @ '' '' @ s) = Some (n, '' '' @ s)"
  by (rule number_nat_str) (simp add: is_digit_def)

lemma number_before_newline: "number (nat_str n @ [CHR 0x0A]) = Some (n, [CHR 0x0A])"
  by (rule number_nat_str) (simp add: is_digit_def)

lemma hex_digit_code:
  assumes "0 \<le> v" "v < 16"
  shows "(of_char (hex_digit v) :: nat) = (if v < 10 then nat (48 + v) else nat (87 + v))"
  using assms by (auto simp: hex_digit_def of_char_of)

lemma hex_value_digit: "0 \<le> v \<Longrightarrow> v < 16 \<Longrightarrow> hex_value (hex_digit v) = Some v"
  by (auto simp: hex_value_def hex_digit_code Let_def)

lemma hex_digit_no_newline:
  assumes "0 \<le> v" "v < 16"
  shows "CHR 0x0A \<noteq> hex_digit v"
proof
  assume "CHR 0x0A = hex_digit v"
  then have "(of_char (hex_digit v) :: nat) = of_char (CHR 0x0A)" by simp
  with hex_digit_code [OF assms] assms(1) show False by (auto split: if_splits)
qed

lemma hex_text_no_newline: "0 \<le> v \<Longrightarrow> v < 256 \<Longrightarrow> CHR 0x0A \<notin> set (hex_text v)"
  by (simp add: hex_text_def hex_digit_no_newline)

lemma hex_byte_text: "0 \<le> v \<Longrightarrow> v < 256 \<Longrightarrow> hex_byte (hex_text v @ s) = Some (v, s)"
  by (simp add: hex_byte_def hex_text_def hex_value_digit)

lemmas scan_simps = expect_append blank_word_word number_before_blank number_before_newline hex_byte_text

lemma parse_data_text:
  assumes "good_line d"
  shows "parse_data_line (data_text d @ [CHR 0x0A]) = d"
proof (cases d)
  case (RangeLine t n v start "end")
  then have "match_range (data_text d @ [CHR 0x0A]) = Some d"
    using assms unfolding match_range_def RangeLine data_text.simps append_assoc
    by (simp only: scan_simps Option.bind.simps prod.case good_line.simps)
  then show ?thesis by (simp add: parse_data_line_def)
next
  case (EventStrLine t n v tm)
  have "match_event_str (data_text d @ [CHR 0x0A]) = Some d"
    using assms unfolding match_event_str_def EventStrLine data_text.simps append_assoc
    by (simp only: scan_simps Option.bind.simps prod.case good_line.simps)
  moreover have "match_range (data_text d @ [CHR 0x0A]) = None"
    by (simp add: match_range_def EventStrLine expect_def)
  ultimately show ?thesis by (simp add: parse_data_line_def)
next
  case (EventIntLine t n v tm)
  have "match_event_int (data_text d @ [CHR 0x0A]) = Some d"
    using assms unfolding match_event_int_def EventIntLine data_text.simps append_assoc
    by (simp only: scan_simps Option.bind.simps prod.case good_line.simps)
  moreover have "match_range (data_text d @ [CHR 0x0A]) = None" "match_event_str (data_text d @ [CHR 0x0A]) = None"
    by (simp_all add: match_range_def match_event_str_def EventIntLine expect_def)
  ultimately show ?thesis by (simp add: parse_data_line_def)
next
  case (ColorLine n r g b)
  have blank: "'' #'' @ s = '' '' @ ''#'' @ s" for s by simp
  have "match_color (data_text d @ [CHR 0x0A]) = Some d"
    using assms unfolding match_color_def ColorLine data_text.simps append_assoc blank
    by (simp only: scan_simps Option.bind.simps prod.case good_line.simps)
  moreover have "match_range (data_text d @ [CHR 0x0A]) = None" "match_event_str (data_text d @ [CHR 0x0A]) = None"
    "match_event_int (data_text d @ [CHR 0x0A]) = None"
    by (simp_all add: match_range_def match_event_str_def match_event_int_def ColorLine expect_def)
  ultimately show ?thesis by (simp add: parse_data_line_def)
next
  case OtherLine
  then show ?thesis
    by (simp add: parse_data_line_def match_range_def match_event_str_def match_event_int_def match_color_def expect_def)
qed

lemma data_text_no_newline: "good_line d \<Longrightarrow> CHR 0x0A \<notin> set (data_text d)"
  by (cases d) (simp_all add: plain_word_def nat_str_no_newline hex_text_no_newline)

definition data_file :: "data_line list \<Rightarrow> string" where
  "data_file ds = concat (map (\<lambda>d. data_text d @ [CHR 0x0A]) ds)"

lemma file_lines_data_file:
  "list_all good_line ds \<Longrightarrow> file_lines (data_file ds) = map (\<lambda>d. data_text d @ [CHR 0x0A]) ds"
proof (induction ds)
  case (Cons d ds)
  then show ?case
    using file_lines_line [OF data_text_no_newline, of d "data_file ds"] by (simp add: data_file_def)
qed (simp add: data_file_def)

section \<open>What a timeline holds\<close>

definition find_named :: "('a \<Rightarrow> string) \<Rightarrow> string \<Rightarrow> 'a list \<Rightarrow> 'a option" where
  "find_named name_of name xs = find (\<lambda>x. name_of x = name) xs"

lemma find_update_named:
  assumes "\<And>x. name_of (f x) = name_of x" "\<And>n. name_of (new n) = n"
  shows "find_named name_of n (update_named name_of new name f xs) =
    (if n = name then Some (f (case find_named name_of name xs of None \<Rightarrow> new name | Some x \<Rightarrow> x))
     else find_named name_of n xs)"
  by (induction xs) (auto simp: find_named_def assms)

lemma names_update_named:
  assumes "\<And>x. name_of (f x) = name_of x" "\<And>n. name_of (new n) = n"
  shows "map name_of (update_named name_of new name f xs) =
    map name_of xs @ (if name \<in> name_of ` set xs then [] else [name])"
  by (induction xs) (auto simp: assms)

definition ranges_of :: "string \<Rightarrow> string \<Rightarrow> timelines \<Rightarrow> data_range list" where
  "ranges_of t n ts = (case find_named timeline_name t ts of None \<Rightarrow> []
     | Some line \<Rightarrow> (case find_named ranges_name n (timeline_ranges line) of None \<Rightarrow> [] | Some rs \<Rightarrow> ranges rs))"

definition events_str_of :: "string \<Rightarrow> string \<Rightarrow> timelines \<Rightarrow> string event list" where
  "events_str_of t n ts = (case find_named timeline_name t ts of None \<Rightarrow> []
     | Some line \<Rightarrow> (case find_named events_name n (timeline_event_str line) of None \<Rightarrow> [] | Some es \<Rightarrow> events es))"

definition events_int_of :: "string \<Rightarrow> string \<Rightarrow> timelines \<Rightarrow> int event list" where
  "events_int_of t n ts = (case find_named timeline_name t ts of None \<Rightarrow> []
     | Some line \<Rightarrow> (case find_named events_name n (timeline_event_int line) of None \<Rightarrow> [] | Some es \<Rightarrow> events es))"

text \<open>What a line adds to the ranges or events of timeline \<open>t\<close> under the name \<open>n\<close>.\<close>

fun line_ranges :: "string \<Rightarrow> string \<Rightarrow> data_line \<Rightarrow> data_range list" where
  "line_ranges t n (RangeLine t' n' v start end) =
     (if t' = t \<and> n' = n then [\<lparr>range_start = int start, range_end = int end, range_value = v\<rparr>] else [])"
| "line_ranges t n _ = []"

fun line_events_str :: "string \<Rightarrow> string \<Rightarrow> data_line \<Rightarrow> string event list" where
  "line_events_str t n (EventStrLine t' n' v tm) =
     (if t' = t \<and> n' = n then [\<lparr>event_at = int tm, event_value = v\<rparr>] else [])"
| "line_events_str t n _ = []"

fun line_events_int :: "string \<Rightarrow> string \<Rightarrow> data_line \<Rightarrow> int event list" where
  "line_events_int t n (EventIntLine t' n' v tm) =
     (if t' = t \<and> n' = n then [\<lparr>event_at = int tm, event_value = int v\<rparr>] else [])"
| "line_events_int t n _ = []"

fun line_color :: "data_line \<Rightarrow> (string \<rightharpoonup> color) \<Rightarrow> (string \<rightharpoonup> color)" where
  "line_color (ColorLine n r g b) m = m(n \<mapsto> rgb (r div 255) (g div 255) (b div 255))"
| "line_color _ m = m"

lemma holder_names [simp]:
  "timeline_name (get_range n f line) = timeline_name line" "timeline_name (get_event_str n g line) = timeline_name line"
  "timeline_name (get_event_int n h line) = timeline_name line" "timeline_name (new_timeline t) = t"
  "ranges_name (add_range r rs) = ranges_name rs" "events_name (add_event e es) = events_name es"
  by (simp_all add: get_range_def get_event_str_def get_event_int_def new_timeline_def add_range_def add_event_def)

lemma find_named_Nil [simp]: "find_named f n [] = None"
  by (simp add: find_named_def)

lemma add_data_line_ranges: "ranges_of t n (snd (add_data_line d (cs, ts))) = ranges_of t n ts @ line_ranges t n d"
  by (cases d) (auto simp: add_data_line_def ranges_of_def get_timeline_def find_update_named get_range_def
      get_event_str_def get_event_int_def new_timeline_def add_range_def split: option.split)

lemma add_data_line_events_str:
  "events_str_of t n (snd (add_data_line d (cs, ts))) = events_str_of t n ts @ line_events_str t n d"
  by (cases d) (auto simp: add_data_line_def events_str_of_def get_timeline_def find_update_named get_range_def
      get_event_str_def get_event_int_def new_timeline_def add_event_def split: option.split)

lemma add_data_line_events_int:
  "events_int_of t n (snd (add_data_line d (cs, ts))) = events_int_of t n ts @ line_events_int t n d"
  by (cases d) (auto simp: add_data_line_def events_int_of_def get_timeline_def find_update_named get_range_def
      get_event_str_def get_event_int_def new_timeline_def add_event_def split: option.split)

lemma add_data_line_color:
  "map_of (color_table (fst (add_data_line d (cs, ts)))) = line_color d (map_of (color_table cs))"
  by (cases d) (auto simp: add_data_line_def add_color_def map_of_dict_set)

lemma fold_pair_append:
  assumes "\<And>d s. h (f d s) = h s @ g d"
  shows "h (fold f ds s) = h s @ concat (map g ds)"
  by (induction ds arbitrary: s) (simp_all add: assms)

definition read_entries :: "data_line list \<Rightarrow> colors \<times> timelines" where
  "read_entries ds = fold add_data_line ds (new_colors, [])"

lemma find_named_map: "(\<And>x. name_of (f x) = name_of x) \<Longrightarrow>
  find_named name_of n (map f xs) = map_option f (find_named name_of n xs)"
  by (induction xs) (auto simp: find_named_def)

lemma sort_holder_names [simp]:
  "timeline_name (sort_timeline line) = timeline_name line" "ranges_name (sort_ranges rs) = ranges_name rs"
  "events_name (sort_events es) = events_name es"
  by (simp_all add: sort_timeline_def sort_ranges_def sort_events_def)

lemma ranges_of_sort: "ranges_of t n (sort_timelines ts) = sort_key range_start (ranges_of t n ts)"
  by (simp add: ranges_of_def sort_timelines_def find_named_map sort_timeline_def sort_ranges_def sort_ranges_key
      split: option.split)

lemma events_str_of_sort: "events_str_of t n (sort_timelines ts) = sort_key event_at (events_str_of t n ts)"
  by (simp add: events_str_of_def sort_timelines_def find_named_map sort_timeline_def sort_events_def sort_events_key
      split: option.split)

lemma events_int_of_sort: "events_int_of t n (sort_timelines ts) = sort_key event_at (events_int_of t n ts)"
  by (simp add: events_int_of_def sort_timelines_def find_named_map sort_timeline_def sort_events_def sort_events_key
      split: option.split)

lemma read_data_file:
  assumes "list_all good_line ds" "files w filename = Some (data_file ds)"
  shows "read_data filename w = (Inr (fst (read_entries ds), sort_timelines (snd (read_entries ds))), w)"
proof -
  have "map parse_data_line (file_lines (data_file ds)) = ds"
    using assms(1) by (simp add: file_lines_data_file o_def list_all_iff map_idI parse_data_text)
  then have "fold (\<lambda>line. add_data_line (parse_data_line line)) (file_lines (data_file ds)) (new_colors, []) = read_entries ds"
    unfolding read_entries_def by (metis (no_types, lifting) fold_map o_def fold_cong)
  then show ?thesis
    by (simp add: read_data_def io_bind_def io_return_def read_file_def assms(2) case_prod_beta)
qed

lemma read_entries_parts:
  "ranges_of t n (snd (read_entries ds)) = concat (map (line_ranges t n) ds)"
  "events_str_of t n (snd (read_entries ds)) = concat (map (line_events_str t n) ds)"
  "events_int_of t n (snd (read_entries ds)) = concat (map (line_events_int t n) ds)"
proof -
  have "ranges_of t n (snd (fold add_data_line ds s)) = ranges_of t n (snd s) @ concat (map (line_ranges t n) ds)" for s
    by (rule fold_pair_append [where h = "\<lambda>s. ranges_of t n (snd s)"]) (metis add_data_line_ranges prod.collapse)
  then show "ranges_of t n (snd (read_entries ds)) = concat (map (line_ranges t n) ds)"
    by (simp add: read_entries_def ranges_of_def)
  have "events_str_of t n (snd (fold add_data_line ds s)) =
      events_str_of t n (snd s) @ concat (map (line_events_str t n) ds)" for s
    by (rule fold_pair_append [where h = "\<lambda>s. events_str_of t n (snd s)"]) (metis add_data_line_events_str prod.collapse)
  then show "events_str_of t n (snd (read_entries ds)) = concat (map (line_events_str t n) ds)"
    by (simp add: read_entries_def events_str_of_def)
  have "events_int_of t n (snd (fold add_data_line ds s)) =
      events_int_of t n (snd s) @ concat (map (line_events_int t n) ds)" for s
    by (rule fold_pair_append [where h = "\<lambda>s. events_int_of t n (snd s)"]) (metis add_data_line_events_int prod.collapse)
  then show "events_int_of t n (snd (read_entries ds)) = concat (map (line_events_int t n) ds)"
    by (simp add: read_entries_def events_int_of_def)
qed

lemma read_entries_colors: "map_of (color_table (fst (read_entries ds))) = fold line_color ds Map.empty"
proof -
  have "map_of (color_table (fst (fold add_data_line ds s))) = fold line_color ds (map_of (color_table (fst s)))" for s
    by (induction ds arbitrary: s) (simp_all, metis add_data_line_color prod.collapse)
  then show ?thesis by (simp add: read_entries_def new_colors_def)
qed

lemma read_entries_names: "distinct (map timeline_name (snd (read_entries ds)))"
proof -
  have "distinct (map timeline_name (snd (add_data_line d s)))" if "distinct (map timeline_name (snd s))" for d s
    using that by (cases s; cases d) (simp_all add: add_data_line_def get_timeline_def names_update_named)
  then have "distinct (map timeline_name (snd (fold add_data_line ds s)))" if "distinct (map timeline_name (snd s))" for s
    using that by (induction ds arbitrary: s) simp_all
  then show ?thesis by (simp add: read_entries_def)
qed

text \<open>
  \<^bold>\<open>C19: reading a trace.\<close> A file of well-formed lines is read back entry by entry. Under each pair
  of names the timelines hold exactly the ranges and the events that the file gives for them, sorted by
  time and in file order at equal times. Each colour is the last one the file gives for the name, and no
  two timelines have one name.
\<close>

theorem read_data_entries:
  assumes "list_all good_line ds" and "files w filename = Some (data_file ds)"
  shows "\<exists>cs ts. read_data filename w = (Inr (cs, ts), w) \<and>
    (\<forall>t n. ranges_of t n ts = sort_key range_start (concat (map (line_ranges t n) ds))) \<and>
    (\<forall>t n. events_str_of t n ts = sort_key event_at (concat (map (line_events_str t n) ds))) \<and>
    (\<forall>t n. events_int_of t n ts = sort_key event_at (concat (map (line_events_int t n) ds))) \<and>
    map_of (color_table cs) = fold line_color ds Map.empty \<and>
    distinct (map timeline_name ts)"
proof (intro exI conjI allI)
  show "read_data filename w = (Inr (fst (read_entries ds), sort_timelines (snd (read_entries ds))), w)"
    using assms by (rule read_data_file)
  show "distinct (map timeline_name (sort_timelines (snd (read_entries ds))))"
    using read_entries_names [of ds] by (simp add: sort_timelines_def o_def)
qed (simp_all add: ranges_of_sort events_str_of_sort events_int_of_sort read_entries_parts read_entries_colors)

definition trace_lines :: "data_line list" where
  "trace_lines = [RangeLine ''a'' ''b'' ''v'' 5 8, RangeLine ''a'' ''b'' ''w'' 1 4, ColorLine ''v'' 255 16 0]"

definition trace_world :: "unit world" where
  "trace_world = \<lparr>files = [''t'' \<mapsto> data_file trace_lines], dirs = [], console = [], environ = [], ext = ()\<rparr>"

lemma read_data_entries_witness:
  "\<exists>cs ts. read_data ''t'' trace_world = (Inr (cs, ts), trace_world) \<and>
    map range_value (ranges_of ''a'' ''b'' ts) = [''w'', ''v''] \<and> map_of (color_table cs) ''v'' = Some (rgb 1 0 0)"
proof -
  have "list_all good_line trace_lines" by (simp add: trace_lines_def plain_word_def)
  from read_data_entries [OF this, of trace_world "''t''"] show ?thesis
    by (auto simp: trace_world_def trace_lines_def)
qed

end
