(* ===== verification/Grid_View.thy ===== *)
theory Grid_View
  imports Grid_Data
begin

text \<open>
  The drawing side of the timeline viewer, \<open>utils/grid.py\<close>: Python's mixed integer and
  floating point numbers, the drawing context as the list of the commands it is given, the three
  renderers of the picture's parts and the renderer that puts them together. What \<open>cairo\<close> measures
  for a text is a parameter. Floating point numbers are exact here.
\<close>

section \<open>Numbers\<close>

datatype pynum = PyInt int | PyFloat rat

fun num_val :: "pynum \<Rightarrow> rat" where
  "num_val (PyInt i) = of_int i"
| "num_val (PyFloat r) = r"

text \<open>An operation on two integers gives an integer, any other gives a float.\<close>

fun num_lift :: "(int \<Rightarrow> int \<Rightarrow> int) \<Rightarrow> (rat \<Rightarrow> rat \<Rightarrow> rat) \<Rightarrow> pynum \<Rightarrow> pynum \<Rightarrow> pynum" where
  "num_lift f g (PyInt i) (PyInt j) = PyInt (f i j)"
| "num_lift f g a b = PyFloat (g (num_val a) (num_val b))"

instantiation pynum :: "{plus, minus, uminus, times, zero, one, ord}"
begin

definition plus_pynum :: "pynum \<Rightarrow> pynum \<Rightarrow> pynum" where
  "plus_pynum = num_lift (+) (+)"

definition minus_pynum :: "pynum \<Rightarrow> pynum \<Rightarrow> pynum" where
  "minus_pynum = num_lift (-) (-)"

definition times_pynum :: "pynum \<Rightarrow> pynum \<Rightarrow> pynum" where
  "times_pynum = num_lift (*) (*)"

fun uminus_pynum :: "pynum \<Rightarrow> pynum" where
  "uminus_pynum (PyInt i) = PyInt (- i)"
| "uminus_pynum (PyFloat r) = PyFloat (- r)"

definition zero_pynum :: pynum where
  "zero_pynum = PyInt 0"

definition one_pynum :: pynum where
  "one_pynum = PyInt 1"

definition less_eq_pynum :: "pynum \<Rightarrow> pynum \<Rightarrow> bool" where
  "less_eq_pynum a b \<longleftrightarrow> num_val a \<le> num_val b"

definition less_pynum :: "pynum \<Rightarrow> pynum \<Rightarrow> bool" where
  "less_pynum a b \<longleftrightarrow> num_val a < num_val b"

instance ..

end

instance pynum :: preorder
  by standard (auto simp: less_eq_pynum_def less_pynum_def)

instance pynum :: comm_monoid_add
proof
  fix a b c :: pynum
  show "a + b + c = a + (b + c)" by (cases a; cases b; cases c) (auto simp: plus_pynum_def)
  show "a + b = b + a" by (cases a; cases b) (auto simp: plus_pynum_def)
  show "0 + a = a" by (cases a) (auto simp: plus_pynum_def zero_pynum_def)
qed

instance pynum :: numeral ..

lemma num_val_arith [simp]:
  "num_val (a + b) = num_val a + num_val b" "num_val (a - b) = num_val a - num_val b"
  "num_val (a * b) = num_val a * num_val b" "num_val (- a) = - num_val a"
  "num_val 0 = 0" "num_val 1 = 1"
  by (cases a; cases b; simp add: plus_pynum_def minus_pynum_def times_pynum_def zero_pynum_def one_pynum_def)+

lemma num_val_numeral [simp]: "num_val (numeral n) = numeral n"
  by (induction n) (simp_all only: numeral.simps num_val_arith)

lemma pynum_less [simp]: "a < b \<longleftrightarrow> num_val a < num_val b" "a \<le> b \<longleftrightarrow> num_val a \<le> num_val b"
  for a b :: pynum
  by (simp_all add: less_pynum_def less_eq_pynum_def)

text \<open>
  The quotient: rounded down for two integers, as Python 2 does it. \<open>num_quot\<close> is used where the code
  divides by a literal, \<open>num_div\<close> where the divisor may be zero.
\<close>

definition num_quot :: "pynum \<Rightarrow> pynum \<Rightarrow> pynum" where
  "num_quot = num_lift (div) (/)"

definition num_div :: "pynum \<Rightarrow> pynum \<Rightarrow> pynum result" where
  "num_div a b = (if num_val b = 0 then Inl ZeroDivisionError else Inr (num_quot a b))"

definition num_rem :: "pynum \<Rightarrow> pynum \<Rightarrow> pynum" where
  "num_rem = num_lift (mod) (\<lambda>x y. x - of_int \<lfloor>x / y\<rfloor> * y)"

definition num_mod :: "pynum \<Rightarrow> pynum \<Rightarrow> pynum result" where
  "num_mod a b = (if num_val b = 0 then Inl ZeroDivisionError else Inr (num_rem a b))"

text \<open>\<open>int(x)\<close> cuts towards zero; \<open>max\<close> and \<open>min\<close> return their first argument on a tie.\<close>

definition num_int :: "pynum \<Rightarrow> int" where
  "num_int a = (if num_val a < 0 then \<lceil>num_val a\<rceil> else \<lfloor>num_val a\<rfloor>)"

definition num_max :: "pynum \<Rightarrow> pynum \<Rightarrow> pynum" where
  "num_max a b = (if b > a then b else a)"

definition num_min :: "pynum \<Rightarrow> pynum \<Rightarrow> pynum" where
  "num_min a b = (if b < a then b else a)"

definition num_abs :: "pynum \<Rightarrow> pynum" where
  "num_abs a = (if a < 0 then - a else a)"

text \<open>\<open>range(a, b, d)\<close> for a positive step.\<close>

definition py_range :: "int \<Rightarrow> int \<Rightarrow> int \<Rightarrow> int list" where
  "py_range a b d = map (\<lambda>k. a + int k * d) [0..<nat ((b - a + d - 1) div d)]"

section \<open>The drawing context\<close>

datatype draw_cmd =
    MoveTo pynum pynum
  | LineTo pynum pynum
  | RelLineTo pynum pynum
  | ClosePath
  | Rectangle pynum pynum pynum pynum
  | SetRGB pynum pynum pynum
  | SetLineWidth pynum
  | SetOperatorSource
  | SetDash "pynum list" pynum
  | Stroke
  | StrokePreserve
  | Fill
  | ShowText string
  | Translate pynum pynum
  | SaveCtx
  | RestoreCtx
  | Clip
  | PaintSurface

text \<open>
  What drawing changes: the commands given so far and the colours, which all drawing shares. The
  extents of a text are its bearings, its width and its height.
\<close>

record canvas =
  drawn :: "draw_cmd list"
  palette :: colors

record extents =
  x_bearing :: rat
  y_bearing :: rat
  text_width :: rat
  text_height :: rat

definition emit :: "draw_cmd list \<Rightarrow> (canvas, unit) io" where
  "emit cmds c = (Inr (), c\<lparr>drawn := drawn c @ cmds\<rparr>)"

definition look_up :: "string \<Rightarrow> (canvas, color) io" where
  "look_up name c =
     (case lookup_color name (palette c) of
        Inl e \<Rightarrow> (Inl e, c)
      | Inr (col, p) \<Rightarrow> (Inr col, c\<lparr>palette := p\<rparr>))"

text \<open>An attribute that \<open>__init__\<close> does not set.\<close>

definition attr :: "'a option \<Rightarrow> 'a result" where
  "attr a = (case a of None \<Rightarrow> Inl AttributeError | Some x \<Rightarrow> Inr x)"

definition set_color :: "color \<Rightarrow> draw_cmd" where
  "set_color c = SetRGB (PyInt (red c)) (PyInt (green c)) (PyInt (blue c))"

definition black :: draw_cmd where
  "black = SetRGB 0 0 0"

definition grey :: draw_cmd where
  "grey = SetRGB (PyFloat (9 / 10)) (PyFloat (9 / 10)) (PyFloat (9 / 10))"

section \<open>The legend\<close>

record top_legend =
  legend_padding :: pynum
  legends :: "string list option"
  legend_colors :: "color list option"
  legend_width :: "pynum option"
  legend_height :: "pynum option"

definition new_top_legend :: top_legend where
  "new_top_legend = \<lparr>legend_padding = 10, legends = None, legend_colors = None,
     legend_width = None, legend_height = None\<rparr>"

definition set_padding :: "pynum \<Rightarrow> top_legend \<Rightarrow> top_legend" where
  "set_padding p self = self\<lparr>legend_padding := p\<rparr>"

definition set_legends :: "string list \<Rightarrow> color list \<Rightarrow> top_legend \<Rightarrow> top_legend" where
  "set_legends names colors self = self\<lparr>legends := Some names, legend_colors := Some colors\<rparr>"

text \<open>
  The body that the loops of \<open>layout\<close> and \<open>draw\<close> share: the line height, the height above the
  line and the width used in it; the result has the place \<open>x\<close> of the item in front.
\<close>

definition place_legend ::
  "pynum \<Rightarrow> pynum \<Rightarrow> extents \<Rightarrow> pynum \<times> pynum \<times> pynum \<Rightarrow> pynum \<times> pynum \<times> pynum \<times> pynum" where
  "place_legend padding width e s =
     (let (line_height, total_height, line_used) = s;
          item_width = padding + padding + PyFloat (text_width e) + padding;
          item_height = PyFloat (text_height e) + padding;
          line_height = (if item_height > line_height then item_height else line_height);
          (total_height, line_used) =
            (if line_used + item_width > width then (total_height + line_height, padding + item_width)
             else (total_height, line_used + item_width));
          x = line_used - item_width
      in (x, line_height, total_height, line_used))"

definition top_legend_layout :: "(string \<Rightarrow> extents) \<Rightarrow> pynum \<Rightarrow> top_legend \<Rightarrow> top_legend result" where
  "top_legend_layout metrics width self =
     res_bind (attr (legends self)) (\<lambda>names.
       (let self = self\<lparr>legend_width := Some width\<rparr>;
            padding = legend_padding self;
            (line_height, total_height, line_used) =
              fold (\<lambda>legend s. snd (place_legend padding width (metrics legend) s)) names (0, padding, padding);
            total_height = total_height + line_height
        in Inr (self\<lparr>legend_height := Some total_height\<rparr>)))"

definition draw_legend ::
  "(string \<Rightarrow> extents) \<Rightarrow> top_legend \<Rightarrow> string \<Rightarrow>
   int \<times> pynum \<times> pynum \<times> pynum \<Rightarrow> (canvas, int \<times> pynum \<times> pynum \<times> pynum) io" where
  "draw_legend metrics self legend s =
     io_bind (io_lift (attr (legend_width self))) (\<lambda>width.
       (let (i, s) = s;
            padding = legend_padding self;
            (x, line_height, total_height, line_used) = place_legend padding width (metrics legend) s;
            t_height = PyFloat (text_height (metrics legend))
        in io_bind (emit [Rectangle x total_height padding padding, black, SetLineWidth 2, StrokePreserve]) (\<lambda>_.
           io_bind (io_lift (res_bind (attr (legend_colors self)) (\<lambda>colors. py_get colors i))) (\<lambda>c.
           io_bind (emit [set_color c, Fill, MoveTo (x + padding * 2) (total_height + t_height), black,
             ShowText legend]) (\<lambda>_.
           io_return (i + 1, line_height, total_height, line_used))))))"

definition top_legend_draw :: "(string \<Rightarrow> extents) \<Rightarrow> top_legend \<Rightarrow> (canvas, unit) io" where
  "top_legend_draw metrics self =
     io_bind (io_lift (attr (legends self))) (\<lambda>names.
     io_bind (io_for_each (draw_legend metrics self) names (0, 0, legend_padding self, legend_padding self)) (\<lambda>_.
     io_return ()))"

section \<open>The timelines\<close>

record timelines_renderer =
  rows_padding :: pynum
  rows_height :: "pynum option"
  rows_timelines :: "timelines option"
  rows_start :: "pynum option"
  rows_end :: "pynum option"
  left_width :: "pynum option"
  right_width :: "pynum option"
  rows_text_height :: "pynum option"
  rows_width :: "pynum option"

definition new_timelines_renderer :: timelines_renderer where
  "new_timelines_renderer = \<lparr>rows_padding = 10, rows_height = None, rows_timelines = None, rows_start = None,
     rows_end = None, left_width = None, right_width = None, rows_text_height = None, rows_width = None\<rparr>"

definition set_timelines :: "timelines \<Rightarrow> timelines_renderer \<Rightarrow> timelines_renderer" where
  "set_timelines ts self = self\<lparr>rows_timelines := Some ts\<rparr>"

definition set_render_range :: "pynum \<Rightarrow> pynum \<Rightarrow> timelines_renderer \<Rightarrow> timelines_renderer" where
  "set_render_range start end self = self\<lparr>rows_start := Some start, rows_end := Some end\<rparr>"

definition get_data_x_start :: "timelines_renderer \<Rightarrow> pynum result" where
  "get_data_x_start self =
     res_bind (attr (left_width self)) (\<lambda>left.
     res_bind (attr (right_width self)) (\<lambda>right.
       Inr (num_quot (rows_padding self) 2 + left + rows_padding self + right + num_quot (rows_padding self) 2)))"

definition alphabet :: string where
  "alphabet = ''ABCDEFGHIJKLMNOPQRSTUVWXYZabcedefghijklmnopqrstuvwxyz0123456789''"

definition max_width :: "(string \<Rightarrow> extents) \<Rightarrow> string \<Rightarrow> pynum \<Rightarrow> pynum" where
  "max_width metrics name w = num_max w (PyFloat (text_width (metrics name)))"

definition timelines_layout ::
  "(string \<Rightarrow> extents) \<Rightarrow> pynum \<Rightarrow> timelines_renderer \<Rightarrow> timelines_renderer result" where
  "timelines_layout metrics width self =
     res_bind (attr (rows_timelines self)) (\<lambda>ts.
       (let padding = rows_padding self;
            max_text_height = PyFloat (text_height (metrics alphabet));
            (left_width, right_width, left_n_lines, range_n, eventint_n, eventstr_n) =
              fold (\<lambda>t (left, right, n, r, i, s).
                (max_width metrics (timeline_name t) left,
                 fold (\<lambda>e. max_width metrics (events_name e)) (timeline_event_str t)
                   (fold (\<lambda>e. max_width metrics (events_name e)) (timeline_event_int t)
                     (fold (\<lambda>rs. max_width metrics (ranges_name rs)) (timeline_ranges t) right)),
                 n + 1, r + int (length (timeline_ranges t)), i + int (length (timeline_event_int t)),
                 s + int (length (timeline_event_str t))))
              ts (0, 0, 0, 0, 0, 0);
            left_height = PyInt left_n_lines * max_text_height + PyInt (left_n_lines - 1) * padding;
            right_n_lines = range_n + eventint_n + eventstr_n;
            right_height = PyInt (right_n_lines - 1) * padding + PyInt right_n_lines * max_text_height;
            right_data_height = PyInt (eventint_n + eventstr_n) * (max_text_height + 5) + PyInt (range_n * 10);
            right_data_height = right_data_height + PyInt (right_n_lines - 1) * padding;
            height = num_max left_height right_height;
            height = num_max height right_data_height
        in Inr (self\<lparr>left_width := Some left_width, right_width := Some right_width,
             rows_text_height := Some max_text_height, rows_width := Some width,
             rows_height := Some (height + padding)\<rparr>)))"

definition draw_line :: "pynum \<Rightarrow> pynum \<Rightarrow> pynum \<Rightarrow> pynum \<Rightarrow> (canvas, unit) io" where
  "draw_line x y width height =
     emit [MoveTo x y, RelLineTo width height, ClosePath, SetOperatorSource, SetLineWidth (PyFloat 1), black, Stroke]"

text \<open>The grey band behind every other row.\<close>

definition draw_band ::
  "timelines_renderer \<Rightarrow> int \<Rightarrow> pynum \<Rightarrow> pynum \<Rightarrow> pynum \<Rightarrow> pynum \<Rightarrow> (canvas, unit) io" where
  "draw_band self grey_background x y width height =
     (if grey_background mod 2 = 0
      then emit [Rectangle x (y - num_quot (rows_padding self) 2) width (height + rows_padding self), grey, Fill]
      else io_return ())"

text \<open>A time in pixels of the data area: \<open>int(x + (t - start) * width / (end - start))\<close>.\<close>

definition x_pixel :: "pynum \<Rightarrow> pynum \<Rightarrow> pynum \<Rightarrow> pynum \<Rightarrow> pynum \<Rightarrow> int result" where
  "x_pixel x width start end t =
     res_bind (num_div ((t - start) * width) (end - start)) (\<lambda>q. Inr (num_int (x + q)))"

definition draw_event ::
  "timelines_renderer \<Rightarrow> ('v \<Rightarrow> string) \<Rightarrow> pynum \<Rightarrow> pynum \<Rightarrow> pynum \<Rightarrow> 'v event \<Rightarrow> int \<Rightarrow> (canvas, int) io" where
  "draw_event self show x y width e last_x_drawn =
     io_bind (io_lift (attr (rows_start self))) (\<lambda>start.
     io_bind (io_lift (attr (rows_end self))) (\<lambda>end.
     io_bind (io_lift (x_pixel x width start end (PyInt (event_at e)))) (\<lambda>real_x.
       if real_x > last_x_drawn + 2
       then io_bind (emit [Rectangle (PyInt real_x) y 1 1, SetRGB 1 0 0, Stroke]) (\<lambda>_.
            io_bind (io_lift (attr (rows_text_height self))) (\<lambda>max_text_height.
            io_bind (emit [MoveTo (PyInt real_x) (y + max_text_height), black, ShowText (show (event_value e))]) (\<lambda>_.
            io_return real_x)))
       else io_return last_x_drawn)))"

definition draw_events ::
  "timelines_renderer \<Rightarrow> ('v \<Rightarrow> string) \<Rightarrow> 'v timeline_event \<Rightarrow> pynum \<Rightarrow> pynum \<Rightarrow> pynum \<Rightarrow> pynum \<Rightarrow>
   int \<Rightarrow> (canvas, int) io" where
  "draw_events self show es x y width height grey_background =
     io_bind (draw_band self grey_background x y width height) (\<lambda>_.
     io_bind (io_lift (attr (rows_start self))) (\<lambda>start.
     io_bind (io_lift (attr (rows_end self))) (\<lambda>end.
       (let (lo, hi) = get_events_bounds es (num_val start) (num_val end)
        in io_bind (io_for_each (draw_event self show x y width) (py_slice (events es) lo hi) (num_int x)) (\<lambda>_.
           io_return (grey_background + 1))))))"

definition draw_range ::
  "timelines_renderer \<Rightarrow> pynum \<Rightarrow> pynum \<Rightarrow> pynum \<Rightarrow> data_range \<Rightarrow> int \<Rightarrow> (canvas, int) io" where
  "draw_range self x y width r last_x_drawn =
     io_bind (io_lift (attr (rows_start self))) (\<lambda>start.
     io_bind (io_lift (attr (rows_end self))) (\<lambda>end.
       (let s = num_max (PyInt (range_start r)) start; e = num_min (PyInt (range_end r)) end
        in io_bind (io_lift (x_pixel x width start end s)) (\<lambda>x_start.
           io_bind (io_lift (x_pixel x width start end e)) (\<lambda>x_end.
             if x_end > last_x_drawn
             then io_bind (emit [Rectangle (PyInt x_start) y (PyInt (x_end - x_start)) 10, black, StrokePreserve]) (\<lambda>_.
                  io_bind (look_up (range_value r)) (\<lambda>c.
                  io_bind (emit [set_color c, Fill]) (\<lambda>_.
                  io_return x_end)))
             else io_return last_x_drawn)))))"

definition draw_ranges ::
  "timelines_renderer \<Rightarrow> timeline_data_range \<Rightarrow> pynum \<Rightarrow> pynum \<Rightarrow> pynum \<Rightarrow> pynum \<Rightarrow> int \<Rightarrow> (canvas, int) io" where
  "draw_ranges self rs x y width height grey_background =
     io_bind (draw_band self grey_background x y width height) (\<lambda>_.
     io_bind (io_lift (attr (rows_start self))) (\<lambda>start.
     io_bind (io_lift (attr (rows_end self))) (\<lambda>end.
       (let (lo, hi) = get_ranges_bounds rs (num_val start) (num_val end)
        in io_bind (io_for_each (draw_range self x y width) (py_slice (ranges rs) lo hi) (num_int (x - 1))) (\<lambda>_.
           io_return (grey_background + 1))))))"

text \<open>
  The places of a picture: the left edges of the two name columns and of the data, the width of the
  data and the height of a line of text.
\<close>

record places =
  left_x_start :: pynum
  left_x_end :: pynum
  right_x_start :: pynum
  right_x_end :: pynum
  data_x_start :: pynum
  data_width :: pynum
  right_column :: pynum
  all_width :: pynum
  line_height :: pynum

definition row_places :: "timelines_renderer \<Rightarrow> places result" where
  "row_places self =
     res_bind (attr (left_width self)) (\<lambda>left_width.
     res_bind (attr (right_width self)) (\<lambda>right_width.
     res_bind (attr (rows_width self)) (\<lambda>width.
     res_bind (attr (rows_text_height self)) (\<lambda>max_text_height.
       (let padding = rows_padding self;
            left_x_start = num_quot padding 2;
            left_x_end = left_x_start + left_width;
            right_x_start = left_x_end + padding;
            right_x_end = right_x_start + right_width;
            data_x_start = right_x_end + num_quot padding 2;
            data_x_end = width;
            data_width = data_x_end - data_x_start
        in Inr \<lparr>left_x_start = left_x_start, left_x_end = left_x_end, right_x_start = right_x_start,
             right_x_end = right_x_end, data_x_start = data_x_start, data_width = data_width,
             right_column = right_width, all_width = width, line_height = max_text_height\<rparr>)))))"

text \<open>The name of a row at the height \<open>cur_y\<close>, and the line below the row.\<close>

definition draw_name :: "(string \<Rightarrow> extents) \<Rightarrow> places \<Rightarrow> pynum \<Rightarrow> pynum \<Rightarrow> string \<Rightarrow> (canvas, unit) io" where
  "draw_name metrics at_place x cur_y name =
     (let e = metrics name
      in emit [MoveTo x (cur_y + line_height at_place - (PyFloat (text_height e) + PyFloat (y_bearing e))),
           ShowText name])"

definition draw_row_line :: "timelines_renderer \<Rightarrow> places \<Rightarrow> pynum \<Rightarrow> (canvas, unit) io" where
  "draw_row_line self p cur_y =
     draw_line (right_x_start p - num_quot (rows_padding self) 2) (cur_y - num_quot (rows_padding self) 2)
       (right_column p + rows_padding self) 0"

definition draw_events_row ::
  "(string \<Rightarrow> extents) \<Rightarrow> timelines_renderer \<Rightarrow> places \<Rightarrow> ('v \<Rightarrow> string) \<Rightarrow> 'v timeline_event \<Rightarrow>
   pynum \<times> int \<Rightarrow> (canvas, pynum \<times> int) io" where
  "draw_events_row metrics self p show es s =
     (let (cur_y, grey_background) = s
      in io_bind (draw_name metrics p (right_x_start p) cur_y (events_name es)) (\<lambda>_.
         io_bind (draw_events self show es (data_x_start p) cur_y (data_width p) (line_height p + 5) grey_background) (\<lambda>grey_background.
           (let cur_y = cur_y + (line_height p + 5 + rows_padding self)
            in io_bind (draw_row_line self p cur_y) (\<lambda>_. io_return (cur_y, grey_background))))))"

definition draw_ranges_row ::
  "(string \<Rightarrow> extents) \<Rightarrow> timelines_renderer \<Rightarrow> places \<Rightarrow> timeline_data_range \<Rightarrow>
   pynum \<times> int \<Rightarrow> (canvas, pynum \<times> int) io" where
  "draw_ranges_row metrics self p rs s =
     (let (cur_y, grey_background) = s
      in io_bind (draw_name metrics p (right_x_start p) cur_y (ranges_name rs)) (\<lambda>_.
         io_bind (draw_ranges self rs (data_x_start p) cur_y (data_width p) 10 grey_background) (\<lambda>grey_background.
           (let cur_y = cur_y + (line_height p + rows_padding self)
            in io_bind (draw_row_line self p cur_y) (\<lambda>_. io_return (cur_y, grey_background))))))"

definition draw_timeline ::
  "(string \<Rightarrow> extents) \<Rightarrow> timelines_renderer \<Rightarrow> places \<Rightarrow> timeline \<Rightarrow> pynum \<times> int \<Rightarrow> (canvas, pynum \<times> int) io" where
  "draw_timeline metrics self p t s =
     io_bind (draw_name metrics p (left_x_start p) (fst s) (timeline_name t)) (\<lambda>_.
     io_bind (io_for_each (draw_events_row metrics self p int_str) (timeline_event_int t) s) (\<lambda>s.
     io_bind (io_for_each (draw_events_row metrics self p (\<lambda>v. v)) (timeline_event_str t) s) (\<lambda>s.
     io_bind (io_for_each (draw_ranges_row metrics self p) (timeline_ranges t) s) (\<lambda>s.
     io_bind (draw_line 0 (fst s - num_quot (rows_padding self) 2) (all_width p) 0) (\<lambda>_.
     io_return s)))))"

definition timelines_draw :: "(string \<Rightarrow> extents) \<Rightarrow> timelines_renderer \<Rightarrow> (canvas, unit) io" where
  "timelines_draw metrics self =
     io_bind (io_lift (row_places self)) (\<lambda>p.
     io_bind (draw_line 0 0 (all_width p) 0) (\<lambda>_.
     io_bind (io_lift (attr (rows_timelines self))) (\<lambda>ts.
     io_bind (io_for_each (draw_timeline metrics self p) ts (num_quot (rows_padding self) 2, 1)) (\<lambda>(cur_y, _).
       (let bot_y = cur_y - num_quot (rows_padding self) 2
        in io_bind (draw_line (left_x_end p + num_quot (rows_padding self) 2) 0 0 bot_y) (\<lambda>_.
             draw_line (right_x_end p + num_quot (rows_padding self) 2) 0 0 bot_y))))))"

section \<open>The scales\<close>

record scale_renderer =
  scale_top :: bool
  scale_lo :: "pynum option"
  scale_hi :: "pynum option"
  scale_delta :: "pynum option"
  scale_width :: "pynum option"
  scale_height :: "pynum option"

definition new_scale :: scale_renderer where
  "new_scale = \<lparr>scale_top = False, scale_lo = None, scale_hi = None, scale_delta = None, scale_width = None,
     scale_height = None\<rparr>"

definition set_bounds :: "pynum \<Rightarrow> pynum \<Rightarrow> scale_renderer \<Rightarrow> scale_renderer" where
  "set_bounds lo hi self = self\<lparr>scale_lo := Some lo, scale_hi := Some hi\<rparr>"

definition set_top :: "scale_renderer \<Rightarrow> scale_renderer" where
  "set_top self = self\<lparr>scale_top := True\<rparr>"

definition set_bot :: "scale_renderer \<Rightarrow> scale_renderer" where
  "set_bot self = self\<lparr>scale_top := False\<rparr>"

definition get_position :: "scale_renderer \<Rightarrow> pynum \<Rightarrow> pynum result" where
  "get_position self x =
     res_bind (attr (scale_lo self)) (\<lambda>lo.
     res_bind (attr (scale_width self)) (\<lambda>width.
     res_bind (attr (scale_hi self)) (\<lambda>hi. num_div ((x - lo) * width) (hi - lo))))"

text \<open>\<open>while closest * 10 < data_delta: closest *= 10\<close>\<close>

function closest_power :: "rat \<Rightarrow> int \<Rightarrow> int" where
  "closest_power data_delta closest =
     (if closest > 0 \<and> of_int (closest * 10) < data_delta then closest_power data_delta (closest * 10) else closest)"
  by pat_completeness auto
termination
proof (relation "measure (\<lambda>(d, c). nat (\<lceil>d\<rceil> - c))")
  fix d :: rat and c :: int
  assume "c > 0 \<and> of_int (c * 10) < d"
  then have "c * 10 < \<lceil>d\<rceil>" "c > 0" by (simp_all add: less_ceiling_iff)
  then show "((d, c * 10), d, c) \<in> measure (\<lambda>(d, c). nat (\<lceil>d\<rceil> - c))" by simp
qed simp

declare closest_power.simps [simp del]

text \<open>The distance of two ticks: a power of ten, which an exact quotient 1 divides by ten.\<close>

definition scale_step :: "pynum \<Rightarrow> pynum \<Rightarrow> pynum" where
  "scale_step lo hi =
     (let data_delta = hi - lo;
          closest = PyInt (closest_power (num_val data_delta) 1)
      in if num_val (num_quot data_delta closest) = 0 then closest
         else if num_val (num_quot data_delta closest) = 1 then num_quot closest 10
         else closest)"

definition scale_layout :: "(string \<Rightarrow> extents) \<Rightarrow> pynum \<Rightarrow> scale_renderer \<Rightarrow> scale_renderer result" where
  "scale_layout metrics width self =
     res_bind (attr (scale_hi self)) (\<lambda>hi.
     res_bind (attr (scale_lo self)) (\<lambda>lo.
       (let delta = scale_step lo hi
        in res_bind (num_mod lo delta) (\<lambda>_.
           res_bind (num_mod hi delta) (\<lambda>_.
             Inr (self\<lparr>scale_delta := Some delta, scale_width := Some width,
               scale_height := Some (PyFloat (text_height (metrics alphabet)) + 10)\<rparr>))))))"

text \<open>The ticks of a distance \<open>delta\<close>: \<open>range(int(start), int(end + delta), int(delta))\<close>.\<close>

definition scale_ticks :: "pynum \<Rightarrow> pynum \<Rightarrow> pynum \<Rightarrow> int list result" where
  "scale_ticks lo hi delta =
     res_bind (num_mod lo delta) (\<lambda>lo_rem.
     res_bind (num_mod hi delta) (\<lambda>hi_rem.
       (let start = lo - lo_rem + delta; end = hi - hi_rem
        in Inr (py_range (num_int start) (num_int (end + delta)) (num_int delta)))))"

definition draw_tick ::
  "(string \<Rightarrow> extents) \<Rightarrow> scale_renderer \<Rightarrow> pynum \<Rightarrow> int \<Rightarrow> unit \<Rightarrow> (canvas, unit) io" where
  "draw_tick metrics self s x _ =
     io_bind (io_lift (get_position self (PyInt x))) (\<lambda>real_x.
     io_bind (emit [MoveTo real_x 0, LineTo real_x (5 * s), ClosePath, Stroke]) (\<lambda>_.
       (let e = metrics (int_str x);
            text_delta = (if scale_top self then PyFloat (text_height e) + PyFloat (y_bearing e)
                          else - PyFloat (y_bearing e))
        in emit [MoveTo (real_x - num_quot (PyFloat (text_width e)) 2) ((5 + 5 + text_delta) * s),
             ShowText (int_str x)])))"

definition draw_subtick :: "scale_renderer \<Rightarrow> pynum \<Rightarrow> int \<Rightarrow> unit \<Rightarrow> (canvas, unit) io" where
  "draw_subtick self s x _ =
     io_bind (io_lift (get_position self (PyInt x))) (\<lambda>real_x.
       emit [MoveTo real_x 0, LineTo real_x (3 * s), ClosePath, Stroke])"

definition scale_draw :: "(string \<Rightarrow> extents) \<Rightarrow> scale_renderer \<Rightarrow> (canvas, unit) io" where
  "scale_draw metrics self =
     io_bind (io_lift (attr (scale_delta self))) (\<lambda>delta.
     io_bind (io_lift (attr (scale_lo self))) (\<lambda>lo.
     io_bind (io_lift (attr (scale_hi self))) (\<lambda>hi.
     io_bind (io_lift (scale_ticks lo hi delta)) (\<lambda>ticks.
       (let s = (if scale_top self then PyInt (-1) else 1)
        in io_bind (emit [black, SetLineWidth (PyFloat 1)]) (\<lambda>_.
           io_bind (io_for_each (draw_tick metrics self s) ticks ()) (\<lambda>_.
             (let delta = num_quot delta 10
              in if delta > 0
                 then io_bind (io_lift (scale_ticks lo hi delta)) (\<lambda>subticks.
                        io_for_each (draw_subtick self s) subticks ())
                 else io_return ()))))))))"

section \<open>The ticks of a scale\<close>

lemma closest_power_spec:
  assumes "c > 0"
  shows "\<exists>k. closest_power d c = c * 10 ^ k \<and> d \<le> of_int (closest_power d c * 10) \<and>
    (k = 0 \<or> of_int (closest_power d c) < d)"
  using assms
proof (induction d c rule: closest_power.induct)
  case (1 d c)
  show ?case
  proof (cases "of_int (c * 10) < d")
    case True
    with 1 have "\<exists>k. closest_power d (c * 10) = c * 10 * 10 ^ k \<and> d \<le> of_int (closest_power d (c * 10) * 10) \<and>
        (k = 0 \<or> of_int (closest_power d (c * 10)) < d)" by simp
    then obtain k where k: "closest_power d (c * 10) = c * 10 * 10 ^ k" "d \<le> of_int (closest_power d (c * 10) * 10)"
      "k = 0 \<or> of_int (closest_power d (c * 10)) < d" by blast
    have "closest_power d c = closest_power d (c * 10)" using True 1(2) by (subst closest_power.simps) simp
    with k True show ?thesis by (intro exI [of _ "Suc k"]) auto
  next
    case False
    then have "closest_power d c = c" by (subst closest_power.simps) simp
    with False show ?thesis by (intro exI [of _ 0]) simp
  qed
qed

lemma num_quot_cases:
  assumes "c > 0"
  shows "num_val (num_quot a (PyInt c)) = 0 \<Longrightarrow> 0 \<le> num_val a \<and> num_val a < of_int c"
    and "num_val (num_quot a (PyInt c)) = 1 \<Longrightarrow> of_int c \<le> num_val a \<and> num_val a < 2 * of_int c"
    and "num_val a = of_int c \<Longrightarrow> num_val (num_quot a (PyInt c)) = 1"
proof -
  have i: "i = (i div c) * c + i mod c" "0 \<le> i mod c" "i mod c < c" for i using assms by simp_all
  show "num_val (num_quot a (PyInt c)) = 0 \<Longrightarrow> 0 \<le> num_val a \<and> num_val a < of_int c"
  proof (cases a)
    case (PyInt n)
    assume "num_val (num_quot a (PyInt c)) = 0"
    then have "n div c = 0" by (simp add: num_quot_def PyInt)
    then have "0 \<le> n" "n < c" using i [of n] by simp_all
    then show ?thesis by (simp add: PyInt)
  qed (use assms in \<open>simp add: num_quot_def\<close>)
  show "num_val (num_quot a (PyInt c)) = 1 \<Longrightarrow> of_int c \<le> num_val a \<and> num_val a < 2 * of_int c"
  proof (cases a)
    case (PyInt n)
    assume "num_val (num_quot a (PyInt c)) = 1"
    then have "n div c = 1" by (simp add: num_quot_def PyInt)
    then have "c \<le> n" "n < 2 * c" using i [of n] by simp_all
    then have "rat_of_int c \<le> rat_of_int n" "rat_of_int n < rat_of_int (2 * c)" by (simp_all only: of_int_le_iff of_int_less_iff)
    then show ?thesis by (simp add: PyInt)
  qed (use assms in \<open>simp add: num_quot_def divide_eq_eq\<close>)
  show "num_val a = of_int c \<Longrightarrow> num_val (num_quot a (PyInt c)) = 1"
    using assms by (cases a) (auto simp: num_quot_def)
qed

lemma numeral_pynum: "numeral n = PyInt (numeral n)"
  by (induction n) (simp_all only: numeral.simps one_pynum_def plus_pynum_def num_lift.simps)

lemma scale_step_spec:
  fixes hi lo :: pynum
  defines "dd \<equiv> num_val hi - num_val lo"
  shows "dd = 1 \<and> scale_step lo hi = PyInt 0 \<or>
    dd \<noteq> 1 \<and> (\<exists>k. scale_step lo hi = PyInt (10 ^ k) \<and> dd \<le> 20 * 10 ^ k \<and> (1 < dd \<longrightarrow> 10 ^ k \<le> dd))"
proof -
  let ?c = "closest_power dd 1" and ?q = "num_val (num_quot (hi - lo) (PyInt (closest_power dd 1)))"
  have dd: "num_val (hi - lo) = dd" by (simp add: dd_def)
  obtain k where k: "?c = 10 ^ k" "dd \<le> 10 * 10 ^ k" "k = 0 \<or> 10 ^ k < dd"
  proof -
    assume thesis: "\<And>k. ?c = 10 ^ k \<Longrightarrow> dd \<le> 10 * 10 ^ k \<Longrightarrow> k = 0 \<or> 10 ^ k < dd \<Longrightarrow> thesis"
    from closest_power_spec [OF zero_less_one, of dd]
    obtain k where "?c = 1 * 10 ^ k" "dd \<le> of_int (?c * 10)" "k = 0 \<or> of_int ?c < dd" by blast
    then show thesis by (intro thesis [of k]) simp_all
  qed
  have pos: "?c > 0" using k(1) by simp
  have step: "scale_step lo hi = (if ?q = 1 then num_quot (PyInt ?c) 10 else PyInt ?c)"
    unfolding scale_step_def Let_def dd by simp
  have ten: "num_quot (PyInt n) 10 = PyInt (n div 10)" for n
    by (simp add: num_quot_def numeral_pynum)
  show ?thesis
  proof (cases "?q = 1")
    case False
    have "dd \<noteq> 1"
    proof
      assume one: "dd = 1"
      then have "k = 0" using k(3) by (simp add: leD)
      then show False using False num_quot_cases(3) [OF pos, of "hi - lo"] dd k(1) one by simp
    qed
    moreover have "scale_step lo hi = PyInt (10 ^ k)" using step False k(1) by simp
    moreover have "1 < dd \<longrightarrow> 10 ^ k \<le> dd" using k(3) by auto
    moreover have "dd \<le> 20 * 10 ^ k" by (rule order_trans [OF k(2)]) simp
    ultimately show ?thesis by (intro disjI2 conjI exI [of _ k])
  next
    case True
    then have between: "10 ^ k \<le> dd" "dd < 2 * 10 ^ k"
      using num_quot_cases(2) [OF pos True] dd k(1) by simp_all
    show ?thesis
    proof (cases k)
      case 0
      then have "dd = 1" using True k(1) by (cases "hi - lo") (auto simp: num_quot_def simp flip: dd)
      moreover have "scale_step lo hi = PyInt 0" using step True k(1) 0 by (simp add: ten)
      ultimately show ?thesis by simp
    next
      case (Suc m)
      then have "scale_step lo hi = PyInt (10 ^ m)" using step True k(1) by (simp add: ten)
      moreover have "dd > 1"
        using between(1) Suc one_le_power [of "10 :: rat" m] by (simp only: power_Suc) linarith
      moreover have "10 * 10 ^ m \<le> dd" using between(1) Suc by simp
      ultimately show ?thesis using between(2) Suc by (intro disjI2 conjI exI [of _ m]) simp_all
    qed
  qed
qed

lemma num_rem_floor: "d > 0 \<Longrightarrow> num_val (num_rem a (PyInt d)) = num_val a - of_int (\<lfloor>num_val a / of_int d\<rfloor> * d)"
  by (cases a) (simp_all add: num_rem_def floor_divide_of_int_eq minus_div_mult_eq_mod [symmetric])

lemma num_int_of_int: "num_val a = of_int i \<Longrightarrow> num_int a = i"
  by (simp add: num_int_def)

lemma py_range_multiples:
  assumes "d > 0"
  shows "py_range (d * (a + 1)) (d * (b + 1)) d = map (\<lambda>j. d * j) [a + 1..b]"
proof -
  have "(d * (b + 1) - d * (a + 1) + d - 1) div d = b - a"
  proof -
    have "d * (b + 1) - d * (a + 1) + d - 1 = (d - 1) + (b - a) * d" by (simp add: algebra_simps)
    then show ?thesis using assms by (simp only: div_mult_self1) simp
  qed
  then show ?thesis
    by (simp add: py_range_def) (rule nth_equalityI, auto simp: algebra_simps)
qed

lemma scale_ticks_multiples:
  assumes "d > 0"
  shows "scale_ticks lo hi (PyInt d) =
    Inr (map (\<lambda>j. d * j) [\<lfloor>num_val lo / of_int d\<rfloor> + 1..\<lfloor>num_val hi / of_int d\<rfloor>])"
proof -
  have ints: "num_int (lo - num_rem lo (PyInt d) + PyInt d) = d * (\<lfloor>num_val lo / of_int d\<rfloor> + 1)"
    "num_int (hi - num_rem hi (PyInt d) + PyInt d) = d * (\<lfloor>num_val hi / of_int d\<rfloor> + 1)"
    "num_int (PyInt d) = d"
    using assms by (intro num_int_of_int; simp add: num_rem_floor algebra_simps)+
  show ?thesis
    unfolding scale_ticks_def using assms
    by (simp only: num_mod_def ints Let_def res_bind.simps py_range_multiples) (simp add: ints py_range_multiples)
qed

lemma set_multiples:
  fixes d :: int and lo hi :: rat
  assumes "d > 0"
  shows "set (map (\<lambda>j. d * j) [\<lfloor>lo / of_int d\<rfloor> + 1..\<lfloor>hi / of_int d\<rfloor>]) = {x. d dvd x \<and> lo < of_int x \<and> of_int x \<le> hi}"
proof -
  have "lo < of_int (d * j) \<longleftrightarrow> \<lfloor>lo / of_int d\<rfloor> + 1 \<le> j" "of_int (d * j) \<le> hi \<longleftrightarrow> j \<le> \<lfloor>hi / of_int d\<rfloor>" for j
    using assms by (simp_all add: floor_less_iff le_floor_iff pos_divide_less_eq pos_le_divide_eq mult.commute
        add1_zle_eq)
  then show ?thesis by (auto simp: dvd_def image_def)
qed

lemma multiples_count:
  fixes d :: int and lo hi :: rat
  assumes "d > 0" "hi - lo \<le> 20 * of_int d"
  shows "length [\<lfloor>lo / of_int d\<rfloor> + 1..\<lfloor>hi / of_int d\<rfloor>] \<le> 20"
proof -
  have "hi / of_int d \<le> (lo + 20 * of_int d) / of_int d" using assms by (intro divide_right_mono) simp_all
  then have "hi / of_int d \<le> lo / of_int d + 20" using assms(1) by (simp add: add_divide_distrib)
  then have "\<lfloor>hi / of_int d\<rfloor> \<le> \<lfloor>lo / of_int d + 20\<rfloor>" by (rule floor_mono)
  then show ?thesis by simp
qed

lemma multiples_nonempty:
  fixes d :: int and lo hi :: rat
  assumes "d > 0" "of_int d \<le> hi - lo"
  shows "[\<lfloor>lo / of_int d\<rfloor> + 1..\<lfloor>hi / of_int d\<rfloor>] \<noteq> []"
proof -
  have "(lo + of_int d) / of_int d \<le> hi / of_int d" using assms by (intro divide_right_mono) simp_all
  then have "lo / of_int d + 1 \<le> hi / of_int d" using assms(1) by (simp add: add_divide_distrib)
  then have "\<lfloor>lo / of_int d + 1\<rfloor> \<le> \<lfloor>hi / of_int d\<rfloor>" by (rule floor_mono)
  then show ?thesis by simp
qed

lemma sorted_upto_map: "d > 0 \<Longrightarrow> sorted_wrt (<) (map (\<lambda>j. d * j) [a..b])" for d :: int
  by (induction a b rule: upto.induct) (subst upto.simps, auto)

text \<open>
  \<^bold>\<open>C32: ticks of a scale.\<close> Laying out a scale fails, with \<open>ZeroDivisionError\<close>, exactly when its two
  bounds are one apart. Otherwise the distance of the ticks is a power of ten, and the ticks drawn are, in
  increasing order, the multiples of it above the lower bound and up to the upper one. There are never
  more than twenty, and at least one when the bounds are more than one apart.
\<close>

theorem scale_ticks_exact:
  assumes "scale_lo self = Some lo" and "scale_hi self = Some hi"
  shows "if num_val hi - num_val lo = 1 then scale_layout metrics width self = Inl ZeroDivisionError
    else \<exists>k self' ticks. scale_layout metrics width self = Inr self' \<and>
      scale_delta self' = Some (PyInt (10 ^ k)) \<and> scale_ticks lo hi (PyInt (10 ^ k)) = Inr ticks \<and>
      sorted_wrt (<) ticks \<and> set ticks = {x. 10 ^ k dvd x \<and> num_val lo < of_int x \<and> of_int x \<le> num_val hi} \<and>
      length ticks \<le> 20 \<and> (1 < num_val hi - num_val lo \<longrightarrow> ticks \<noteq> [])"
proof (cases "num_val hi - num_val lo = 1")
  case True
  then have "scale_step lo hi = PyInt 0" using scale_step_spec [of hi lo] by auto
  with True show ?thesis by (simp add: scale_layout_def attr_def assms num_mod_def)
next
  case False
  then obtain k where k: "scale_step lo hi = PyInt (10 ^ k)" "num_val hi - num_val lo \<le> 20 * 10 ^ k"
    "1 < num_val hi - num_val lo \<longrightarrow> 10 ^ k \<le> num_val hi - num_val lo" using scale_step_spec [of hi lo] by auto
  let ?ticks = "map (\<lambda>j. 10 ^ k * j) [\<lfloor>num_val lo / of_int (10 ^ k)\<rfloor> + 1..\<lfloor>num_val hi / of_int (10 ^ k)\<rfloor>]"
  have pos: "(0 :: int) < 10 ^ k" by simp
  let ?self = "self\<lparr>scale_delta := Some (PyInt (10 ^ k)), scale_width := Some width,
    scale_height := Some (PyFloat (text_height (metrics alphabet)) + 10)\<rparr>"
  have "scale_layout metrics width self = Inr ?self"
    by (simp add: scale_layout_def attr_def assms num_mod_def k(1) Let_def)
  moreover have "scale_ticks lo hi (PyInt (10 ^ k)) = Inr ?ticks" using pos by (rule scale_ticks_multiples)
  moreover have "sorted_wrt (<) ?ticks" using pos by (rule sorted_upto_map)
  moreover have "set ?ticks = {x. 10 ^ k dvd x \<and> num_val lo < of_int x \<and> of_int x \<le> num_val hi}"
    using pos by (rule set_multiples)
  moreover have "length ?ticks \<le> 20" using multiples_count [OF pos, of "num_val hi" "num_val lo"] k(2) by simp
  moreover have "1 < num_val hi - num_val lo \<longrightarrow> ?ticks \<noteq> []"
    using multiples_nonempty [OF pos, of "num_val hi" "num_val lo"] k(3) by simp
  moreover have "scale_delta ?self = Some (PyInt (10 ^ k))" by simp
  ultimately show ?thesis using False by auto
qed

definition plain_metrics :: "string \<Rightarrow> extents" where
  "plain_metrics s = \<lparr>x_bearing = 0, y_bearing = -8, text_width = of_nat (6 * length s), text_height = 10\<rparr>"

lemma scale_ticks_exact_witness:
  "scale_layout plain_metrics 200 (set_bounds 7 8 new_scale) = Inl ZeroDivisionError \<and>
   (\<exists>k ticks. scale_ticks 7 60 (PyInt (10 ^ k)) = Inr ticks \<and> length ticks \<le> 20 \<and> ticks \<noteq> [])"
  using scale_ticks_exact [of "set_bounds 7 8 new_scale" 7 8 plain_metrics 200]
    scale_ticks_exact [of "set_bounds 7 60 new_scale" 7 60 plain_metrics 200]
  by (auto simp: set_bounds_def)

section \<open>The places of the legend\<close>

text \<open>Where the items are put, and the box an item takes: its corner, its width and its height.\<close>

fun legend_spots ::
  "(string \<Rightarrow> extents) \<Rightarrow> pynum \<Rightarrow> pynum \<Rightarrow> string list \<Rightarrow> pynum \<times> pynum \<times> pynum \<Rightarrow> (pynum \<times> pynum) list" where
  "legend_spots metrics padding width [] s = []"
| "legend_spots metrics padding width (n # ns) s =
     (let (x, s) = place_legend padding width (metrics n) s
      in (x, fst (snd s)) # legend_spots metrics padding width ns s)"

type_synonym box = "rat \<times> rat \<times> rat \<times> rat"

definition legend_box :: "(string \<Rightarrow> extents) \<Rightarrow> pynum \<Rightarrow> string \<Rightarrow> pynum \<times> pynum \<Rightarrow> box" where
  "legend_box metrics padding n spot =
     (num_val (fst spot), num_val (snd spot), 3 * num_val padding + text_width (metrics n),
      text_height (metrics n) + num_val padding)"

text \<open>One box stands left of another on the same line, or above it.\<close>

definition box_before :: "box \<Rightarrow> box \<Rightarrow> bool" where
  "box_before a b \<longleftrightarrow> (case (a, b) of ((x, y, w, h), (x', y', w', h')) \<Rightarrow> (y = y' \<and> x + w \<le> x') \<or> y + h \<le> y')"

definition box_inside :: "rat \<Rightarrow> rat \<Rightarrow> rat \<Rightarrow> box \<Rightarrow> bool" where
  "box_inside padding width height b \<longleftrightarrow>
     (case b of (x, y, w, h) \<Rightarrow> padding \<le> x \<and> (x + w \<le> width \<or> x = padding) \<and> padding \<le> y \<and> y + h \<le> height)"

definition proper_metrics :: "(string \<Rightarrow> extents) \<Rightarrow> string list \<Rightarrow> bool" where
  "proper_metrics metrics names \<longleftrightarrow> list_all (\<lambda>n. 0 \<le> text_width (metrics n) \<and> 0 \<le> text_height (metrics n)) names"

lemma place_legend_facts:
  assumes "place_legend padding width e (lh, th, lu) = (x, lh', th', lu')"
  defines "w \<equiv> 3 * num_val padding + text_width e"
  shows "num_val lh \<le> num_val lh'" "text_height e + num_val padding \<le> num_val lh'"
    "num_val x = num_val lu' - w"
    "num_val lu + w \<le> num_val width \<and> th' = th \<and> num_val lu' = num_val lu + w \<or>
     num_val th' = num_val th + num_val lh' \<and> num_val lu' = num_val padding + w"
  using assms(1) by (auto simp: place_legend_def Let_def w_def split: if_splits)

text \<open>What the loop does from a state on: the boxes and the height reached.\<close>

definition legend_loop ::
  "(string \<Rightarrow> extents) \<Rightarrow> pynum \<Rightarrow> pynum \<Rightarrow> string list \<Rightarrow> pynum \<times> pynum \<times> pynum \<Rightarrow> pynum \<times> pynum \<times> pynum" where
  "legend_loop metrics padding width names s =
     fold (\<lambda>n s. snd (place_legend padding width (metrics n) s)) names s"

definition boxes ::
  "(string \<Rightarrow> extents) \<Rightarrow> pynum \<Rightarrow> pynum \<Rightarrow> string list \<Rightarrow> pynum \<times> pynum \<times> pynum \<Rightarrow> box list" where
  "boxes metrics padding width names s =
     map2 (legend_box metrics padding) names (legend_spots metrics padding width names s)"

lemma boxes_placed:
  assumes "proper_metrics metrics names" "legend_loop metrics padding width names (lh, th, lu) = (lh', th', lu')"
    and "num_val padding \<le> num_val lu" "num_val padding \<ge> 0" "num_val padding \<le> num_val th" "num_val lh \<ge> 0"
  shows "num_val lh \<le> num_val lh' \<and> num_val th \<le> num_val th' \<and>
    list_all (\<lambda>(x, y, w, h). (y = num_val th \<and> num_val lu \<le> x) \<or> num_val th + num_val lh \<le> y)
      (boxes metrics padding width names (lh, th, lu)) \<and>
    list_all (box_inside (num_val padding) (num_val width) (num_val th' + num_val lh'))
      (boxes metrics padding width names (lh, th, lu)) \<and>
    sorted_wrt box_before (boxes metrics padding width names (lh, th, lu))"
  using assms
proof (induction names arbitrary: lh th lu)
  case Nil
  then show ?case by (simp add: boxes_def legend_loop_def)
next
  case (Cons n ns)
  obtain x lh1 th1 lu1 where p: "place_legend padding width (metrics n) (lh, th, lu) = (x, lh1, th1, lu1)"
    by (metis prod_cases4)
  note facts = place_legend_facts [OF p]
  have tail: "boxes metrics padding width (n # ns) (lh, th, lu) =
      legend_box metrics padding n (x, th1) # boxes metrics padding width ns (lh1, th1, lu1)"
    by (simp add: boxes_def p)
  have w: "0 \<le> text_width (metrics n)" "0 \<le> text_height (metrics n)" "proper_metrics metrics ns"
    using Cons.prems(1) by (simp_all add: proper_metrics_def)
  have loop: "legend_loop metrics padding width ns (lh1, th1, lu1) = (lh', th', lu')"
    using Cons.prems(2) by (simp add: legend_loop_def p)
  have le: "num_val padding \<le> num_val lu1" "num_val padding \<le> num_val th1" "0 \<le> num_val lh1"
    using facts Cons.prems w(1) by auto
  note IH = Cons.IH [OF w(3) loop le(1) Cons.prems(4) le(2,3)]
  let ?B = "boxes metrics padding width ns (lh1, th1, lu1)"
  have near: "(y = num_val th1 \<and> num_val lu1 \<le> x') \<or> num_val th1 + num_val lh1 \<le> y"
    if "(x', y, w', h') \<in> set ?B" for x' y w' h'
    using IH that by (fastforce simp: list_all_iff)
  have mono: "num_val lh \<le> num_val lh1" "num_val lh1 \<le> num_val lh'" "num_val th \<le> num_val th1"
    "num_val th1 \<le> num_val th'" "num_val lh1 \<le> num_val th1 - num_val th \<or> th1 = th \<and> num_val lu \<le> num_val lu1"
    using IH facts Cons.prems w(1) by auto
  have "(y = num_val th \<and> num_val lu \<le> x') \<or> num_val th + num_val lh \<le> y"
    if "(x', y, w', h') \<in> set ?B" for x' y w' h'
    using near [OF that] mono Cons.prems(6) by auto
  moreover have "(num_val th1 = num_val th \<and> num_val lu \<le> num_val x) \<or> num_val th + num_val lh \<le> num_val th1"
    using facts by auto
  moreover have "box_inside (num_val padding) (num_val width) (num_val th' + num_val lh') (legend_box metrics padding n (x, th1))"
    using facts mono le Cons.prems w by (auto simp: box_inside_def legend_box_def)
  moreover have "box_before (legend_box metrics padding n (x, th1)) b" if "b \<in> set ?B" for b
  proof -
    obtain x' y' w' h' where b: "b = (x', y', w', h')" by (cases b)
    show ?thesis using near [of x' y' w' h'] that facts(2,3) unfolding b by (auto simp: box_before_def legend_box_def)
  qed
  ultimately show ?case
    using IH mono unfolding tail by (auto simp: legend_box_def list_all_iff)
qed

text \<open>The commands that draw one item.\<close>

definition legend_cmds :: "(string \<Rightarrow> extents) \<Rightarrow> pynum \<Rightarrow> string \<Rightarrow> color \<Rightarrow> pynum \<times> pynum \<Rightarrow> draw_cmd list" where
  "legend_cmds metrics padding n c spot =
     [Rectangle (fst spot) (snd spot) padding padding, black, SetLineWidth 2, StrokePreserve, set_color c, Fill,
      MoveTo (fst spot + padding * 2) (snd spot + PyFloat (text_height (metrics n))), black, ShowText n]"

lemma draw_legend_loop:
  assumes "legend_width self = Some width" "legend_colors self = Some cols" "i + length names \<le> length cols"
  shows "\<exists>t. io_for_each (draw_legend metrics self) names (int i, s) c =
    (Inr t, c\<lparr>drawn := drawn c @ concat (map2 (\<lambda>(n, col). legend_cmds metrics (legend_padding self) n col)
        (zip names (drop i cols)) (legend_spots metrics (legend_padding self) width names s))\<rparr>)"
  using assms(3)
proof (induction names arbitrary: i s c)
  case Nil
  then show ?case by (cases s) (simp add: io_return_def)
next
  case (Cons n ns)
  obtain lh th lu where s: "s = (lh, th, lu)" by (cases s)
  obtain x lh1 th1 lu1 where p: "place_legend (legend_padding self) width (metrics n) (lh, th, lu) = (x, lh1, th1, lu1)"
    by (metis prod_cases4)
  let ?c = "c\<lparr>drawn := drawn c @ legend_cmds metrics (legend_padding self) n (cols ! i) (x, th1)\<rparr>"
  have "draw_legend metrics self n (int i, s) c = (Inr (int (Suc i), lh1, th1, lu1), ?c)"
    using Cons.prems assms(1,2) py_get_nat [of i cols]
    by (simp add: draw_legend_def s p attr_def io_bind_def io_lift_def io_return_def emit_def Let_def legend_cmds_def add.commute)
  moreover have "drop i cols = cols ! i # drop (Suc i) cols" using Cons.prems by (simp add: Cons_nth_drop_Suc)
  moreover obtain t where "io_for_each (draw_legend metrics self) ns (int (Suc i), lh1, th1, lu1) ?c = (Inr t, ?c\<lparr>drawn := drawn ?c @
      concat (map2 (\<lambda>(n, col). legend_cmds metrics (legend_padding self) n col)
        (zip ns (drop (Suc i) cols)) (legend_spots metrics (legend_padding self) width ns (lh1, th1, lu1)))\<rparr>)"
    using Cons.IH [of "Suc i" "(lh1, th1, lu1)" ?c] Cons.prems by auto
  ultimately show ?case
    by (intro exI [of _ t]) (simp add: io_bind_def s p)
qed

text \<open>
  \<^bold>\<open>C33: the legend.\<close> Once the legend is laid out, drawing it succeeds and draws each item at its own
  place. The box of an item is as wide and high as \<open>layout\<close> counts it: three paddings and the width of the
  text, one padding and the height of the text. The boxes stay between the top padding and the computed
  height and right of the left padding, and no two of them overlap: of two items the earlier one is left of
  the later on the same line or ends above it. A box ends before the right edge unless it is too wide for a
  line: then it starts at the left padding and runs past the right edge.
\<close>

theorem legend_fits:
  assumes "legends self = Some names" and "legend_colors self = Some cols" and "length names \<le> length cols"
    and "0 \<le> num_val (legend_padding self)" and "proper_metrics metrics names"
  shows "\<exists>height spots. top_legend_layout metrics width self =
      Inr (self\<lparr>legend_width := Some width, legend_height := Some height\<rparr>) \<and>
    length spots = length names \<and>
    (\<forall>c. top_legend_draw metrics (self\<lparr>legend_width := Some width, legend_height := Some height\<rparr>) c =
      (Inr (), c\<lparr>drawn := drawn c @ concat (map2 (\<lambda>(n, col). legend_cmds metrics (legend_padding self) n col)
        (zip names cols) spots)\<rparr>)) \<and>
    list_all (box_inside (num_val (legend_padding self)) (num_val width) (num_val height))
      (map2 (legend_box metrics (legend_padding self)) names spots) \<and>
    sorted_wrt box_before (map2 (legend_box metrics (legend_padding self)) names spots)"
proof -
  let ?p = "legend_padding self"
  let ?spots = "legend_spots metrics ?p width names (0, ?p, ?p)"
  obtain lh th lu where loop: "legend_loop metrics ?p width names (0, ?p, ?p) = (lh, th, lu)"
    by (cases "legend_loop metrics ?p width names (0, ?p, ?p)")
  let ?self = "self\<lparr>legend_width := Some width, legend_height := Some (th + lh)\<rparr>"
  have layout: "top_legend_layout metrics width self = Inr ?self"
    using loop by (simp add: top_legend_layout_def assms(1) attr_def legend_loop_def Let_def)
  have len: "length (legend_spots metrics ?p width ns s) = length ns" for ns s
    by (induction ns arbitrary: s) (simp_all add: case_prod_beta)
  have draw: "top_legend_draw metrics ?self c = (Inr (), c\<lparr>drawn := drawn c @
      concat (map2 (\<lambda>(n, col). legend_cmds metrics ?p n col) (zip names cols) ?spots)\<rparr>)" for c
    using draw_legend_loop [of ?self width cols 0 names metrics "(0, ?p, ?p)" c] assms(1-3)
    by (auto simp: top_legend_draw_def attr_def io_bind_def io_lift_def io_return_def)
  have placed: "list_all (box_inside (num_val ?p) (num_val width) (num_val (th + lh))) (map2 (legend_box metrics ?p) names ?spots)"
    "sorted_wrt box_before (map2 (legend_box metrics ?p) names ?spots)"
    using boxes_placed [OF assms(5) loop] assms(4) by (simp_all add: boxes_def)
  show ?thesis
    using layout len [of names "(0, ?p, ?p)"] draw placed by (intro exI [of _ "th + lh"] exI [of _ ?spots]) blast
qed

definition two_legends :: top_legend where
  "two_legends = set_legends [''busy'', ''idle''] [rgb 1 0 0, rgb 0 1 0] new_top_legend"

lemma legend_fits_witness:
  "\<exists>height spots. top_legend_layout plain_metrics 60 two_legends =
      Inr (two_legends\<lparr>legend_width := Some 60, legend_height := Some height\<rparr>) \<and> length spots = 2 \<and>
    sorted_wrt box_before (map2 (legend_box plain_metrics 10) [''busy'', ''idle''] spots)"
proof -
  have "legends two_legends = Some [''busy'', ''idle'']" "legend_colors two_legends = Some [rgb 1 0 0, rgb 0 1 0]"
    "legend_padding two_legends = 10" by (simp_all add: two_legends_def set_legends_def new_top_legend_def)
  moreover have "proper_metrics plain_metrics [''busy'', ''idle'']" by (simp add: proper_metrics_def plain_metrics_def)
  ultimately show ?thesis using legend_fits [of two_legends "[''busy'', ''idle'']" "[rgb 1 0 0, rgb 0 1 0]" plain_metrics 60]
    by (simp add: numeral_2_eq_2) blast
qed

section \<open>The rows of the timelines\<close>

text \<open>
  A drawing step that succeeds from every canvas with the palette \<open>pal\<close>: it adds commands, leaves
  the palette alone and returns a value with \<open>Q\<close>.
\<close>

definition draws :: "colors \<Rightarrow> (canvas, 'a) io \<Rightarrow> ('a \<Rightarrow> bool) \<Rightarrow> bool" where
  "draws pal m Q \<longleftrightarrow>
     (\<forall>c. palette c = pal \<longrightarrow> (\<exists>r cmds. m c = (Inr r, c\<lparr>drawn := drawn c @ cmds\<rparr>) \<and> Q r))"

named_theorems draw_rules

lemma draws_return [draw_rules]: "Q a \<Longrightarrow> draws pal (io_return a) Q"
  unfolding draws_def io_return_def by (auto intro: exI [of _ "[]"])

lemma draws_lift: "r = Inr a \<Longrightarrow> Q a \<Longrightarrow> draws pal (io_lift r) Q"
  unfolding draws_def io_lift_def by (auto intro: exI [of _ "[]"])

lemma draws_emit [draw_rules]: "Q () \<Longrightarrow> draws pal (emit cmds) Q"
  unfolding draws_def emit_def by auto

lemma draws_bind:
  assumes "draws pal m Q" "\<And>a. Q a \<Longrightarrow> draws pal (f a) R"
  shows "draws pal (io_bind m f) R"
  unfolding draws_def
proof (intro allI impI)
  fix c :: canvas assume pal: "palette c = pal"
  then obtain a cmds where m: "m c = (Inr a, c\<lparr>drawn := drawn c @ cmds\<rparr>)" "Q a"
    using assms(1) unfolding draws_def by blast
  have "palette (c\<lparr>drawn := drawn c @ cmds\<rparr>) = pal" using pal by simp
  with assms(2) [OF m(2)] obtain r cmds' where
    "f a (c\<lparr>drawn := drawn c @ cmds\<rparr>) = (Inr r, c\<lparr>drawn := (drawn c @ cmds) @ cmds'\<rparr>)" "R r"
    unfolding draws_def by fastforce
  with m(1) show "\<exists>r cmds. io_bind m f c = (Inr r, c\<lparr>drawn := drawn c @ cmds\<rparr>) \<and> R r"
    by (intro exI [of _ r] exI [of _ "cmds @ cmds'"]) (simp add: io_bind_def)
qed

lemma draws_seq [draw_rules]:
  "draws pal m (\<lambda>_. True) \<Longrightarrow> (\<And>a. draws pal (f a) R) \<Longrightarrow> draws pal (io_bind m f) R"
  by (rule draws_bind)

lemma io_bind_lift_Inr [simp]: "io_bind (io_lift (Inr a)) f = f a"
  by (simp add: io_bind_def io_lift_def fun_eq_iff)

lemma draws_if [draw_rules]:
  "(b \<Longrightarrow> draws pal m Q) \<Longrightarrow> (\<not> b \<Longrightarrow> draws pal n Q) \<Longrightarrow> draws pal (if b then m else n) Q"
  by simp

lemma draws_weaken: "draws pal m Q \<Longrightarrow> (\<And>a. Q a \<Longrightarrow> R a) \<Longrightarrow> draws pal m R"
  unfolding draws_def by blast

lemma draws_for_each:
  fixes h :: "'s \<Rightarrow> rat"
  assumes "\<And>x s. x \<in> set xs \<Longrightarrow> draws pal (body x s) (\<lambda>t. h t = h s + k x)"
  shows "draws pal (io_for_each body xs s) (\<lambda>t. h t = h s + sum_list (map k xs))"
  using assms
proof (induction xs arbitrary: s)
  case Nil
  then show ?case by (simp add: draws_return)
next
  case (Cons x xs)
  show ?case
    unfolding io_for_each.simps
  proof (rule draws_bind)
    show "draws pal (body x s) (\<lambda>t. h t = h s + k x)" using Cons.prems by simp
    show "draws pal (io_for_each body xs a) (\<lambda>t. h t = h s + sum_list (map k (x # xs)))" if "h a = h s + k x" for a
      using that Cons.prems by (intro draws_weaken [OF Cons.IH [of a]]) simp_all
  qed
qed

lemma draws_for_each_any:
  "(\<And>x s. x \<in> set xs \<Longrightarrow> draws pal (body x s) (\<lambda>_. True)) \<Longrightarrow> draws pal (io_for_each body xs s) (\<lambda>_. True)"
  using draws_for_each [of xs pal body "\<lambda>_. 0" "\<lambda>_. 0"] by (auto intro: draws_weaken)

lemma draws_look_up: "map_of (color_table pal) name = Some col \<Longrightarrow> draws pal (look_up name) (\<lambda>_. True)"
  unfolding draws_def look_up_def by (auto simp: lookup_color_def intro: exI [of _ "[]"])

lemma draws_line: "draws pal (draw_line x y w h) (\<lambda>_. True)"
  by (simp add: draw_line_def draws_emit)

text \<open>A renderer whose attributes are set, over a range that is not empty.\<close>

definition ready :: "timelines_renderer \<Rightarrow> pynum \<Rightarrow> pynum \<Rightarrow> pynum \<Rightarrow> bool" where
  "ready self start end H \<longleftrightarrow> rows_start self = Some start \<and> rows_end self = Some end \<and>
     rows_text_height self = Some H \<and> num_val start \<noteq> num_val end"

lemma x_pixel_ok: "num_val start \<noteq> num_val end \<Longrightarrow> \<exists>i. x_pixel x width start end t = Inr i"
  by (simp add: x_pixel_def num_div_def)

lemma draws_band: "draws pal (draw_band self g x y w h) (\<lambda>_. True)"
  by (simp add: draw_band_def draws_emit draws_return)

lemma draws_events:
  assumes "ready self start end H"
  shows "draws pal (draw_events self show es x y width height g) (\<lambda>_. True)"
proof -
  note attrs = assms [unfolded ready_def]
  have "draws pal (draw_event self show x y width e last) (\<lambda>_. True)" for e last
  proof -
    obtain i where "x_pixel x width start end (PyInt (event_at e)) = Inr i" using x_pixel_ok attrs by blast
    then have "draw_event self show x y width e last =
        (if i > last + 2
         then io_bind (emit [Rectangle (PyInt i) y 1 1, SetRGB 1 0 0, Stroke]) (\<lambda>_.
              io_bind (emit [MoveTo (PyInt i) (y + H), black, ShowText (show (event_value e))]) (\<lambda>_. io_return i))
         else io_return last)"
      using attrs by (simp add: draw_event_def attr_def)
    then show ?thesis by (auto intro!: draw_rules)
  qed
  then show ?thesis
    using attrs by (auto simp: draw_events_def attr_def case_prod_beta intro!: draw_rules draws_for_each_any draws_band)
qed

lemma draws_ranges:
  assumes "ready self start end H" "list_all (\<lambda>r. dict_has (color_table pal) (range_value r)) (ranges rs)"
  shows "draws pal (draw_ranges self rs x y width height g) (\<lambda>_. True)"
proof -
  note attrs = assms(1) [unfolded ready_def]
  have "draws pal (draw_range self x y width r last) (\<lambda>_. True)" if "r \<in> set (ranges rs)" for r last
  proof -
    have "dict_has (color_table pal) (range_value r)" using assms(2) that by (simp add: list_all_iff)
    then obtain col where "map_of (color_table pal) (range_value r) = Some col" unfolding dict_has_def by blast
    then have look: "draws pal (look_up (range_value r)) (\<lambda>_. True)" by (rule draws_look_up)
    obtain i j where "x_pixel x width start end (num_max (PyInt (range_start r)) start) = Inr i"
      "x_pixel x width start end (num_min (PyInt (range_end r)) end) = Inr j" using x_pixel_ok attrs by metis
    then have "draw_range self x y width r last =
        (if j > last
         then io_bind (emit [Rectangle (PyInt i) y (PyInt (j - i)) 10, black, StrokePreserve]) (\<lambda>_.
              io_bind (look_up (range_value r)) (\<lambda>c. io_bind (emit [set_color c, Fill]) (\<lambda>_. io_return j)))
         else io_return last)"
      using attrs by (simp add: draw_range_def attr_def Let_def)
    then show ?thesis by (auto intro!: draw_rules look)
  qed
  then have "draws pal (draw_range self x y width r last) (\<lambda>_. True)" if "r \<in> set (py_slice (ranges rs) lo hi)" for r last lo hi
    using that set_py_slice [of "ranges rs" lo hi] by blast
  then show ?thesis
    using attrs by (auto simp: draw_ranges_def attr_def case_prod_beta intro!: draw_rules draws_for_each_any draws_band)
qed

text \<open>The height that the rows of a timeline take when they are drawn.\<close>

definition events_pitch :: "timelines_renderer \<Rightarrow> pynum \<Rightarrow> rat" where
  "events_pitch self H = num_val H + 5 + num_val (rows_padding self)"

definition ranges_pitch :: "timelines_renderer \<Rightarrow> pynum \<Rightarrow> rat" where
  "ranges_pitch self H = num_val H + num_val (rows_padding self)"

lemma draws_name: "draws pal (draw_name metrics p x y n) (\<lambda>_. True)"
  by (simp add: draw_name_def draws_emit Let_def)

lemma draws_row_line: "draws pal (draw_row_line self p y) (\<lambda>_. True)"
  by (simp add: draw_row_line_def draws_line)

lemma draws_events_row:
  assumes "ready self start end H" "line_height p = H"
  shows "draws pal (draw_events_row metrics self p show es s)
    (\<lambda>t. num_val (fst t) = num_val (fst s) + events_pitch self H)"
  by (auto simp: draw_events_row_def case_prod_beta Let_def events_pitch_def assms(2)
      intro!: draws_seq draws_name draws_row_line draws_events [OF assms(1)] draws_return)

lemma draws_ranges_row:
  assumes "ready self start end H" "line_height p = H"
    and "list_all (\<lambda>r. dict_has (color_table pal) (range_value r)) (ranges rs)"
  shows "draws pal (draw_ranges_row metrics self p rs s)
    (\<lambda>t. num_val (fst t) = num_val (fst s) + ranges_pitch self H)"
  by (auto simp: draw_ranges_row_def case_prod_beta Let_def ranges_pitch_def assms(2)
      intro!: draws_seq draws_name draws_row_line draws_ranges [OF assms(1,3)] draws_return)

definition known_values :: "colors \<Rightarrow> timeline \<Rightarrow> bool" where
  "known_values pal t \<longleftrightarrow>
     list_all (\<lambda>rs. list_all (\<lambda>r. dict_has (color_table pal) (range_value r)) (ranges rs)) (timeline_ranges t)"

definition event_rows :: "timeline \<Rightarrow> nat" where
  "event_rows t = length (timeline_event_int t) + length (timeline_event_str t)"

definition range_rows :: "timeline \<Rightarrow> nat" where
  "range_rows t = length (timeline_ranges t)"

lemma sum_list_const: "sum_list (map (\<lambda>_. k) xs) = of_nat (length xs) * k" for k :: rat
  by (induction xs) (simp_all add: algebra_simps)

lemma draws_timeline:
  assumes "ready self start end H" "line_height p = H" "known_values pal t"
  shows "draws pal (draw_timeline metrics self p t s) (\<lambda>u. num_val (fst u) =
    num_val (fst s) + (of_nat (event_rows t) * events_pitch self H + of_nat (range_rows t) * ranges_pitch self H))"
proof -
  let ?h = "\<lambda>s. num_val (fst s)"
  have events: "draws pal (io_for_each (draw_events_row metrics self p show) es s)
      (\<lambda>u. ?h u = ?h s + of_nat (length es) * events_pitch self H)"
    for "show" :: "'v \<Rightarrow> string" and es s
    using draws_for_each [of es pal "draw_events_row metrics self p show" ?h "\<lambda>_. events_pitch self H" s]
    by (simp add: draws_events_row [OF assms(1,2)] sum_list_const)
  have ranges: "draws pal (io_for_each (draw_ranges_row metrics self p) (timeline_ranges t) s)
      (\<lambda>u. ?h u = ?h s + of_nat (length (timeline_ranges t)) * ranges_pitch self H)" for s
    using draws_for_each [of "timeline_ranges t" pal "draw_ranges_row metrics self p" ?h "\<lambda>_. ranges_pitch self H" s]
      draws_ranges_row [OF assms(1,2)] assms(3)
    by (simp add: sum_list_const known_values_def list_all_iff)
  show ?thesis
    unfolding draw_timeline_def
    by (rule draws_seq [OF draws_name], rule draws_bind [OF events], rule draws_bind [OF events],
        rule draws_bind [OF ranges], rule draws_seq [OF draws_line], rule draws_return)
      (simp add: event_rows_def range_rows_def algebra_simps)
qed

lemma layout_counts:
  obtains left right where
    "fold (\<lambda>t (left, right, n, r, i, s).
        (max_width metrics (timeline_name t) left,
         fold (\<lambda>e. max_width metrics (events_name e)) (timeline_event_str t)
           (fold (\<lambda>e. max_width metrics (events_name e)) (timeline_event_int t)
             (fold (\<lambda>rs. max_width metrics (ranges_name rs)) (timeline_ranges t) right)),
         n + 1, r + int (length (timeline_ranges t)), i + int (length (timeline_event_int t)),
         s + int (length (timeline_event_str t)))) ts (lw, rw, n, r, i, s) =
     (left, right, n + int (length ts), r + int (sum_list (map range_rows ts)),
      i + int (sum_list (map (\<lambda>t. length (timeline_event_int t)) ts)),
      s + int (sum_list (map (\<lambda>t. length (timeline_event_str t)) ts)))"
proof (induction ts arbitrary: lw rw n r i s thesis)
  case Nil
  then show ?case by simp
next
  case (Cons t ts)
  show ?case
    by (rule Cons.IH [of _ _ "n + 1" "r + int (length (timeline_ranges t))" "i + int (length (timeline_event_int t))"
          "s + int (length (timeline_event_str t))"], rule Cons.prems)
      (simp add: range_rows_def algebra_simps)
qed

definition line_cmds :: "pynum \<Rightarrow> pynum \<Rightarrow> pynum \<Rightarrow> pynum \<Rightarrow> draw_cmd list" where
  "line_cmds x y width height =
     [MoveTo x y, RelLineTo width height, ClosePath, SetOperatorSource, SetLineWidth (PyFloat 1), black, Stroke]"

definition n_events :: "timelines \<Rightarrow> rat" where
  "n_events ts = of_nat (sum_list (map event_rows ts))"

definition n_ranges :: "timelines \<Rightarrow> rat" where
  "n_ranges ts = of_nat (sum_list (map range_rows ts))"

lemma timelines_draw_bottom:
  assumes "ready self start end H" "row_places self = Inr p" "line_height p = H" "rows_timelines self = Some ts"
    "list_all (known_values (palette c)) ts"
  shows "\<exists>cmds x bot. timelines_draw metrics self c = (Inr (), c\<lparr>drawn := drawn c @ cmds @ line_cmds x 0 0 bot\<rparr>) \<and>
    num_val bot = n_events ts * events_pitch self H + n_ranges ts * ranges_pitch self H"
proof -
  let ?pal = "palette c" and ?half = "num_quot (rows_padding self) 2"
  let ?k = "\<lambda>t. of_nat (event_rows t) * events_pitch self H + of_nat (range_rows t) * ranges_pitch self H"
  have rows: "draws ?pal (io_for_each (draw_timeline metrics self p) ts (?half, 1))
      (\<lambda>u. num_val (fst u) = num_val ?half + sum_list (map ?k ts))"
    using draws_for_each [of ts ?pal "draw_timeline metrics self p" "\<lambda>s. num_val (fst s)" ?k "(?half, 1)"]
      draws_timeline [OF assms(1,3)] assms(5) by (simp add: list_all_iff)
  have total: "sum_list (map ?k ts) = n_events ts * events_pitch self H + n_ranges ts * ranges_pitch self H"
    unfolding n_events_def n_ranges_def by (induction ts) (simp_all add: algebra_simps)
  let ?c = "c\<lparr>drawn := drawn c @ line_cmds 0 0 (all_width p) 0\<rparr>"
  have "palette ?c = ?pal" by simp
  with rows obtain u cmds where u: "io_for_each (draw_timeline metrics self p) ts (?half, 1) ?c =
      (Inr u, c\<lparr>drawn := (drawn c @ line_cmds 0 0 (all_width p) 0) @ cmds\<rparr>)"
      "num_val (fst u) = num_val ?half + sum_list (map ?k ts)"
    unfolding draws_def by fastforce
  let ?bot = "fst u - ?half"
  have "timelines_draw metrics self c = (Inr (), c\<lparr>drawn := drawn c @
      (line_cmds 0 0 (all_width p) 0 @ cmds @ line_cmds (left_x_end p + ?half) 0 0 ?bot) @
       line_cmds (right_x_end p + ?half) 0 0 ?bot\<rparr>)"
    using u(1) assms(2,4)
    by (simp add: timelines_draw_def attr_def io_bind_def [of _ _ c] io_bind_def [of _ _ ?c]
        draw_line_def emit_def io_bind_def line_cmds_def case_prod_beta Let_def)
  moreover have "num_val ?bot = n_events ts * events_pitch self H + n_ranges ts * ranges_pitch self H"
    using u(2) total by simp
  ultimately show ?thesis by blast
qed

definition text_line :: "(string \<Rightarrow> extents) \<Rightarrow> rat" where
  "text_line metrics = text_height (metrics alphabet)"

lemma timelines_layout_rows:
  assumes "rows_timelines self = Some ts"
  obtains left right height where
    "timelines_layout metrics width self = Inr (self\<lparr>left_width := Some left, right_width := Some right,
       rows_text_height := Some (PyFloat (text_line metrics)), rows_width := Some width, rows_height := Some height\<rparr>)"
    "(n_events ts + n_ranges ts) * (text_line metrics + num_val (rows_padding self)) \<le> num_val height"
    "n_events ts * (text_line metrics + 5) + n_ranges ts * 10 + (n_events ts + n_ranges ts) * num_val (rows_padding self)
       \<le> num_val height"
proof -
  let ?P = "rows_padding self" and ?H = "PyFloat (text_line metrics)"
  let ?ne = "sum_list (map (\<lambda>t. length (timeline_event_int t)) ts)" and ?ns = "sum_list (map (\<lambda>t. length (timeline_event_str t)) ts)"
  let ?nr = "sum_list (map range_rows ts)"
  obtain left right where counts: "fold (\<lambda>t (left, right, n, r, i, s).
        (max_width metrics (timeline_name t) left,
         fold (\<lambda>e. max_width metrics (events_name e)) (timeline_event_str t)
           (fold (\<lambda>e. max_width metrics (events_name e)) (timeline_event_int t)
             (fold (\<lambda>rs. max_width metrics (ranges_name rs)) (timeline_ranges t) right)),
         n + 1, r + int (length (timeline_ranges t)), i + int (length (timeline_event_int t)),
         s + int (length (timeline_event_str t)))) ts (0, 0, 0, 0, 0, 0) =
     (left, right, int (length ts), int ?nr, int ?ne, int ?ns)"
    by (rule layout_counts [where ts = ts and metrics = metrics and lw = 0 and rw = 0 and n = 0 and r = 0 and i = 0 and s = 0])
      (simp only: add_0)
  let ?n = "int ?nr + int ?ne + int ?ns"
  let ?left = "PyInt (int (length ts)) * ?H + PyInt (int (length ts) - 1) * ?P"
  let ?right = "PyInt (?n - 1) * ?P + PyInt ?n * ?H"
  let ?data = "PyInt (int ?ne + int ?ns) * (?H + 5) + PyInt (int ?nr * 10) + PyInt (?n - 1) * ?P"
  let ?height = "num_max (num_max ?left ?right) ?data + ?P"
  have layout: "timelines_layout metrics width self = Inr (self\<lparr>left_width := Some left, right_width := Some right,
      rows_text_height := Some ?H, rows_width := Some width, rows_height := Some ?height\<rparr>)"
    by (simp only: timelines_layout_def assms(1) attr_def option.case res_bind.simps Let_def counts prod.case
        text_line_def)
  have n: "n_events ts = of_int (int ?ne + int ?ns)" "n_ranges ts = of_int (int ?nr)"
    unfolding n_events_def event_rows_def n_ranges_def by (induction ts) (simp_all add: algebra_simps)
  have "num_val ?right \<le> num_val ?height - num_val ?P" "num_val ?data \<le> num_val ?height - num_val ?P"
    by (simp_all add: num_max_def)
  then show thesis
    by (intro that [OF layout]) (simp_all add: n algebra_simps)
qed

text \<open>
  \<^bold>\<open>C34: the rows.\<close> Once the timelines are laid out, drawing them over a range that is not empty
  succeeds when every value has its colour, and leaves the colours alone. It ends with a line down to the
  end of the last row. That line stays within the computed height unless event rows and range rows are
  mixed under a text higher than ten pixels: the layout counts ten pixels for a range, the drawing a line
  of text.
\<close>

theorem rows_drawn:
  assumes "rows_timelines self = Some ts" and "rows_start self = Some start" and "rows_end self = Some end"
    and "num_val start \<noteq> num_val end" and "list_all (known_values (palette c)) ts"
  shows "\<exists>self' height cmds x bot. timelines_layout metrics width self = Inr self' \<and> rows_height self' = Some height \<and>
    timelines_draw metrics self' c = (Inr (), c\<lparr>drawn := drawn c @ cmds @ line_cmds x 0 0 bot\<rparr>) \<and>
    num_val bot = n_events ts * (text_line metrics + 5 + num_val (rows_padding self)) +
      n_ranges ts * (text_line metrics + num_val (rows_padding self)) \<and>
    (n_events ts = 0 \<or> n_ranges ts = 0 \<or> text_line metrics \<le> 10 \<longrightarrow> num_val bot \<le> num_val height)"
proof -
  obtain left right height where layout: "timelines_layout metrics width self = Inr (self\<lparr>left_width := Some left,
      right_width := Some right, rows_text_height := Some (PyFloat (text_line metrics)), rows_width := Some width,
      rows_height := Some height\<rparr>)" (is "_ = Inr ?self")
    and enough: "(n_events ts + n_ranges ts) * (text_line metrics + num_val (rows_padding self)) \<le> num_val height"
      "n_events ts * (text_line metrics + 5) + n_ranges ts * 10 + (n_events ts + n_ranges ts) * num_val (rows_padding self)
         \<le> num_val height"
    using assms(1) by (rule timelines_layout_rows)
  have ready: "ready ?self start end (PyFloat (text_line metrics))" using assms(2-4) by (simp add: ready_def)
  obtain p where p: "row_places ?self = Inr p" "line_height p = PyFloat (text_line metrics)"
    by (simp add: row_places_def attr_def Let_def)
  have ts: "rows_timelines ?self = Some ts" using assms(1) by simp
  from timelines_draw_bottom [OF ready p ts assms(5), of metrics] obtain cmds x bot where
    draw: "timelines_draw metrics ?self c = (Inr (), c\<lparr>drawn := drawn c @ cmds @ line_cmds x 0 0 bot\<rparr>)"
    and bot: "num_val bot = n_events ts * (text_line metrics + 5 + num_val (rows_padding self)) +
      n_ranges ts * (text_line metrics + num_val (rows_padding self))"
    unfolding events_pitch_def ranges_pitch_def by auto
  have "0 \<le> n_ranges ts" by (simp add: n_ranges_def)
  then have "text_line metrics \<le> 10 \<longrightarrow> n_ranges ts * text_line metrics \<le> n_ranges ts * 10" by (simp add: mult_left_mono)
  with enough have "n_events ts = 0 \<or> n_ranges ts = 0 \<or> text_line metrics \<le> 10 \<longrightarrow> num_val bot \<le> num_val height"
    unfolding bot by (auto simp: algebra_simps)
  with layout draw bot show ?thesis by (intro exI conjI) (assumption | simp)+
qed

definition mixed_rows :: timelines where
  "mixed_rows = [\<lparr>timeline_name = ''t'', timeline_ranges = [three_ranges], timeline_event_str = [],
     timeline_event_int = [three_events]\<rparr>]"

definition value_colors :: colors where
  "value_colors = new_colors\<lparr>color_table := [(''a'', rgb 1 0 0), (''b'', rgb 0 1 0), (''c'', rgb 0 0 1)]\<rparr>"

lemma rows_drawn_witness:
  "\<exists>self' height cmds x bot.
    timelines_layout plain_metrics 300 (set_render_range 0 60 (set_timelines mixed_rows new_timelines_renderer)) = Inr self' \<and>
    rows_height self' = Some height \<and>
    timelines_draw plain_metrics self' \<lparr>drawn = [], palette = value_colors\<rparr> =
      (Inr (), \<lparr>drawn = cmds @ line_cmds x 0 0 bot, palette = value_colors\<rparr>) \<and> num_val bot \<le> num_val height"
proof -
  let ?self = "set_render_range 0 60 (set_timelines mixed_rows new_timelines_renderer)"
  let ?c = "\<lparr>drawn = [], palette = value_colors\<rparr>"
  have "rows_timelines ?self = Some mixed_rows" "rows_start ?self = Some 0" "rows_end ?self = Some 60"
    "num_val 0 \<noteq> num_val 60" "list_all (known_values (palette ?c)) mixed_rows" "text_line plain_metrics \<le> 10"
    by (simp_all add: set_render_range_def set_timelines_def mixed_rows_def known_values_def three_ranges_def
        value_colors_def dict_has_def text_line_def plain_metrics_def)
  note facts = this
  obtain self' height cmds x bot where "timelines_layout plain_metrics 300 ?self = Inr self'" "rows_height self' = Some height"
    "timelines_draw plain_metrics self' ?c = (Inr (), ?c\<lparr>drawn := drawn ?c @ cmds @ line_cmds x 0 0 bot\<rparr>)"
    "num_val bot \<le> num_val height"
    using rows_drawn [OF facts(1-5), of plain_metrics 300] facts(6) by blast
  then show ?thesis by (intro exI conjI) (assumption | simp)+
qed

end
