(* ===== verification/Grid_Window.thy ===== *)
theory Grid_Window
  imports Grid_View
begin

text \<open>
  The window of the timeline viewer, \<open>utils/grid.py\<close>: \<open>GraphicRenderer\<close>, which puts the legend, the
  timelines and the two scales together, \<open>GtkGraphicRenderer\<close> with its handlers for the mouse, the zoom
  buttons and the redraw events, and \<open>main\<close>. The toolkit is the list of the calls it is given. An exception
  in a handler leaves the state as it is at that point; the toolkit goes on with the next event.
\<close>

section \<open>The picture\<close>

record graphic =
  full_start :: pynum
  full_end :: pynum
  mid_scale :: scale_renderer
  bot_scale :: scale_renderer
  graphic_width :: pynum
  graphic_height :: pynum
  graphic_legend :: "top_legend option"
  graphic_data :: "timelines_renderer option"
  shown_start :: "pynum option"
  shown_end :: "pynum option"

definition new_graphic :: "pynum \<Rightarrow> pynum \<Rightarrow> graphic" where
  "new_graphic start end =
     \<lparr>full_start = PyFloat (num_val start), full_end = PyFloat (num_val end), mid_scale = set_top new_scale,
      bot_scale = set_bot (set_bounds start end new_scale), graphic_width = 1, graphic_height = 1,
      graphic_legend = None, graphic_data = None, shown_start = None, shown_end = None\<rparr>"

definition set_data :: "timelines_renderer \<Rightarrow> graphic \<Rightarrow> graphic" where
  "set_data d self = self\<lparr>graphic_data := Some d\<rparr>"

definition set_top_legend :: "top_legend \<Rightarrow> graphic \<Rightarrow> graphic" where
  "set_top_legend l self = self\<lparr>graphic_legend := Some l\<rparr>"

definition get_range_shown :: "graphic \<Rightarrow> (pynum \<times> pynum) result" where
  "get_range_shown self =
     res_bind (attr (shown_start self)) (\<lambda>start. res_bind (attr (shown_end self)) (\<lambda>end. Inr (start, end)))"

type_synonym rectangle = "pynum \<times> pynum \<times> pynum \<times> pynum"

definition legend_size :: "graphic \<Rightarrow> pynum result" where
  \<comment> \<open>\<open>self.__top_legend.get_height()\<close>\<close>
  "legend_size self = res_bind (attr (graphic_legend self)) (\<lambda>l. attr (legend_height l))"

definition data_size :: "graphic \<Rightarrow> pynum result" where
  \<comment> \<open>\<open>self.__data.get_height()\<close>\<close>
  "data_size self = res_bind (attr (graphic_data self)) (\<lambda>d. attr (rows_height d))"

definition data_left :: "graphic \<Rightarrow> pynum result" where
  \<comment> \<open>\<open>self.__data.get_data_x_start()\<close>\<close>
  "data_left self = res_bind (attr (graphic_data self)) get_data_x_start"

definition get_data_rectangle :: "graphic \<Rightarrow> rectangle result" where
  "get_data_rectangle self =
     res_bind (legend_size self) (\<lambda>y_start.
     res_bind (data_left self) (\<lambda>x_start.
     res_bind (data_size self) (\<lambda>height.
       Inr (x_start, y_start, graphic_width self - x_start, height))))"

definition scale_data :: "pynum \<Rightarrow> graphic \<Rightarrow> pynum result" where
  "scale_data x self =
     res_bind (data_left self) (\<lambda>x_start.
     res_bind (num_div x (graphic_width self - x_start)) (\<lambda>q.
     res_bind (get_range_shown self) (\<lambda>(start, end). Inr (q * (end - start)))))"

definition get_selection_rectangle :: "graphic \<Rightarrow> rectangle result" where
  "get_selection_rectangle self =
     res_bind (legend_size self) (\<lambda>legend_height.
     res_bind (data_size self) (\<lambda>data_height.
     res_bind (attr (scale_height (mid_scale self))) (\<lambda>mid_height.
     res_bind (attr (scale_height (bot_scale self))) (\<lambda>bot_height.
     res_bind (get_range_shown self) (\<lambda>(start, end).
     res_bind (get_position (bot_scale self) start) (\<lambda>x_start.
     res_bind (get_position (bot_scale self) end) (\<lambda>x_end.
       Inr (x_start, legend_height + data_height + mid_height + 20, x_end - x_start, bot_height + 20))))))))"

definition scale_selection :: "pynum \<Rightarrow> graphic \<Rightarrow> pynum result" where
  "scale_selection x self =
     res_bind (num_div x (graphic_width self)) (\<lambda>q. Inr (q * (full_end self - full_start self)))"

text \<open>A step that may raise leaves the object as it was.\<close>

definition io_modify :: "('w \<Rightarrow> 'w result) \<Rightarrow> ('w, unit) io" where
  "io_modify f w = (case f w of Inl e \<Rightarrow> (Inl e, w) | Inr w' \<Rightarrow> (Inr (), w'))"

definition io_ask :: "('w \<Rightarrow> 'a result) \<Rightarrow> ('w, 'a) io" where
  "io_ask f w = (f w, w)"

definition io_change :: "('w \<Rightarrow> 'w) \<Rightarrow> ('w, unit) io" where
  "io_change f w = (Inr (), f w)"

definition graphic_layout :: "(string \<Rightarrow> extents) \<Rightarrow> pynum \<Rightarrow> pynum \<Rightarrow> (graphic, unit) io" where
  "graphic_layout metrics width height =
     io_seq (io_change (\<lambda>g. g\<lparr>graphic_width := width, graphic_height := height\<rparr>))
    (io_seq (io_modify (\<lambda>g. res_bind (attr (graphic_legend g)) (\<lambda>l.
       res_bind (top_legend_layout metrics width l) (\<lambda>l. Inr (g\<lparr>graphic_legend := Some l\<rparr>)))))
    (io_seq (io_modify (\<lambda>g. res_bind (attr (graphic_data g)) (\<lambda>d.
       res_bind (timelines_layout metrics width d) (\<lambda>d. Inr (g\<lparr>graphic_data := Some d\<rparr>)))))
    (io_seq (io_modify (\<lambda>g. res_bind (data_left g) (\<lambda>left.
       res_bind (scale_layout metrics (width - left) (mid_scale g)) (\<lambda>s. Inr (g\<lparr>mid_scale := s\<rparr>)))))
            (io_modify (\<lambda>g. res_bind (scale_layout metrics width (bot_scale g)) (\<lambda>s. Inr (g\<lparr>bot_scale := s\<rparr>)))))))"

definition set_range :: "(string \<Rightarrow> extents) \<Rightarrow> pynum \<Rightarrow> pynum \<Rightarrow> (graphic, unit) io" where
  "set_range metrics start end =
     io_bind (io_get (\<lambda>g. (num_max (full_start g) (num_min start end), num_min (full_end g) (num_max start end)))) (\<lambda>(start, end).
     io_seq (io_change (\<lambda>g. g\<lparr>shown_start := Some start, shown_end := Some end\<rparr>))
    (io_seq (io_modify (\<lambda>g. res_bind (attr (graphic_data g)) (\<lambda>d. Inr (g\<lparr>graphic_data := Some (set_render_range start end d)\<rparr>))))
    (io_seq (io_change (\<lambda>g. g\<lparr>mid_scale := set_bounds start end (mid_scale g)\<rparr>))
    (io_bind (io_get (\<lambda>g. (graphic_width g, graphic_height g))) (\<lambda>(w, h). graphic_layout metrics w h)))))"

definition graphic_x_pixel :: "pynum \<Rightarrow> pynum \<Rightarrow> graphic \<Rightarrow> pynum result" where
  "graphic_x_pixel x width self = num_div ((x - full_start self) * width) (full_end self - full_start self)"

definition draw_connection :: "pynum \<Rightarrow> pynum list \<Rightarrow> pynum list \<Rightarrow> draw_cmd list" where
  \<comment> \<open>a polygon from its corners, outlined in black and filled in grey\<close>
  "draw_connection x xs ys =
     MoveTo x (hd ys) # map2 LineTo xs (tl ys) @ [black, SetLineWidth 1, StrokePreserve, grey, Fill]"

definition graphic_draw :: "(string \<Rightarrow> extents) \<Rightarrow> graphic \<Rightarrow> (canvas, unit) io" where
  "graphic_draw metrics self =
     (let width = graphic_width self; height = graphic_height self in
      io_seq (emit [SaveCtx, SetRGB 1 1 1, SetOperatorSource, Rectangle 0 0 width height, Fill])
     (io_seq (emit [SaveCtx])
     (io_bind (io_lift (attr (graphic_legend self))) (\<lambda>legend.
      io_seq (top_legend_draw metrics legend)
     (io_bind (io_lift (legend_size self)) (\<lambda>top_legend_height.
      io_seq (emit [RestoreCtx, MoveTo 0 top_legend_height, LineTo width top_legend_height, ClosePath,
        SetLineWidth 2, black, Stroke, SaveCtx, Translate 0 top_legend_height])
     (io_bind (io_lift (attr (graphic_data self))) (\<lambda>data.
      io_seq (timelines_draw metrics data)
     (io_seq (emit [RestoreCtx, SaveCtx])
     (io_bind (io_lift (data_left self)) (\<lambda>left.
      io_bind (io_lift (data_size self)) (\<lambda>data_height.
      io_bind (io_lift (attr (scale_height (mid_scale self)))) (\<lambda>mid_height.
      (let height_used = top_legend_height + data_height + mid_height in
      io_seq (emit [Translate left height_used])
     (io_seq (scale_draw metrics (mid_scale self))
     (io_seq (emit [RestoreCtx, MoveTo left height_used, RelLineTo 0 (- mid_height), ClosePath, black, SetLineWidth 2, Stroke,
        MoveTo 0 height_used, LineTo width height_used, ClosePath, SetLineWidth 2, black, Stroke])
     (io_bind (io_lift (get_range_shown self)) (\<lambda>(start, end).
      io_bind (io_lift (get_position (bot_scale self) start)) (\<lambda>select_start.
      io_bind (io_lift (get_position (bot_scale self) end)) (\<lambda>select_end.
      io_seq (emit (draw_connection 0 [left, select_start, 0, 0]
          [height_used, height_used, height_used + 20, height_used + 20, height_used] @
        draw_connection width [width, select_end, width] [height_used, height_used + 20, height_used + 20, height_used]))
     (io_bind (io_lift (attr (scale_height (bot_scale self)))) (\<lambda>bot_height.
      (let height_used = height_used + 20; unused_height = bot_height + 20 in
      io_seq (emit
        [Rectangle 0 height_used select_start unused_height,
         Rectangle select_end height_used (width - select_end) unused_height, grey, Fill,
         MoveTo select_end height_used, LineTo width height_used, LineTo width (height_used + unused_height),
         LineTo 0 (height_used + unused_height), LineTo 0 height_used, LineTo select_start height_used, ClosePath,
         SetLineWidth 2, black, Stroke,
         MoveTo select_start height_used, LineTo select_end height_used, ClosePath, SetLineWidth 1, grey, Stroke,
         SaveCtx, MoveTo (num_max select_start 2) height_used, RelLineTo 0 unused_height,
         MoveTo (num_min select_end (width - 2)) height_used, RelLineTo 0 unused_height,
         SetDash [5] 0, black, SetLineWidth 1, Stroke, RestoreCtx,
         SaveCtx, Translate 0 height_used])
     (io_seq (scale_draw metrics (bot_scale self))
             (emit [RestoreCtx])))))))))))))))))))))))))"

section \<open>The drawing area\<close>

datatype cursor_shape = DoubleArrow | Fleur

datatype toolkit_call =
    QueueDraw
  | QueueDrawArea int int int int
  | SetCursor "cursor_shape option"
  | DrawWindow "draw_cmd list"
  | WritePng string "draw_cmd list"

record drawing_area =
  picture :: graphic
  moving_left :: bool
  moving_right :: bool
  moving_both :: bool
  moving_top :: bool
  moving_left_cur :: "pynum option"
  moving_right_cur :: "pynum option"
  moving_both_start :: "pynum option"
  moving_both_cur :: "pynum option"
  moving_top_start :: "pynum option"
  moving_top_cur :: "pynum option"
  force_full_redraw :: bool
  area_width :: "pynum option"
  area_height :: "pynum option"
  buffer_surface :: "draw_cmd list option"
  shared_colors :: colors
  toolkit_log :: "toolkit_call list"

definition new_drawing_area :: "graphic \<Rightarrow> colors \<Rightarrow> drawing_area" where
  "new_drawing_area data cs =
     \<lparr>picture = data, moving_left = False, moving_right = False, moving_both = False, moving_top = False,
      moving_left_cur = None, moving_right_cur = None, moving_both_start = None, moving_both_cur = None,
      moving_top_start = None, moving_top_cur = None, force_full_redraw = True, area_width = None,
      area_height = None, buffer_surface = None, shared_colors = cs, toolkit_log = []\<rparr>"

definition call_toolkit :: "toolkit_call \<Rightarrow> (drawing_area, unit) io" where
  "call_toolkit t = io_change (\<lambda>s. s\<lparr>toolkit_log := toolkit_log s @ [t]\<rparr>)"

definition on_picture :: "(graphic, 'a) io \<Rightarrow> (drawing_area, 'a) io" where
  "on_picture m s = (case m (picture s) of (r, g) \<Rightarrow> (r, s\<lparr>picture := g\<rparr>))"

definition ask_picture :: "(graphic \<Rightarrow> 'a result) \<Rightarrow> (drawing_area, 'a) io" where
  "ask_picture f = io_ask (\<lambda>s. f (picture s))"

definition get_attr :: "(drawing_area \<Rightarrow> 'a option) \<Rightarrow> (drawing_area, 'a) io" where
  "get_attr f = io_ask (\<lambda>s. attr (f s))"

definition full_redraw :: "(drawing_area, unit) io" where
  "full_redraw = io_seq (io_change (\<lambda>s. s\<lparr>force_full_redraw := True\<rparr>)) (call_toolkit QueueDraw)"

definition set_smaller_zoom :: "(string \<Rightarrow> extents) \<Rightarrow> (drawing_area, unit) io" where
  "set_smaller_zoom metrics =
     io_bind (ask_picture get_range_shown) (\<lambda>(start, end).
     io_seq (on_picture (set_range metrics start (start + (end - start) * 2))) full_redraw)"

definition set_bigger_zoom :: "(string \<Rightarrow> extents) \<Rightarrow> (drawing_area, unit) io" where
  "set_bigger_zoom metrics =
     io_bind (ask_picture get_range_shown) (\<lambda>(start, end).
     io_seq (on_picture (set_range metrics start (start + num_quot (end - start) 2))) full_redraw)"

text \<open>Drawing the picture on the buffer surface.\<close>

definition draw_buffer :: "(string \<Rightarrow> extents) \<Rightarrow> (drawing_area, unit) io" where
  "draw_buffer metrics =
     io_bind (get_attr buffer_surface) (\<lambda>buffer s.
       (case graphic_draw metrics (picture s) \<lparr>drawn = buffer, palette = shared_colors s\<rparr> of
          (r, c) \<Rightarrow> (r, s\<lparr>buffer_surface := Some (drawn c), shared_colors := palette c\<rparr>)))"

text \<open>The file is written from a new surface; what is drawn goes to the buffer surface.\<close>

definition output_png :: "(string \<Rightarrow> extents) \<Rightarrow> string \<Rightarrow> (drawing_area, unit) io" where
  "output_png metrics filename =
     (let surface = [] in io_seq (draw_buffer metrics) (call_toolkit (WritePng filename surface)))"

definition in_selection_row :: "pynum \<Rightarrow> rectangle \<Rightarrow> bool" where
  "in_selection_row ev_y r = (case r of (x, y, width, height) \<Rightarrow> ev_y > y \<and> ev_y < y + height)"

definition in_data :: "pynum \<Rightarrow> pynum \<Rightarrow> rectangle \<Rightarrow> bool" where
  "in_data ev_x ev_y r =
     (case r of (x, y, width, height) \<Rightarrow> ev_y > y \<and> ev_y < y + height \<and> ev_x > x \<and> ev_x < x + width)"

definition button_press :: "pynum \<Rightarrow> pynum \<Rightarrow> (drawing_area, bool) io" where
  "button_press ev_x ev_y =
     io_bind (ask_picture get_selection_rectangle) (\<lambda>(x, y, width, height).
     io_bind (ask_picture get_data_rectangle) (\<lambda>data.
       if ev_y > y \<and> ev_y < y + height \<and> num_abs (ev_x - x) < 5
       then io_seq (io_change (\<lambda>s. s\<lparr>moving_left := True\<rparr>)) (io_return True)
       else if ev_y > y \<and> ev_y < y + height \<and> num_abs (ev_x - (x + width)) < 5
       then io_seq (io_change (\<lambda>s. s\<lparr>moving_right := True\<rparr>)) (io_return True)
       else if ev_y > y \<and> ev_y < y + height \<and> ev_x > x \<and> ev_x < x + width
       then io_seq (io_change (\<lambda>s. s\<lparr>moving_both := True, moving_both_start := Some ev_x, moving_both_cur := Some ev_x\<rparr>))
              (io_return True)
       else if in_data ev_x ev_y data
       then io_seq (io_change (\<lambda>s. s\<lparr>moving_top := True, moving_top_start := Some ev_x, moving_top_cur := Some ev_x\<rparr>))
              (io_return True)
       else io_return False))"

definition button_release :: "(string \<Rightarrow> extents) \<Rightarrow> (drawing_area, bool) io" where
  "button_release metrics s =
     (if moving_left s then
        io_seq (io_change (\<lambda>s. s\<lparr>moving_left := False\<rparr>))
       (io_bind (get_attr moving_left_cur) (\<lambda>cur.
        io_bind (ask_picture (scale_selection cur)) (\<lambda>left.
        io_bind (ask_picture get_range_shown) (\<lambda>(_, right).
        io_seq (on_picture (set_range metrics left right))
       (io_seq full_redraw (io_return True)))))) s
      else if moving_right s then
        io_seq (io_change (\<lambda>s. s\<lparr>moving_right := False\<rparr>))
       (io_bind (get_attr moving_right_cur) (\<lambda>cur.
        io_bind (ask_picture (scale_selection cur)) (\<lambda>right.
        io_bind (ask_picture get_range_shown) (\<lambda>(left, _).
        io_seq (on_picture (set_range metrics left right))
       (io_seq full_redraw (io_return True)))))) s
      else if moving_both s then
        io_seq (io_change (\<lambda>s. s\<lparr>moving_both := False\<rparr>))
       (io_bind (get_attr moving_both_cur) (\<lambda>cur.
        io_bind (get_attr moving_both_start) (\<lambda>start.
        io_bind (ask_picture (scale_selection (cur - start))) (\<lambda>delta.
        io_bind (ask_picture get_range_shown) (\<lambda>(left, right).
        io_seq (on_picture (set_range metrics (left + delta) (right + delta)))
       (io_seq full_redraw (io_return True))))))) s
      else io_seq (io_change (\<lambda>s. if moving_top s then s\<lparr>moving_top := False\<rparr> else s)) (io_return False) s)"

definition redraw_selection :: "pynum \<Rightarrow> pynum \<Rightarrow> (drawing_area, bool) io" where
  "redraw_selection y height =
     io_bind (get_attr area_width) (\<lambda>width.
     io_seq (call_toolkit (QueueDrawArea 0 (num_int y) (num_int width) (num_int height))) (io_return True))"

text \<open>
  Past the right edge the flag itself is overwritten with the width: a number, true unless it is zero.
\<close>

definition motion_notify :: "(string \<Rightarrow> extents) \<Rightarrow> pynum \<Rightarrow> pynum \<Rightarrow> (drawing_area, bool) io" where
  "motion_notify metrics ev_x ev_y s =
     io_bind (ask_picture get_selection_rectangle) (\<lambda>(x, y, width, height).
       if moving_left s then
         io_seq (io_change (\<lambda>s. s\<lparr>moving_left_cur := Some
             (if ev_x \<le> 0 then 0 else if ev_x \<ge> x + width then x + width else ev_x)\<rparr>))
           (redraw_selection y height)
       else if moving_right s then
         io_bind (get_attr area_width) (\<lambda>all_width.
         io_seq (io_change (\<lambda>s.
             if ev_x \<ge> all_width then s\<lparr>moving_right := (num_val all_width \<noteq> 0)\<rparr>
             else s\<lparr>moving_right_cur := Some (if ev_x < x then x else ev_x)\<rparr>))
           (redraw_selection y height))
       else if moving_both s then
         io_bind (get_attr area_width) (\<lambda>all_width.
         io_bind (get_attr moving_both_start) (\<lambda>start.
           (let cur_e = all_width - (x + width - start); cur_s = start - x
            in io_seq (io_change (\<lambda>s. s\<lparr>moving_both_cur := Some
                 (if ev_x < cur_s then cur_s else if ev_x > cur_e then cur_e else ev_x)\<rparr>))
               (redraw_selection y height))))
       else if moving_top s then
         io_seq (io_change (\<lambda>s. s\<lparr>moving_top_cur := Some ev_x\<rparr>))
        (io_bind (get_attr moving_top_start) (\<lambda>start.
         io_bind (ask_picture (scale_data (start - ev_x))) (\<lambda>delta.
         io_bind (ask_picture get_range_shown) (\<lambda>(left, right).
         io_seq (on_picture (set_range metrics (left + delta) (right + delta)))
        (io_seq (io_change (\<lambda>s. s\<lparr>force_full_redraw := True, moving_top_start := Some ev_x\<rparr>))
        (io_seq (call_toolkit QueueDraw) (io_return True)))))))
       else
         io_bind (ask_picture get_data_rectangle) (\<lambda>data.
           if ev_y > y \<and> ev_y < y + height \<and> (num_abs (ev_x - x) < 5 \<or> num_abs (ev_x - (x + width)) < 5)
           then io_seq (call_toolkit (SetCursor (Some DoubleArrow))) (io_return True)
           else if ev_y > y \<and> ev_y < y + height \<and> ev_x > x \<and> ev_x < x + width
           then io_seq (call_toolkit (SetCursor (Some Fleur))) (io_return True)
           else if in_data ev_x ev_y data
           then io_seq (call_toolkit (SetCursor (Some Fleur))) (io_return True)
           else io_seq (call_toolkit (SetCursor None)) (io_return False))) s"

definition size_allocate :: "(string \<Rightarrow> extents) \<Rightarrow> pynum \<Rightarrow> pynum \<Rightarrow> (drawing_area, unit) io" where
  "size_allocate metrics width height =
     io_seq (io_change (\<lambda>s. s\<lparr>area_width := Some width, area_height := Some height\<rparr>))
    (io_seq (on_picture (graphic_layout metrics width height)) full_redraw)"

definition draw_window :: "draw_cmd list \<Rightarrow> (drawing_area, unit) io" where
  "draw_window cmds = call_toolkit (DrawWindow cmds)"

definition expose :: "(string \<Rightarrow> extents) \<Rightarrow> rectangle \<Rightarrow> (drawing_area, bool) io" where
  "expose metrics exposed =
     io_bind (io_get force_full_redraw) (\<lambda>force.
     io_seq (io_when force
       (io_seq (io_change (\<lambda>s. s\<lparr>buffer_surface := Some []\<rparr>))
       (io_seq (draw_buffer metrics) (io_change (\<lambda>s. s\<lparr>force_full_redraw := False\<rparr>)))))
    (case exposed of (a_x, a_y, a_width, a_height) \<Rightarrow>
     io_seq (draw_window [Rectangle a_x a_y a_width a_height, Clip])
    (io_bind (get_attr buffer_surface) (\<lambda>_.
     io_seq (draw_window [PaintSurface])
    (io_bind (ask_picture get_selection_rectangle) (\<lambda>(x, y, width, height).
     io_bind (io_get moving_left) (\<lambda>left.
     io_seq (io_when left (io_bind (get_attr moving_left_cur) (\<lambda>cur.
       draw_window [MoveTo (num_max cur 2) y, RelLineTo 0 height, ClosePath, SetLineWidth 1, black, Stroke])))
    (io_bind (io_get moving_right) (\<lambda>right.
     io_seq (io_when right (io_bind (get_attr moving_right_cur) (\<lambda>cur.
       io_bind (get_attr area_width) (\<lambda>all_width.
       draw_window [MoveTo (num_min cur (all_width - 2)) y, RelLineTo 0 height, ClosePath, SetLineWidth 1, black, Stroke]))))
    (io_bind (io_get moving_both) (\<lambda>both.
     io_seq (io_when both (io_bind (get_attr moving_both_cur) (\<lambda>cur.
       io_bind (get_attr moving_both_start) (\<lambda>start.
         (let delta_x = cur - start
          in draw_window [MoveTo (x + delta_x) y, RelLineTo 0 height, ClosePath,
               MoveTo (x + width + delta_x) y, RelLineTo 0 height, ClosePath, black, SetLineWidth 1, Stroke])))))
    (io_return False))))))))))))"

section \<open>The program\<close>

datatype gui_event =
    SizeAllocate pynum pynum
  | Expose rectangle
  | Motion pynum pynum
  | Press pynum pynum
  | Release
  | ZoomOut
  | ZoomIn
  | SavePng string

fun handle_event :: "(string \<Rightarrow> extents) \<Rightarrow> gui_event \<Rightarrow> (drawing_area, unit) io" where
  "handle_event metrics (SizeAllocate w h) = size_allocate metrics w h"
| "handle_event metrics (Expose area) = io_seq (expose metrics area) (io_return ())"
| "handle_event metrics (Motion x y) = io_seq (motion_notify metrics x y) (io_return ())"
| "handle_event metrics (Press x y) = io_seq (button_press x y) (io_return ())"
| "handle_event metrics Release = io_seq (button_release metrics) (io_return ())"
| "handle_event metrics ZoomOut = set_smaller_zoom metrics"
| "handle_event metrics ZoomIn = set_bigger_zoom metrics"
| "handle_event metrics (SavePng filename) = output_png metrics filename"

definition main_graphic :: "(string \<Rightarrow> extents) \<Rightarrow> (string list \<Rightarrow> string list) \<Rightarrow> colors \<Rightarrow> timelines \<Rightarrow> drawing_area result" where
  "main_graphic metrics ord cs ts =
     (let (lower_bound, upper_bound) = timelines_bounds ts;
          graphic = new_graphic (PyInt lower_bound) (PyInt upper_bound);
          range_values = get_all_range_values ord ts
      in res_bind (lookup_all range_values cs) (\<lambda>(range_colors, cs).
         (let graphic = set_top_legend (set_legends range_values range_colors new_top_legend) graphic;
              graphic = set_data (set_timelines ts new_timelines_renderer) graphic;
              range_mid = (upper_bound - lower_bound) div 2;
              range_width = (upper_bound - lower_bound) div 10;
              range_lo = range_mid - range_width div 2;
              range_hi = range_mid + range_width div 2
          in (case set_range metrics (PyInt range_lo) (PyInt range_hi) graphic of
                (Inl e, _) \<Rightarrow> Inl e
              | (Inr _, graphic) \<Rightarrow> Inr (new_drawing_area graphic cs)))))"

definition grid_main ::
  "(string \<Rightarrow> extents) \<Rightarrow> (string list \<Rightarrow> string list) \<Rightarrow> string \<Rightarrow> ('e world, drawing_area) io" where
  "grid_main metrics ord filename =
     io_bind (read_data filename) (\<lambda>(cs, ts). io_lift (main_graphic metrics ord cs ts))"

section \<open>Setting the range\<close>

text \<open>
  The range shown is stored three times: in the picture, in the renderer of the timelines and in the scale
  below them. The three agree; the scale at the bottom shows the full range. Where the range shown can lie:
  it is inside the full range, or, as \<open>set_range\<close> cuts the start only from below and the end only from
  above, it is turned round, with one bound an end of the trace and the other one past that end.
\<close>

definition range_placed :: "rat \<Rightarrow> rat \<Rightarrow> rat \<Rightarrow> rat \<Rightarrow> bool" where
  "range_placed full_lo full_hi start end \<longleftrightarrow> full_lo \<le> full_hi \<and>
     (full_lo \<le> start \<and> start \<le> end \<and> end \<le> full_hi \<or>
      end = full_hi \<and> full_hi < start \<or>
      start = full_lo \<and> end < full_lo)"

lemma range_placed_clamp:
  "full_lo \<le> full_hi \<Longrightarrow> range_placed full_lo full_hi (max full_lo (min a b)) (min full_hi (max a b))"
  by (auto simp: range_placed_def min_def max_def)

definition range_kept :: "graphic \<Rightarrow> bool" where
  "range_kept g \<longleftrightarrow> (\<exists>start end d. shown_start g = Some start \<and> shown_end g = Some end \<and>
     range_placed (num_val (full_start g)) (num_val (full_end g)) (num_val start) (num_val end) \<and>
     graphic_data g = Some d \<and> rows_start d = Some start \<and> rows_end d = Some end \<and>
     scale_lo (mid_scale g) = Some start \<and> scale_hi (mid_scale g) = Some end \<and>
     map_option num_val (scale_lo (bot_scale g)) = Some (num_val (full_start g)) \<and>
     map_option num_val (scale_hi (bot_scale g)) = Some (num_val (full_end g)))"

text \<open>A step keeps what holds of the state, whether it returns or raises.\<close>

definition keeps :: "('w \<Rightarrow> bool) \<Rightarrow> ('w, 'a) io \<Rightarrow> bool" where
  "keeps P m \<longleftrightarrow> (\<forall>w. P w \<longrightarrow> P (snd (m w)))"

named_theorems keep_rules

lemma keeps_bind [keep_rules]:
  assumes "keeps P m" "\<And>a. keeps P (f a)"
  shows "keeps P (io_bind m f)"
  unfolding keeps_def
proof (intro allI impI)
  fix w assume "P w"
  then have "P (snd (m w))" using assms(1) unfolding keeps_def by blast
  then show "P (snd (io_bind m f w))"
    using assms(2) unfolding keeps_def by (auto simp: io_bind_def split: prod.split sum.split)
qed

lemma keeps_seq [keep_rules]: "keeps P m \<Longrightarrow> keeps P n \<Longrightarrow> keeps P (io_seq m n)"
  by (simp add: io_seq_def keeps_bind)

lemma keeps_pure [keep_rules]: "keeps P (io_return a)" "keeps P (io_get f)" "keeps P (io_ask g)"
  by (simp_all add: keeps_def io_return_def io_get_def io_ask_def)

lemma keeps_change: "(\<And>w. P w \<Longrightarrow> P (f w)) \<Longrightarrow> keeps P (io_change f)"
  by (simp add: keeps_def io_change_def)

lemma keeps_modify: "(\<And>w w'. P w \<Longrightarrow> f w = Inr w' \<Longrightarrow> P w') \<Longrightarrow> keeps P (io_modify f)"
  by (auto simp: keeps_def io_modify_def split: sum.split)

lemma keeps_if [keep_rules]: "(b \<Longrightarrow> keeps P m) \<Longrightarrow> (\<not> b \<Longrightarrow> keeps P n) \<Longrightarrow> keeps P (if b then m else n)"
  by simp

lemma keeps_when [keep_rules]: "keeps P m \<Longrightarrow> keeps P (io_when b m)"
  by (simp add: io_when_def keeps_pure)

lemma keeps_case [keep_rules]: "(\<And>a b. keeps P (f a b)) \<Longrightarrow> keeps P (case p of (a, b) \<Rightarrow> f a b)"
  by (cases p) simp

lemma keeps_let [keep_rules]: "keeps P (f a) \<Longrightarrow> keeps P (let x = a in f x)"
  by simp

lemma keepsD: "keeps P m \<Longrightarrow> P w \<Longrightarrow> P (snd (m w))"
  by (simp add: keeps_def)

lemma scale_layout_bounds:
  assumes "scale_layout metrics w s = Inr s'"
  shows "scale_lo s' = scale_lo s" "scale_hi s' = scale_hi s"
  using assms by (auto simp: scale_layout_def Let_def)

lemma timelines_layout_range:
  assumes "timelines_layout metrics w d = Inr d'"
  shows "rows_start d' = rows_start d" "rows_end d' = rows_end d" "rows_timelines d' = rows_timelines d"
  using assms by (auto simp: timelines_layout_def Let_def case_prod_beta)

lemma keeps_layout: "keeps range_kept (graphic_layout metrics w h)"
  unfolding graphic_layout_def
  by (intro keeps_seq keeps_change keeps_modify)
    (auto simp: range_kept_def attr_def scale_layout_bounds timelines_layout_range split: option.splits)

lemma num_val_max [simp]: "num_val (num_max a b) = max (num_val a) (num_val b)"
  by (simp add: num_max_def max_def)

lemma num_val_min [simp]: "num_val (num_min a b) = min (num_val a) (num_val b)"
  by (simp add: num_min_def min_def)

abbreviation clamp_start :: "pynum \<Rightarrow> pynum \<Rightarrow> graphic \<Rightarrow> pynum" where
  "clamp_start a b g \<equiv> num_max (full_start g) (num_min a b)"

abbreviation clamp_end :: "pynum \<Rightarrow> pynum \<Rightarrow> graphic \<Rightarrow> pynum" where
  "clamp_end a b g \<equiv> num_min (full_end g) (num_max a b)"

definition range_set :: "pynum \<Rightarrow> pynum \<Rightarrow> timelines_renderer \<Rightarrow> graphic \<Rightarrow> graphic" where
  "range_set a b d g = g\<lparr>shown_start := Some (clamp_start a b g), shown_end := Some (clamp_end a b g),
     graphic_data := Some (set_render_range (clamp_start a b g) (clamp_end a b g) d),
     mid_scale := set_bounds (clamp_start a b g) (clamp_end a b g) (mid_scale g)\<rparr>"

lemma set_range_layout:
  "graphic_data g = Some d \<Longrightarrow>
    set_range metrics a b g = graphic_layout metrics (graphic_width g) (graphic_height g) (range_set a b d g)"
  by (simp add: set_range_def io_bind_def io_seq_def io_get_def io_change_def io_modify_def attr_def range_set_def)

lemma keeps_set_range: "keeps range_kept (set_range metrics a b)"
  unfolding keeps_def
proof (intro allI impI)
  fix g assume kept: "range_kept g"
  then obtain d where d: "graphic_data g = Some d" by (auto simp: range_kept_def)
  have "num_val (full_start g) \<le> num_val (full_end g)"
    using kept by (auto simp: range_kept_def range_placed_def)
  then have "range_kept (range_set a b d g)"
    using kept d by (auto simp: range_kept_def range_set_def set_render_range_def set_bounds_def range_placed_clamp)
  then show "range_kept (snd (set_range metrics a b g))"
    unfolding set_range_layout [OF d] by (rule keepsD [OF keeps_layout])
qed

section \<open>The handlers\<close>

abbreviation picture_kept :: "drawing_area \<Rightarrow> bool" where
  "picture_kept s \<equiv> range_kept (picture s)"

lemma keeps_on_picture: "keeps range_kept m \<Longrightarrow> keeps picture_kept (on_picture m)"
  by (simp add: keeps_def on_picture_def case_prod_beta)

lemma keeps_simple [keep_rules]:
  "keeps picture_kept (call_toolkit t)" "keeps picture_kept full_redraw" "keeps picture_kept (ask_picture f)"
  "keeps picture_kept (get_attr h)" "keeps picture_kept (draw_window cmds)" "keeps picture_kept (redraw_selection y height)"
  by (simp_all add: call_toolkit_def full_redraw_def ask_picture_def get_attr_def draw_window_def redraw_selection_def
      keeps_bind keeps_seq keeps_pure keeps_change)

lemma keeps_draw_buffer [keep_rules]: "keeps picture_kept (draw_buffer metrics)"
  unfolding draw_buffer_def
  by (intro keeps_bind) (simp_all add: keep_rules, simp add: keeps_def split: prod.split)

lemma keeps_picture_change [keep_rules]: "(\<And>s. picture (f s) = picture s) \<Longrightarrow> keeps picture_kept (io_change f)"
  by (simp add: keeps_change)

lemmas picture_rules = keep_rules keeps_on_picture [OF keeps_set_range] keeps_on_picture [OF keeps_layout]

lemma keeps_button_release: "keeps picture_kept (button_release metrics)"
  unfolding keeps_def button_release_def
  by (intro allI impI) (simp only: split: if_split, intro conjI impI; rule keepsD, intro picture_rules; simp)

lemma keeps_motion_notify: "keeps picture_kept (motion_notify metrics x y)"
  unfolding keeps_def motion_notify_def
  by (intro allI impI) (rule keepsD [where P = picture_kept]; (intro picture_rules)?; simp)

lemma keeps_button_press: "keeps picture_kept (button_press x y)"
  unfolding button_press_def by (intro picture_rules; simp)

lemma keeps_size_allocate: "keeps picture_kept (size_allocate metrics w h)"
  unfolding size_allocate_def by (intro picture_rules; simp)

lemma keeps_expose: "keeps picture_kept (expose metrics area)"
  unfolding expose_def by (intro picture_rules; simp)

lemma keeps_zoom: "keeps picture_kept (set_smaller_zoom metrics)" "keeps picture_kept (set_bigger_zoom metrics)"
  unfolding set_smaller_zoom_def set_bigger_zoom_def by (intro picture_rules; simp)+

lemma keeps_output_png: "keeps picture_kept (output_png metrics f)"
  unfolding output_png_def by (intro picture_rules; simp)

lemma keeps_handle_event: "keeps picture_kept (handle_event metrics e)"
  by (cases e) (simp_all add: keeps_size_allocate keeps_zoom keeps_output_png keeps_seq keeps_pure keeps_expose
      keeps_motion_notify keeps_button_press keeps_button_release)

text \<open>The states that a sequence of events leads to.\<close>

inductive gui_reachable :: "(string \<Rightarrow> extents) \<Rightarrow> drawing_area \<Rightarrow> drawing_area \<Rightarrow> bool"
  for metrics :: "string \<Rightarrow> extents" and initial :: drawing_area where
  initially: "gui_reachable metrics initial initial"
| on_event: "gui_reachable metrics initial s \<Longrightarrow> gui_reachable metrics initial (snd (handle_event metrics e s))"

lemma gui_reachable_kept: "gui_reachable metrics initial s \<Longrightarrow> range_kept (picture initial) \<Longrightarrow> range_kept (picture s)"
  by (induction rule: gui_reachable.induct) (simp_all add: keepsD [OF keeps_handle_event])

section \<open>Setting the range\<close>

lemma layout_shown:
  "keeps (\<lambda>g. shown_start g = s \<and> shown_end g = e) (graphic_layout metrics w h)"
  unfolding graphic_layout_def
  by (intro keeps_seq keeps_change keeps_modify) (auto simp: attr_def split: option.splits)

lemma set_range_shown_eq:
  assumes "graphic_data g = Some d"
  shows "shown_start (snd (set_range metrics a b g)) = Some (clamp_start a b g)"
    "shown_end (snd (set_range metrics a b g)) = Some (clamp_end a b g)"
  using keepsD [OF layout_shown, of "range_set a b d g" "Some (clamp_start a b g)" "Some (clamp_end a b g)"
      metrics "graphic_width g" "graphic_height g"]
  by (simp_all add: set_range_layout [OF assms], simp_all add: range_set_def)

text \<open>
  \<^bold>\<open>the range shown.\<close> \<open>set_range\<close> sorts its two bounds and cuts them to the full range. When the
  range asked for meets the full one, what is shown is their intersection. When it lies outside, which
  panning can bring about, the start shown is behind the end.
\<close>

theorem set_range_shown:
  assumes "graphic_data g = Some d" and "num_val (full_start g) \<le> num_val (full_end g)"
  shows "\<exists>start end. get_range_shown (snd (set_range metrics a b g)) = Inr (start, end) \<and>
    num_val start = max (num_val (full_start g)) (min (num_val a) (num_val b)) \<and>
    num_val end = min (num_val (full_end g)) (max (num_val a) (num_val b)) \<and>
    (num_val start \<le> num_val end \<longleftrightarrow>
      min (num_val a) (num_val b) \<le> num_val (full_end g) \<and> num_val (full_start g) \<le> max (num_val a) (num_val b))"
  using set_range_shown_eq [OF assms(1), of metrics a b] assms(2)
  by (auto simp: get_range_shown_def attr_def)

definition example_graphic :: graphic where
  "example_graphic = set_data (set_timelines mixed_rows new_timelines_renderer)
     (set_top_legend (set_legends [] [] new_top_legend) (new_graphic 0 50))"

lemma set_range_shown_witness:
  "\<exists>start end. get_range_shown (snd (set_range plain_metrics 60 70 example_graphic)) = Inr (start, end) \<and>
    num_val start = 60 \<and> num_val end = 50"
  using set_range_shown [of example_graphic "set_timelines mixed_rows new_timelines_renderer" plain_metrics 60 70]
  by (auto simp: example_graphic_def set_data_def set_top_legend_def new_graphic_def)

section \<open>Starting the program\<close>

lemma scale_layout_cases:
  assumes "scale_lo s = Some lo" "scale_hi s = Some hi"
  shows "num_val hi - num_val lo = 1 \<Longrightarrow> scale_layout metrics w s = Inl ZeroDivisionError"
    "num_val hi - num_val lo \<noteq> 1 \<Longrightarrow> \<exists>s'. scale_layout metrics w s = Inr s'"
  using scale_step_spec [of hi lo] by (auto simp: scale_layout_def attr_def assms num_mod_def Let_def)

lemma graphic_layout_result:
  assumes "graphic_legend g = Some l" "legends l = Some names" "graphic_data g = Some d" "rows_timelines d = Some ts"
    and mid: "scale_lo (mid_scale g) = Some lo" "scale_hi (mid_scale g) = Some hi"
    and bot: "scale_lo (bot_scale g) = Some lo'" "scale_hi (bot_scale g) = Some hi'"
  shows "fst (graphic_layout metrics w h g) =
    (if num_val hi - num_val lo = 1 \<or> num_val hi' - num_val lo' = 1 then Inl ZeroDivisionError else Inr ())"
proof -
  obtain l' where l: "top_legend_layout metrics w l = Inr l'"
    by (auto simp: top_legend_layout_def assms(2) attr_def Let_def case_prod_beta)
  obtain left right height where "timelines_layout metrics w d = Inr (d\<lparr>left_width := Some left, right_width := Some right,
      rows_text_height := Some (PyFloat (text_line metrics)), rows_width := Some w, rows_height := Some height\<rparr>)"
    using assms(4) by (rule timelines_layout_rows)
  then obtain d' x where d: "timelines_layout metrics w d = Inr d'" "get_data_x_start d' = Inr x"
    by (simp add: get_data_x_start_def attr_def)
  show ?thesis
  proof (cases "num_val hi - num_val lo = 1")
    case True
    then show ?thesis
      using scale_layout_cases(1) [OF mid True]
      by (simp add: graphic_layout_def io_seq_def io_bind_def io_change_def io_modify_def assms(1,3) attr_def l d
          data_left_def)
  next
    case False
    then obtain m where "scale_layout metrics (w - x) (mid_scale g) = Inr m" using scale_layout_cases(2) [OF mid] by blast
    then show ?thesis
      using False scale_layout_cases [OF bot, of metrics w]
      by (auto simp: graphic_layout_def io_seq_def io_bind_def io_change_def io_modify_def assms(1,3) attr_def l d
          data_left_def)
  qed
qed

lemma dict_keys_distinct: "distinct (dict_keys (fold (\<lambda>t d. fold (\<lambda>rs d. fold (\<lambda>ran d. dict_set (range_value ran) (1 :: int) d)
    (ranges rs) d) (timeline_ranges t) d) ts []))"
proof -
  have f: "dict_ok (fold g xs d)" if "\<And>x d. dict_ok d \<Longrightarrow> dict_ok (g x d)" "dict_ok d"
    for g :: "'x \<Rightarrow> (string, int) dict \<Rightarrow> (string, int) dict" and xs d
    using that by (induction xs arbitrary: d) auto
  have "dict_ok (fold (\<lambda>t d. fold (\<lambda>rs d. fold (\<lambda>ran d. dict_set (range_value ran) (1 :: int) d)
    (ranges rs) d) (timeline_ranges t) d) ts [])"
    by (intro f) (simp_all add: dict_simps)
  then show ?thesis by (simp add: dict_ok_def)
qed

lemma widen_upper: "snd s \<le> snd (fold (\<lambda>x. widen (g x)) xs s)"
proof (induction xs arbitrary: s)
  case (Cons x xs)
  have "snd s \<le> snd (widen (g x) s)" by (simp add: widen_def case_prod_beta)
  also have "\<dots> \<le> snd (fold (\<lambda>x. widen (g x)) xs (widen (g x) s))" by (rule Cons.IH)
  finally show ?case by simp
qed simp

lemma bounds_upper: "0 \<le> snd (timelines_bounds ts)"
  using widen_upper [of "(0, 0)"] by (simp add: timelines_bounds_def)

lemma widen_lower: "fst (fold (\<lambda>x. widen (g x)) xs s) \<le> fst s"
proof (induction xs arbitrary: s)
  case (Cons x xs)
  have "fst (fold (\<lambda>x. widen (g x)) xs (widen (g x) s)) \<le> fst (widen (g x) s)" by (rule Cons.IH)
  also have "\<dots> \<le> fst s" by (simp add: widen_def case_prod_beta)
  finally show ?case by simp
qed simp

lemma bounds_ordered: "timelines_bounds ts = (l, u) \<Longrightarrow> l \<le> u"
  using bounds_upper [of ts] widen_lower [of timeline_bounds ts "(0, 0)"] by (simp add: timelines_bounds_def)

definition default_range :: "int \<Rightarrow> int \<times> int" where
  "default_range u = (u div 2 - u div 10 div 2, u div 2 + u div 10 div 2)"

lemma default_range_inside:
  assumes "0 \<le> u"
  shows "0 \<le> fst (default_range u)" "snd (default_range u) \<le> u" "fst (default_range u) \<le> snd (default_range u)"
    "snd (default_range u) - fst (default_range u) \<noteq> 1"
  using assms unfolding default_range_def by (simp_all, presburger+)

definition first_graphic ::
  "(string list \<Rightarrow> string list) \<Rightarrow> timelines \<Rightarrow> color list \<Rightarrow> graphic" where
  "first_graphic ord ts cols =
     (let (l, u) = timelines_bounds ts
      in set_data (set_timelines ts new_timelines_renderer)
           (set_top_legend (set_legends (get_all_range_values ord ts) cols new_top_legend) (new_graphic (PyInt l) (PyInt u))))"

lemma first_range_kept:
  "range_kept (snd (set_range metrics a b (first_graphic ord ts cols)))"
proof -
  let ?g = "first_graphic ord ts cols"
  have data: "graphic_data ?g = Some (set_timelines ts new_timelines_renderer)"
    by (simp add: first_graphic_def set_data_def case_prod_beta)
  have "range_kept (range_set a b (set_timelines ts new_timelines_renderer) ?g)"
    by (simp add: range_kept_def range_set_def set_render_range_def set_bounds_def first_graphic_def set_data_def
        set_top_legend_def new_graphic_def case_prod_beta set_bot_def new_scale_def
        range_placed_clamp bounds_ordered [OF surjective_pairing])
  then show ?thesis unfolding set_range_layout [OF data] by (rule keepsD [OF keeps_layout])
qed

definition started :: "unit result \<times> graphic \<Rightarrow> colors \<Rightarrow> drawing_area result" where
  "started r cs = (case r of (Inl e, _) \<Rightarrow> Inl e | (Inr _, g) \<Rightarrow> Inr (new_drawing_area g cs))"

lemma started_picture: "started r cs = Inr s \<Longrightarrow> picture s = snd r"
  by (cases r) (auto simp: started_def new_drawing_area_def split: sum.splits)

lemma started_cases:
  "started r cs = (case fst r of Inl e \<Rightarrow> Inl e | Inr _ \<Rightarrow> Inr (new_drawing_area (snd r) cs))"
  by (cases r) (simp add: started_def split: sum.split)

lemma main_graphic_first:
  "main_graphic metrics ord cs ts =
    (let (l, u) = timelines_bounds ts; (lo, hi) = ((u - l) div 2 - (u - l) div 10 div 2, (u - l) div 2 + (u - l) div 10 div 2) in
     res_bind (lookup_all (get_all_range_values ord ts) cs) (\<lambda>(cols, cs).
       started (set_range metrics (PyInt lo) (PyInt hi) (first_graphic ord ts cols)) cs))"
  by (cases "lookup_all (get_all_range_values ord ts) cs")
    (simp_all add: main_graphic_def first_graphic_def started_def case_prod_beta Let_def split: sum.split)

text \<open>
  \<^bold>\<open>C18: one range.\<close> Whatever the events after the start of the program, also those whose handler
  raises: the picture, the timelines and the scale below them show the same range, and the lower scale keeps
  the full one. The range shown is an interval inside the trace, or, after moving past one end of the trace,
  turned round: one bound is that end, the other lies past it. So it never starts before the trace and never
  ends behind it, but its start may lie behind its end.
\<close>

theorem shown_range_kept:
  assumes "main_graphic metrics ord cs ts = Inr initial" and "gui_reachable metrics initial s"
  shows "range_kept (picture s)"
proof -
  obtain a b cols cs' where "started (set_range metrics a b (first_graphic ord ts cols)) cs' = Inr initial"
    using assms(1) by (auto simp: main_graphic_first case_prod_beta Let_def)
  then have "range_kept (picture initial)" using first_range_kept started_picture by simp
  with assms(2) show ?thesis by (rule gui_reachable_kept)
qed

lemma first_layout:
  fixes ord ts cols metrics
  assumes "timelines_bounds ts = (0, u)"
  defines "a \<equiv> fst (default_range u)" and "b \<equiv> snd (default_range u)"
  shows "fst (set_range metrics (PyInt a) (PyInt b) (first_graphic ord ts cols)) =
    (if u = 1 then Inl ZeroDivisionError else Inr ())"
proof -
  let ?g = "first_graphic ord ts cols" and ?d = "set_timelines ts new_timelines_renderer"
  have u: "0 \<le> u" using bounds_upper [of ts] assms(1) by simp
  note inside = default_range_inside [OF u]
  have parts: "graphic_data ?g = Some ?d" "full_start ?g = PyFloat 0" "full_end ?g = PyFloat (of_int u)"
    "scale_lo (bot_scale ?g) = Some (PyInt 0)" "scale_hi (bot_scale ?g) = Some (PyInt u)"
    by (simp_all add: first_graphic_def set_data_def set_top_legend_def new_graphic_def assms(1) set_bot_def set_bounds_def)
  obtain l where legend: "graphic_legend (range_set (PyInt a) (PyInt b) ?d ?g) = Some l" "legends l = Some (get_all_range_values ord ts)"
    by (simp add: range_set_def first_graphic_def set_data_def set_top_legend_def set_legends_def case_prod_beta)
  have "rows_timelines (set_render_range s e ?d) = Some ts" for s e
    by (simp add: set_render_range_def set_timelines_def)
  then have "fst (graphic_layout metrics (graphic_width ?g) (graphic_height ?g) (range_set (PyInt a) (PyInt b) ?d ?g)) =
      (if num_val (clamp_end (PyInt a) (PyInt b) ?g) - num_val (clamp_start (PyInt a) (PyInt b) ?g) = 1 \<or> u = 1
       then Inl ZeroDivisionError else Inr ())"
    using graphic_layout_result [OF legend] parts by (simp add: range_set_def set_bounds_def)
  moreover have "num_val (clamp_start (PyInt a) (PyInt b) ?g) = of_int a" "num_val (clamp_end (PyInt a) (PyInt b) ?g) = of_int b"
    using inside(1-3) by (simp_all add: parts a_def b_def)
  moreover have "rat_of_int b - rat_of_int a \<noteq> 1" using inside(4) unfolding a_def b_def by linarith
  ultimately show ?thesis by (simp add: set_range_layout [OF parts(1)])
qed

lemma main_graphic_result:
  assumes "\<And>ks. mset (ord ks) = mset ks" and "timelines_bounds ts = (0, upper)"
  shows "let new = length (unknown_names (get_all_range_values ord ts) cs) in
    if length (default_colors cs) < new then main_graphic metrics ord cs ts = Inl IndexError
    else if upper = 1 then main_graphic metrics ord cs ts = Inl ZeroDivisionError
    else \<exists>s start end. main_graphic metrics ord cs ts = Inr s \<and> get_range_shown (picture s) = Inr (start, end) \<and>
      num_val start = of_int (fst (default_range upper)) \<and> num_val end = of_int (snd (default_range upper))"
proof -
  let ?vals = "get_all_range_values ord ts" and ?lo = "fst (default_range upper)" and ?hi = "snd (default_range upper)"
  have "distinct ?vals"
    using dict_keys_distinct [of ts] mset_eq_imp_distinct_iff [OF assms(1)] by (simp add: get_all_range_values_def)
  note colors = lookup_all_eq [OF this, of cs]
  show ?thesis
  proof (cases "length (default_colors cs) < length (unknown_names ?vals cs)")
    case True
    then show ?thesis using colors by (simp add: main_graphic_first assms(2))
  next
    case False
    then obtain cols cs' where found: "lookup_all ?vals cs = Inr (cols, cs')"
      using colors by (simp add: Let_def)
    let ?r = "set_range metrics (PyInt ?lo) (PyInt ?hi) (first_graphic ord ts cols)"
    have main: "main_graphic metrics ord cs ts = started ?r cs'"
      by (simp add: main_graphic_first assms(2) found default_range_def)
    have upper: "0 \<le> upper" using bounds_upper [of ts] assms(2) by simp
    note result = first_layout [OF assms(2), of metrics ord cols]
    show ?thesis
    proof (cases "upper = 1")
      case True
      then show ?thesis using False result by (simp add: main started_cases)
    next
      case up: False
      let ?g = "first_graphic ord ts cols"
      have g: "graphic_data ?g = Some (set_timelines ts new_timelines_renderer)" "full_start ?g = PyFloat 0"
        "full_end ?g = PyFloat (of_int upper)"
        by (simp_all add: first_graphic_def set_data_def set_top_legend_def new_graphic_def assms(2))
      have "main_graphic metrics ord cs ts = Inr (new_drawing_area (snd ?r) cs')"
        using result up by (simp add: main started_cases)
      moreover have "get_range_shown (snd ?r) = Inr (clamp_start (PyInt ?lo) (PyInt ?hi) ?g, clamp_end (PyInt ?lo) (PyInt ?hi) ?g)"
        using set_range_shown_eq [OF g(1)] by (simp add: get_range_shown_def attr_def)
      moreover have "num_val (clamp_start (PyInt ?lo) (PyInt ?hi) ?g) = of_int ?lo"
        "num_val (clamp_end (PyInt ?lo) (PyInt ?hi) ?g) = of_int ?hi"
        using default_range_inside(1-3) [OF upper] by (simp_all add: g)
      ultimately show ?thesis using False up by (simp add: new_drawing_area_def)
    qed
  qed
qed

text \<open>
  \<^bold>\<open>starting.\<close> On a trace that starts at time 0 the program comes up unless more values lack a
  colour than there are default colours (\<open>IndexError\<close>) or the trace ends at time 1
  (\<open>ZeroDivisionError\<close>). It then shows a tenth of the trace around its middle.
\<close>

theorem main_starts:
  assumes "\<And>ks. mset (ord ks) = mset ks" and "timelines_bounds ts = (0, upper)"
  shows "let new = length (unknown_names (get_all_range_values ord ts) cs) in
    if length (default_colors cs) < new then main_graphic metrics ord cs ts = Inl IndexError
    else if upper = 1 then main_graphic metrics ord cs ts = Inl ZeroDivisionError
    else \<exists>s start end. main_graphic metrics ord cs ts = Inr s \<and> get_range_shown (picture s) = Inr (start, end) \<and>
      num_val start = of_int (fst (default_range upper)) \<and> num_val end = of_int (snd (default_range upper))"
  using assms by (rule main_graphic_result)

definition plain_timelines :: timelines where
  "plain_timelines = [\<lparr>timeline_name = ''t'', timeline_ranges = [three_ranges], timeline_event_str = [],
     timeline_event_int = []\<rparr>]"

lemma plain_values: "unknown_names (get_all_range_values rev plain_timelines) new_colors = [''c'', ''b'', ''a'']"
  "timelines_bounds plain_timelines = (0, 50)"
  by (simp_all add: plain_timelines_def three_ranges_def timelines_bounds_def timeline_bounds_def widen_def ranges_bounds_def
      get_all_range_values_def dict_set_def unknown_names_def new_colors_def)

lemma main_starts_witness:
  "\<exists>s start end. main_graphic plain_metrics rev new_colors plain_timelines = Inr s \<and>
    get_range_shown (picture s) = Inr (start, end) \<and> num_val start = 23 \<and> num_val end = 27"
  using main_starts [of rev plain_timelines 50 new_colors plain_metrics]
  by (simp add: plain_values) (simp add: new_colors_def default_range_def)

lemma plain_starts: "\<exists>s. main_graphic plain_metrics rev new_colors plain_timelines = Inr s"
  using main_graphic_result [of rev plain_timelines 50 new_colors plain_metrics]
  by (simp add: plain_values) (auto simp: new_colors_def)

lemma shown_range_kept_witness:
  "\<exists>s. main_graphic plain_metrics rev new_colors plain_timelines = Inr s \<and>
    range_kept (picture (snd (handle_event plain_metrics ZoomIn s)))"
  using plain_starts shown_range_kept on_event [OF initially] by metis

section \<open>Dragging the selection\<close>

text \<open>Where the left and the right edge of the selection are dragged to.\<close>

definition dragged_left :: "rectangle \<Rightarrow> pynum \<Rightarrow> pynum" where
  "dragged_left r ev_x = (case r of (x, y, w, h) \<Rightarrow> if ev_x \<le> 0 then 0 else if ev_x \<ge> x + w then x + w else ev_x)"

definition selection_redraw :: "rectangle \<Rightarrow> pynum \<Rightarrow> toolkit_call" where
  "selection_redraw r width = (case r of (x, y, w, h) \<Rightarrow> QueueDrawArea 0 (num_int y) (num_int width) (num_int h))"

lemmas handler_simps = io_seq_def io_bind_def io_change_def io_ask_def io_get_def io_return_def ask_picture_def get_attr_def
  redraw_selection_def call_toolkit_def attr_def on_picture_def full_redraw_def

text \<open>
  \<^bold>\<open>dragging the left edge.\<close> While the left edge of the selection is held, a motion moves it to
  the mouse, kept between the left of the window and the right edge of the selection, and leaves the
  picture alone. The release then sets the range from that place to the old end, and lets the edge go.
\<close>

theorem drag_left_edge:
  assumes "moving_left s" and "get_selection_rectangle (picture s) = Inr r" and "area_width s = Some width"
    and "scale_selection (dragged_left r ev_x) (picture s) = Inr left" and "get_range_shown (picture s) = Inr (start, end)"
  shows "let moved = s\<lparr>moving_left_cur := Some (dragged_left r ev_x), toolkit_log := toolkit_log s @ [selection_redraw r width]\<rparr>;
      released = snd (handle_event metrics Release moved)
    in handle_event metrics (Motion ev_x ev_y) s = (Inr (), moved) \<and>
      picture released = snd (set_range metrics left end (picture s)) \<and> \<not> moving_left released"
proof -
  obtain x y w h where r: "r = (x, y, w, h)" by (cases r)
  show ?thesis
    using assms unfolding r
    by (auto simp: motion_notify_def button_release_def handler_simps dragged_left_def selection_redraw_def Let_def
        split: prod.splits sum.splits)
qed

text \<open>
  \<^bold>\<open>lost drags.\<close> A release without a motion before it raises \<open>AttributeError\<close>, for there is no
  place to take the edge to. So does a drag of the right edge straight past the right of the window: that
  motion stores the width in the flag and no place. In both cases the range stays.
\<close>

theorem lost_drags:
  assumes "moving_right s" and "\<not> moving_left s" and "moving_right_cur s = None"
    and "get_selection_rectangle (picture s) = Inr r" and "area_width s = Some width" and "num_val width \<noteq> 0"
    and "num_val width \<le> num_val ev_x"
  shows "handle_event metrics Release s = (Inl AttributeError, s\<lparr>moving_right := False\<rparr>) \<and>
    (let moved = s\<lparr>toolkit_log := toolkit_log s @ [selection_redraw r width]\<rparr>
     in handle_event metrics (Motion ev_x ev_y) s = (Inr (), moved) \<and>
        handle_event metrics Release moved = (Inl AttributeError, moved\<lparr>moving_right := False\<rparr>))"
proof -
  obtain x y w h where r: "r = (x, y, w, h)" by (cases r)
  show ?thesis
    using assms unfolding r
    by (simp add: motion_notify_def button_release_def handler_simps selection_redraw_def Let_def)
qed

definition plain_picture :: graphic where
  "plain_picture = (set_data (set_timelines mixed_rows new_timelines_renderer\<lparr>rows_height := Some 40\<rparr>)
     (set_top_legend (new_top_legend\<lparr>legend_height := Some 20\<rparr>) (new_graphic 0 50)))
     \<lparr>shown_start := Some 10, shown_end := Some 30, graphic_width := 100,
      mid_scale := new_scale\<lparr>scale_height := Some 20\<rparr>,
      bot_scale := (set_bounds 0 50 new_scale)\<lparr>scale_height := Some 20, scale_width := Some 100\<rparr>\<rparr>"

definition holding :: "bool \<Rightarrow> drawing_area" where
  "holding left = (new_drawing_area plain_picture new_colors)\<lparr>moving_left := left, moving_right := \<not> left, area_width := Some 100\<rparr>"

lemma plain_picture_facts:
  "picture (holding b) = plain_picture" "area_width (holding b) = Some 100" "moving_right_cur (holding b) = None"
  "get_selection_rectangle plain_picture = Inr (20, 100, 40, 40)" "get_range_shown plain_picture = Inr (10, 30)"
  "scale_selection (dragged_left (20, 100, 40, 40) (PyFloat 4)) plain_picture = Inr (PyFloat 2)"
  by (simp_all add: holding_def new_drawing_area_def plain_picture_def set_data_def set_top_legend_def new_graphic_def
      get_selection_rectangle_def legend_size_def data_size_def get_range_shown_def attr_def get_position_def set_bounds_def
      num_div_def scale_selection_def dragged_left_def numeral_pynum num_quot_def plus_pynum_def minus_pynum_def
      times_pynum_def zero_pynum_def)

lemma drag_left_edge_witness:
  "picture (snd (handle_event plain_metrics Release (snd (handle_event plain_metrics (Motion (PyFloat 4) 110) (holding True))))) =
    snd (set_range plain_metrics (PyFloat 2) 30 plain_picture)"
  using drag_left_edge [of "holding True" "(20, 100, 40, 40)" 100 "PyFloat 4" "PyFloat 2" 10 30 plain_metrics 110]
  by (simp add: plain_picture_facts) (simp add: holding_def Let_def)

lemma lost_drags_witness:
  "fst (handle_event plain_metrics Release (snd (handle_event plain_metrics (Motion (PyFloat 140) 110) (holding False)))) =
    Inl AttributeError"
  using lost_drags [of "holding False" "(20, 100, 40, 40)" 100 "PyFloat 140" plain_metrics 110]
  by (simp add: plain_picture_facts) (simp add: holding_def Let_def)

end
