(* ===== verification/Build_Flags.thy ===== *)
theory Build_Flags
  imports Py_World
begin

text \<open>
  The compiler flags of a build profile, \<open>waf-tools/cflags.py\<close>: the three classes of compiler traits, the
  tables of compilers and profiles, and \<open>configure\<close>. The environment of waf is a dictionary from names to
  lists; its \<open>append_value\<close> appends a list to the one stored.
\<close>

section \<open>Compiler traits\<close>

datatype traits = Gcc | Icc | Msvc

text \<open>The loop of the three classes stops at the first level that the table does not have.\<close>

fun warnings_loop :: "string list list \<Rightarrow> nat list \<Rightarrow> string list \<Rightarrow> string list" where
  "warnings_loop table [] warnings = warnings"
| "warnings_loop table (l # ls) warnings =
     (if l < length table then warnings_loop table ls (warnings @ table ! l) else warnings)"

subsection \<open>The GNU compiler\<close>

definition gcc_warnings_flags :: "string list list" where
  "gcc_warnings_flags = [[''-Wall''], [''-Werror''], [''-Wextra'']]"

definition gcc_get_warnings_flags :: "int \<Rightarrow> string list" where
  "gcc_get_warnings_flags level = warnings_loop gcc_warnings_flags [0..<nat level] []"

text \<open>A level that no branch names gives \<open>None\<close>.\<close>

definition gcc_get_optimization_flags :: "int \<Rightarrow> string list option" where
  "gcc_get_optimization_flags level =
     (if level = 0 then Some [''-O0'']
      else if level = 1 then Some [''-O'']
      else if level = 2 then Some [''-O2'']
      else if level = 3 then Some [''-O3'']
      else None)"

definition gcc_get_debug_flags :: "int \<Rightarrow> (string list \<times> string list) option" where
  "gcc_get_debug_flags level =
     (if level = 0 then Some ([''-g0''], [''NDEBUG''])
      else if level = 1 then Some ([''-g''], [])
      else if level \<ge> 2 then Some ([''-ggdb'', ''-g3''], [''_DEBUG''])
      else None)"

subsection \<open>The Intel compiler\<close>

definition icc_warnings_flags :: "string list list" where
  "icc_warnings_flags = [[], [], [''-Wall'']]"

definition icc_get_warnings_flags :: "int \<Rightarrow> string list" where
  "icc_get_warnings_flags level = warnings_loop icc_warnings_flags [0..<nat level] []"

definition icc_get_optimization_flags :: "int \<Rightarrow> string list option" where
  "icc_get_optimization_flags level =
     (if level = 0 then Some [''-O0'']
      else if level = 1 then Some [''-O'']
      else if level = 2 then Some [''-O2'']
      else if level = 3 then Some [''-O3'']
      else None)"

definition icc_get_debug_flags :: "int \<Rightarrow> (string list \<times> string list) option" where
  "icc_get_debug_flags level =
     (if level = 0 then Some ([''-g0''], [''NDEBUG''])
      else if level = 1 then Some ([''-g''], [])
      else if level \<ge> 2 then Some ([''-ggdb'', ''-g3''], [''_DEBUG''])
      else None)"

subsection \<open>The Microsoft compiler\<close>

definition msvc_warnings_flags :: "string list list" where
  "msvc_warnings_flags = [[''/W2''], [''/WX''], [''/Wall'']]"

definition msvc_get_warnings_flags :: "int \<Rightarrow> string list" where
  "msvc_get_warnings_flags level = warnings_loop msvc_warnings_flags [0..<nat level] []"

definition msvc_get_optimization_flags :: "int \<Rightarrow> string list option" where
  "msvc_get_optimization_flags level =
     (if level = 0 then Some [''/Od'']
      else if level = 1 then Some []
      else if level = 2 then Some [''/O2'']
      else if level = 3 then Some [''/Ox'']
      else None)"

definition msvc_get_debug_flags :: "int \<Rightarrow> (string list \<times> string list) option" where
  "msvc_get_debug_flags level =
     (if level = 0 then Some ([], [''NDEBUG''])
      else if level = 1 then Some ([''/ZI'', ''/RTC1''], [])
      else if level \<ge> 2 then Some ([''/ZI'', ''/RTC1''], [''_DEBUG''])
      else None)"

subsection \<open>The methods of the common class\<close>

fun get_warnings_flags :: "traits \<Rightarrow> int \<Rightarrow> string list" where
  "get_warnings_flags Gcc = gcc_get_warnings_flags"
| "get_warnings_flags Icc = icc_get_warnings_flags"
| "get_warnings_flags Msvc = msvc_get_warnings_flags"

fun get_optimization_flags :: "traits \<Rightarrow> int \<Rightarrow> string list option" where
  "get_optimization_flags Gcc = gcc_get_optimization_flags"
| "get_optimization_flags Icc = icc_get_optimization_flags"
| "get_optimization_flags Msvc = msvc_get_optimization_flags"

fun get_debug_flags :: "traits \<Rightarrow> int \<Rightarrow> (string list \<times> string list) option" where
  "get_debug_flags Gcc = gcc_get_debug_flags"
| "get_debug_flags Icc = icc_get_debug_flags"
| "get_debug_flags Msvc = msvc_get_debug_flags"

lemmas flag_table_defs = gcc_warnings_flags_def gcc_get_optimization_flags_def gcc_get_debug_flags_def
  icc_warnings_flags_def icc_get_optimization_flags_def icc_get_debug_flags_def
  msvc_warnings_flags_def msvc_get_optimization_flags_def msvc_get_debug_flags_def

section \<open>Compilers and profiles\<close>

definition compiler_mapping :: "(string, traits) dict" where
  "compiler_mapping =
     [(''gcc'', Gcc), (''g++'', Gcc), (''msvc'', Msvc), (''icc'', Icc), (''icpc'', Icc)]"

definition profiles :: "(string, int \<times> int \<times> int) dict" where
  \<comment> \<open>optimization level, warnings level, debug level\<close>
  "profiles = [(''default'', 2, 1, 1), (''debug'', 0, 2, 3), (''release'', 3, 1, 0)]"

definition default_profile :: string where
  "default_profile = ''default''"

text \<open>\<open>options\<close> adds one option: its default and the values it takes.\<close>

definition build_profile_option :: "(string list \<Rightarrow> string list) \<Rightarrow> (string \<times> string list) result" where
  "build_profile_option ord =
     (if dict_has profiles default_profile then Inr (default_profile, ord (dict_keys profiles)) else Inl AssertionError)"

section \<open>Configuration\<close>

record conf =
  compiler_cc :: "string option"
  compiler_cxx :: "string option"
  conf_env :: "(string, string list) dict"
  warnings_logged :: "string list"

definition WafError :: py_exn where
  "WafError = PyException ''WafError''"

definition env_value :: "conf \<Rightarrow> string \<Rightarrow> string list" where
  "env_value c n = (case map_of (conf_env c) n of None \<Rightarrow> [] | Some v \<Rightarrow> v)"

definition append_value :: "string \<Rightarrow> string list \<Rightarrow> conf \<Rightarrow> conf" where
  "append_value n v c = c\<lparr>conf_env := dict_set n (env_value c n @ v) (conf_env c)\<rparr>"

text \<open>\<open>env[name] or None\<close>: the empty name counts as none.\<close>

definition compiler_name :: "string option \<Rightarrow> string option" where
  "compiler_name n = (case n of None \<Rightarrow> None | Some s \<Rightarrow> if s = [] then None else Some s)"

definition find_compiler :: "string option \<Rightarrow> traits option" where
  "find_compiler n = (case n of None \<Rightarrow> None | Some s \<Rightarrow> map_of compiler_mapping s)"

definition set_flags ::
  "string \<Rightarrow> string \<Rightarrow> string list \<Rightarrow> string list \<Rightarrow> string list \<Rightarrow> string list \<Rightarrow> conf \<Rightarrow> conf" where
  "set_flags flags defines optimizations debug warnings debug_defs c =
     append_value defines debug_defs (append_value flags warnings (append_value flags debug (append_value flags optimizations c)))"

definition configure :: "string \<Rightarrow> (string option \<Rightarrow> string) \<Rightarrow> (conf, unit) io" where
  "configure build_profile show conf =
     (let cc = compiler_name (compiler_cc conf); cxx = compiler_name (compiler_cxx conf) in
      if cc = None \<and> cxx = None then (Inl WafError, conf)
      else
        case (case find_compiler cc of Some t \<Rightarrow> Some t | None \<Rightarrow> find_compiler cxx) of
          None \<Rightarrow> (Inr (), conf\<lparr>warnings_logged := warnings_logged conf @
            [''No compiler flags support for compiler '' @ show cc @ '' or '' @ show cxx]\<rparr>)
        | Some compiler \<Rightarrow>
            (case dict_get profiles build_profile of
               Inl e \<Rightarrow> (Inl e, conf)
             | Inr (opt_level, warn_level, dbg_level) \<Rightarrow>
                 (case (get_optimization_flags compiler opt_level, get_debug_flags compiler dbg_level) of
                    (Some optimizations, Some (debug, debug_defs)) \<Rightarrow>
                      (let warnings = get_warnings_flags compiler warn_level;
                           conf = (if cc \<noteq> None \<and> env_value conf ''CCFLAGS'' = []
                             then set_flags ''CCFLAGS'' ''CCDEFINES'' optimizations debug warnings debug_defs conf else conf);
                           conf = (if cxx \<noteq> None \<and> env_value conf ''CXXFLAGS'' = []
                             then set_flags ''CXXFLAGS'' ''CXXDEFINES'' optimizations debug warnings debug_defs conf else conf)
                       in (Inr (), conf))
                  | _ \<Rightarrow> (Inl TypeError, conf))))"

section \<open>What a configuration does\<close>

text \<open>The flags and defines of a compiler under a profile.\<close>

definition profile_flags :: "traits \<Rightarrow> string \<Rightarrow> (string list \<times> string list) option" where
  "profile_flags t profile =
     Option.bind (map_of profiles profile) (\<lambda>(opt, warn, dbg).
     Option.bind (get_optimization_flags t opt) (\<lambda>optimizations.
     Option.bind (get_debug_flags t dbg) (\<lambda>(debug, defs).
       Some (optimizations @ debug @ get_warnings_flags t warn, defs))))"

lemma warnings_loop_take:
  "warnings_loop table [k..<n] ws = ws @ concat (drop k (take n table))"
proof (induction "n - k" arbitrary: k ws)
  case 0
  then show ?case by simp
next
  case (Suc m)
  then have "k < n" by simp
  then have upt: "[k..<n] = k # [Suc k..<n]" by (rule upt_conv_Cons)
  show ?case
  proof (cases "k < length table")
    case True
    then have "drop k (take n table) = table ! k # drop (Suc k) (take n table)"
      using \<open>k < n\<close> Cons_nth_drop_Suc [of k "take n table"] by simp
    then show ?thesis using True Suc(1) [of "Suc k"] Suc(2) \<open>k < n\<close> by (simp add: upt)
  qed (simp add: upt)
qed

fun warnings_table :: "traits \<Rightarrow> string list list" where
  "warnings_table Gcc = gcc_warnings_flags"
| "warnings_table Icc = icc_warnings_flags"
| "warnings_table Msvc = msvc_warnings_flags"

lemma get_warnings_flags_take: "get_warnings_flags t level = concat (take (nat level) (warnings_table t))"
  by (cases t) (simp_all add: gcc_get_warnings_flags_def icc_get_warnings_flags_def msvc_get_warnings_flags_def warnings_loop_take)

lemma profile_flags_exist:
  assumes "profile \<in> set (dict_keys profiles)"
  obtains flags defs where "profile_flags t profile = Some (flags, defs)" "flags \<noteq> []"
proof -
  have "\<exists>flags defs. profile_flags t profile = Some (flags, defs) \<and> flags \<noteq> []"
    using assms by (cases t) (auto simp: profiles_def profile_flags_def get_warnings_flags_take flag_table_defs)
  then show thesis using that by blast
qed

definition traits_for :: "conf \<Rightarrow> traits option" where
  "traits_for c =
     (case find_compiler (compiler_name (compiler_cc c)) of
        Some t \<Rightarrow> Some t | None \<Rightarrow> find_compiler (compiler_name (compiler_cxx c)))"

lemma env_value_append: "env_value (append_value n v c) m = (if m = n then env_value c n @ v else env_value c m)"
  by (simp add: append_value_def env_value_def dict_simps)

lemma append_value_other [simp]:
  "compiler_cc (append_value n v c) = compiler_cc c" "compiler_cxx (append_value n v c) = compiler_cxx c"
  "warnings_logged (append_value n v c) = warnings_logged c"
  by (simp_all add: append_value_def)

lemma traits_for_named: "traits_for c = Some t \<Longrightarrow> \<not> (compiler_name (compiler_cc c) = None \<and> compiler_name (compiler_cxx c) = None)"
  by (auto simp: traits_for_def find_compiler_def split: option.splits)

lemma profile_flags_parts:
  assumes "profile_flags t profile = Some (flags, defs)"
  obtains opt warn dbg optimizations debug where "map_of profiles profile = Some (opt, warn, dbg)"
    "get_optimization_flags t opt = Some optimizations" "get_debug_flags t dbg = Some (debug, defs)"
    "flags = optimizations @ debug @ get_warnings_flags t warn"
  using assms by (auto simp: profile_flags_def bind_eq_Some_conv)

lemma configure_again:
  assumes "profile_flags t profile = Some (flags, defs)" "traits_for c = Some t"
    and "compiler_name (compiler_cc c) \<noteq> None \<longrightarrow> env_value c ''CCFLAGS'' \<noteq> []"
    and "compiler_name (compiler_cxx c) \<noteq> None \<longrightarrow> env_value c ''CXXFLAGS'' \<noteq> []"
  shows "configure profile show c = (Inr (), c)"
proof -
  obtain opt warn dbg optimizations debug where parts: "map_of profiles profile = Some (opt, warn, dbg)"
    "get_optimization_flags t opt = Some optimizations" "get_debug_flags t dbg = Some (debug, defs)"
    using assms(1) by (rule profile_flags_parts)
  show ?thesis
    using traits_for_named [OF assms(2)] assms(2-4) parts by (auto simp: configure_def Let_def traits_for_def dict_get_def)
qed

lemma configure_flags:
  assumes "profile_flags t profile = Some (flags, defs)" "traits_for c = Some t"
  shows "\<exists>c'. configure profile show c = (Inr (), c') \<and> (\<forall>n. env_value c' n = env_value c n @
      (if compiler_name (compiler_cc c) \<noteq> None \<and> env_value c ''CCFLAGS'' = []
       then (if n = ''CCFLAGS'' then flags else if n = ''CCDEFINES'' then defs else []) else []) @
      (if compiler_name (compiler_cxx c) \<noteq> None \<and> env_value c ''CXXFLAGS'' = []
       then (if n = ''CXXFLAGS'' then flags else if n = ''CXXDEFINES'' then defs else []) else [])) \<and>
    compiler_cc c' = compiler_cc c \<and> compiler_cxx c' = compiler_cxx c \<and> warnings_logged c' = warnings_logged c"
proof -
  obtain opt warn dbg optimizations debug where parts: "map_of profiles profile = Some (opt, warn, dbg)"
    "get_optimization_flags t opt = Some optimizations" "get_debug_flags t dbg = Some (debug, defs)"
    "flags = optimizations @ debug @ get_warnings_flags t warn"
    using assms(1) by (rule profile_flags_parts)
  show ?thesis
    using traits_for_named [OF assms(2)] assms(2)
    by (simp add: configure_def Let_def traits_for_def dict_get_def parts set_flags_def env_value_append)
qed

text \<open>
  C27: configuring with a profile of the table. With a compiler that the table knows, by its C name or else by
  its C++ name, the flags of the profile are appended for each language that has a compiler and no flags yet,
  the defines with them, and nothing else changes. Configuring once more changes nothing.
\<close>

theorem configure_profile:
  assumes "profile \<in> set (dict_keys profiles)" and "traits_for c = Some t"
  shows "\<exists>c' flags defs. profile_flags t profile = Some (flags, defs) \<and> flags \<noteq> [] \<and>
    configure profile show c = (Inr (), c') \<and> (\<forall>n. env_value c' n = env_value c n @
      (if compiler_name (compiler_cc c) \<noteq> None \<and> env_value c ''CCFLAGS'' = []
       then (if n = ''CCFLAGS'' then flags else if n = ''CCDEFINES'' then defs else []) else []) @
      (if compiler_name (compiler_cxx c) \<noteq> None \<and> env_value c ''CXXFLAGS'' = []
       then (if n = ''CXXFLAGS'' then flags else if n = ''CXXDEFINES'' then defs else []) else [])) \<and>
    configure profile show c' = (Inr (), c')"
proof -
  obtain flags defs where flags: "profile_flags t profile = Some (flags, defs)" "flags \<noteq> []"
    using assms(1) by (rule profile_flags_exist)
  from configure_flags [OF flags(1) assms(2), of "show"] obtain c' where
    c': "configure profile show c = (Inr (), c')" and
    env: "\<And>n. env_value c' n = env_value c n @
      (if compiler_name (compiler_cc c) \<noteq> None \<and> env_value c ''CCFLAGS'' = []
       then (if n = ''CCFLAGS'' then flags else if n = ''CCDEFINES'' then defs else []) else []) @
      (if compiler_name (compiler_cxx c) \<noteq> None \<and> env_value c ''CXXFLAGS'' = []
       then (if n = ''CXXFLAGS'' then flags else if n = ''CXXDEFINES'' then defs else []) else [])"
    and same: "compiler_cc c' = compiler_cc c" "compiler_cxx c' = compiler_cxx c" by blast
  have "compiler_name (compiler_cc c') \<noteq> None \<longrightarrow> env_value c' ''CCFLAGS'' \<noteq> []"
    "compiler_name (compiler_cxx c') \<noteq> None \<longrightarrow> env_value c' ''CXXFLAGS'' \<noteq> []"
    using flags(2) by (auto simp: env same)
  moreover have "traits_for c' = Some t" using assms(2) unfolding traits_for_def same .
  ultimately have "configure profile show c' = (Inr (), c')"
    using flags(1) by (intro configure_again) auto
  with flags c' env show ?thesis by blast
qed

definition gcc_conf :: conf where
  "gcc_conf = \<lparr>compiler_cc = Some ''gcc'', compiler_cxx = Some ''g++'', conf_env = [(''CCFLAGS'', [''-pipe''])],
     warnings_logged = []\<rparr>"

lemma configure_profile_witness:
  "\<exists>c'. configure ''debug'' the gcc_conf = (Inr (), c') \<and> env_value c' ''CCFLAGS'' = [''-pipe''] \<and>
    env_value c' ''CXXFLAGS'' = [''-O0'', ''-ggdb'', ''-g3'', ''-Wall'', ''-Werror'']"
proof -
  have "''debug'' \<in> set (dict_keys profiles)" "traits_for gcc_conf = Some Gcc"
    by (simp_all add: profiles_def traits_for_def gcc_conf_def compiler_name_def find_compiler_def compiler_mapping_def)
  from configure_profile [OF this, of the] obtain c' flags defs where "profile_flags Gcc ''debug'' = Some (flags, defs)"
    "configure ''debug'' the gcc_conf = (Inr (), c')" "\<forall>n. env_value c' n = env_value gcc_conf n @
      (if compiler_name (compiler_cc gcc_conf) \<noteq> None \<and> env_value gcc_conf ''CCFLAGS'' = []
       then (if n = ''CCFLAGS'' then flags else if n = ''CCDEFINES'' then defs else []) else []) @
      (if compiler_name (compiler_cxx gcc_conf) \<noteq> None \<and> env_value gcc_conf ''CXXFLAGS'' = []
       then (if n = ''CXXFLAGS'' then flags else if n = ''CXXDEFINES'' then defs else []) else [])" by blast
  then show ?thesis
    by (intro exI [of _ c']) (simp add: gcc_conf_def env_value_def compiler_name_def profile_flags_def profiles_def
        get_warnings_flags_take [of Gcc, simplified] flag_table_defs numeral_2_eq_2)
qed

end
