(* ===== verification/Build_Run.thy ===== *)
theory Build_Run
  imports Shell_Cmd Py_World
begin

text \<open>
  Running programs of the build, \<open>wutils.py\<close>: relative paths, the search for a program, its process
  environment and the ways to start it. The operating system, the environment of waf and its task
  generators are records that the definitions take.
\<close>

section \<open>Errors\<close>

text \<open>The two exceptions whose message matters, and \<open>except ValueError, ex: raise WafError(str(ex))\<close>.\<close>

definition waf_error :: "string \<Rightarrow> py_exn" where
  "waf_error msg = PyException (''WafError: '' @ msg)"

definition value_error :: "string \<Rightarrow> py_exn" where
  "value_error msg = PyException (''ValueError: '' @ msg)"

definition value_message :: "py_exn \<Rightarrow> string option" where
  "value_message e =
     (case e of PyException m \<Rightarrow> if prefix ''ValueError: '' m then Some (drop (length ''ValueError: '') m) else None | _ \<Rightarrow> None)"

definition as_waf_error :: "py_exn \<Rightarrow> py_exn" where
  "as_waf_error e = (case value_message e of Some m \<Rightarrow> waf_error m | None \<Rightarrow> e)"

lemma value_message_error [simp]: "value_message (value_error msg) = Some msg" "value_message TypeError = None"
  by (simp_all add: value_message_def value_error_def)

lemma as_waf_error_value [simp]: "as_waf_error (value_error msg) = waf_error msg"
  by (simp add: as_waf_error_def)

section \<open>Paths\<close>

text \<open>\<open>os.path.normpath\<close> on POSIX: the parts that remain, last one first.\<close>

fun norm_parts :: "bool \<Rightarrow> string list \<Rightarrow> string list \<Rightarrow> string list" where
  "norm_parts rooted [] acc = rev acc"
| "norm_parts rooted (c # cs) acc =
     (if c = [] \<or> c = ''.'' then norm_parts rooted cs acc
      else if c \<noteq> ''..'' \<or> (\<not> rooted \<and> acc = []) \<or> (acc \<noteq> [] \<and> hd acc = ''..'') then norm_parts rooted cs (c # acc)
      else norm_parts rooted cs (tl acc))"

definition leading_slashes :: "string \<Rightarrow> nat" where
  "leading_slashes p =
     (if take 1 p \<noteq> ''/'' then 0 else if take 2 p = ''//'' \<and> take 3 p \<noteq> ''///'' then 2 else 1)"

definition normpath :: "string \<Rightarrow> string" where
  "normpath p =
     (let n = leading_slashes p;
          q = replicate n (CHR ''/'') @ join ''/'' (norm_parts (n > 0) (split_on (CHR ''/'') p) [])
      in if q = [] then ''.'' else q)"

definition abspath :: "string \<Rightarrow> string \<Rightarrow> string" where
  \<comment> \<open>\<open>os.path.abspath\<close> in the directory \<open>here\<close>\<close>
  "abspath here p = normpath (if take 1 p = ''/'' then p else path_join here p)"

fun common_length :: "'a list \<Rightarrow> 'a list \<Rightarrow> nat" where
  "common_length (x # xs) (y # ys) = (if x = y then Suc (common_length xs ys) else 0)"
| "common_length _ _ = 0"

definition relpath :: "string \<Rightarrow> string \<Rightarrow> string \<Rightarrow> string result" where
  "relpath here path start =
     (if path = [] then Inl (value_error ''no path specified'')
      else
        let start_list = split_on (CHR ''/'') (abspath here start);
            path_list = split_on (CHR ''/'') (abspath here path);
            i = common_length start_list path_list;
            rel_list = replicate (length start_list - i) ''..'' @ drop i path_list
        in Inr (if rel_list = [] then ''.'' else foldl path_join (hd rel_list) (tl rel_list)))"

section \<open>The build\<close>

text \<open>\<open>pymoddir\<close> and \<open>pyvizdir\<close> are the directories of the bindings and the visualizer, when \<open>find_dir\<close> finds them.\<close>

record task_gen =
  is_ns3_program :: bool
  source_dir :: string
  target :: string
  program_file :: string

record build =
  all_task_gen :: "task_gen list"
  module_path :: "string list"
  executable_path :: "string list"
  valgrind_program :: "string option"
  python_program :: string
  pymoddir :: "string option"
  pyvizdir :: "string option"

record run_options =
  command_template :: "string option"
  use_valgrind :: bool
  option_cwd_launch :: "string option"
  waf_cwd_launch :: string
  launch_directory :: string
  platform :: string

definition truthy :: "string option \<Rightarrow> bool" where
  "truthy s \<longleftrightarrow> s \<noteq> None \<and> s \<noteq> Some []"

definition get_command_template :: "run_options \<Rightarrow> string list \<Rightarrow> string" where
  "get_command_template opts arguments =
     foldl (\<lambda>cmd arg. cmd @ '' '' @ arg) (if truthy (command_template opts) then the (command_template opts) else ''%s'')
       arguments"

text \<open>
  The loop keeps the names of the programs it has passed for the error message. At a program outside the launch
  directory it calls \<open>obj.path.abspath(env)\<close>, but \<open>Node.abspath\<close> of this waf takes no argument.
\<close>

fun find_program_loop ::
  "string \<Rightarrow> string \<Rightarrow> string \<Rightarrow> task_gen list \<Rightarrow> string list \<Rightarrow> (string list + task_gen) result" where
  "find_program_loop here launch_dir program_name [] found_programs = Inr (Inl found_programs)"
| "find_program_loop here launch_dir program_name (obj # objs) found_programs =
     (if \<not> is_ns3_program obj then find_program_loop here launch_dir program_name objs found_programs
      else if \<not> prefix launch_dir (source_dir obj) then Inl TypeError
      else
        res_bind (relpath here (source_dir obj) launch_dir) (\<lambda>rel.
          let names = [target obj, path_join rel (target obj)]
          in if program_name \<in> set names then Inr (Inr obj)
             else find_program_loop here launch_dir program_name objs (found_programs @ names)))"

definition not_found_message :: "string \<Rightarrow> string list \<Rightarrow> string" where
  "not_found_message program_name found =
     ''program '' @ [CHR 0x27] @ program_name @ [CHR 0x27] @ '' not found; available programs are: ['' @
     join '', '' (map (\<lambda>n. [CHR 0x27] @ n @ [CHR 0x27]) found) @ '']''"

definition find_program :: "string \<Rightarrow> run_options \<Rightarrow> build \<Rightarrow> string \<Rightarrow> task_gen result" where
  "find_program here opts bld program_name =
     res_bind (find_program_loop here (abspath here (launch_directory opts)) program_name (all_task_gen bld) [])
       (\<lambda>r. case r of Inl found \<Rightarrow> Inl (value_error (not_found_message program_name found)) | Inr obj \<Rightarrow> Inr obj)"

section \<open>The environment of a process\<close>

definition path_variable :: "string \<Rightarrow> string" where
  "path_variable plat =
     (if plat = ''linux2'' then ''LD_LIBRARY_PATH''
      else if plat = ''darwin'' then ''DYLD_LIBRARY_PATH''
      else if plat = ''win32'' \<or> plat = ''cygwin'' then ''PATH''
      else ''LD_LIBRARY_PATH'')"

definition known_platform :: "string \<Rightarrow> bool" where
  "known_platform plat \<longleftrightarrow> plat \<in> {''linux2'', ''darwin'', ''win32'', ''cygwin''} \<or> prefix ''freebsd'' plat"

definition unknown_platform_message :: "string \<Rightarrow> string" where
  "unknown_platform_message plat =
     ''Don'' @ [CHR 0x27] @ ''t know how to configure dynamic library path for the platform '' @ [CHR 0x27] @ plat @ [CHR 0x27] @
     ''; assuming it'' @ [CHR 0x27] @ ''s LD_LIBRARY_PATH.''"

definition prepend_path :: "string \<Rightarrow> string \<Rightarrow> string list \<Rightarrow> (string, string) dict \<Rightarrow> (string, string) dict" where
  "prepend_path sep var ps env =
     dict_set var (case map_of env var of Some old \<Rightarrow> join sep (ps @ [old]) | None \<Rightarrow> join sep ps) env"

definition make_proc_env ::
  "run_options \<Rightarrow> build \<Rightarrow> string \<Rightarrow> (string, string) dict \<Rightarrow> (string, string) dict option \<Rightarrow> (string, string) dict result" where
  "make_proc_env opts bld sep inherited os_env =
     (let proc_env = (case os_env of None \<Rightarrow> inherited | Some e \<Rightarrow> foldl (\<lambda>d (k, v). dict_set k v d) inherited e);
          proc_env = prepend_path sep (path_variable (platform opts)) (module_path bld) proc_env
      in case (pymoddir bld, pyvizdir bld) of
           (Some m, Some v) \<Rightarrow>
             Inr (prepend_path sep ''PATH'' (executable_path bld) (prepend_path sep ''PYTHONPATH'' [m, v] proc_env))
         | _ \<Rightarrow> Inl AttributeError)"

text \<open>With the warning about an unknown platform.\<close>

definition get_proc_env ::
  "run_options \<Rightarrow> build \<Rightarrow> string \<Rightarrow> (string, string) dict option \<Rightarrow> ('e world, (string, string) dict) io" where
  "get_proc_env opts bld sep os_env =
     io_seq (io_when (\<not> known_platform (platform opts)) (print_line (unknown_platform_message (platform opts))))
       (\<lambda>w. (make_proc_env opts bld sep (environ w) os_env, w))"

section \<open>Running\<close>

record process_request =
  request_argv :: "string list"
  request_env :: "(string, string) dict"
  request_cwd :: "string option"
  capture_errors :: bool

text \<open>
  The system: \<open>Popen\<close> raises or gives, after \<open>wait\<close>, an exit code, minus the signal for a killed
  process, and the lines of the error output where it is captured, together with the world the process leaves. The table of signals is in the order
  in which Python goes through it.
\<close>

record 'e process_system =
  execute :: "process_request \<Rightarrow> ('e world, int \<times> string list) io"
  windows :: bool
  signal_table :: "(string \<times> int) list"
  path_separator :: string
  show_argv :: "string list \<Rightarrow> string"
  working_dir :: string

definition valgrind_argv :: "string \<Rightarrow> string list \<Rightarrow> string list" where
  "valgrind_argv valgrind argv = [valgrind, ''--leak-check=full'', ''--show-reachable=yes'', ''--error-exitcode=1''] @ argv"

definition run_valgrind :: "'e process_system \<Rightarrow> process_request \<Rightarrow> ('e world, int) io" where
  "run_valgrind sys r =
     io_bind (execute sys r) (\<lambda>(retval, lines).
     io_seq (io_for_each (\<lambda>line _. print_line line) lines ())
       (io_return (if retval = 0 \<and> list_ex (occurs_in ''== LEAK SUMMARY'') lines then 1 else retval)))"

definition run_plain :: "'e process_system \<Rightarrow> process_request \<Rightarrow> ('e world, int) io" where
  "run_plain sys r =
     io_bind (if windows sys
              then io_catch (execute sys r) (\<lambda>ex. io_raise (if ex = PyException ''WindowsError''
                then waf_error (''Command '' @ show_argv sys (request_argv r) @ '' raised exception WindowsError'') else ex))
              else execute sys r)
       (\<lambda>(retval, _). io_return retval)"

definition signal_name :: "'e process_system \<Rightarrow> int \<Rightarrow> string option" where
  "signal_name sys retval =
     (if retval < 0
      then map_option fst (find (\<lambda>(name, val). length name > 3 \<and> take 3 name = ''SIG'' \<and> name ! 3 \<noteq> CHR ''_'' \<and> val = - retval)
             (signal_table sys))
      else None)"

definition exit_message :: "'e process_system \<Rightarrow> string list \<Rightarrow> int \<Rightarrow> string" where
  "exit_message sys argv retval =
     (case signal_name sys retval of
        Some signame \<Rightarrow> ''Command '' @ show_argv sys argv @ '' terminated with signal '' @ signame @
          ''. Run it under a debugger to get more information (./waf --run <program> --command-template='' @ [CHR 0x22] @
          ''gdb --args %s <args>'' @ [CHR 0x22] @ '').''
      | None \<Rightarrow> ''Command '' @ show_argv sys argv @ '' exited with code '' @ int_str retval)"

definition run_argv ::
  "'e process_system \<Rightarrow> run_options \<Rightarrow> build \<Rightarrow> string list \<Rightarrow> (string, string) dict option \<Rightarrow> string option \<Rightarrow> bool \<Rightarrow>
   ('e world, int) io" where
  "run_argv sys opts bld argv os_env here force_no_valgrind =
     io_bind (get_proc_env opts bld (path_separator sys) os_env) (\<lambda>proc_env.
       (let use = use_valgrind opts \<and> \<not> force_no_valgrind;
            argv' = (if use then valgrind_argv (the (valgrind_program bld)) argv else argv);
            r = \<lparr>request_argv = argv', request_env = proc_env, request_cwd = here, capture_errors = use\<rparr>
        in if use \<and> truthy (command_template opts)
           then io_raise (waf_error ''Options --command-template and --valgrind are conflicting'')
           else if use \<and> \<not> truthy (valgrind_program bld) then io_raise (waf_error ''valgrind is not installed'')
           else io_bind (if use then run_valgrind sys r else run_plain sys r) (\<lambda>retval.
             if retval \<noteq> 0 then io_raise (waf_error (exit_message sys argv' retval)) else io_return retval)))"

text \<open>
  \<open>template % (s,)\<close> for a template of plain text, \<open>%s\<close> and \<open>%%\<close>; other conversions count as malformed. A
  second \<open>%s\<close>, or none, is a \<open>TypeError\<close>.
\<close>

fun format_once :: "string \<Rightarrow> string option \<Rightarrow> string result" where
  "format_once [] s = (case s of None \<Rightarrow> Inr [] | Some _ \<Rightarrow> Inl TypeError)"
| "format_once (c # cs) s =
     (if c \<noteq> CHR ''%'' then res_bind (format_once cs s) (\<lambda>t. Inr (c # t))
      else case cs of
        [] \<Rightarrow> Inl ValueError
      | d # ds \<Rightarrow>
          if d = CHR ''%'' then res_bind (format_once ds s) (\<lambda>t. Inr (CHR ''%'' # t))
          else if d = CHR ''s'' then
            (case s of None \<Rightarrow> Inl TypeError | Some v \<Rightarrow> res_bind (format_once ds None) (\<lambda>t. Inr (v @ t)))
          else Inl ValueError)"

definition double_backslashes :: "string \<Rightarrow> string" where
  "double_backslashes s = concat (map (\<lambda>c. if c = CHR 0x5C then [c, c] else [c]) s)"

definition find_run_program :: "'e process_system \<Rightarrow> run_options \<Rightarrow> build \<Rightarrow> string \<Rightarrow> task_gen result" where
  "find_run_program sys opts bld program_name =
     (case find_program (working_dir sys) opts bld program_name of Inl e \<Rightarrow> Inl (as_waf_error e) | Inr obj \<Rightarrow> Inr obj)"

definition get_run_program ::
  "'e process_system \<Rightarrow> run_options \<Rightarrow> build \<Rightarrow> string \<Rightarrow> string option \<Rightarrow> (string \<times> string list) result" where
  "get_run_program sys opts bld program_string template =
     (if template = None \<or> template = Some ''%s''
      then
        res_bind (shlex_split program_string) (\<lambda>argv.
        res_bind (py_get argv 0) (\<lambda>program_name.
        res_bind (find_run_program sys opts bld program_name) (\<lambda>program_obj.
          Inr (program_name, program_file program_obj # py_from argv 1))))
      else
        res_bind (find_run_program sys opts bld program_string) (\<lambda>program_obj.
        res_bind (format_once (the template) (Some (program_file program_obj))) (\<lambda>tmpl.
        res_bind (shlex_split (double_backslashes tmpl)) (\<lambda>execvec. Inr (program_string, execvec)))))"

definition visual_flag :: string where
  "visual_flag = ''--SimulatorImplementationType=ns3::VisualSimulatorImpl''"

definition launch_cwd :: "run_options \<Rightarrow> string" where
  "launch_cwd opts = (if truthy (option_cwd_launch opts) then the (option_cwd_launch opts) else waf_cwd_launch opts)"

definition run_program ::
  "'e process_system \<Rightarrow> run_options \<Rightarrow> build \<Rightarrow> string \<Rightarrow> string option \<Rightarrow> string option \<Rightarrow> bool \<Rightarrow> ('e world, int) io" where
  "run_program sys opts bld program_string template here visualize =
     io_bind (io_lift (get_run_program sys opts bld program_string template)) (\<lambda>(_, execvec).
       run_argv sys opts bld (if visualize then execvec @ [visual_flag] else execvec) None
         (Some (case here of None \<Rightarrow> launch_cwd opts | Some d \<Rightarrow> d)) False)"

definition run_python_program ::
  "'e process_system \<Rightarrow> run_options \<Rightarrow> build \<Rightarrow> string \<Rightarrow> bool \<Rightarrow> ('e world, int) io" where
  "run_python_program sys opts bld program_string visualize =
     io_bind (io_lift (shlex_split program_string)) (\<lambda>execvec.
       run_argv sys opts bld ([python_program bld] @ (if visualize then execvec @ [visual_flag] else execvec)) None
         (Some (launch_cwd opts)) False)"

section \<open>Relative paths\<close>

text \<open>The parts of a path that say something, and what they come to below the root.\<close>

definition path_parts :: "string \<Rightarrow> string list" where
  "path_parts p = filter (\<lambda>c. c \<noteq> []) (split_on (CHR ''/'') p)"

definition rooted_norm :: "string list \<Rightarrow> string list" where
  "rooted_norm cs = norm_parts True cs []"

definition plain_part :: "string \<Rightarrow> bool" where
  "plain_part c \<longleftrightarrow> c \<noteq> [] \<and> c \<noteq> ''.'' \<and> c \<noteq> ''..'' \<and> CHR ''/'' \<notin> set c"

lemma norm_parts_filter: "norm_parts r (filter (\<lambda>c. c \<noteq> []) cs) d = norm_parts r cs d"
  by (induction cs arbitrary: d) auto

abbreviation no_slashes :: "string list \<Rightarrow> bool" where
  "no_slashes cs \<equiv> list_all (\<lambda>c. CHR ''/'' \<notin> set c) cs"

lemma norm_parts_append:
  "list_all plain_part ds \<Longrightarrow> no_slashes cs \<Longrightarrow>
    norm_parts True (cs @ es) ds = norm_parts True es (rev (norm_parts True cs ds)) \<and>
    list_all plain_part (norm_parts True cs ds)"
proof (induction cs arbitrary: ds)
  case (Cons c cs)
  have hd: "hd ds \<noteq> ''..''" if "ds \<noteq> []" using Cons.prems that by (cases ds) (auto simp: plain_part_def)
  have tl: "list_all plain_part (tl ds)" using Cons.prems by (cases ds) auto
  show ?case
    using Cons.IH [OF Cons.prems(1)] Cons.IH [OF tl] Cons.IH [of "c # ds"] Cons.prems hd
    by (auto simp: plain_part_def)
qed (simp add: list_all_iff)

lemma norm_parts_plain:
  "list_all plain_part es \<Longrightarrow> list_all plain_part fs \<Longrightarrow> norm_parts True es fs = rev fs @ es"
proof (induction es arbitrary: fs)
  case (Cons e es)
  then have "fs \<noteq> [] \<longrightarrow> hd fs \<noteq> ''..''" by (cases fs) (auto simp: plain_part_def)
  with Cons show ?case by (auto simp: plain_part_def)
qed simp

lemma rooted_norm_append:
  assumes "no_slashes cs" "no_slashes ds"
  shows "rooted_norm (cs @ ds) = rooted_norm (rooted_norm cs @ ds)"
proof -
  have plain: "list_all plain_part (rooted_norm cs)" using norm_parts_append [of "[]" cs] assms(1) by (simp add: rooted_norm_def)
  then have "no_slashes (rooted_norm cs)" by (auto simp: list_all_iff plain_part_def)
  with plain have "norm_parts True (rooted_norm cs @ ds) [] = norm_parts True ds (rev (norm_parts True (rooted_norm cs) []))"
    using norm_parts_append [of "[]" "rooted_norm cs" ds] by simp
  also have "norm_parts True (rooted_norm cs) [] = rooted_norm cs" using norm_parts_plain [OF plain, of "[]"] by simp
  finally show ?thesis using norm_parts_append [of "[]" cs ds] assms(1) by (simp add: rooted_norm_def)
qed

text \<open>From a directory up to the common part and down to the other path.\<close>

lemma norm_parts_up:
  "list_all plain_part ds \<Longrightarrow> n \<le> length ds \<Longrightarrow> norm_parts True (replicate n ''..'' @ es) ds = norm_parts True es (drop n ds)"
proof (induction n arbitrary: ds)
  case (Suc n)
  then obtain d ds' where "ds = d # ds'" by (cases ds) auto
  with Suc show ?case by (auto simp: plain_part_def)
qed simp

lemma common_take: "take (common_length xs ys) xs = take (common_length xs ys) ys"
  by (induction xs ys rule: common_length.induct) simp_all

lemma common_length_le: "common_length xs ys \<le> length xs" "common_length xs ys \<le> length ys"
  by (induction xs ys rule: common_length.induct) simp_all

lemma rooted_norm_relative:
  assumes "list_all plain_part cs" "list_all plain_part ps"
  defines "k \<equiv> common_length cs ps"
  shows "rooted_norm (cs @ replicate (length cs - k) ''..'' @ drop k ps) = ps"
proof -
  have slash: "no_slashes cs" using assms(1) by (auto simp: list_all_iff plain_part_def)
  have "rooted_norm (cs @ replicate (length cs - k) ''..'' @ drop k ps) =
      norm_parts True (replicate (length cs - k) ''..'' @ drop k ps) (rev cs)"
    using norm_parts_append [of "[]" cs] slash norm_parts_plain [OF assms(1), of "[]"] by (simp add: rooted_norm_def)
  also have "\<dots> = norm_parts True (drop k ps) (rev (take k cs))"
    using assms(1) common_length_le [of cs ps] by (subst norm_parts_up) (simp_all add: k_def rev_take)
  also have "\<dots> = take k cs @ drop k ps"
    using assms by (subst norm_parts_plain) (auto simp: list_all_iff dest: in_set_takeD in_set_dropD)
  also have "take k cs = take k ps" unfolding k_def by (rule common_take)
  finally have "rooted_norm (cs @ replicate (length cs - k) ''..'' @ drop k ps) = take k ps @ drop k ps" .
  then have "rooted_norm (cs @ replicate (length cs - k) ''..'' @ drop k ps) = ps" by (simp only: append_take_drop_id)
  then show ?thesis .
qed

subsection \<open>Parts of strings\<close>

lemma split_on_append: "split_on c (p @ c # s) = split_on c p @ split_on c s"
proof (induction p)
  case (Cons x p)
  then show ?case by (cases "split_on c p") auto
qed simp

lemma split_on_parts: "list_all (\<lambda>p. c \<notin> set p) (split_on c s)"
  by (induction s) (auto split: list.splits)

lemma no_slashes_parts: "no_slashes (path_parts p)"
  using split_on_parts [of "CHR ''/''" p] by (auto simp: path_parts_def list_all_iff)

lemma parts_slash: "path_parts (p @ ''/'' @ s) = path_parts p @ path_parts s"
  by (simp add: path_parts_def split_on_append)

lemma parts_Nil [simp]: "path_parts [] = []"
  by (simp add: path_parts_def)

lemma parts_part: "c \<noteq> [] \<Longrightarrow> CHR ''/'' \<notin> set c \<Longrightarrow> path_parts c = [c]"
  by (simp add: path_parts_def split_on_no_sep)

lemma parts_join: "no_slashes cs \<Longrightarrow> path_parts (join ''/'' cs) = filter (\<lambda>c. c \<noteq> []) cs"
proof (induction cs rule: induct_list012)
  case (3 c d cs)
  then have "path_parts (join ''/'' (c # d # cs)) = path_parts c @ path_parts (join ''/'' (d # cs))"
    using parts_slash [of c] by simp
  with 3 show ?case by (cases "c = []") (simp_all add: parts_part)
qed (auto simp: parts_part)

lemma parts_path_join:
  assumes "take 1 b \<noteq> ''/''"
  shows "path_parts (path_join a b) = path_parts a @ path_parts b"
proof (cases "a = []")
  case False
  show ?thesis
  proof (cases "last a = CHR ''/''")
    case True
    then have "a = butlast a @ ''/''" using False by (metis append_butlast_last_id)
    then obtain a' where a: "a = a' @ ''/''" by blast
    show ?thesis using assms parts_slash [of a' b] parts_slash [of a' "[]"] by (simp add: path_join_def a)
  next
    case False': False
    show ?thesis using assms False False' parts_slash [of a b] by (simp add: path_join_def)
  qed
qed (use assms in \<open>simp add: path_join_def\<close>)

lemma parts_foldl:
  assumes "no_slashes cs"
  shows "path_parts (foldl path_join a cs) = path_parts a @ filter (\<lambda>c. c \<noteq> []) cs"
  using assms
proof (induction cs arbitrary: a)
  case (Cons c cs)
  then have "take 1 c \<noteq> ''/''" by (cases c) auto
  with Cons show ?case by (cases "c = []") (simp_all add: parts_path_join parts_part)
qed simp

lemma foldl_path_join_prefix: "no_slashes cs \<Longrightarrow> a \<noteq> [] \<Longrightarrow> prefix a (foldl path_join a cs)"
proof (induction cs arbitrary: a)
  case (Cons c cs)
  then have "prefix a (path_join a c)" by (cases c) (auto simp: path_join_def)
  moreover from this have "path_join a c \<noteq> []" using Cons.prems by auto
  ultimately show ?case using Cons.IH [of "path_join a c"] Cons.prems by (auto intro: prefix_order.trans)
qed simp

lemma split_join_plain:
  "list_all plain_part cs \<Longrightarrow> split_on (CHR ''/'') (CHR ''/'' # join ''/'' cs) = [] # (if cs = [] then [[]] else cs)"
proof (induction cs rule: induct_list012)
  case (2 c)
  then show ?case by (simp add: split_on_no_sep plain_part_def)
next
  case (3 c d cs)
  then have "split_on (CHR ''/'') (join ''/'' (d # cs)) = d # cs" by simp
  then show ?case using 3 split_on_append_sep [of "CHR ''/''" c "join ''/'' (d # cs)"] by (simp add: plain_part_def)
qed simp

text \<open>The path that is normalized, below a root of one slash.\<close>

definition full_path :: "string \<Rightarrow> string \<Rightarrow> string" where
  "full_path here p = (if take 1 p = ''/'' then p else path_join here p)"

lemma abspath_parts:
  assumes "leading_slashes (full_path here p) = 1"
  shows "abspath here p = CHR ''/'' # join ''/'' (rooted_norm (path_parts (full_path here p)))"
    "list_all plain_part (rooted_norm (path_parts (full_path here p)))"
proof -
  show "abspath here p = CHR ''/'' # join ''/'' (rooted_norm (path_parts (full_path here p)))"
    using assms by (simp add: abspath_def normpath_def full_path_def rooted_norm_def path_parts_def norm_parts_filter Let_def)
  show "list_all plain_part (rooted_norm (path_parts (full_path here p)))"
    using norm_parts_append [of "[]" "path_parts (full_path here p)"] no_slashes_parts by (simp add: rooted_norm_def)
qed

text \<open>The steps of the relative path between two directories below the root.\<close>

definition relative_steps :: "string list \<Rightarrow> string list \<Rightarrow> string list" where
  "relative_steps cs ps =
     (let s = (if cs = [] then [[]] else cs); p = (if ps = [] then [[]] else ps); k = common_length s p
      in replicate (length s - k) ''..'' @ drop k p)"

lemma relative_steps_norm:
  assumes "list_all plain_part cs" "list_all plain_part ps"
  shows "rooted_norm (cs @ filter (\<lambda>c. c \<noteq> []) (relative_steps cs ps)) = ps"
proof -
  have keep: "filter (\<lambda>c. c \<noteq> []) (drop k ps) = drop k ps" for k
    using assms(2) by (auto simp: filter_id_conv list_all_iff plain_part_def dest: in_set_dropD)
  have plain: "rooted_norm ps = ps" using norm_parts_plain [OF assms(2), of "[]"] by (simp add: rooted_norm_def)
  consider "cs = []" "ps = []" | "cs = []" "ps \<noteq> []" | "cs \<noteq> []" "ps = []" | "cs \<noteq> []" "ps \<noteq> []" by blast
  then show ?thesis
  proof cases
    case 2
    then have "common_length [[]] ps = 0" using assms(2) by (cases ps) (auto simp: plain_part_def)
    then show ?thesis using 2 keep [of 0] plain by (simp add: relative_steps_def rooted_norm_def)
  next
    case 3
    then have "common_length cs [[]] = 0" using assms(1) by (cases cs) (auto simp: plain_part_def)
    then show ?thesis using 3 rooted_norm_relative [OF assms(1), of "[]"] by (cases cs) (simp_all add: relative_steps_def)
  next
    case 4
    then show ?thesis using rooted_norm_relative [OF assms] keep by (simp add: relative_steps_def Let_def)
  qed (simp add: relative_steps_def rooted_norm_def)
qed

lemma relative_steps_start:
  assumes "list_all plain_part cs" "list_all plain_part ps" "relative_steps cs ps \<noteq> []"
  shows "hd (relative_steps cs ps) \<noteq> []" "no_slashes (relative_steps cs ps)"
proof -
  define s where "s = (if cs = [] then [[]] else cs)"
  define p where "p = (if ps = [] then [[]] else ps)"
  define k where "k = common_length s p"
  have steps: "relative_steps cs ps = replicate (length s - k) ''..'' @ drop k p"
    unfolding relative_steps_def Let_def s_def p_def k_def by (rule refl)
  have "no_slashes p" using assms(2) unfolding p_def by (auto simp: list_all_iff plain_part_def)
  then show "no_slashes (relative_steps cs ps)" unfolding steps by (auto simp: list_all_iff dest: in_set_dropD)
  show "hd (relative_steps cs ps) \<noteq> []"
  proof (cases "length s - k")
    case 0
    moreover have "0 < length s" unfolding s_def by simp
    ultimately have k: "0 < k" by linarith
    have some: "drop k p \<noteq> []" using assms(3) 0 by (simp add: steps)
    then have "ps \<noteq> []" using k unfolding p_def by (auto split: if_splits)
    then have "p = ps" by (simp add: p_def)
    moreover have "hd (drop k p) \<in> set p" using some by (meson hd_in_set in_set_dropD)
    ultimately show ?thesis using 0 assms(2) by (auto simp: steps list_all_iff plain_part_def)
  qed (simp add: steps)
qed

lemma abspath_split:
  assumes "leading_slashes (full_path here p) = 1"
  shows "split_on (CHR ''/'') (abspath here p) =
    [] # (if rooted_norm (path_parts (full_path here p)) = [] then [[]] else rooted_norm (path_parts (full_path here p)))"
  unfolding abspath_parts(1) [OF assms] by (rule split_join_plain [OF abspath_parts(2) [OF assms]])

lemma relpath_steps:
  assumes "path \<noteq> []" "leading_slashes (full_path here path) = 1" "leading_slashes (full_path here start) = 1"
  defines "cs \<equiv> rooted_norm (path_parts (full_path here start))" and "ps \<equiv> rooted_norm (path_parts (full_path here path))"
  shows "relpath here path start = Inr (if relative_steps cs ps = [] then ''.''
    else foldl path_join (hd (relative_steps cs ps)) (tl (relative_steps cs ps)))"
proof -
  define s where "s = (if cs = [] then [[]] else cs)"
  define p where "p = (if ps = [] then [[]] else ps)"
  have split: "split_on (CHR ''/'') (abspath here path) = [] # p" "split_on (CHR ''/'') (abspath here start) = [] # s"
    unfolding s_def p_def cs_def ps_def by (rule abspath_split [OF assms(2)], rule abspath_split [OF assms(3)])
  have steps: "relative_steps cs ps = replicate (length s - common_length s p) ''..'' @ drop (common_length s p) p"
    unfolding relative_steps_def Let_def s_def p_def by (rule refl)
  show ?thesis unfolding relpath_def split steps Let_def using assms(1) by simp
qed

lemma relative_rel:
  assumes cs: "list_all plain_part cs" and ps: "list_all plain_part ps"
  defines "rel \<equiv> (if relative_steps cs ps = [] then ''.''
    else foldl path_join (hd (relative_steps cs ps)) (tl (relative_steps cs ps)))"
  shows "rel \<noteq> [] \<and> hd rel \<noteq> CHR ''/''" "rooted_norm (cs @ path_parts rel) = ps"
proof -
  let ?steps = "relative_steps cs ps"
  have slashes: "?steps \<noteq> [] \<Longrightarrow> hd ?steps \<noteq> [] \<and> CHR ''/'' \<notin> set (hd ?steps) \<and> no_slashes (tl ?steps)"
    using relative_steps_start [OF cs ps] by (cases ?steps) auto
  show "rel \<noteq> [] \<and> hd rel \<noteq> CHR ''/''"
  proof (cases "?steps = []")
    case False
    then have "prefix (hd ?steps) rel" "hd ?steps \<noteq> []" "CHR ''/'' \<notin> set (hd ?steps)"
      using foldl_path_join_prefix [of "tl ?steps" "hd ?steps"] slashes by (simp_all add: rel_def)
    then show ?thesis by (cases "hd ?steps") (auto simp: prefix_def)
  qed (simp add: rel_def)
  show "rooted_norm (cs @ path_parts rel) = ps"
  proof (cases "?steps = []")
    case True
    have "rooted_norm (cs @ [''.'']) = rooted_norm cs"
      using norm_parts_append [of "[]" cs "[''.'']"] cs by (simp add: rooted_norm_def list_all_iff plain_part_def)
    then show ?thesis using True relative_steps_norm [OF cs ps] by (simp add: rel_def parts_part)
  next
    case False
    then have "path_parts rel = filter (\<lambda>c. c \<noteq> []) ?steps"
      using slashes by (cases ?steps) (simp_all add: rel_def parts_foldl parts_part)
    then show ?thesis using relative_steps_norm [OF cs ps] by simp
  qed
qed

text \<open>
  C22: relative paths lead back. Below a root of one slash, the path that \<open>relpath\<close> gives, taken from the
  start directory, is the path it was asked for.
\<close>

theorem relpath_back:
  assumes "path \<noteq> []" and "leading_slashes (full_path here path) = 1" and "leading_slashes (full_path here start) = 1"
  shows "\<exists>rel. relpath here path start = Inr rel \<and> take 1 rel \<noteq> ''/'' \<and>
    abspath here (path_join (abspath here start) rel) = abspath here path"
proof -
  define cs where "cs = rooted_norm (path_parts (full_path here start))"
  define ps where "ps = rooted_norm (path_parts (full_path here path))"
  note start = abspath_parts [OF assms(3), folded cs_def] and path = abspath_parts [OF assms(2), folded ps_def]
  let ?steps = "relative_steps cs ps"
  let ?rel = "if ?steps = [] then ''.'' else foldl path_join (hd ?steps) (tl ?steps)"
  have rel: "relpath here path start = Inr ?rel" using relpath_steps [OF assms] by (simp only: cs_def ps_def)
  note first = relative_rel(1) [OF start(2) path(2)] and parts = relative_rel(2) [OF start(2) path(2)]
  from first have relative: "take 1 ?rel \<noteq> ''/''" by (cases ?rel) auto
  have cs_parts: "path_parts (abspath here start) = cs"
    using split_join_plain [OF start(2)] start(2) by (auto simp: path_parts_def start(1) filter_id_conv list_all_iff plain_part_def)
  let ?j = "path_join (abspath here start) ?rel"
  have "leading_slashes ?j = 1"
  proof (cases cs)
    case Nil
    then show ?thesis using first by (cases ?rel) (auto simp: path_join_def start(1) leading_slashes_def)
  next
    case (Cons c cs')
    then have "c \<noteq> [] \<and> hd c \<noteq> CHR ''/''" using start(2) by (cases c) (auto simp: plain_part_def)
    then show ?thesis using first Cons
      by (cases c; cases cs'; cases ?rel) (auto simp: path_join_def start(1) leading_slashes_def)
  qed
  moreover have "take 1 ?j = ''/''" using relative by (simp add: path_join_def start(1))
  ultimately have full: "leading_slashes (full_path here ?j) = 1" "full_path here ?j = ?j" by (simp_all add: full_path_def)
  have "abspath here ?j = CHR ''/'' # join ''/'' (rooted_norm (path_parts ?j))" using abspath_parts(1) [OF full(1)] full(2) by simp
  also have "path_parts ?j = cs @ path_parts ?rel" using relative cs_parts by (simp add: parts_path_join)
  finally have "abspath here ?j = abspath here path" using parts path(1) by simp
  with rel relative show ?thesis by blast
qed

lemma relpath_back_witness:
  "\<exists>rel. relpath ''/a'' ''/b/c'' ''/b/d'' = Inr rel \<and> take 1 rel \<noteq> ''/'' \<and>
    abspath ''/a'' (path_join (abspath ''/a'' ''/b/d'') rel) = abspath ''/a'' ''/b/c''"
  by (rule relpath_back) (simp_all add: full_path_def leading_slashes_def)

section \<open>Finding a program\<close>

definition program_names :: "string \<Rightarrow> string \<Rightarrow> task_gen \<Rightarrow> string list" where
  "program_names here launch_dir obj =
     (case relpath here (source_dir obj) launch_dir of
        Inl _ \<Rightarrow> []
      | Inr rel \<Rightarrow> [target obj, path_join rel (target obj)])"

text \<open>The programs that the loop comes to before one outside the launch directory, and whether there is such a one.\<close>

definition programs_below :: "string \<Rightarrow> task_gen list \<Rightarrow> task_gen list" where
  "programs_below launch_dir objs = takeWhile (\<lambda>obj. prefix launch_dir (source_dir obj)) (filter is_ns3_program objs)"

definition program_outside :: "string \<Rightarrow> task_gen list \<Rightarrow> bool" where
  "program_outside launch_dir objs \<longleftrightarrow> list_ex (\<lambda>obj. is_ns3_program obj \<and> \<not> prefix launch_dir (source_dir obj)) objs"

lemma relpath_some: "p \<noteq> [] \<Longrightarrow> \<exists>rel. relpath here p start = Inr rel"
  by (simp add: relpath_def Let_def)

lemma find_program_loop_find:
  assumes "\<forall>obj \<in> set objs. source_dir obj \<noteq> []"
  shows "find_program_loop here launch name objs found =
    (case find (\<lambda>obj. name \<in> set (program_names here launch obj)) (programs_below launch objs) of
       Some obj \<Rightarrow> Inr (Inr obj)
     | None \<Rightarrow> if program_outside launch objs then Inl TypeError
         else Inr (Inl (found @ concat (map (program_names here launch) (programs_below launch objs)))))"
  using assms
proof (induction objs arbitrary: found)
  case (Cons obj objs)
  then obtain rel where "relpath here (source_dir obj) launch = Inr rel" using relpath_some [of "source_dir obj" here launch] by auto
  moreover from this have "program_names here launch obj = [target obj, path_join rel (target obj)]" by (simp add: program_names_def)
  ultimately show ?case using Cons by (simp add: programs_below_def program_outside_def split: option.split)
qed (simp add: programs_below_def program_outside_def)

text \<open>
  C23: find_program against its reference. Among the programs that come before the first one outside the launch
  directory, it returns the first that has the name, as its target or as its path from there. When none of them
  has it, the call ends with a \<open>TypeError\<close> at the program outside, if there is one, since \<open>Node.abspath\<close> takes
  no argument; otherwise with the \<open>ValueError\<close> that lists the names of all programs. So a program that comes after
  one outside the launch directory is never found.
\<close>

theorem find_program_first:
  fixes opts :: run_options and here :: string
  assumes "\<forall>obj \<in> set (all_task_gen bld). source_dir obj \<noteq> []"
  defines "launch \<equiv> abspath here (launch_directory opts)"
  shows "find_program here opts bld name =
    (case find (\<lambda>obj. name \<in> set (program_names here launch obj)) (programs_below launch (all_task_gen bld)) of
       Some obj \<Rightarrow> Inr obj
     | None \<Rightarrow>
         if program_outside launch (all_task_gen bld) then Inl TypeError
         else Inl (value_error (not_found_message name
           (concat (map (program_names here launch) (filter is_ns3_program (all_task_gen bld)))))))"
proof -
  have "programs_below launch objs = filter is_ns3_program objs" if "\<not> program_outside launch objs" for objs
    using that by (auto simp: programs_below_def program_outside_def list_ex_iff takeWhile_eq_all_conv)
  then show ?thesis
    using find_program_loop_find [OF assms(1), of here launch name "[]"]
    by (simp add: find_program_def launch_def split: option.split)
qed

section \<open>The environment of a process\<close>

text \<open>The directories of a search path.\<close>

definition search_path :: "char \<Rightarrow> (string, string) dict \<Rightarrow> string \<Rightarrow> string list" where
  "search_path sep env var = (case map_of env var of None \<Rightarrow> [] | Some p \<Rightarrow> split_on sep p)"

abbreviation separate :: "char \<Rightarrow> string list \<Rightarrow> bool" where
  "separate sep ps \<equiv> ps \<noteq> [] \<and> list_all (\<lambda>p. sep \<notin> set p) ps"

lemma split_join_some:
  "ps \<noteq> [] \<Longrightarrow> list_all (\<lambda>p. sep \<notin> set p) ps \<Longrightarrow> split_on sep (join [sep] ps) = ps"
  by (induction ps rule: induct_list012) (simp_all add: split_on_no_sep split_on_append_sep)

lemma split_join_old:
  "list_all (\<lambda>p. sep \<notin> set p) ps \<Longrightarrow> split_on sep (join [sep] (ps @ [old])) = ps @ split_on sep old"
proof (induction ps)
  case (Cons p ps)
  then show ?case using split_on_append_sep [of sep p "join [sep] (ps @ [old])"] by (cases "ps @ [old]") auto
qed simp

lemma search_path_prepend:
  assumes "separate sep ps"
  shows "search_path sep (prepend_path [sep] var ps env) v =
    (if v = var then ps @ search_path sep env v else search_path sep env v)"
  using assms split_join_old [of sep ps]
  by (simp add: search_path_def prepend_path_def map_of_dict_set split_join_some split: option.split)

lemma map_of_updates: "map_of (foldl (\<lambda>d (k, v). dict_set k v d) d e) = map_of d ++ map_of (rev e)"
  by (induction e arbitrary: d) (auto simp: map_of_dict_set map_add_def fun_eq_iff split: option.split)

text \<open>
  the environment of a process. The library path of the platform starts with the modules of the build,
  \<open>PYTHONPATH\<close> with the bindings and the visualizer, \<open>PATH\<close> with the executables, each followed by what the
  caller and the environment had there; where \<open>PATH\<close> is the library path, the executables come first.
  No other variable changes.
\<close>

theorem get_proc_env_paths:
  fixes opts :: run_options and inherited :: "(string, string) dict" and os_env :: "(string, string) dict option"
  assumes "separate sep (module_path bld)" and "separate sep (executable_path bld)"
    and "pymoddir bld = Some m" and "pyvizdir bld = Some viz" and "separate sep [m, viz]"
  defines "given \<equiv> (case os_env of None \<Rightarrow> inherited | Some e \<Rightarrow> foldl (\<lambda>d (k, v). dict_set k v d) inherited e)"
  shows "\<exists>env. make_proc_env opts bld [sep] inherited os_env = Inr env \<and> search_path sep env v =
      (if v = ''PATH'' then executable_path bld else []) @
      (if v = ''PYTHONPATH'' then [m, viz] else []) @
      (if v = path_variable (platform opts) then module_path bld else []) @ search_path sep given v \<and>
    (v \<notin> {''PATH'', ''PYTHONPATH'', path_variable (platform opts)} \<longrightarrow> map_of env v = map_of given v)"
proof -
  define env where "env = prepend_path [sep] ''PATH'' (executable_path bld) (prepend_path [sep] ''PYTHONPATH'' [m, viz]
      (prepend_path [sep] (path_variable (platform opts)) (module_path bld) given))"
  have made: "make_proc_env opts bld [sep] inherited os_env = Inr env"
    unfolding env_def make_proc_env_def Let_def given_def by (simp add: assms(3,4))
  have "path_variable (platform opts) \<noteq> ''PYTHONPATH''" by (simp add: path_variable_def)
  then have "search_path sep env v =
      (if v = ''PATH'' then executable_path bld else []) @
      (if v = ''PYTHONPATH'' then [m, viz] else []) @
      (if v = path_variable (platform opts) then module_path bld else []) @ search_path sep given v \<and>
    (v \<notin> {''PATH'', ''PYTHONPATH'', path_variable (platform opts)} \<longrightarrow> map_of env v = map_of given v)"
    unfolding env_def search_path_prepend [OF assms(1)] search_path_prepend [OF assms(2)] search_path_prepend [OF assms(5)]
    by (auto simp: prepend_path_def map_of_dict_set)
  with made show ?thesis by blast
qed

section \<open>Running\<close>

definition run_request ::
  "run_options \<Rightarrow> build \<Rightarrow> string list \<Rightarrow> string option \<Rightarrow> bool \<Rightarrow> (string, string) dict \<Rightarrow> process_request" where
  "run_request opts bld argv here valgrind env =
     \<lparr>request_argv = (if valgrind then valgrind_argv (the (valgrind_program bld)) argv else argv),
      request_env = env, request_cwd = here, capture_errors = valgrind\<rparr>"

definition warned :: "run_options \<Rightarrow> 'e world \<Rightarrow> 'e world" where
  "warned opts w =
     w\<lparr>console := console w @ (if known_platform (platform opts) then [] else [unknown_platform_message (platform opts)])\<rparr>"

lemma get_proc_env_eq:
  "get_proc_env opts bld sep os_env w = (make_proc_env opts bld sep (environ w) os_env, warned opts w)"
  by (simp add: get_proc_env_def warned_def io_seq_def io_bind_def io_when_def io_return_def print_line_def)

lemma print_lines: "io_for_each (\<lambda>line _. print_line line) lines () w = (Inr (), w\<lparr>console := console w @ lines\<rparr>)"
  by (induction lines arbitrary: w) (simp_all add: io_return_def io_bind_def print_line_def)

lemma run_plain_result:
  "fst (run_plain sys r w) =
     (case fst (execute sys r w) of
        Inl e \<Rightarrow> Inl (if windows sys \<and> e = PyException ''WindowsError''
          then waf_error (''Command '' @ show_argv sys (request_argv r) @ '' raised exception WindowsError'') else e)
      | Inr (n, lines) \<Rightarrow> Inr n)"
  by (auto simp: run_plain_def io_bind_def io_catch_def io_raise_def io_return_def split: prod.split sum.split)

lemma run_valgrind_result:
  "fst (run_valgrind sys r w) =
     (case fst (execute sys r w) of
        Inl e \<Rightarrow> Inl e
      | Inr (n, lines) \<Rightarrow> Inr (if n = 0 \<and> list_ex (occurs_in ''== LEAK SUMMARY'') lines then 1 else n))"
  by (auto simp: run_valgrind_def io_bind_def io_seq_def io_return_def print_lines split: prod.split sum.split)

lemma fst_bind_check:
  "fst (io_bind m (\<lambda>n. if n \<noteq> 0 then io_raise (f n) else io_return n) w) =
     (case fst (m w) of Inl e \<Rightarrow> Inl e | Inr n \<Rightarrow> if n \<noteq> 0 then Inl (f n) else Inr n)"
  by (auto simp: io_bind_def io_basic split: prod.split sum.split)

text \<open>
  C21: the verdict of a run. Let \<open>ended\<close> be what \<open>Popen\<close> and \<open>wait\<close> give for the request, in the environment of the
  build. \<open>run_argv\<close> returns nothing but 0, and exactly when the directories for the environment are there, valgrind is
  not asked for in vain, the process could be ended and exited with 0, and valgrind saw no leak. Otherwise it raises:
  for a process that failed, under valgrind or not, the \<open>WafError\<close> that tells its signal or exit code, which is 1 when
  it only leaked; for one that could not be ended, the error of \<open>Popen\<close>, which is a \<open>WafError\<close> for a
  \<open>WindowsError\<close> without valgrind; and before any start the errors for missing directories and for valgrind
  together with a template or not installed.
\<close>

theorem run_argv_verdict:
  fixes w :: "'e world" and opts :: run_options and here :: "string option" and argv :: "string list"
    and sys :: "'e process_system" and bld :: build and os_env :: "(string, string) dict option" and force_no_valgrind :: bool
  defines "result \<equiv> fst (run_argv sys opts bld argv os_env here force_no_valgrind w)"
    and "env \<equiv> make_proc_env opts bld (path_separator sys) (environ w) os_env"
    and "valgrind \<equiv> use_valgrind opts \<and> \<not> force_no_valgrind"
  defines "vain \<equiv> valgrind \<and> (truthy (command_template opts) \<or> \<not> truthy (valgrind_program bld))"
    and "r \<equiv> run_request opts bld argv here valgrind (projr env)"
  defines "ended \<equiv> fst (execute sys r (warned opts w))"
  shows "(result = Inr v \<longleftrightarrow> v = 0 \<and> \<not> isl env \<and> \<not> vain \<and>
      (\<exists>lines. ended = Inr (0, lines) \<and> \<not> (valgrind \<and> list_ex (occurs_in ''== LEAK SUMMARY'') lines))) \<and>
    (\<not> isl env \<and> \<not> vain \<longrightarrow>
      (\<forall>n lines. ended = Inr (n, lines) \<and> (n \<noteq> 0 \<or> valgrind \<and> list_ex (occurs_in ''== LEAK SUMMARY'') lines) \<longrightarrow>
        result = Inl (waf_error (exit_message sys (request_argv r) (if n = 0 then 1 else n)))) \<and>
      (\<forall>e. ended = Inl e \<longrightarrow>
        result = Inl (if \<not> valgrind \<and> windows sys \<and> e = PyException ''WindowsError''
          then waf_error (''Command '' @ show_argv sys argv @ '' raised exception WindowsError'') else e))) \<and>
    (isl env \<longrightarrow> result = Inl AttributeError) \<and>
    (\<not> isl env \<and> vain \<longrightarrow>
      result = Inl (waf_error (if truthy (command_template opts) then ''Options --command-template and --valgrind are conflicting''
        else ''valgrind is not installed'')))"
proof (cases env)
  case (Inl e)
  then have "e = AttributeError" by (auto simp: env_def make_proc_env_def Let_def split: option.splits)
  with Inl show ?thesis
    by (simp add: result_def run_argv_def io_bind_def get_proc_env_eq env_def)
next
  case (Inr d)
  define check where "check = (\<lambda>retval. if retval \<noteq> 0 then Inl (waf_error (exit_message sys (request_argv r) retval)) else Inr retval)"
  have r: "r = \<lparr>request_argv = (if valgrind then valgrind_argv (the (valgrind_program bld)) argv else argv),
      request_env = d, request_cwd = here, capture_errors = valgrind\<rparr>"
    by (simp add: r_def run_request_def Inr)
  have result: "result =
    (if vain then Inl (waf_error (if truthy (command_template opts) then ''Options --command-template and --valgrind are conflicting''
        else ''valgrind is not installed''))
     else case fst ((if valgrind then run_valgrind sys r else run_plain sys r) (warned opts w)) of Inl e \<Rightarrow> Inl e | Inr n \<Rightarrow> check n)"
    unfolding check_def result_def run_argv_def
      io_bind_def [of "get_proc_env opts bld (path_separator sys) os_env" for opts os_env] get_proc_env_eq env_def [symmetric] Inr
    by (simp add: valgrind_def [symmetric] vain_def r Let_def io_raise_def fst_bind_check cong: if_cong sum.case_cong) blast
  show ?thesis
  proof (cases vain)
    case False
    have argv: "\<not> valgrind \<Longrightarrow> request_argv r = argv" by (simp add: r)
    show ?thesis
      using False Inr argv unfolding result ended_def check_def
      by (cases valgrind; cases "fst (execute sys r (warned opts w))") (auto simp: run_plain_result run_valgrind_result split: if_splits)
  qed (simp add: result Inr)
qed

section \<open>Command templates\<close>

text \<open>Words that hold no quotes and no white space, but may hold backslashes, as Windows paths do.\<close>

definition bare_word :: "string \<Rightarrow> bool" where
  "bare_word w \<longleftrightarrow> w \<noteq> [] \<and> list_all (\<lambda>c. \<not> shlex_space c \<and> c \<noteq> CHR 0x22 \<and> c \<noteq> CHR 0x27) w"

lemma shlex_backslash [simp]: "\<not> shlex_space (CHR 0x5C)"
  by (simp add: shlex_space_def)

lemma shlex_in_word:
  "list_all (\<lambda>c. \<not> shlex_space c \<and> c \<noteq> CHR 0x22 \<and> c \<noteq> CHR 0x27) w \<Longrightarrow>
    shlex_loop InWord q tok (double_backslashes w @ s) = shlex_loop InWord q (tok @ w) s"
  by (induction w arbitrary: tok) (simp_all add: double_backslashes_def)

lemma shlex_bare_word: "bare_word w \<Longrightarrow> shlex_loop Between q [] (double_backslashes w @ s) = shlex_loop InWord False w s"
proof (cases w)
  case (Cons c cs)
  assume "bare_word w"
  then show ?thesis
    using Cons shlex_in_word [of cs False "[c]" s] by (auto simp: bare_word_def double_backslashes_def)
qed (simp add: bare_word_def)

lemma double_backslashes_append: "double_backslashes (a @ b) = double_backslashes a @ double_backslashes b"
  by (simp add: double_backslashes_def)

lemma shlex_doubled:
  "list_all bare_word ws \<Longrightarrow> shlex_loop Between q [] (double_backslashes (join '' '' ws)) = Inr ws \<or> q \<and> ws = []"
proof (induction ws arbitrary: q rule: induct_list012)
  case (2 w)
  then show ?case using shlex_bare_word [of w q "[]"] by (simp add: bare_word_def)
next
  case (3 w v ws)
  then have "shlex_loop Between q [] (double_backslashes (join '' '' (w # v # ws))) =
      shlex_loop InWord False w ('' '' @ double_backslashes (join '' '' (v # ws)))"
    using shlex_bare_word [of w q] by (simp add: double_backslashes_append) (simp add: double_backslashes_def)
  moreover have "w \<noteq> []" using 3 by (simp add: bare_word_def)
  ultimately show ?case using 3(2) [of False] 3(3) by (simp add: shlex_space_def)
qed (simp add: double_backslashes_def)

lemma format_once_plain:
  "CHR ''%'' \<notin> set p \<Longrightarrow> format_once (p @ s) v = res_bind (format_once s v) (\<lambda>t. Inr (p @ t))"
proof (induction p)
  case Nil
  show ?case by (cases "format_once s v") simp_all
next
  case (Cons c p)
  then show ?case by (cases "format_once s v") auto
qed

lemma format_once_place:
  assumes "CHR ''%'' \<notin> set p" "CHR ''%'' \<notin> set s"
  shows "format_once (p @ ''%s'' @ s) (Some v) = Inr (p @ v @ s)"
  using format_once_plain [OF assms(2), of "[]" None] by (simp add: format_once_plain [OF assms(1)])

lemma join_append_words:
  "us \<noteq> [] \<Longrightarrow> foldl (\<lambda>cmd arg. cmd @ '' '' @ arg) (join '' '' us) args = join '' '' (us @ args)"
proof (induction args arbitrary: us)
  case (Cons arg args)
  have "join '' '' us @ '' '' @ arg = join '' '' (us @ [arg])"
    using Cons.prems by (induction us rule: induct_list012) simp_all
  then show ?case using Cons.IH [of "us @ [arg]"] by simp
qed simp

lemma join_around:
  obtains p s where "\<And>w. join '' '' (us @ [w] @ vs) = p @ w @ s"
    "set p \<subseteq> insert (CHR '' '') (\<Union> (set ` set us))" "set s \<subseteq> insert (CHR '' '') (\<Union> (set ` set vs))"
proof -
  have vs: "\<exists>s. (\<forall>w. join '' '' ([w] @ vs) = w @ s) \<and> set s \<subseteq> insert (CHR '' '') (\<Union> (set ` set vs))"
  proof (cases vs)
    case (Cons v vs')
    have "set (join '' '' vs) \<subseteq> insert (CHR '' '') (\<Union> (set ` set vs))" by (induction vs rule: induct_list012) auto
    then show ?thesis using Cons by (intro exI [of _ "'' '' @ join '' '' vs"]) auto
  qed simp
  have "\<exists>p s. (\<forall>w. join '' '' (us @ [w] @ vs) = p @ w @ s) \<and>
      set p \<subseteq> insert (CHR '' '') (\<Union> (set ` set us)) \<and> set s \<subseteq> insert (CHR '' '') (\<Union> (set ` set vs))"
  proof (induction us)
    case Nil
    then show ?case using vs by (metis append_Nil empty_subsetI set_empty2 subset_insertI2)
  next
    case (Cons u us)
    then obtain p s where ps: "\<forall>w. join '' '' (us @ [w] @ vs) = p @ w @ s"
      "set p \<subseteq> insert (CHR '' '') (\<Union> (set ` set us))" "set s \<subseteq> insert (CHR '' '') (\<Union> (set ` set vs))" by blast
    have "join '' '' ((u # us) @ [w] @ vs) = u @ '' '' @ join '' '' (us @ [w] @ vs)" for w
      by (cases "us @ [w] @ vs") auto
    then have "join '' '' ((u # us) @ [w] @ vs) = (u @ '' '' @ p) @ w @ s" for w using ps(1) by simp
    then show ?case using ps(2,3) by (intro exI [of _ "u @ '' '' @ p"] exI [of _ s]) auto
  qed
  then show thesis using that by blast
qed

text \<open>
  a command template. With a template of bare words, backslashes allowed, of which one is \<open>%s\<close>, and
  arguments of such words, the program runs as the words of the template and the arguments say, with its
  path in the place of \<open>%s\<close>.
\<close>

theorem get_run_program_template:
  assumes words: "command_template opts = Some (join '' '' (us @ [''%s''] @ vs))" "us @ vs @ args \<noteq> []"
    and bare: "list_all bare_word (us @ [program_file obj] @ vs @ args)"
    and plain: "list_all (\<lambda>w. CHR ''%'' \<notin> set w) (us @ vs @ args)"
    and found: "find_program (working_dir sys) opts bld name = Inr obj"
  shows "get_run_program sys opts bld name (Some (get_command_template opts args)) =
    Inr (name, us @ [program_file obj] @ vs @ args)"
proof -
  obtain p s where ps: "\<And>w. join '' '' (us @ [w] @ vs @ args) = p @ w @ s"
    and sets: "set p \<subseteq> insert (CHR '' '') (\<Union> (set ` set us))" "set s \<subseteq> insert (CHR '' '') (\<Union> (set ` set (vs @ args)))"
    by (rule join_around [of us "vs @ args"]) blast
  have "join '' '' (us @ [''%s''] @ vs) \<noteq> []"
    using join_around [of us vs] by (metis append_is_Nil_conv list.distinct(1))
  then have template: "get_command_template opts args = p @ ''%s'' @ s"
    using join_append_words [of "us @ [''%s''] @ vs" args] ps by (simp add: get_command_template_def words(1) truthy_def)
  have no: "CHR ''%'' \<notin> set p" "CHR ''%'' \<notin> set s" using sets plain by (auto simp: list_all_iff)
  have "p @ ''%s'' @ s \<noteq> ''%s''"
  proof
    assume "p @ ''%s'' @ s = ''%s''"
    then have "length (p @ ''%s'' @ s) = length ''%s''" by (rule arg_cong)
    then have "join '' '' (us @ [[]] @ vs @ args) = []" using ps [of "[]"] by simp
    then show False using words(2) by (cases us; cases "tl us"; cases "vs @ args") auto
  qed
  then show ?thesis
    using shlex_doubled [OF bare, of False] ps [of "program_file obj"]
    by (simp add: get_run_program_def find_run_program_def template found format_once_place [OF no, simplified] shlex_split_def)
qed

text \<open>A library and two programs, of which the second lies outside \<open>/n\<close>.\<close>

definition example_build :: build where
  "example_build =
     \<lparr>all_task_gen = [\<lparr>is_ns3_program = False, source_dir = ''/l/src'', target = ''lib'', program_file = []\<rparr>,
        \<lparr>is_ns3_program = True, source_dir = ''/n/src'', target = ''sim'', program_file = ''/n/b/sim''\<rparr>,
        \<lparr>is_ns3_program = True, source_dir = ''/l/src'', target = ''tool'', program_file = ''/l/b/tool''\<rparr>],
      module_path = [''/n/b''], executable_path = [''/n/x'', ''/n/b''], valgrind_program = Some ''valgrind'', python_program = ''python'',
      pymoddir = Some ''/n/b/py'', pyvizdir = Some ''/n/viz''\<rparr>"

definition example_options :: "bool \<Rightarrow> run_options" where
  "example_options valgrind =
     \<lparr>command_template = None, use_valgrind = valgrind, option_cwd_launch = None, waf_cwd_launch = ''/n'', launch_directory = ''/n'',
      platform = ''linux2''\<rparr>"

definition example_system :: "int \<Rightarrow> string list \<Rightarrow> unit process_system" where
  "example_system code lines =
     \<lparr>execute = (\<lambda>_ w. (Inr (code, lines), w)), windows = False, signal_table = [(''SIG_DFL'', 0), (''SIGABRT'', 6)],
      path_separator = '':'', show_argv = join '' '', working_dir = ''/n''\<rparr>"

definition example_world :: "unit world" where
  "example_world = \<lparr>files = Map.empty, dirs = [], console = [], environ = [], ext = ()\<rparr>"

lemma find_program_first_witness:
  "find_program ''/n'' (example_options False) example_build ''src/sim'' = Inr (all_task_gen example_build ! 1) \<and>
   find_program ''/n'' (example_options False) example_build ''tool'' = Inl TypeError"
proof -
  have dirs: "\<forall>obj \<in> set (all_task_gen example_build). source_dir obj \<noteq> []" by (simp add: example_build_def)
  let ?launch = "abspath ''/n'' (launch_directory (example_options False))"
  have "find (\<lambda>obj. ''src/sim'' \<in> set (program_names ''/n'' ?launch obj)) (programs_below ?launch (all_task_gen example_build)) =
      Some (all_task_gen example_build ! 1)" by code_simp
  moreover have "find (\<lambda>obj. ''tool'' \<in> set (program_names ''/n'' ?launch obj)) (programs_below ?launch (all_task_gen example_build)) =
      None" by code_simp
  moreover have "program_outside ?launch (all_task_gen example_build)" by code_simp
  ultimately show ?thesis
    using find_program_first [OF dirs, of "''/n''" "example_options False" "''src/sim''"]
      find_program_first [OF dirs, of "''/n''" "example_options False" "''tool''"] by simp
qed

lemma get_proc_env_paths_witness:
  "\<exists>env. make_proc_env (example_options False) example_build '':'' [(''PATH'', ''/bin:/usr/bin'')] None = Inr env \<and>
    search_path (CHR '':'') env ''PATH'' = [''/n/x'', ''/n/b'', ''/bin'', ''/usr/bin'']"
  using get_proc_env_paths [where bld = example_build and sep = "CHR '':''" and v = "''PATH''" and opts = "example_options False"
      and inherited = "[(''PATH'', ''/bin:/usr/bin'')]" and os_env = None]
  by (auto simp: example_build_def example_options_def path_variable_def search_path_def)

lemma run_argv_verdict_witness:
  "fst (run_argv (example_system (- 6) []) (example_options False) example_build [''sim''] None None False example_world) =
    Inl (waf_error (exit_message (example_system (- 6) []) [''sim''] (- 6)))"
proof -
  obtain env where env: "make_proc_env (example_options False) example_build '':'' [] None = Inr env"
    by (simp add: make_proc_env_def example_build_def Let_def)
  show ?thesis
    using run_argv_verdict [of "example_system (- 6) []" "example_options False" example_build "[''sim'']" None None False
      example_world 0] env
    by (simp add: example_system_def example_options_def example_world_def run_request_def)
qed

lemma get_run_program_template_witness:
  "get_run_program (example_system 0 []) (example_options False\<lparr>command_template := Some ''gdb --args %s''\<rparr>) example_build ''sim''
      (Some (get_command_template (example_options False\<lparr>command_template := Some ''gdb --args %s''\<rparr>) [''--x=1''])) =
    Inr (''sim'', [''gdb'', ''--args'', ''/n/b/sim'', ''--x=1''])"
proof -
  let ?opts = "example_options False\<lparr>command_template := Some ''gdb --args %s''\<rparr>"
  have "find_program ''/n'' ?opts example_build ''sim'' = Inr (all_task_gen example_build ! 1)"
    by code_simp
  then show ?thesis
    using get_run_program_template [of ?opts "[''gdb'', ''--args'']" "[]" "[''--x=1'']" "all_task_gen example_build ! 1"
      "example_system 0 []" example_build "''sim''"]
    by (simp add: example_build_def example_system_def bare_word_def shlex_space_def)
qed

end
