(* ===== verification/Task_Scheduler.thy ===== *)
theory Task_Scheduler
  imports Py_Base "HOL-Library.Multiset"
begin

text \<open>
  The scheduler of the build: the loop that \<open>wutils.py\<close> puts in the place of \<open>Parallel.start\<close>, with the
  methods of \<open>Parallel\<close> it calls (\<open>waflib/Runner.py\<close>) and the processing of a task by a consumer thread
  (\<open>waflib/Task.py\<close>). The main thread and the consumers share the queues \<open>ready\<close> and \<open>out\<close>; a step of one
  of them is atomic. What a task does, whether it is up to date and which tasks it asks for are parameters.
\<close>

section \<open>Tasks\<close>

type_synonym task = nat

datatype hasrun = NOT_RUN | MISSING | CRASHED | EXCEPTION | SKIPPED | SUCCESS

datatype status = ASK_LATER | SKIP_ME | RUN_ME

text \<open>
  How \<open>run\<close> and \<open>post_run\<close> end: an exception of \<open>run\<close>, an exit status, a \<open>WafError\<close> of \<open>post_run\<close> with the
  mark it has left on the task, another exception of \<open>post_run\<close>, or neither.
\<close>

datatype outcome = Run_raises | Run_fails | Post_waf_error hasrun | Post_raises | Run_succeeds

record 'e build_tasks =
  run_after :: "task \<Rightarrow> task list"
  more_tasks :: "task \<Rightarrow> task list"
  check_signature :: "task \<Rightarrow> 'e \<Rightarrow> status result \<times> 'e"
  run_task :: "task \<Rightarrow> 'e \<Rightarrow> outcome \<times> 'e"
  keep :: nat
  numjobs :: nat

definition runnable_status :: "'e build_tasks \<Rightarrow> (task \<Rightarrow> hasrun) \<Rightarrow> task \<Rightarrow> 'e \<Rightarrow> status result \<times> 'e" where
  "runnable_status b has t e =
     (if list_ex (\<lambda>u. has u = NOT_RUN) (run_after b t) then (Inr ASK_LATER, e) else check_signature b t e)"

section \<open>The state\<close>

datatype consumer = Idle | Running task

text \<open>
  Where the main thread is: at the test of the loop, in one of the two loops of \<open>refill_task_list\<close>, before
  the next task, in the loop that collects tasks after an error, or at an end.
\<close>

datatype place = At_loop | At_drain | At_refill | At_next | At_collect | Finished | Deadlocked | Assertion_failed

record 'e parallel =
  outstanding :: "task list"
  frozen :: "task list"
  ready :: "task list"
  out :: "task list"
  in_count :: int
  processed :: nat
  stop :: bool
  error :: "task list"
  biter :: "task list list"
  dirty :: bool
  deadlock :: "nat option"
  marks :: "task \<Rightarrow> hasrun"
  returned_tasks :: "task list"
  consumers :: "consumer list"
  bld_state :: 'e
  place :: place

definition GAP :: nat where
  "GAP = 10"

definition start_state :: "'e build_tasks \<Rightarrow> task list list \<Rightarrow> 'e \<Rightarrow> 'e parallel" where
  "start_state b groups e =
     \<lparr>outstanding = [], frozen = [], ready = [], out = [], in_count = 0, processed = 1, stop = False, error = [],
      biter = groups, dirty = False, deadlock = None, marks = (\<lambda>_. NOT_RUN), returned_tasks = [],
      consumers = replicate (numjobs b) Idle, bld_state = e, place = At_loop\<rparr>"

section \<open>Operations\<close>

definition add_more_tasks :: "'e build_tasks \<Rightarrow> task \<Rightarrow> 'e parallel \<Rightarrow> 'e parallel" where
  "add_more_tasks b t s = s\<lparr>outstanding := outstanding s @ more_tasks b t\<rparr>"

text \<open>\<open>get_out\<close> blocks while nothing is out.\<close>

fun get_out :: "'e build_tasks \<Rightarrow> 'e parallel \<Rightarrow> 'e parallel option" where
  "get_out b s =
     (case out s of
        [] \<Rightarrow> None
      | t # rest \<Rightarrow>
          let s1 = s\<lparr>out := rest\<rparr>;
              s2 = (if \<not> stop s1 then add_more_tasks b t s1 else s1)
          in Some (s2\<lparr>in_count := in_count s2 - 1, dirty := True\<rparr>))"

definition error_handler :: "'e build_tasks \<Rightarrow> task \<Rightarrow> 'e parallel \<Rightarrow> 'e parallel" where
  "error_handler b t s = s\<lparr>stop := stop s \<or> keep b = 0, error := error s @ [t]\<rparr>"

definition set_mark :: "task \<Rightarrow> hasrun \<Rightarrow> 'e parallel \<Rightarrow> 'e parallel" where
  "set_mark t h s = s\<lparr>marks := (marks s)(t := h)\<rparr>"

definition postpone :: "bool \<Rightarrow> task \<Rightarrow> 'e parallel \<Rightarrow> 'e parallel" where
  \<comment> \<open>\<open>front\<close> is the coin\<close>
  "postpone front t s = s\<lparr>frozen := (if front then t # frozen s else frozen s @ [t])\<rparr>"

fun outcome_mark :: "outcome \<Rightarrow> hasrun" where
  "outcome_mark Run_raises = EXCEPTION"
| "outcome_mark Run_fails = CRASHED"
| "outcome_mark (Post_waf_error h) = h"
| "outcome_mark Post_raises = EXCEPTION"
| "outcome_mark Run_succeeds = SUCCESS"

text \<open>\<open>process\<close> up to the call of \<open>run\<close>, and from its end.\<close>

definition begin_process :: "task \<Rightarrow> 'e parallel \<Rightarrow> 'e parallel" where
  "begin_process t s = (if stop s then s\<lparr>out := out s @ [t]\<rparr> else s\<lparr>returned_tasks := returned_tasks s @ [t]\<rparr>)"

definition end_process :: "'e build_tasks \<Rightarrow> task \<Rightarrow> 'e parallel \<Rightarrow> 'e parallel" where
  "end_process b t s =
     (case run_task b t (bld_state s) of (r, e) \<Rightarrow>
        let s1 = set_mark t (outcome_mark r) (s\<lparr>bld_state := e\<rparr>);
            s2 = (if outcome_mark r \<noteq> SUCCESS then error_handler b t s1 else s1)
        in s2\<lparr>out := out s2 @ [t]\<rparr>)"

definition process_now :: "'e build_tasks \<Rightarrow> task \<Rightarrow> 'e parallel \<Rightarrow> 'e parallel" where
  "process_now b t s = (if stop s then begin_process t s else end_process b t (begin_process t s))"

text \<open>The body of the loop for the task that was taken from \<open>outstanding\<close>.\<close>

definition try_task :: "'e build_tasks \<Rightarrow> bool \<Rightarrow> task \<Rightarrow> 'e parallel \<Rightarrow> 'e parallel" where
  "try_task b front t s =
     (if marks s t \<noteq> NOT_RUN then s\<lparr>processed := processed s + 1, place := At_loop\<rparr>
      else if stop s then s\<lparr>place := At_collect\<rparr>
      else
        case runnable_status b (marks s) t (bld_state s) of (st, e) \<Rightarrow>
          let s1 = s\<lparr>bld_state := e, place := At_loop\<rparr>; s2 = s1\<lparr>processed := processed s1 + 1\<rparr> in
          (case st of
             Inl _ \<Rightarrow>
               if \<not> stop s \<and> keep b \<noteq> 0 then (set_mark t SKIPPED s2)\<lparr>stop := keep b = 1\<rparr>
               else error_handler b t (set_mark t EXCEPTION s2)
           | Inr ASK_LATER \<Rightarrow> postpone front t s1
           | Inr SKIP_ME \<Rightarrow> add_more_tasks b t (set_mark t SKIPPED s2)
           | Inr RUN_ME \<Rightarrow>
               let s3 = s2\<lparr>in_count := in_count s2 + 1\<rparr> in
               if numjobs b = 1 then process_now b t s3 else s3\<lparr>ready := ready s3 @ [t]\<rparr>))"

text \<open>The end of the body of the second loop of \<open>refill_task_list\<close>.\<close>

definition refill_rest :: "'e parallel \<Rightarrow> 'e parallel" where
  "refill_rest s =
     (if frozen s \<noteq> [] then s\<lparr>outstanding := outstanding s @ frozen s, frozen := []\<rparr>
      else if in_count s = 0
      then s\<lparr>outstanding := outstanding s @ (case biter s of [] \<Rightarrow> [] | g # _ \<Rightarrow> g), biter := tl (biter s), place := At_next\<rparr>
      else s)"

text \<open>A step of the main thread; it has none where it waits for a task to come out or has come to an end.\<close>

definition refill_step :: "'e build_tasks \<Rightarrow> 'e parallel \<Rightarrow> 'e parallel option" where
  "refill_step b s =
     (if outstanding s \<noteq> [] then Some (s\<lparr>place := At_next\<rparr>)
      else if in_count s \<noteq> 0 then map_option refill_rest (get_out b s)
      else if frozen s \<noteq> []
      then Some (if deadlock s = Some (processed s) then s\<lparr>place := Deadlocked\<rparr>
                 else refill_rest (s\<lparr>deadlock := Some (processed s)\<rparr>))
      else Some (refill_rest s))"

fun main_step :: "'e build_tasks \<Rightarrow> bool \<Rightarrow> 'e parallel \<Rightarrow> 'e parallel option" where
  "main_step b front s =
     (case place s of
        At_loop \<Rightarrow> Some (s\<lparr>place := (if stop s then At_collect else At_drain)\<rparr>)
      | At_drain \<Rightarrow> if in_count s > int (numjobs b * GAP) then get_out b s else Some (s\<lparr>place := At_refill\<rparr>)
      | At_refill \<Rightarrow> refill_step b s
      | At_next \<Rightarrow>
          (case outstanding s of
             [] \<Rightarrow> Some (s\<lparr>place := (if in_count s \<noteq> 0 then At_loop else At_collect)\<rparr>)
           | t # rest \<Rightarrow> Some (try_task b front t (s\<lparr>outstanding := rest\<rparr>)))
      | At_collect \<Rightarrow>
          if error s \<noteq> [] \<and> in_count s \<noteq> 0 then get_out b s
          else Some (s\<lparr>place := (if in_count s = 0 \<or> stop s then Finished else Assertion_failed)\<rparr>)
      | _ \<Rightarrow> None)"

text \<open>A step of a consumer: it takes a task, or the task it has taken ends.\<close>

fun consumer_step :: "'e build_tasks \<Rightarrow> nat \<Rightarrow> 'e parallel \<Rightarrow> 'e parallel option" where
  "consumer_step b i s =
     (if i < length (consumers s)
      then
        case consumers s ! i of
          Idle \<Rightarrow>
            (case ready s of
               [] \<Rightarrow> None
             | t # rest \<Rightarrow>
                 Some ((begin_process t s)\<lparr>ready := rest,
                   consumers := (consumers s)[i := (if stop s then Idle else Running t)]\<rparr>))
        | Running t \<Rightarrow> Some ((end_process b t s)\<lparr>consumers := (consumers s)[i := Idle]\<rparr>)
      else None)"

inductive sched_step :: "'e build_tasks \<Rightarrow> 'e parallel \<Rightarrow> 'e parallel \<Rightarrow> bool" for b where
  main: "main_step b front s = Some s' \<Longrightarrow> sched_step b s s'"
| consumer: "consumer_step b i s = Some s' \<Longrightarrow> sched_step b s s'"

inductive reachable :: "'e build_tasks \<Rightarrow> task list list \<Rightarrow> 'e \<Rightarrow> 'e parallel \<Rightarrow> bool" for b groups e where
  reach_start: "reachable b groups e (start_state b groups e)"
| reach_step: "reachable b groups e s \<Longrightarrow> sched_step b s s' \<Longrightarrow> reachable b groups e s'"

section \<open>Steps\<close>

fun consumer_tasks :: "consumer \<Rightarrow> task list" where
  "consumer_tasks Idle = []"
| "consumer_tasks (Running t) = [t]"

definition held :: "consumer list \<Rightarrow> task list" where
  "held cs = concat (map consumer_tasks cs)"

lemma consumers_update:
  assumes "i < length cs"
  shows "mset (held (cs[i := c])) + mset (consumer_tasks (cs ! i)) = mset (held cs) + mset (consumer_tasks c)"
  using assms
proof (induction cs arbitrary: i)
  case (Cons d cs)
  then show ?case by (cases i) (auto simp: held_def ac_simps)
qed simp

lemma held_take: "i < length cs \<Longrightarrow> cs ! i = Idle \<Longrightarrow> mset (held (cs[i := Running t])) = add_mset t (mset (held cs))"
  using consumers_update [of i cs "Running t"] by simp

lemma held_return: "i < length cs \<Longrightarrow> cs ! i = Running t \<Longrightarrow> mset (held cs) = add_mset t (mset (held (cs[i := Idle])))"
  using consumers_update [of i cs Idle] by simp

text \<open>
  The steps once more, one rule for each way that a step may go.
\<close>

definition take_out :: "'e build_tasks \<Rightarrow> task \<Rightarrow> task list \<Rightarrow> 'e parallel \<Rightarrow> 'e parallel" where
  "take_out b t rest s =
     s\<lparr>out := rest, outstanding := outstanding s @ (if stop s then [] else more_tasks b t),
       in_count := in_count s - 1, dirty := True\<rparr>"

lemma get_out_take: "get_out b s = (case out s of [] \<Rightarrow> None | t # rest \<Rightarrow> Some (take_out b t rest s))"
  by (simp add: take_out_def add_more_tasks_def split: list.split)

inductive move :: "'e build_tasks \<Rightarrow> 'e parallel \<Rightarrow> 'e parallel \<Rightarrow> bool" for b where
  loop: "place s = At_loop \<Longrightarrow> move b s (s\<lparr>place := (if stop s then At_collect else At_drain)\<rparr>)"
| get: "place s = At_drain \<and> in_count s > int (numjobs b * GAP) \<or> place s = At_collect \<and> error s \<noteq> [] \<and> in_count s \<noteq> 0 \<Longrightarrow>
    out s = t # rest \<Longrightarrow> move b s (take_out b t rest s)"
| drained: "place s = At_drain \<Longrightarrow> move b s (s\<lparr>place := At_refill\<rparr>)"
| refilled: "place s = At_refill \<Longrightarrow> outstanding s \<noteq> [] \<Longrightarrow> move b s (s\<lparr>place := At_next\<rparr>)"
| get_refill: "place s = At_refill \<Longrightarrow> outstanding s = [] \<Longrightarrow> in_count s \<noteq> 0 \<Longrightarrow> out s = t # rest \<Longrightarrow>
    move b s (refill_rest (take_out b t rest s))"
| dead: "place s = At_refill \<Longrightarrow> outstanding s = [] \<Longrightarrow> in_count s = 0 \<Longrightarrow> frozen s \<noteq> [] \<Longrightarrow>
    deadlock s = Some (processed s) \<Longrightarrow> move b s (s\<lparr>place := Deadlocked\<rparr>)"
| retry: "place s = At_refill \<Longrightarrow> outstanding s = [] \<Longrightarrow> in_count s = 0 \<Longrightarrow> frozen s \<noteq> [] \<Longrightarrow>
    deadlock s \<noteq> Some (processed s) \<Longrightarrow>
    move b s (s\<lparr>deadlock := Some (processed s), outstanding := frozen s, frozen := []\<rparr>)"
| group: "place s = At_refill \<Longrightarrow> outstanding s = [] \<Longrightarrow> in_count s = 0 \<Longrightarrow> frozen s = [] \<Longrightarrow> biter s = g # gs \<Longrightarrow>
    move b s (s\<lparr>outstanding := g, biter := gs, place := At_next\<rparr>)"
| no_group: "place s = At_refill \<Longrightarrow> outstanding s = [] \<Longrightarrow> in_count s = 0 \<Longrightarrow> frozen s = [] \<Longrightarrow> biter s = [] \<Longrightarrow>
    move b s (s\<lparr>place := At_next\<rparr>)"
| none_left: "place s = At_next \<Longrightarrow> outstanding s = [] \<Longrightarrow>
    move b s (s\<lparr>place := (if in_count s \<noteq> 0 then At_loop else At_collect)\<rparr>)"
| marked: "place s = At_next \<Longrightarrow> outstanding s = t # rest \<Longrightarrow> marks s t \<noteq> NOT_RUN \<Longrightarrow>
    move b s (s\<lparr>outstanding := rest, processed := processed s + 1, place := At_loop\<rparr>)"
| stopped: "place s = At_next \<Longrightarrow> outstanding s = t # rest \<Longrightarrow> marks s t = NOT_RUN \<Longrightarrow> stop s \<Longrightarrow>
    move b s (s\<lparr>outstanding := rest, place := At_collect\<rparr>)"
| raising: "place s = At_next \<Longrightarrow> outstanding s = t # rest \<Longrightarrow> marks s t = NOT_RUN \<Longrightarrow> \<not> stop s \<Longrightarrow>
    runnable_status b (marks s) t (bld_state s) = (Inl ex, e) \<Longrightarrow>
    h = SKIPPED \<and> err = [] \<or> h = EXCEPTION \<and> err = [t] \<and> stp = (keep b = 0) \<Longrightarrow>
    move b s (s\<lparr>outstanding := rest, bld_state := e, processed := processed s + 1, place := At_loop,
      marks := (marks s)(t := h), stop := stp, error := error s @ err\<rparr>)"
| later: "place s = At_next \<Longrightarrow> outstanding s = t # rest \<Longrightarrow> marks s t = NOT_RUN \<Longrightarrow> \<not> stop s \<Longrightarrow>
    runnable_status b (marks s) t (bld_state s) = (Inr ASK_LATER, e) \<Longrightarrow> fs = t # frozen s \<or> fs = frozen s @ [t] \<Longrightarrow>
    move b s (s\<lparr>outstanding := rest, bld_state := e, place := At_loop, frozen := fs\<rparr>)"
| skip: "place s = At_next \<Longrightarrow> outstanding s = t # rest \<Longrightarrow> marks s t = NOT_RUN \<Longrightarrow> \<not> stop s \<Longrightarrow>
    runnable_status b (marks s) t (bld_state s) = (Inr SKIP_ME, e) \<Longrightarrow>
    move b s (s\<lparr>outstanding := rest @ more_tasks b t, bld_state := e, processed := processed s + 1, place := At_loop,
      marks := (marks s)(t := SKIPPED)\<rparr>)"
| enqueue: "place s = At_next \<Longrightarrow> outstanding s = t # rest \<Longrightarrow> marks s t = NOT_RUN \<Longrightarrow> \<not> stop s \<Longrightarrow>
    runnable_status b (marks s) t (bld_state s) = (Inr RUN_ME, e) \<Longrightarrow> numjobs b \<noteq> 1 \<Longrightarrow>
    move b s (s\<lparr>outstanding := rest, bld_state := e, processed := processed s + 1, place := At_loop,
      in_count := in_count s + 1, ready := ready s @ [t]\<rparr>)"
| process: "place s = At_next \<Longrightarrow> outstanding s = t # rest \<Longrightarrow> marks s t = NOT_RUN \<Longrightarrow> \<not> stop s \<Longrightarrow>
    runnable_status b (marks s) t (bld_state s) = (Inr RUN_ME, e) \<Longrightarrow> numjobs b = 1 \<Longrightarrow>
    run_task b t e = (r, e') \<Longrightarrow> h = outcome_mark r \<Longrightarrow>
    move b s (s\<lparr>outstanding := rest, bld_state := e', processed := processed s + 1, place := At_loop,
      in_count := in_count s + 1, returned_tasks := returned_tasks s @ [t], marks := (marks s)(t := h),
      out := out s @ [t], stop := (h \<noteq> SUCCESS \<and> keep b = 0), error := error s @ (if h \<noteq> SUCCESS then [t] else [])\<rparr>)"
| collected: "place s = At_collect \<Longrightarrow> error s = [] \<or> in_count s = 0 \<Longrightarrow>
    move b s (s\<lparr>place := (if in_count s = 0 \<or> stop s then Finished else Assertion_failed)\<rparr>)"
| give_back: "ready s = t # rest \<Longrightarrow> stop s \<Longrightarrow> move b s (s\<lparr>ready := rest, out := out s @ [t]\<rparr>)"
| begin_task: "i < length (consumers s) \<Longrightarrow> consumers s ! i = Idle \<Longrightarrow> ready s = t # rest \<Longrightarrow> \<not> stop s \<Longrightarrow>
    move b s (s\<lparr>ready := rest, consumers := (consumers s)[i := Running t], returned_tasks := returned_tasks s @ [t]\<rparr>)"
| end_task: "i < length (consumers s) \<Longrightarrow> consumers s ! i = Running t \<Longrightarrow> run_task b t (bld_state s) = (r, e) \<Longrightarrow>
    h = outcome_mark r \<Longrightarrow>
    move b s (s\<lparr>consumers := (consumers s)[i := Idle], bld_state := e, marks := (marks s)(t := h), out := out s @ [t],
      stop := stop s \<or> h \<noteq> SUCCESS \<and> keep b = 0, error := error s @ (if h \<noteq> SUCCESS then [t] else [])\<rparr>)"

lemma move_eq: "move b s s1 \<Longrightarrow> s1 = s' \<Longrightarrow> move b s s'"
  by simp

lemma refill_moves:
  assumes "place s = At_refill" "refill_step b s = Some s'"
  shows "move b s s'"
proof (cases "outstanding s = [] \<and> in_count s = 0 \<and> frozen s = []")
  case True
  then show ?thesis
    using assms by (cases "biter s") (auto simp: refill_step_def refill_rest_def intro: move_eq [OF move.group] move_eq [OF move.no_group])
next
  case False
  then show ?thesis
    using assms
    by (auto simp: refill_step_def refill_rest_def [of "deadlock_update _ _"] get_out_take simp del: get_out.simps
        intro: move.intros move_eq [OF move.retry] split: if_splits list.splits)
qed

lemma try_task_moves:
  assumes "place s = At_next" "outstanding s = t # rest"
  shows "move b s (try_task b front t (s\<lparr>outstanding := rest\<rparr>))"
proof -
  obtain st e where st: "runnable_status b (marks s) t (bld_state s) = (st, e)" by fastforce
  show ?thesis
  proof (cases "marks s t \<noteq> NOT_RUN \<or> stop s")
    case True
    then show ?thesis using assms by (auto simp: try_task_def intro: move_eq [OF move.marked] move_eq [OF move.stopped])
  next
    case False
    show ?thesis
    proof (cases st)
      case (Inl ex)
      define h where "h = (if keep b \<noteq> 0 then SKIPPED else EXCEPTION)"
      define err where "err = (if keep b \<noteq> 0 then [] else [t])"
      define stp where "stp = (if keep b \<noteq> 0 then keep b = 1 else True)"
      have "try_task b front t (s\<lparr>outstanding := rest\<rparr>) =
        s\<lparr>outstanding := rest, bld_state := e, processed := processed s + 1, place := At_loop,
          marks := (marks s)(t := h), stop := stp, error := error s @ err\<rparr>"
        using False by (simp add: try_task_def st Inl Let_def set_mark_def error_handler_def h_def err_def stp_def)
      then show ?thesis
        by (metis (full_types) move.raising assms False st Inl h_def err_def stp_def)
    next
      case (Inr a)
      show ?thesis
      proof (cases a)
        case ASK_LATER
        define fs where "fs = (if front then t # frozen s else frozen s @ [t])"
        have "try_task b front t (s\<lparr>outstanding := rest\<rparr>) =
          s\<lparr>outstanding := rest, bld_state := e, place := At_loop, frozen := fs\<rparr>"
          using False by (simp add: try_task_def st Inr ASK_LATER Let_def postpone_def fs_def)
        then show ?thesis using move.later [OF assms _ _ st [unfolded Inr ASK_LATER], of fs] False by (simp add: fs_def)
      next
        case SKIP_ME
        have "try_task b front t (s\<lparr>outstanding := rest\<rparr>) =
          s\<lparr>outstanding := rest @ more_tasks b t, bld_state := e, processed := processed s + 1, place := At_loop,
            marks := (marks s)(t := SKIPPED)\<rparr>"
          using False by (simp add: try_task_def st Inr SKIP_ME Let_def set_mark_def add_more_tasks_def)
        then show ?thesis using move.skip [OF assms _ _ st [unfolded Inr SKIP_ME]] False by simp
      next
        case RUN_ME
        show ?thesis
        proof (cases "numjobs b = 1")
          case True
          obtain r e' where r: "run_task b t e = (r, e')" by fastforce
          define h where "h = outcome_mark r"
          have "try_task b front t (s\<lparr>outstanding := rest\<rparr>) =
            s\<lparr>outstanding := rest, bld_state := e', processed := processed s + 1, place := At_loop,
              in_count := in_count s + 1, returned_tasks := returned_tasks s @ [t], marks := (marks s)(t := h),
              out := out s @ [t], stop := (h \<noteq> SUCCESS \<and> keep b = 0), error := error s @ (if h \<noteq> SUCCESS then [t] else [])\<rparr>"
            using False by (simp add: try_task_def st Inr RUN_ME Let_def True process_now_def begin_process_def end_process_def r
                set_mark_def error_handler_def h_def [symmetric])
          then show ?thesis using move.process [OF assms _ _ st [unfolded Inr RUN_ME] True r h_def] False by simp
        next
          case several: False
          have "try_task b front t (s\<lparr>outstanding := rest\<rparr>) =
            s\<lparr>outstanding := rest, bld_state := e, processed := processed s + 1, place := At_loop,
              in_count := in_count s + 1, ready := ready s @ [t]\<rparr>"
            using False several by (simp add: try_task_def st Inr RUN_ME Let_def)
          then show ?thesis using move.enqueue [OF assms _ _ st [unfolded Inr RUN_ME] several] False by simp
        qed
      qed
    qed
  qed
qed

lemma consumer_moves:
  assumes "consumer_step b i s = Some s'"
  shows "move b s s'"
proof -
  have i: "i < length (consumers s)" using assms by (simp split: if_splits)
  show ?thesis
  proof (cases "consumers s ! i")
    case Idle
    then obtain t rest where t: "ready s = t # rest" using assms i by (auto split: list.splits)
    have "s' = (if stop s then s\<lparr>ready := rest, out := out s @ [t]\<rparr>
      else s\<lparr>ready := rest, consumers := (consumers s)[i := Running t], returned_tasks := returned_tasks s @ [t]\<rparr>)"
      using assms i by (auto simp: Idle t begin_process_def list_update_same_conv)
    then show ?thesis using move.give_back [OF t, of b] move.begin_task [OF i Idle t, of b] by (cases "stop s") simp_all
  next
    case (Running t)
    obtain r e where r: "run_task b t (bld_state s) = (r, e)" by fastforce
    define h where "h = outcome_mark r"
    have "s' = s\<lparr>consumers := (consumers s)[i := Idle], bld_state := e, marks := (marks s)(t := h), out := out s @ [t],
      stop := stop s \<or> h \<noteq> SUCCESS \<and> keep b = 0, error := error s @ (if h \<noteq> SUCCESS then [t] else [])\<rparr>"
      using assms i by (auto simp: Running end_process_def r Let_def set_mark_def error_handler_def h_def)
    then show ?thesis using move.end_task [OF i Running r h_def] by simp
  qed
qed

lemma main_moves:
  assumes "main_step b front s = Some s'"
  shows "move b s s'"
proof (cases "place s")
  case At_next
  show ?thesis
  proof (cases "outstanding s")
    case Nil
    then show ?thesis using assms At_next move.none_left [OF At_next Nil, of b] by auto
  next
    case (Cons t rest)
    then show ?thesis using assms At_next try_task_moves [OF At_next Cons, of b front] by auto
  qed
next
  case At_refill
  then show ?thesis using assms refill_moves [of s b s'] by simp
next
  case At_loop
  then show ?thesis using assms move.loop [OF At_loop, of b] by auto
next
  case At_drain
  show ?thesis
  proof (cases "in_count s > int (numjobs b * GAP)")
    case True
    then show ?thesis using assms At_drain move.get [of s b] by (auto simp: get_out_take simp del: get_out.simps split: list.splits)
  next
    case False
    then show ?thesis using assms At_drain move.drained [OF At_drain, of b] by (auto simp del: get_out.simps)
  qed
next
  case At_collect
  show ?thesis
  proof (cases "error s \<noteq> [] \<and> in_count s \<noteq> 0")
    case True
    then show ?thesis using assms At_collect move.get [of s b] by (auto simp: get_out_take simp del: get_out.simps split: list.splits)
  next
    case False
    then show ?thesis using assms At_collect move.collected [OF At_collect, of b] by (auto simp del: get_out.simps)
  qed
qed (use assms in simp_all)

lemma sched_step_move: "sched_step b s s' \<Longrightarrow> move b s s'"
  by (erule sched_step.cases) (blast dest: main_moves consumer_moves)+

lemma reachable_move_induct [consumes 1, case_names start move]:
  assumes "reachable b groups e s"
    and "P (start_state b groups e)"
    and "\<And>s s'. reachable b groups e s \<Longrightarrow> P s \<Longrightarrow> move b s s' \<Longrightarrow> P s'"
  shows "P s"
  using assms(1) by induction (auto intro: assms(2,3) sched_step_move)

section \<open>Invariants\<close>

lemma take_out_sel [simp]:
  "outstanding (take_out b t rest s) = outstanding s @ (if stop s then [] else more_tasks b t)"
  "frozen (take_out b t rest s) = frozen s" "ready (take_out b t rest s) = ready s" "out (take_out b t rest s) = rest"
  "in_count (take_out b t rest s) = in_count s - 1" "processed (take_out b t rest s) = processed s"
  "stop (take_out b t rest s) = stop s" "error (take_out b t rest s) = error s" "biter (take_out b t rest s) = biter s"
  "deadlock (take_out b t rest s) = deadlock s" "marks (take_out b t rest s) = marks s"
  "returned_tasks (take_out b t rest s) = returned_tasks s" "consumers (take_out b t rest s) = consumers s"
  "place (take_out b t rest s) = place s"
  by (simp_all add: take_out_def)

text \<open>What the end of the refill loop keeps.\<close>

lemma refill_rest_sel [simp]:
  "ready (refill_rest s) = ready s" "out (refill_rest s) = out s" "in_count (refill_rest s) = in_count s"
  "processed (refill_rest s) = processed s" "stop (refill_rest s) = stop s" "error (refill_rest s) = error s"
  "deadlock (refill_rest s) = deadlock s" "marks (refill_rest s) = marks s"
  "returned_tasks (refill_rest s) = returned_tasks s" "consumers (refill_rest s) = consumers s"
  by (simp_all add: refill_rest_def)

abbreviation flying :: "'e parallel \<Rightarrow> task list" where
  "flying s \<equiv> ready s @ held (consumers s) @ out s"

lemma length_held_take: "i < length cs \<Longrightarrow> cs ! i = Idle \<Longrightarrow> length (held (cs[i := Running t])) = Suc (length (held cs))"
  using arg_cong [OF held_take, of i cs size] by simp

lemma length_held_return: "i < length cs \<Longrightarrow> cs ! i = Running t \<Longrightarrow> length (held cs) = Suc (length (held (cs[i := Idle])))"
  using arg_cong [OF held_return, of i cs t size] by simp

lemma set_held_take: "i < length cs \<Longrightarrow> cs ! i = Idle \<Longrightarrow> set (held (cs[i := Running t])) = insert t (set (held cs))"
  using arg_cong [OF held_take, of i cs set_mset] by simp

lemma set_held_return: "i < length cs \<Longrightarrow> cs ! i = Running t \<Longrightarrow> set (held cs) = insert t (set (held (cs[i := Idle])))"
  using arg_cong [OF held_return, of i cs t set_mset] by simp

lemma count_flying_move:
  "move b s s' \<Longrightarrow> in_count s = int (length (flying s)) \<Longrightarrow> in_count s' = int (length (flying s'))"
  by (induction rule: move.induct) (auto simp: length_held_take dest: length_held_return)

lemma held_start: "held (replicate n Idle) = []"
  by (induction n) (simp_all add: held_def)

lemma count_flying: "reachable b groups e s \<Longrightarrow> in_count s = int (length (flying s))"
  by (induction rule: reachable_move_induct) (auto simp: start_state_def held_start dest: count_flying_move)

subsection \<open>Dependencies\<close>

text \<open>\<open>post_run\<close> leaves a mark when it raises a \<open>WafError\<close>.\<close>

definition marks_failures :: "'e build_tasks \<Rightarrow> bool" where
  "marks_failures b \<longleftrightarrow> (\<forall>t e. fst (run_task b t e) \<noteq> Post_waf_error NOT_RUN)"

lemma outcome_marked:
  assumes "marks_failures b" "run_task b t e = (r, e')"
  shows "outcome_mark r \<noteq> NOT_RUN"
  using assms(1) [unfolded marks_failures_def, rule_format, of t e] assms(2) by (cases r) auto

definition deps_done :: "'e build_tasks \<Rightarrow> (task \<Rightarrow> hasrun) \<Rightarrow> task \<Rightarrow> bool" where
  "deps_done b has t \<longleftrightarrow> (\<forall>u \<in> set (run_after b t). has u \<noteq> NOT_RUN)"

lemma deps_done_mark: "deps_done b has t \<Longrightarrow> h \<noteq> NOT_RUN \<Longrightarrow> deps_done b (has(u := h)) t"
  by (simp add: deps_done_def)

lemma runnable_deps:
  "runnable_status b has t e = (Inr st, e') \<Longrightarrow> st \<noteq> ASK_LATER \<Longrightarrow> deps_done b has t"
  by (auto simp: runnable_status_def deps_done_def list_ex_iff split: if_splits)

definition started_ok :: "'e build_tasks \<Rightarrow> 'e parallel \<Rightarrow> bool" where
  "started_ok b s \<longleftrightarrow> (\<forall>t \<in> set (ready s) \<union> set (returned_tasks s). deps_done b (marks s) t)"

lemma started_ok_move:
  assumes "marks_failures b"
  shows "move b s s' \<Longrightarrow> started_ok b s \<Longrightarrow> started_ok b s'"
proof (induction rule: move.induct)
  case (raising s t rest e ex h err stp)
  then show ?case by (auto simp: started_ok_def intro!: deps_done_mark)
next
  case (skip s t rest e)
  then show ?case by (auto simp: started_ok_def intro!: deps_done_mark)
next
  case (enqueue s t rest e)
  then show ?case by (auto simp: started_ok_def dest: runnable_deps)
next
  case (process s t rest e r e' h)
  then show ?case
    using outcome_marked [OF assms process(7)] runnable_deps [OF process(5)] by (auto simp: started_ok_def intro!: deps_done_mark)
next
  case (end_task i s t r e h)
  then show ?case using outcome_marked [OF assms end_task(3)] by (auto simp: started_ok_def intro!: deps_done_mark)
qed (auto simp: started_ok_def)

lemma started_ok_reachable:
  assumes "marks_failures b"
  shows "reachable b groups e s \<Longrightarrow> started_ok b s"
proof (induction rule: reachable_move_induct)
  case start
  then show ?case by (simp add: started_ok_def start_state_def)
qed (rule started_ok_move [OF assms])

subsection \<open>Every task once\<close>

text \<open>
  The tasks that come from a task: itself and those that come from its \<open>more_tasks\<close>. The build has them when
  they form trees.
\<close>

definition task_trees :: "'e build_tasks \<Rightarrow> (task \<Rightarrow> task multiset) \<Rightarrow> bool" where
  "task_trees b tree \<longleftrightarrow> (\<forall>t. tree t = add_mset t (\<Sum>m\<in>#mset (more_tasks b t). tree m))"

abbreviation trees :: "(task \<Rightarrow> task multiset) \<Rightarrow> task list \<Rightarrow> task multiset" where
  "trees tree ts \<equiv> \<Sum>t\<in>#mset ts. tree t"

definition saplings :: "'e build_tasks \<Rightarrow> (task \<Rightarrow> task multiset) \<Rightarrow> task list \<Rightarrow> task multiset" where
  "saplings b tree ts = (\<Sum>t\<in>#mset ts. trees tree (more_tasks b t))"

text \<open>The tasks to come, and among them those that no thread has taken yet.\<close>

definition unstarted :: "'e build_tasks \<Rightarrow> (task \<Rightarrow> task multiset) \<Rightarrow> 'e parallel \<Rightarrow> task multiset" where
  "unstarted b tree s = trees tree (outstanding s @ frozen s @ concat (biter s) @ ready s) +
     saplings b tree (held (consumers s)) + saplings b tree (out s)"

lemma saplings_take: "i < length cs \<Longrightarrow> cs ! i = Idle \<Longrightarrow>
    saplings b tree (held (cs[i := Running t])) = trees tree (more_tasks b t) + saplings b tree (held cs)"
  by (simp add: saplings_def held_take)

lemma saplings_return: "i < length cs \<Longrightarrow> cs ! i = Running t \<Longrightarrow>
    saplings b tree (held cs) = trees tree (more_tasks b t) + saplings b tree (held (cs[i := Idle]))"
  by (simp add: saplings_def held_return)

lemma tree_eq: "task_trees b tree \<Longrightarrow> tree t = add_mset t (trees tree (more_tasks b t))"
  unfolding task_trees_def by (rule spec)

lemma started_once_move:
  assumes tree: "task_trees b tree"
  shows "move b s s' \<Longrightarrow> mset (returned_tasks s') + unstarted b tree s' \<subseteq># mset (returned_tasks s) + unstarted b tree s"
proof (induction rule: move.induct)
  case (get s t rest)
  then show ?case by (cases "stop s") (simp_all add: unstarted_def saplings_def ac_simps)
next
  case (get_refill s t rest)
  have "unstarted b tree (refill_rest s2) = unstarted b tree s2" for s2 :: "'a parallel"
    by (cases "biter s2") (simp_all add: unstarted_def refill_rest_def ac_simps)
  then show ?case using get_refill by (cases "stop s") (simp_all add: unstarted_def saplings_def ac_simps)
next
  case (marked s t rest)
  then show ?case by (simp add: unstarted_def)
next
  case (stopped s t rest)
  then show ?case by (simp add: unstarted_def)
next
  case (raising s t rest e ex h err stp)
  then show ?case by (simp add: unstarted_def)
next
  case (process s t rest e r e' h)
  show ?case by (simp add: unstarted_def saplings_def process(2) tree_eq [OF tree, of t] ac_simps)
next
  case (skip s t rest e)
  show ?case by (simp add: unstarted_def saplings_def skip(2) tree_eq [OF tree, of t] ac_simps)
next
  case (begin_task i s t rest)
  show ?case by (simp add: unstarted_def begin_task(3) saplings_take [OF begin_task(1,2)] tree_eq [OF tree, of t] ac_simps)
next
  case (give_back s t rest)
  show ?case by (simp add: unstarted_def saplings_def give_back(1) tree_eq [OF tree, of t] ac_simps)
next
  case (end_task i s t r e h)
  then show ?case using saplings_return [OF end_task(1,2), of b tree] by (simp add: unstarted_def saplings_def ac_simps)
next
  case (later s t rest e fs)
  then show ?case by (auto simp: unstarted_def ac_simps)
qed (auto simp: unstarted_def ac_simps)

lemma started_once:
  assumes tree: "task_trees b tree"
  shows "reachable b groups e s \<Longrightarrow> mset (returned_tasks s) + unstarted b tree s \<subseteq># trees tree (concat groups)"
proof (induction rule: reachable_move_induct)
  case start
  then show ?case by (simp add: start_state_def unstarted_def saplings_def held_start)
next
  case (move s s')
  then show ?case using started_once_move [OF tree move(2)] by (blast intro: subset_mset.order_trans)
qed

end
