(* ===== verification/Scheduler_Proofs.thy ===== *)
theory Scheduler_Proofs
  imports Task_Scheduler
begin

text \<open>
  What the scheduler of \<open>Task_Scheduler\<close> does: it terminates, it stops only at an end, it reports no deadlock
  for a build whose order is sound, it starts each task once and in order, and it completes the build.
\<close>

subsection \<open>Termination\<close>

definition place_rank :: "place \<Rightarrow> nat" where
  "place_rank p =
     (case p of At_loop \<Rightarrow> 5 | At_drain \<Rightarrow> 4 | At_refill \<Rightarrow> 3 | At_next \<Rightarrow> 2 | At_collect \<Rightarrow> 1 | _ \<Rightarrow> 0)"

text \<open>
  What decreases, in this order: the tasks that have not been dealt with, the way of the tasks through the
  queues, the retry before a deadlock is reported, the groups, the tasks to try, the place.
\<close>

definition tasks_left :: "'e build_tasks \<Rightarrow> (task \<Rightarrow> task multiset) \<Rightarrow> 'e parallel \<Rightarrow> nat" where
  "tasks_left b tree s = size (trees tree (outstanding s @ frozen s @ concat (biter s))) + size (saplings b tree (flying s))"

definition sched_measures :: "'e build_tasks \<Rightarrow> (task \<Rightarrow> task multiset) \<Rightarrow> ('e parallel \<Rightarrow> nat) list" where
  "sched_measures b tree =
     [tasks_left b tree,
      \<lambda>s. 3 * length (ready s) + 2 * length (held (consumers s)) + length (out s),
      \<lambda>s. if deadlock s = Some (processed s) then 0 else 1,
      \<lambda>s. length (biter s), \<lambda>s. length (outstanding s), \<lambda>s. place_rank (place s)]"

lemma saplings_append: "saplings b tree (xs @ ys) = saplings b tree xs + saplings b tree ys"
  by (simp add: saplings_def)

lemma saplings_single: "saplings b tree [t] = trees tree (more_tasks b t)" "saplings b tree [] = {#}"
  "saplings b tree (t # ts) = trees tree (more_tasks b t) + saplings b tree ts"
  by (simp_all add: saplings_def)

lemma tree_size: "task_trees b tree \<Longrightarrow> size (tree t) = Suc (size (trees tree (more_tasks b t)))"
  using arg_cong [OF tree_eq, of b tree size t] by simp

lemma tasks_left_refill: "tasks_left b tree (refill_rest s) = tasks_left b tree s"
  by (cases "biter s") (simp_all add: tasks_left_def refill_rest_def)

lemma tasks_left_out: "out s = t # rest \<Longrightarrow> tasks_left b tree (take_out b t rest s) \<le> tasks_left b tree s"
  by (cases "stop s") (simp_all add: tasks_left_def saplings_append saplings_single)

definition none_next :: "'e parallel \<Rightarrow> bool" where
  "none_next s \<longleftrightarrow> (place s = At_next \<and> outstanding s = [] \<longrightarrow> in_count s = 0)"

lemma none_next_move: "move b s s' \<Longrightarrow> none_next s \<Longrightarrow> none_next s'"
  by (induction rule: move.induct) (auto simp: none_next_def refill_rest_def)

lemma none_next_reachable: "reachable b groups e s \<Longrightarrow> none_next s"
proof (induction rule: reachable_move_induct)
  case start
  then show ?case by (simp add: none_next_def start_state_def)
qed (rule none_next_move)

lemma move_decreases:
  assumes tree: "task_trees b tree"
  shows "move b s s' \<Longrightarrow> none_next s \<Longrightarrow> (s', s) \<in> measures (sched_measures b tree)"
proof (induction rule: move.induct)
  case (get s t rest)
  then show ?case using tasks_left_out [of s t rest b tree] by (auto simp: sched_measures_def)
next
  case (get_refill s t rest)
  then show ?case using tasks_left_out [of s t rest b tree] by (auto simp: sched_measures_def tasks_left_refill)
next
  case (marked s t rest)
  then show ?case by (simp add: sched_measures_def tasks_left_def tree_size [OF tree])
next
  case (stopped s t rest)
  then show ?case by (simp add: sched_measures_def tasks_left_def tree_size [OF tree])
next
  case (raising s t rest e ex h err stp)
  then show ?case by (simp add: sched_measures_def tasks_left_def tree_size [OF tree])
next
  case (later s t rest e fs)
  then have "tasks_left b tree (s\<lparr>outstanding := rest, bld_state := e, place := At_loop, frozen := fs\<rparr>) = tasks_left b tree s"
    by (auto simp: tasks_left_def)
  then show ?case using later by (simp add: sched_measures_def)
next
  case (skip s t rest e)
  then show ?case by (simp add: sched_measures_def tasks_left_def tree_size [OF tree])
next
  case (enqueue s t rest e)
  then show ?case by (simp add: sched_measures_def tasks_left_def tree_size [OF tree] saplings_append saplings_single)
next
  case (process s t rest e r e' h)
  then show ?case by (simp add: sched_measures_def tasks_left_def tree_size [OF tree] saplings_append saplings_single)
next
  case (give_back s t rest)
  then show ?case by (simp add: sched_measures_def tasks_left_def saplings_append saplings_single)
next
  case (begin_task i s t rest)
  then show ?case
    by (simp add: sched_measures_def tasks_left_def saplings_append saplings_single saplings_take length_held_take)
next
  case (end_task i s t r e h)
  then show ?case
    using saplings_return [OF end_task(1,2), of b tree] length_held_return [OF end_task(1,2)]
    by (simp add: sched_measures_def tasks_left_def saplings_append saplings_single)
next
  case (none_left s)
  then show ?case by (simp add: sched_measures_def tasks_left_def none_next_def place_rank_def)
next
  case (loop s)
  then show ?case by (simp add: sched_measures_def tasks_left_def place_rank_def)
next
  case (collected s)
  then show ?case by (simp add: sched_measures_def tasks_left_def place_rank_def)
qed (simp_all add: sched_measures_def tasks_left_def place_rank_def)

subsection \<open>Progress\<close>

definition settled :: "'e build_tasks \<Rightarrow> 'e parallel \<Rightarrow> bool" where
  "settled b s \<longleftrightarrow> length (consumers s) = numjobs b \<and> (place s = At_collect \<longrightarrow> stop s \<or> in_count s = 0) \<and>
     place s \<noteq> Assertion_failed"

lemma settled_move: "move b s s' \<Longrightarrow> settled b s \<and> none_next s \<Longrightarrow> settled b s'"
proof (induction rule: move.induct)
  case (get_refill s t rest)
  then show ?case by (auto simp: settled_def refill_rest_def)
next
  case (get s t rest)
  then show ?case unfolding settled_def take_out_sel by fastforce
next
  case (collected s)
  then show ?case by (auto simp: settled_def)
next
  case (end_task i s t r e h)
  then show ?case by (auto simp: settled_def)
qed (simp_all add: settled_def none_next_def)

lemma settled_reachable: "reachable b groups e s \<Longrightarrow> settled b s"
proof (induction rule: reachable_move_induct)
  case start
  then show ?case by (simp add: settled_def start_state_def)
next
  case (move s s')
  then show ?case using settled_move [OF move(2)] none_next_reachable [OF move(1)] by simp
qed

lemma held_idle: "held cs = [] \<Longrightarrow> i < length cs \<Longrightarrow> cs ! i = Idle"
proof (induction cs arbitrary: i)
  case (Cons c cs)
  then show ?case by (cases c; cases i) (auto simp: held_def)
qed simp

lemma held_running: "held cs \<noteq> [] \<Longrightarrow> \<exists>i t. i < length cs \<and> cs ! i = Running t"
proof (induction cs)
  case (Cons c cs)
  show ?case
  proof (cases c)
    case Idle
    with Cons obtain i t where "i < length cs" "cs ! i = Running t" by (auto simp: held_def)
    then show ?thesis by (intro exI [of _ "Suc i"] exI [of _ t]) auto
  next
    case (Running t)
    then show ?thesis by (intro exI [of _ 0] exI [of _ t]) auto
  qed
qed (simp add: held_def)

definition no_step :: "'e build_tasks \<Rightarrow> 'e parallel \<Rightarrow> bool" where
  "no_step b s \<longleftrightarrow> (\<forall>s'. \<not> sched_step b s s')"

lemma no_step_flying:
  assumes "no_step b s" "settled b s" "numjobs b \<noteq> 0"
  shows "ready s = []" "held (consumers s) = []"
proof -
  have none: "consumer_step b i s = None" for i
    using assms(1) sched_step.consumer [of b i s] by (cases "consumer_step b i s") (auto simp: no_step_def)
  show held: "held (consumers s) = []"
  proof (rule ccontr)
    assume "held (consumers s) \<noteq> []"
    then obtain i t where "i < length (consumers s)" "consumers s ! i = Running t" by (blast dest: held_running)
    then show False using none [of i] by simp
  qed
  have some: "0 < length (consumers s)" using assms(2,3) by (simp add: settled_def)
  then have "consumers s ! 0 = Idle" by (rule held_idle [OF held])
  moreover note some
  ultimately show "ready s = []" using none [of 0] by (auto split: list.splits)
qed

lemma no_step_ends:
  assumes "no_step b s" "settled b s" "numjobs b \<noteq> 0" "in_count s = int (length (flying s))"
  shows "place s = Finished \<or> place s = Deadlocked"
proof -
  have none: "main_step b front s = None" for front
    using assms(1) sched_step.main [of b front s] by (cases "main_step b front s") (auto simp: no_step_def)
  have get: "get_out b s \<noteq> None" if "in_count s \<noteq> 0"
    using that assms(4) no_step_flying [OF assms(1-3)] by (cases "out s") (simp_all add: get_out_take del: get_out.simps)
  have "\<not> in_count s > int (numjobs b * GAP)" if "get_out b s = None"
  proof -
    have "in_count s = 0" using get that by blast
    then show ?thesis by (simp del: of_nat_mult)
  qed
  then show ?thesis
    using none [of True] assms(2) get
    by (cases "place s") (auto simp: refill_step_def settled_def simp del: get_out.simps split: if_splits list.splits)
qed

subsection \<open>No deadlock\<close>

text \<open>
  A build whose order is sound: the signature of a task can be told once its dependencies are done, the
  dependencies have no cycle and lie in the groups so far, those of a task that another one asks for are
  that one, its dependencies and what else it asks for. The build iterator gives no empty group.
\<close>

fun groups_ordered :: "'e build_tasks \<Rightarrow> task set \<Rightarrow> task list list \<Rightarrow> bool" where
  "groups_ordered b seen [] \<longleftrightarrow> True"
| "groups_ordered b seen (g # gs) \<longleftrightarrow>
     g \<noteq> [] \<and> (\<forall>t \<in> set g. set (run_after b t) \<subseteq> seen \<union> set g) \<and> groups_ordered b (seen \<union> set g) gs"

definition more_ordered :: "'e build_tasks \<Rightarrow> bool" where
  "more_ordered b \<longleftrightarrow>
     (\<forall>t. \<forall>m \<in> set (more_tasks b t). set (run_after b m) \<subseteq> insert t (set (run_after b t) \<union> set (more_tasks b t)))"

definition checks_decide :: "'e build_tasks \<Rightarrow> bool" where
  "checks_decide b \<longleftrightarrow> (\<forall>t e. fst (check_signature b t e) \<in> {Inr SKIP_ME, Inr RUN_ME})"

definition sound_order :: "'e build_tasks \<Rightarrow> task list list \<Rightarrow> (task \<Rightarrow> nat) \<Rightarrow> bool" where
  "sound_order b groups rank \<longleftrightarrow>
     checks_decide b \<and> groups_ordered b {} groups \<and> more_ordered b \<and> (\<forall>t. \<forall>u \<in> set (run_after b t). rank u < rank t)"

lemma check_not_raising: "checks_decide b \<Longrightarrow> runnable_status b has t e \<noteq> (Inl ex, e')"
  by (auto simp: checks_decide_def runnable_status_def dest!: spec [of _ t] spec [of _ e])

lemma check_later: "checks_decide b \<Longrightarrow> runnable_status b has t e = (Inr ASK_LATER, e') \<Longrightarrow> \<not> deps_done b has t"
  by (auto simp: checks_decide_def runnable_status_def deps_done_def list_ex_iff dest!: spec [of _ t] spec [of _ e] split: if_splits)

text \<open>The retry: while the number of tasks dealt with is the one noted, all frozen tasks wait.\<close>

definition waiting_inv :: "'e build_tasks \<Rightarrow> 'e parallel \<Rightarrow> bool" where
  "waiting_inv b s \<longleftrightarrow>
     (place s \<in> {At_drain, At_refill} \<and> stop s \<longrightarrow> in_count s > 0 \<or> frozen s = [] \<or> outstanding s \<noteq> []) \<and>
     (\<forall>p. deadlock s = Some p \<longrightarrow> p \<le> processed s) \<and>
     (deadlock s = Some (processed s) \<longrightarrow> in_count s = 0 \<and> (\<forall>t \<in> set (frozen s). \<not> deps_done b (marks s) t))"

lemma count_not_zero: "in_count s = int (length (flying s)) \<Longrightarrow> i < length (consumers s) \<Longrightarrow> consumers s ! i = Running t \<Longrightarrow> in_count s > 0"
  using length_held_return [of i "consumers s" t] by simp

lemma waiting_inv_move:
  assumes "checks_decide b" "numjobs b \<noteq> 0"
  shows "move b s s' \<Longrightarrow> in_count s = int (length (flying s)) \<Longrightarrow> waiting_inv b s \<Longrightarrow> waiting_inv b s'"
proof (induction rule: move.induct)
  case (raising s t rest e ex h err stp)
  then show ?case using check_not_raising [OF assms(1)] by metis
next
  case (later s t rest e fs)
  then show ?case using check_later [OF assms(1) later(5)] by (auto simp: waiting_inv_def)
next
  case (end_task i s t r e h)
  then have "in_count s > 0" by (blast intro: count_not_zero)
  then show ?case using end_task by (auto simp: waiting_inv_def)
next
  case (get s t rest)
  have "0 < int (numjobs b * GAP)" using assms(2) by (simp add: GAP_def)
  then have "place s = At_drain \<longrightarrow> in_count s - 1 > 0" "in_count s \<noteq> 0" using get(1) by auto
  then show ?case using get(1,4) unfolding waiting_inv_def take_out_sel by auto
next
  case (get_refill s t rest)
  then have "in_count s > 0" by simp
  then show ?case using get_refill by (auto simp: waiting_inv_def refill_rest_def)
next
  case (process s t rest e r e' h)
  then show ?case by (auto simp: waiting_inv_def dest: spec [of _ "Suc (processed s)"])
next
  case (skip s t rest e)
  then show ?case by (auto simp: waiting_inv_def dest: spec [of _ "Suc (processed s)"])
next
  case (enqueue s t rest e)
  then show ?case by (auto simp: waiting_inv_def dest: spec [of _ "Suc (processed s)"])
next
  case (marked s t rest)
  then show ?case by (auto simp: waiting_inv_def dest: spec [of _ "Suc (processed s)"])
qed (auto simp: waiting_inv_def)

lemma waiting_inv_reachable:
  assumes "checks_decide b" "numjobs b \<noteq> 0"
  shows "reachable b groups e s \<Longrightarrow> waiting_inv b s"
proof (induction rule: reachable_move_induct)
  case start
  then show ?case by (simp add: waiting_inv_def start_state_def)
next
  case (move s s')
  then show ?case using waiting_inv_move [OF assms move(2) count_flying] by blast
qed

text \<open>The tasks that the scheduler knows: those in its lists and those with a mark.\<close>

definition seen :: "'e parallel \<Rightarrow> task set" where
  "seen s = set (outstanding s @ frozen s @ flying s) \<union> {t. marks s t \<noteq> NOT_RUN}"

definition seen_inv :: "'e build_tasks \<Rightarrow> task list list \<Rightarrow> 'e parallel \<Rightarrow> bool" where
  "seen_inv b groups s \<longleftrightarrow>
     (stop s \<or>
       (\<forall>t \<in> set (out s). marks s t \<noteq> NOT_RUN) \<and>
       (\<forall>t \<in> seen s. set (run_after b t) \<subseteq> seen s) \<and>
       (\<forall>t. marks s t \<noteq> NOT_RUN \<and> t \<notin> set (out s) \<longrightarrow> set (more_tasks b t) \<subseteq> seen s) \<and>
       (\<exists>pre. groups = pre @ biter s \<and> groups_ordered b (set (concat pre)) (biter s) \<and> set (concat pre) \<subseteq> seen s))"

lemma seen_inv_same:
  assumes "seen_inv b groups s" "seen s' = seen s" "marks s' = marks s" "set (out s') = set (out s)" "biter s' = biter s" "stop s' = stop s"
  shows "seen_inv b groups s'"
  using assms by (simp add: seen_inv_def)

text \<open>A task gets its mark.\<close>

lemma seen_inv_mark:
  assumes "seen_inv b groups s" "seen s' = insert t (seen s) \<union> set ms" "marks s' = (marks s)(t := h)" "h \<noteq> NOT_RUN"
    and "t \<in> set (out s') \<and> ms = [] \<or> ms = more_tasks b t" "set (out s') - {t} = set (out s) - {t}" "biter s' = biter s"
    and "stop s' \<or> \<not> stop s" "t \<in> seen s" "more_ordered b"
  shows "seen_inv b groups s'"
proof (cases "stop s'")
  case False
  then have go: "\<not> stop s" using assms(8) by blast
  note inv = assms(1) [unfolded seen_inv_def]
  have sub: "seen s \<subseteq> seen s'" using assms(2) by blast
  have deps: "set (run_after b u) \<subseteq> seen s'" if "u \<in> seen s'" for u
  proof (cases "u \<in> seen s")
    case True
    then show ?thesis using inv go sub by blast
  next
    case new: False
    then have "u \<in> set ms" using that assms(2,9) by auto
    then have ms: "ms = more_tasks b t" using assms(5) by auto
    then have "set (run_after b u) \<subseteq> insert t (set (run_after b t) \<union> set ms)"
      using \<open>u \<in> set ms\<close> assms(10) unfolding more_ordered_def by simp
    moreover have "set (run_after b t) \<subseteq> seen s" using inv go assms(9) by simp
    ultimately show ?thesis using assms(2) sub by auto
  qed
  have outs: "marks s' u \<noteq> NOT_RUN" if "u \<in> set (out s')" for u
    using that inv go assms(3,4,6) by (cases "u = t") auto
  have more: "set (more_tasks b u) \<subseteq> seen s'" if "marks s' u \<noteq> NOT_RUN" "u \<notin> set (out s')" for u
  proof (cases "u = t")
    case True
    then show ?thesis using that assms(2,5) by auto
  next
    case other: False
    then have "marks s u \<noteq> NOT_RUN" "u \<notin> set (out s)" using that assms(3,6) by auto
    then show ?thesis using inv go sub by blast
  qed
  obtain pre where "groups = pre @ biter s" "groups_ordered b (set (concat pre)) (biter s)" "set (concat pre) \<subseteq> seen s"
    using inv go by blast
  then have "\<exists>pre. groups = pre @ biter s' \<and> groups_ordered b (set (concat pre)) (biter s') \<and> set (concat pre) \<subseteq> seen s'"
    using sub assms(7) by (intro exI [of _ pre]) auto
  with deps outs more show ?thesis unfolding seen_inv_def by blast
qed (simp add: seen_inv_def)

text \<open>The next group comes.\<close>

lemma seen_inv_group:
  assumes "seen_inv b groups s" "biter s = g # gs" "seen s' = seen s \<union> set g" "marks s' = marks s" "out s' = out s"
    "biter s' = gs" "stop s' = stop s"
  shows "seen_inv b groups s'"
proof (cases "stop s")
  case False
  note inv = assms(1) [unfolded seen_inv_def]
  obtain pre where pre: "groups = pre @ biter s" "groups_ordered b (set (concat pre)) (biter s)" "set (concat pre) \<subseteq> seen s"
    using inv False by blast
  have deps: "set (run_after b u) \<subseteq> seen s'" if "u \<in> seen s'" for u
  proof (cases "u \<in> seen s")
    case True
    then show ?thesis using inv False assms(3) by blast
  next
    case new: False
    then have "u \<in> set g" using that assms(3) by auto
    then have "set (run_after b u) \<subseteq> set (concat pre) \<union> set g" using pre(2) assms(2) by auto
    then show ?thesis using pre(3) assms(3) by blast
  qed
  have "groups = (pre @ [g]) @ biter s'" "groups_ordered b (set (concat (pre @ [g]))) (biter s')"
    "set (concat (pre @ [g])) \<subseteq> seen s'"
    using pre assms(2,3,6) by auto
  moreover have "set (more_tasks b u) \<subseteq> seen s'" if "marks s' u \<noteq> NOT_RUN" "u \<notin> set (out s')" for u
    using that inv False assms(3-5) by auto
  moreover have "\<forall>u \<in> set (out s'). marks s' u \<noteq> NOT_RUN" using inv False assms(4,5) by auto
  ultimately show ?thesis using deps unfolding seen_inv_def by blast
qed (simp add: seen_inv_def assms)

lemma seen_inv_refill_rest: "seen_inv b groups s \<Longrightarrow> seen_inv b groups (refill_rest s)"
proof (cases "frozen s = [] \<and> in_count s = 0 \<and> biter s \<noteq> []")
  case True
  assume "seen_inv b groups s"
  moreover from True obtain g gs where "biter s = g # gs" by (cases "biter s") auto
  moreover from this True have "seen (refill_rest s) = seen s \<union> set g" "biter (refill_rest s) = gs"
    by (auto simp: seen_def refill_rest_def)
  ultimately show ?thesis by - (rule seen_inv_group [of b groups s g gs], auto)
next
  case False
  assume "seen_inv b groups s"
  moreover have "seen (refill_rest s) = seen s" "biter (refill_rest s) = biter s"
    using False by (auto simp: seen_def refill_rest_def)
  ultimately show ?thesis by - (rule seen_inv_same [of b groups s], auto)
qed

lemma seen_inv_take_out:
  assumes "seen_inv b groups s" "out s = t # rest" "more_ordered b"
  shows "seen_inv b groups (take_out b t rest s)"
proof (cases "stop s")
  case False
  then have mark: "marks s t \<noteq> NOT_RUN" using assms(1,2) by (simp add: seen_inv_def)
  have "set (flying s) = insert t (set (ready s @ held (consumers s) @ rest))" using assms(2) by auto
  then have eq: "seen (take_out b t rest s) = insert t (seen s) \<union> set (more_tasks b t)" "t \<in> seen s"
    using False mark by (auto simp: seen_def)
  show ?thesis
    by (rule seen_inv_mark [OF assms(1) eq(1) _ mark disjI2 [OF refl] _ _ _ eq(2) assms(3)])
      (use assms(2) False in \<open>simp_all add: insert_Diff_if\<close>)
qed (simp add: seen_inv_def)

lemma seen_inv_place: "seen_inv b groups (s\<lparr>place := p\<rparr>) = seen_inv b groups s"
  by (simp add: seen_inv_def seen_def)

lemma seen_inv_move:
  assumes "checks_decide b" "more_ordered b" "marks_failures b"
  shows "move b s s' \<Longrightarrow> seen_inv b groups s \<Longrightarrow> seen_inv b groups s'"
proof (induction rule: move.induct)
  case (get s t rest)
  show ?case by (rule seen_inv_take_out [OF get(3) get(2) assms(2)])
next
  case (get_refill s t rest)
  show ?case by (rule seen_inv_refill_rest [OF seen_inv_take_out [OF get_refill(5) get_refill(4) assms(2)]])
next
  case (group s g gs)
  then show ?case by - (rule seen_inv_group [of b groups s g gs], auto simp: seen_def)
next
  case (raising s t rest e ex h err stp)
  then show ?case using check_not_raising [OF assms(1)] by metis
next
  case (skip s t rest e)
  then show ?case
    using assms(2) by - (rule seen_inv_mark [of b groups s _ t "more_tasks b t" SKIPPED], auto simp: seen_def)
next
  case (process s t rest e r e' h)
  have "h \<noteq> NOT_RUN" using outcome_marked [OF assms(3) process(7)] process(8) by simp
  then show ?case
    using assms(2) process by - (rule seen_inv_mark [of b groups s _ t "[]" h], auto simp: seen_def)
next
  case (end_task i s t r e h)
  have "h \<noteq> NOT_RUN" using outcome_marked [OF assms(3) end_task(3)] end_task(4) by simp
  then show ?case
    using assms(2) end_task set_held_return [OF end_task(1,2)]
    by - (rule seen_inv_mark [of b groups s _ t "[]" h], auto simp: seen_def)
next
  case (give_back s t rest)
  then show ?case by (simp add: seen_inv_def)
next
  case (stopped s t rest)
  then show ?case by (simp add: seen_inv_def)
next
  case (begin_task i s t rest)
  then show ?case
    by - (rule seen_inv_same [of b groups s], auto simp: seen_def set_held_take)
next
  case (later s t rest e fs)
  then show ?case by - (rule seen_inv_same [of b groups s], auto simp: seen_def)
next
  case (enqueue s t rest e)
  then show ?case by - (rule seen_inv_same [of b groups s], auto simp: seen_def)
next
  case (marked s t rest)
  then show ?case by - (rule seen_inv_same [of b groups s], auto simp: seen_def)
next
  case (retry s)
  then show ?case by - (rule seen_inv_same [of b groups s], auto simp: seen_def)
qed (simp_all add: seen_inv_place)

lemma seen_inv_reachable:
  assumes "sound_order b groups rank" "marks_failures b"
  shows "reachable b groups e s \<Longrightarrow> seen_inv b groups s"
proof (induction rule: reachable_move_induct)
  case start
  then show ?case using assms(1) by (simp add: sound_order_def seen_inv_def start_state_def seen_def held_start)
next
  case (move s s')
  then show ?case using seen_inv_move [OF _ _ assms(2) move(2)] assms(1) by (simp add: sound_order_def)
qed

text \<open>The rest: where the main thread is past the loop, nothing is left; a stop is due to an error.\<close>

definition ending_inv :: "'e build_tasks \<Rightarrow> 'e parallel \<Rightarrow> bool" where
  "ending_inv b s \<longleftrightarrow>
     [] \<notin> set (biter s) \<and> place s \<noteq> Deadlocked \<and>
     (place s = At_next \<and> outstanding s = [] \<longrightarrow> frozen s = [] \<and> biter s = []) \<and>
     (place s \<in> {At_collect, Finished} \<and> \<not> stop s \<longrightarrow>
        in_count s = 0 \<and> outstanding s = [] \<and> frozen s = [] \<and> biter s = []) \<and>
     (stop s \<longrightarrow> error s \<noteq> [] \<and> keep b = 0) \<and>
     (\<forall>t. marks s t \<notin> {NOT_RUN, SKIPPED, SUCCESS} \<longrightarrow> t \<in> set (error s))"

lemma not_deadlocked:
  assumes "sound_order b groups rank" "seen_inv b groups s" "waiting_inv b s" "in_count s = int (length (flying s))"
    and "place s = At_refill" "outstanding s = []" "in_count s = 0" "frozen s \<noteq> []" "deadlock s = Some (processed s)"
  shows False
proof -
  have flying: "flying s = []" using assms(4) unfolding assms(7) by (simp del: length_append)
  have go: "\<not> stop s" using assms(3,5-8) by (auto simp: waiting_inv_def)
  define t where "t = arg_min_list rank (frozen s)"
  have t: "t \<in> set (frozen s)" unfolding t_def using assms(8) by (rule arg_min_list_in)
  have least: "rank t \<le> rank u" if "u \<in> set (frozen s)" for u
    using that assms(8) by (simp add: t_def f_arg_min_list_f)
  have "\<not> deps_done b (marks s) t" using assms(3,9) t by (auto simp: waiting_inv_def)
  then obtain u where u: "u \<in> set (run_after b t)" "marks s u = NOT_RUN" by (auto simp: deps_done_def)
  have "t \<in> seen s" using t by (simp add: seen_def)
  then have "u \<in> seen s" using assms(2) go u(1) by (auto simp: seen_inv_def)
  then have "u \<in> set (frozen s)" using u(2) assms(6) flying by (auto simp: seen_def)
  then have "rank t \<le> rank u" by (rule least)
  then show False using assms(1) u(1) by (force simp: sound_order_def)
qed

lemma ending_inv_move:
  assumes "sound_order b groups rank" "marks_failures b"
  shows "move b s s' \<Longrightarrow> seen_inv b groups s \<Longrightarrow> waiting_inv b s \<Longrightarrow> in_count s = int (length (flying s)) \<Longrightarrow> none_next s \<Longrightarrow>
    ending_inv b s \<Longrightarrow> ending_inv b s'"
proof (induction rule: move.induct)
  case (dead s)
  then show ?case using not_deadlocked [OF assms(1)] by blast
next
  case (raising s t rest e ex h err stp)
  then show ?case using check_not_raising assms(1) unfolding sound_order_def by metis
next
  case (end_task i s t r e h)
  then have "in_count s > 0" by (blast intro: count_not_zero)
  then show ?case using end_task outcome_marked [OF assms(2) end_task(3)] by (auto simp: ending_inv_def split: if_splits)
next
  case (get_refill s t rest)
  then show ?case by (cases "biter s") (auto simp: ending_inv_def refill_rest_def)
next
  case (none_left s)
  then show ?case by (auto simp: ending_inv_def none_next_def)
next
  case (process s t rest e r e' h)
  then show ?case using outcome_marked [OF assms(2) process(7)] by (auto simp: ending_inv_def split: if_splits)
next
  case (get s t rest)
  then show ?case unfolding ending_inv_def take_out_sel by auto
qed (auto simp: ending_inv_def)

lemma ending_inv_reachable:
  assumes "sound_order b groups rank" "marks_failures b" "numjobs b \<noteq> 0"
  shows "reachable b groups e s \<Longrightarrow> ending_inv b s"
proof (induction rule: reachable_move_induct)
  case start
  have "[] \<notin> set groups" if "groups_ordered b seen groups" for seen
    using that by (induction groups arbitrary: seen) auto
  then show ?case using assms(1) by (auto simp: ending_inv_def start_state_def sound_order_def)
next
  case (move s s')
  have "checks_decide b" using assms(1) by (simp add: sound_order_def)
  then show ?case
    using ending_inv_move [OF assms(1,2) move(2)] seen_inv_reachable [OF assms(1,2) move(1)] waiting_inv_reachable [OF _ assms(3) move(1)]
      count_flying [OF move(1)] none_next_reachable [OF move(1)] move(3) by blast
qed

subsection \<open>Tasks that run are not done\<close>

definition live :: "'e build_tasks \<Rightarrow> (task \<Rightarrow> task multiset) \<Rightarrow> 'e parallel \<Rightarrow> task multiset" where
  "live b tree s = mset (held (consumers s)) + unstarted b tree s"

lemma live_mark:
  assumes "add_mset t m \<subseteq># live b tree s" "\<forall>x. count (live b tree s) x \<le> 1" "\<forall>x \<in># live b tree s. has x = NOT_RUN"
  shows "\<forall>x \<in># m. (has(t := h)) x = NOT_RUN"
proof
  fix x assume "x \<in># m"
  then have "x \<in># live b tree s" using assms(1) by (metis insert_iff mset_subset_eqD set_mset_add_mset_insert)
  moreover have "x \<noteq> t"
  proof
    assume "x = t"
    then have "2 \<le> count (add_mset t m) t" using \<open>x \<in># m\<close> by (simp add: Suc_le_eq)
    also have "\<dots> \<le> count (live b tree s) t" using assms(1) by (rule mset_subset_eq_count)
    finally show False using assms(2) [rule_format, of t] by simp
  qed
  ultimately show "(has(t := h)) x = NOT_RUN" using assms(3) by simp
qed

definition live_inv :: "'e build_tasks \<Rightarrow> (task \<Rightarrow> task multiset) \<Rightarrow> task list list \<Rightarrow> 'e parallel \<Rightarrow> bool" where
  "live_inv b tree groups s \<longleftrightarrow>
     live b tree s \<subseteq># trees tree (concat groups) \<and> (\<forall>x \<in># live b tree s. marks s x = NOT_RUN)"

lemma live_inv_less:
  assumes "live_inv b tree groups s" "live b tree s' \<subseteq># live b tree s" "marks s' = marks s"
  shows "live_inv b tree groups s'"
  using assms unfolding live_inv_def by (metis mset_subset_eqD subset_mset.order_trans)

lemma live_inv_place: "live_inv b tree groups (s\<lparr>place := p\<rparr>) = live_inv b tree groups s"
  by (simp add: live_inv_def live_def unstarted_def)

lemma live_inv_mark:
  assumes "live_inv b tree groups s" "\<forall>x. count (trees tree (concat groups)) x \<le> 1"
    and "add_mset t (live b tree s') \<subseteq># live b tree s" "marks s' = (marks s)(t := h)"
  shows "live_inv b tree groups s'"
proof -
  have "\<forall>x. count (live b tree s) x \<le> 1"
    using assms(1,2) mset_subset_eq_count order_trans unfolding live_inv_def by meson
  then have "\<forall>x \<in># live b tree s'. marks s' x = NOT_RUN"
    using live_mark [OF assms(3)] assms(1) unfolding assms(4) live_inv_def by blast
  moreover have "live b tree s' \<subseteq># trees tree (concat groups)"
    using assms(1,3) unfolding live_inv_def by (meson mset_subset_eq_add_right subset_mset.order_trans mset_subset_eq_insertD subset_mset.less_imp_le)
  ultimately show ?thesis by (simp add: live_inv_def)
qed

lemma live_inv_move:
  assumes tree: "task_trees b tree" and once: "\<forall>x. count (trees tree (concat groups)) x \<le> 1"
  shows "move b s s' \<Longrightarrow> live_inv b tree groups s \<Longrightarrow> live_inv b tree groups s'"
proof (induction rule: move.induct)
  case (raising s t rest e ex h err stp)
  show ?case
    by (rule live_inv_mark [OF raising(7) once, of t _ h])
      (simp_all add: live_def unstarted_def raising(2) tree_eq [OF tree, of t])
next
  case (skip s t rest e)
  show ?case
    by (rule live_inv_mark [OF skip(6) once, of t _ SKIPPED])
      (simp_all add: live_def unstarted_def skip(2) tree_eq [OF tree, of t] ac_simps)
next
  case (process s t rest e r e' h)
  show ?case
    by (rule live_inv_mark [OF process(9) once, of t _ h])
      (simp_all add: live_def unstarted_def saplings_append saplings_single process(2) tree_eq [OF tree, of t] ac_simps)
next
  case (end_task i s t r e h)
  show ?case
    by (rule live_inv_mark [OF end_task(5) once, of t _ h])
      (simp_all add: live_def unstarted_def saplings_append saplings_single held_return [OF end_task(1,2)]
         saplings_return [OF end_task(1,2), of b tree] ac_simps)
next
  case (begin_task i s t rest)
  show ?case
    by (rule live_inv_less [OF begin_task(5)])
      (simp_all add: live_def unstarted_def begin_task(3) held_take [OF begin_task(1,2)] saplings_take [OF begin_task(1,2)]
         tree_eq [OF tree, of t] ac_simps)
next
  case (get s t rest)
  show ?case
    by (rule live_inv_less [OF get(3)], cases "stop s")
      (simp_all add: live_def unstarted_def get(2) saplings_append saplings_single ac_simps)
next
  case (get_refill s t rest)
  have "unstarted b tree (refill_rest s2) = unstarted b tree s2" for s2 :: "'a parallel"
    by (cases "biter s2") (simp_all add: unstarted_def refill_rest_def ac_simps)
  then show ?case
    by (intro live_inv_less [OF get_refill(5)], cases "stop s")
      (simp_all add: live_def, simp_all add: unstarted_def get_refill(4) saplings_append saplings_single ac_simps)
next
  case (give_back s t rest)
  show ?case
    by (rule live_inv_less [OF give_back(3)])
      (simp_all add: live_def unstarted_def give_back(1) saplings_append saplings_single tree_eq [OF tree, of t] ac_simps)
next
  case (later s t rest e fs)
  then have "mset fs = add_mset t (mset (frozen s))" by auto
  then show ?case by - (rule live_inv_less [OF later(7)], simp_all add: live_def unstarted_def later(2) ac_simps)
next
  case (marked s t rest)
  show ?case by (rule live_inv_less [OF marked(4)]) (simp_all add: live_def unstarted_def marked(2))
next
  case (stopped s t rest)
  show ?case by (rule live_inv_less [OF stopped(5)]) (simp_all add: live_def unstarted_def stopped(2))
next
  case (enqueue s t rest e)
  show ?case by (rule live_inv_less [OF enqueue(7)]) (simp_all add: live_def unstarted_def enqueue(2) ac_simps)
next
  case (retry s)
  show ?case by (rule live_inv_less [OF retry(6)]) (simp_all add: live_def unstarted_def retry(2))
next
  case (group s g gs)
  show ?case by (rule live_inv_less [OF group(6)]) (simp_all add: live_def unstarted_def group(2,5))
qed (simp_all add: live_inv_place)


lemma live_inv_reachable:
  assumes "task_trees b tree" "\<forall>x. count (trees tree (concat groups)) x \<le> 1"
  shows "reachable b groups e s \<Longrightarrow> live_inv b tree groups s"
proof (induction rule: reachable_move_induct)
  case start
  then show ?case by (simp add: live_inv_def live_def unstarted_def saplings_def start_state_def held_start)
next
  case (move s s')
  then show ?case using live_inv_move [OF assms] by blast
qed

lemma running_held: "Running t \<in> set cs \<Longrightarrow> t \<in> set (held cs)"
  by (force simp: held_def)

lemma distinct_count: "\<forall>x. count (mset xs) x \<le> 1 \<Longrightarrow> distinct xs"
proof (induction xs)
  case (Cons y xs)
  have "count (mset xs) x \<le> count (mset (y # xs)) x" for x by simp
  then have "count (mset xs) x \<le> 1" for x using Cons.prems by (meson order_trans)
  moreover have "y \<notin> set xs" using Cons.prems [rule_format, of y] by simp
  ultimately show ?case using Cons.IH by simp
qed simp

lemma distinct_once: "mset xs \<subseteq># m \<Longrightarrow> \<forall>x. count m x \<le> 1 \<Longrightarrow> distinct xs"
  by (rule distinct_count) (meson mset_subset_eq_count order_trans)

section \<open>What the scheduler does\<close>

text \<open>
  C4: order. However the threads take turns, no task is started twice, and a task is started only when all
  the tasks it runs after are done: they carry a mark and no thread is running them.
\<close>

theorem tasks_in_order:
  assumes "task_trees b tree" and "\<forall>x. count (trees tree (concat groups)) x \<le> 1" and "marks_failures b"
    and "reachable b groups e s"
  shows "distinct (returned_tasks s) \<and>
    (\<forall>t u. t \<in> set (returned_tasks s) \<and> u \<in> set (run_after b t) \<longrightarrow> marks s u \<noteq> NOT_RUN \<and> Running u \<notin> set (consumers s))"
proof -
  have "mset (returned_tasks s) \<subseteq># trees tree (concat groups)"
    using mset_subset_eq_add_left started_once [OF assms(1,4)] by (rule subset_mset.order_trans)
  then have "distinct (returned_tasks s)" using assms(2) by (rule distinct_once)
  moreover have "Running u \<notin> set (consumers s)" if "marks s u \<noteq> NOT_RUN" for u
    using that live_inv_reachable [OF assms(1,2,4)] running_held [of u "consumers s"] by (auto simp: live_inv_def live_def)
  moreover have "marks s u \<noteq> NOT_RUN" if "t \<in> set (returned_tasks s)" "u \<in> set (run_after b t)" for t u
    using that started_ok_reachable [OF assms(3,4)] by (auto simp: started_ok_def deps_done_def)
  ultimately show ?thesis by blast
qed

text \<open>C6: the scheduler terminates. No run of the main thread and the consumers is infinite, whatever the order of their steps.\<close>

theorem scheduler_terminates:
  assumes "task_trees b tree"
  shows "wf {(s', s). reachable b groups e s \<and> sched_step b s s'}"
proof (rule wf_subset [OF wf_measures])
  show "{(s', s). reachable b groups e s \<and> sched_step b s s'} \<subseteq> measures (sched_measures b tree)"
  proof clarify
    fix s s' assume "reachable b groups e s" "sched_step b s s'"
    then show "(s', s) \<in> measures (sched_measures b tree)"
      using move_decreases [OF assms sched_step_move none_next_reachable] by blast
  qed
qed

inductive generated :: "'e build_tasks \<Rightarrow> task list list \<Rightarrow> task \<Rightarrow> bool" for b groups where
  in_group: "t \<in> set (concat groups) \<Longrightarrow> generated b groups t"
| asked_for: "generated b groups t \<Longrightarrow> m \<in> set (more_tasks b t) \<Longrightarrow> generated b groups m"

lemma generated_marked:
  assumes "seen_inv b groups s" "ending_inv b s" "in_count s = int (length (flying s))" "place s = Finished" "\<not> stop s"
    and "generated b groups t"
  shows "marks s t \<noteq> NOT_RUN"
proof -
  have left: "in_count s = 0" "outstanding s = []" "frozen s = []" "biter s = []"
    using assms(2,4,5) by (simp_all add: ending_inv_def)
  have "flying s = []" using assms(3) unfolding left(1) by (simp del: length_append)
  then have seen: "seen s = {t. marks s t \<noteq> NOT_RUN}" "out s = []" by (simp_all add: seen_def left)
  have groups: "set (concat groups) \<subseteq> {t. marks s t \<noteq> NOT_RUN}"
    using assms(1,5) left(4) by (auto simp: seen_inv_def seen)
  have more: "marks s t \<noteq> NOT_RUN \<Longrightarrow> set (more_tasks b t) \<subseteq> {t. marks s t \<noteq> NOT_RUN}" for t
    using assms(1,5) unfolding seen_inv_def seen by auto
  show ?thesis using assms(6) groups more by (induction rule: generated.induct) blast+
qed

lemma reaches_end:
  assumes "task_trees b tree" "reachable b groups e s"
  shows "\<exists>s'. (sched_step b)\<^sup>*\<^sup>* s s' \<and> reachable b groups e s' \<and> no_step b s'"
  using assms(2)
proof (induction s rule: wf_induct_rule [OF wf_measures [of "sched_measures b tree"]])
  case (1 s)
  show ?case
  proof (cases "no_step b s")
    case False
    then obtain s1 where s1: "sched_step b s s1" by (auto simp: no_step_def)
    then have "(s1, s) \<in> measures (sched_measures b tree)" "reachable b groups e s1"
      using move_decreases [OF assms(1)] none_next_reachable [OF 1(2)] sched_step_move [OF s1] reach_step [OF 1(2)] by blast+
    then obtain s' where "(sched_step b)\<^sup>*\<^sup>* s1 s'" "reachable b groups e s'" "no_step b s'" using 1(1) by blast
    then show ?thesis using s1 by (meson converse_rtranclp_into_rtranclp)
  qed (use 1(2) in blast)
qed

text \<open>
  C5: the build completes. With a sound order, from every state that can be reached the threads come to an
  end, and it is always the regular one: without an error every task there is has succeeded or was up to date,
  and with \<open>-k\<close> every task has been dealt with in any case. No deadlock is reported.
\<close>

theorem build_completes:
  assumes "sound_order b groups rank" and "marks_failures b" and "task_trees b tree" and "numjobs b \<noteq> 0"
    and "reachable b groups e s"
  shows "(\<exists>s'. (sched_step b)\<^sup>*\<^sup>* s s' \<and> no_step b s') \<and>
    (no_step b s \<longrightarrow> place s = Finished \<and>
      (\<forall>t. generated b groups t \<longrightarrow>
        (error s = [] \<longrightarrow> marks s t \<in> {SKIPPED, SUCCESS}) \<and> (keep b \<noteq> 0 \<longrightarrow> marks s t \<noteq> NOT_RUN)))"
proof -
  note inv = seen_inv_reachable [OF assms(1,2,5)] ending_inv_reachable [OF assms(1,2,4,5)] count_flying [OF assms(5)]
  have finished: "place s = Finished" if "no_step b s"
    using no_step_ends [OF that settled_reachable [OF assms(5)] assms(4) inv(3)] inv(2) by (auto simp: ending_inv_def)
  have marked: "marks s t \<noteq> NOT_RUN" if "no_step b s" "generated b groups t" "\<not> stop s" for t
    by (rule generated_marked [OF inv finished [OF that(1)] that(3,2)])
  have "\<not> stop s" if "error s = [] \<or> keep b \<noteq> 0" using inv(2) that by (auto simp: ending_inv_def)
  moreover have "marks s t \<in> {NOT_RUN, SKIPPED, SUCCESS}" if "error s = []" for t using inv(2) that by (auto simp: ending_inv_def)
  ultimately show ?thesis using finished marked reaches_end [OF assms(3,5)] by blast
qed


section \<open>An example\<close>

text \<open>Task 0 runs after 2, which runs after 1 and asks for 3 when it has run; 1 is up to date.\<close>

definition example_tasks :: "nat build_tasks" where
  "example_tasks =
     \<lparr>run_after = (\<lambda>t. if t = 0 then [2] else if t = 2 then [1] else if t = 3 then [2] else []),
      more_tasks = (\<lambda>t. if t = 2 then [3] else []),
      check_signature = (\<lambda>t e. (Inr (if t = 1 then SKIP_ME else RUN_ME), e)),
      run_task = (\<lambda>_ e. (Run_succeeds, e + 1)), keep = 0, numjobs = 2\<rparr>"

definition example_tree :: "task \<Rightarrow> task multiset" where
  "example_tree t = (if t = 2 then {#2, 3#} else {#t#})"

definition example_rank :: "task \<Rightarrow> nat" where
  "example_rank t = (if t = 1 then 0 else if t = 2 then 1 else 2)"

fun main_steps :: "'e build_tasks \<Rightarrow> nat \<Rightarrow> 'e parallel \<Rightarrow> 'e parallel option" where
  "main_steps b 0 s = Some s"
| "main_steps b (Suc n) s = Option.bind (main_step b False s) (main_steps b n)"

lemma reachable_main_steps: "reachable b groups e s \<Longrightarrow> main_steps b n s = Some s' \<Longrightarrow> reachable b groups e s'"
proof (induction n arbitrary: s)
  case (Suc n)
  obtain s1 where "main_step b False s = Some s1" "main_steps b n s1 = Some s'"
    using Suc.prems(2) unfolding main_steps.simps bind_eq_Some_conv by blast
  moreover from this(1) have "sched_step b s s1" by (rule sched_step.main)
  with Suc.prems(1) have "reachable b groups e s1" by (rule reach_step)
  ultimately show ?case using Suc.IH by blast
qed simp

definition example_state :: "nat parallel" where
  "example_state = the (main_steps example_tasks 12 (start_state example_tasks [[0, 1, 2]] 0))"

definition example_next :: "nat parallel" where
  "example_next = the (consumer_step example_tasks 0 example_state)"

lemma some_the: "\<not> Option.is_none x \<Longrightarrow> x = Some (the x)"
  by (cases x) simp_all

lemma example_runs:
  "main_steps example_tasks 12 (start_state example_tasks [[0, 1, 2]] 0) = Some example_state"
  "consumer_step example_tasks 0 example_state = Some example_next"
proof -
  show "main_steps example_tasks 12 (start_state example_tasks [[0, 1, 2]] 0) = Some example_state"
    unfolding example_state_def by (rule some_the) code_simp
  show "consumer_step example_tasks 0 example_state = Some example_next"
    unfolding example_next_def by (rule some_the) code_simp
qed

lemma example_started: "returned_tasks example_next = [2]"
  by code_simp

lemma example_trees: "task_trees example_tasks example_tree" "marks_failures example_tasks"
  "sound_order example_tasks [[0, 1, 2]] example_rank" "\<forall>x. count (trees example_tree (concat [[0, 1, 2]])) x \<le> 1"
proof -
  show "task_trees example_tasks example_tree" by (simp add: task_trees_def example_tasks_def example_tree_def)
  show "marks_failures example_tasks" by (simp add: marks_failures_def example_tasks_def)
  show "sound_order example_tasks [[0, 1, 2]] example_rank"
    by (simp add: sound_order_def checks_decide_def more_ordered_def example_tasks_def example_rank_def)
  show "\<forall>x. count (trees example_tree (concat [[0, 1, 2]])) x \<le> 1" by (simp add: example_tree_def)
qed

lemma example_reachable: "reachable example_tasks [[0, 1, 2]] 0 example_next"
  using reachable_main_steps [OF reach_start example_runs(1)] sched_step.consumer [OF example_runs(2)] by (rule reach_step)

lemma tasks_in_order_witness: "distinct (returned_tasks example_next) \<and> marks example_next 1 \<noteq> NOT_RUN"
  using tasks_in_order [OF example_trees(1,4,2) example_reachable] example_started by (auto simp: example_tasks_def)

lemma scheduler_terminates_witness:
  "wf {(s', s). reachable example_tasks [[0, 1, 2]] 0 s \<and> sched_step example_tasks s s'}"
  by (rule scheduler_terminates [OF example_trees(1)])

lemma build_completes_witness: "\<exists>s'. (sched_step example_tasks)\<^sup>*\<^sup>* example_next s' \<and> no_step example_tasks s'"
  using build_completes [OF example_trees(3,2,1) _ example_reachable] by (simp add: example_tasks_def)

end
