(* ===== verification/Command_Task.thy ===== *)
theory Command_Task
  imports Shell_Cmd
begin

text \<open>
  Tasks that run a shell command, \<open>waf-tools/command.py\<close>: the substitution of \<open>${...}\<close> in the words of the
  parsed command, and the run of the pipeline that results. Python's \<open>eval\<close> and the nodes of waf are
  parameters.
\<close>

section \<open>Values\<close>

record waf_node =
  srcpath :: string
  bld_abspath :: string
  nice_path :: string

text \<open>What \<open>eval\<close> may give: a node, the lists of the inputs and outputs themselves, another list, a string, \<open>None\<close>.\<close>

datatype py_value = Node_value waf_node | Input_list | Output_list | List_value "py_value list" | Text_value string
  | None_value | Other_value

type_synonym namespace = "(string, py_value) dict"

record command_task =
  inputs :: "waf_node list"
  outputs :: "waf_node list"
  command_text :: string
  variables :: "namespace option"
  merged_env :: namespace

section \<open>Substitution\<close>

text \<open>
  The pattern \<open>arg_rx\<close> after \<open>${\<close>: a name, any characters up to the first closing brace of the line, and what
  is left.
\<close>

definition subst_match :: "string \<Rightarrow> (string \<times> string \<times> string) option" where
  "subst_match s =
     (let var = takeWhile is_alnum_us s;
          after = dropWhile is_alnum_us s;
          code = takeWhile (\<lambda>c. c \<noteq> CHR ''}'' \<and> c \<noteq> CHR 0x0A) after
      in case dropWhile (\<lambda>c. c \<noteq> CHR ''}'' \<and> c \<noteq> CHR 0x0A) after of
           c # rest \<Rightarrow> if c = CHR ''}'' \<and> var \<noteq> [] then Some (var, code, rest) else None
         | [] \<Rightarrow> None)"

lemma subst_match_shorter:
  assumes "subst_match s = Some (var, code, rest)"
  shows "length rest < length s"
proof -
  let ?after = "dropWhile is_alnum_us s"
  have "length (dropWhile (\<lambda>c. c \<noteq> CHR ''}'' \<and> c \<noteq> CHR 0x0A) ?after) \<le> length s"
    using length_dropWhile_le order_trans by blast
  then show ?thesis using assms by (auto simp: subst_match_def Let_def split: list.splits if_splits)
qed

text \<open>\<open>arg_rx.sub(repl, arg)\<close>.\<close>

function subst_text :: "(string \<Rightarrow> string \<Rightarrow> string result) \<Rightarrow> string \<Rightarrow> string result" where
  "subst_text repl s =
     (case s of
        [] \<Rightarrow> Inr []
      | c # cs \<Rightarrow>
          if c = CHR ''$'' \<and> cs \<noteq> [] \<and> hd cs = CHR ''$''
          then res_bind (subst_text repl (tl cs)) (\<lambda>u. Inr (CHR ''$'' # u))
          else
            case (if c = CHR ''$'' \<and> cs \<noteq> [] \<and> hd cs = CHR ''{'' then subst_match (tl cs) else None) of
              Some (var, code, rest) \<Rightarrow>
                res_bind (repl var code) (\<lambda>t. res_bind (subst_text repl rest) (\<lambda>u. Inr (t @ u)))
            | None \<Rightarrow> res_bind (subst_text repl cs) (\<lambda>u. Inr (c # u)))"
  by pat_completeness auto

termination
  by (relation "measure (\<lambda>(_, s). length s)") (auto dest!: subst_match_shorter split: if_splits)

declare subst_text.simps [simp del]

text \<open>
  What a result of \<open>repl\<close> adds: a string itself, \<open>None\<close> nothing; any other object makes \<open>sub\<close> raise.
  When the match is the whole word, Python 2 gives back the other object as it is, and the run fails with
  it later, where the model fails at once: the development is about variables that hold strings.
\<close>

definition as_text :: "py_value \<Rightarrow> string result" where
  "as_text v = (case v of Text_value s \<Rightarrow> Inr s | None_value \<Rightarrow> Inr [] | _ \<Rightarrow> Inl TypeError)"

definition repl :: "(string \<Rightarrow> namespace \<Rightarrow> py_value result) \<Rightarrow> command_task \<Rightarrow> namespace \<Rightarrow> string \<Rightarrow> string \<Rightarrow> string result" where
  "repl evaluate task ns var code =
     res_bind (evaluate (var @ code) ns) (\<lambda>result.
       case result of
         Node_value n \<Rightarrow>
           if var = ''TGT'' then Inr (bld_abspath n)
           else if var = ''SRC'' then Inr (srcpath n)
           else Inl ValueError
       | Input_list \<Rightarrow> (case inputs task of [n] \<Rightarrow> Inr (srcpath n) | _ \<Rightarrow> Inl ValueError)
       | Output_list \<Rightarrow> (case outputs task of [n] \<Rightarrow> Inr (bld_abspath n) | _ \<Rightarrow> Inl ValueError)
       | List_value vs \<Rightarrow> (case vs of [v] \<Rightarrow> as_text v | _ \<Rightarrow> Inl AssertionError)
       | v \<Rightarrow> as_text v)"

definition subst_arg :: "(string \<Rightarrow> namespace \<Rightarrow> py_value result) \<Rightarrow> command_task \<Rightarrow> namespace \<Rightarrow> string \<Rightarrow> string result" where
  "subst_arg evaluate task ns arg = subst_text (repl evaluate task ns) arg"

section \<open>The command\<close>

fun map_words :: "(string \<Rightarrow> string result) \<Rightarrow> string list \<Rightarrow> string list result" where
  "map_words f [] = Inr []"
| "map_words f (w # ws) = res_bind (f w) (\<lambda>v. res_bind (map_words f ws) (\<lambda>vs. Inr (v # vs)))"

fun map_env :: "(string \<Rightarrow> string result) \<Rightarrow> (string, string) dict \<Rightarrow> (string, string) dict result" where
  "map_env f [] = Inr []"
| "map_env f ((name, w) # ws) = res_bind (f w) (\<lambda>v. res_bind (map_env f ws) (\<lambda>vs. Inr ((name, v) # vs)))"

definition subst_target :: "(string \<Rightarrow> string result) \<Rightarrow> redirect option \<Rightarrow> redirect option result" where
  "subst_target f t = (case t of Some (Path p) \<Rightarrow> res_bind (f p) (\<lambda>q. Inr (Some (Path q))) | _ \<Rightarrow> Inr t)"

definition subst_command :: "(string \<Rightarrow> string result) \<Rightarrow> command \<Rightarrow> command result" where
  "subst_command f cmd =
     res_bind (case cmd_stdin cmd of None \<Rightarrow> Inr None | Some p \<Rightarrow> res_bind (f p) (\<lambda>q. Inr (Some q))) (\<lambda>stdin.
     res_bind (subst_target f (cmd_stdout cmd)) (\<lambda>stdout.
     res_bind (subst_target f (cmd_stderr cmd)) (\<lambda>stderr.
     res_bind (map_words f (cmd_argv cmd)) (\<lambda>argv.
     res_bind (case cmd_env_vars cmd of None \<Rightarrow> Inr None | Some vars \<Rightarrow> res_bind (map_env f vars) (\<lambda>vars. Inr (Some vars)))
       (\<lambda>env_vars.
       Inr (cmd\<lparr>cmd_stdin := stdin, cmd_stdout := stdout, cmd_stderr := stderr, cmd_argv := argv, cmd_env_vars := env_vars\<rparr>))))))"

text \<open>A directory is always there after parsing; \<open>cd\<close> without one has \<open>None\<close>, which \<open>sub\<close> refuses.\<close>

fun subst_node :: "(string \<Rightarrow> string result) \<Rightarrow> node \<Rightarrow> node result" where
  "subst_node f (Command cmd) = res_bind (subst_command f cmd) (\<lambda>c. Inr (Command c))"
| "subst_node f (Chdir (Some d)) = res_bind (f d) (\<lambda>e. Inr (Chdir (Some e)))"
| "subst_node f (Chdir None) = Inl TypeError"
| "subst_node f operator = Inr operator"

fun subst_nodes :: "(string \<Rightarrow> string result) \<Rightarrow> node list \<Rightarrow> node list result" where
  "subst_nodes f [] = Inr []"
| "subst_nodes f (n # ns) = res_bind (subst_node f n) (\<lambda>m. res_bind (subst_nodes f ns) (\<lambda>ms. Inr (m # ms)))"

definition task_namespace :: "command_task \<Rightarrow> namespace" where
  "task_namespace task =
     (let ns = (case variables task of None \<Rightarrow> merged_env task
                | Some vs \<Rightarrow> foldl (\<lambda>d (k, v). dict_set k v d) (merged_env task) vs)
      in dict_set ''TGT'' Output_list (dict_set ''SRC'' Input_list (dict_set ''env'' Other_value ns)))"

definition task_nodes :: "(string \<Rightarrow> namespace \<Rightarrow> py_value result) \<Rightarrow> command_task \<Rightarrow> node list result" where
  "task_nodes evaluate task =
     res_bind (parse_string (command_text task)) (subst_nodes (subst_arg evaluate task (task_namespace task)))"

definition run_command_task ::
  "(string \<Rightarrow> namespace \<Rightarrow> py_value result) \<Rightarrow> ('w, 'p, 'f) os \<Rightarrow> int \<Rightarrow> command_task \<Rightarrow> ('w, int option) io" where
  "run_command_task evaluate os verbose task = io_bind (io_lift (task_nodes evaluate task)) (run os (verbose > 0))"

text \<open>\<open>__str__\<close>.\<close>

definition task_str :: "command_task \<Rightarrow> string result" where
  "task_str task =
     res_bind (parse_string (command_text task)) (\<lambda>nodes.
       Inr (''command ('' @ get_abbreviated_command nodes @ ''): '' @ join '' '' (map nice_path (inputs task)) @
         (if outputs task \<noteq> [] then '' -> '' else []) @ join '' '' (map nice_path (outputs task)) @ [CHR 0x0A]))"

text \<open>\<open>apply_command\<close>: the task of a generator, whose nodes come from \<open>find_or_declare\<close>.\<close>

definition apply_command ::
  "(string \<Rightarrow> waf_node) \<Rightarrow> waf_node list \<Rightarrow> string list \<Rightarrow> string \<Rightarrow> namespace option \<Rightarrow> namespace \<Rightarrow> command_task" where
  "apply_command find_or_declare source targets command vars env =
     \<lparr>inputs = source, outputs = map find_or_declare targets, command_text = command, variables = vars, merged_env = env\<rparr>"

section \<open>Substitution, piece by piece\<close>

datatype piece = Plain string | Dollar | Use string string

fun piece_ok :: "piece \<Rightarrow> bool" where
  "piece_ok (Plain p) \<longleftrightarrow> CHR ''$'' \<notin> set p"
| "piece_ok Dollar \<longleftrightarrow> True"
| "piece_ok (Use var code) \<longleftrightarrow>
     var \<noteq> [] \<and> list_all is_alnum_us var \<and> list_all (\<lambda>c. c \<noteq> CHR ''}'' \<and> c \<noteq> CHR 0x0A) code \<and>
     (code = [] \<or> \<not> is_alnum_us (hd code))"

fun piece_text :: "piece \<Rightarrow> string" where
  "piece_text (Plain p) = p"
| "piece_text Dollar = ''$$''"
| "piece_text (Use var code) = ''${'' @ var @ code @ ''}''"

text \<open>What the pieces come to, the first error deciding.\<close>

fun pieces_value :: "(string \<Rightarrow> string \<Rightarrow> string result) \<Rightarrow> piece list \<Rightarrow> string result" where
  "pieces_value f [] = Inr []"
| "pieces_value f (Plain p # ps) = res_bind (pieces_value f ps) (\<lambda>u. Inr (p @ u))"
| "pieces_value f (Dollar # ps) = res_bind (pieces_value f ps) (\<lambda>u. Inr (CHR ''$'' # u))"
| "pieces_value f (Use var code # ps) = res_bind (f var code) (\<lambda>t. res_bind (pieces_value f ps) (\<lambda>u. Inr (t @ u)))"

lemma brace_not_alnum [simp]: "\<not> is_alnum_us (CHR ''}'')"
  by (simp add: is_alnum_us_def is_digit_def)

lemma subst_match_use:
  assumes "piece_ok (Use var code)"
  shows "subst_match (var @ code @ ''}'' @ s) = Some (var, code, s)"
proof -
  have "takeWhile is_alnum_us (var @ code @ ''}'' @ s) = var" "dropWhile is_alnum_us (var @ code @ ''}'' @ s) = code @ ''}'' @ s"
    using assms by (cases code; auto simp: takeWhile_append dropWhile_append list_all_iff)+
  moreover have "takeWhile (\<lambda>c. c \<noteq> CHR ''}'' \<and> c \<noteq> CHR 0x0A) (code @ ''}'' @ s) = code"
    "dropWhile (\<lambda>c. c \<noteq> CHR ''}'' \<and> c \<noteq> CHR 0x0A) (code @ ''}'' @ s) = ''}'' @ s"
    using assms by (auto simp: takeWhile_append dropWhile_append list_all_iff)
  ultimately show ?thesis using assms by (simp add: subst_match_def Let_def)
qed

lemma res_bind_Inr_id [simp]: "res_bind r (\<lambda>u. Inr u) = r"
  by (cases r) simp_all

lemma subst_text_plain:
  "CHR ''$'' \<notin> set p \<Longrightarrow> subst_text f (p @ s) = res_bind (subst_text f s) (\<lambda>u. Inr (p @ u))"
proof (induction p)
  case (Cons c p)
  then show ?case by (subst subst_text.simps) (cases "subst_text f s"; auto)
qed simp

lemma subst_text_pieces: "list_all piece_ok ps \<Longrightarrow> subst_text f (concat (map piece_text ps)) = pieces_value f ps"
proof (induction f ps rule: pieces_value.induct)
  case (1 f)
  then show ?case by (simp add: subst_text.simps)
next
  case (2 f p ps)
  then show ?case by (simp add: subst_text_plain)
next
  case (3 f ps)
  then show ?case by (subst subst_text.simps) simp
next
  case (4 f var code ps)
  then have "subst_match (var @ code @ ''}'' @ concat (map piece_text ps)) = Some (var, code, concat (map piece_text ps))"
    by (intro subst_match_use) simp
  with 4 show ?case by (subst subst_text.simps) (cases "f var code"; simp)
qed

text \<open>
  C25: substitution in a word of a command. A text of plain pieces, \<open>$$\<close> and \<open>${name...}\<close> becomes the pieces'
  values one after the other: a \<open>$\<close> for \<open>$$\<close>, for \<open>${SRC}\<close> and \<open>${TGT}\<close> the path of the only source or target
  and a \<open>ValueError\<close> when there is not exactly one; the values are not substituted again.
\<close>

theorem subst_arg_pieces:
  assumes "list_all piece_ok ps"
    and names: "\<And>name ns v. name \<in> {''SRC'', ''TGT''} \<Longrightarrow> map_of ns name = Some v \<Longrightarrow> evaluate name ns = Inr v"
  shows "subst_arg evaluate task (task_namespace task) (concat (map piece_text ps)) = pieces_value (\<lambda>var code.
    if code = [] \<and> var = ''SRC'' then (if length (inputs task) = 1 then Inr (srcpath (hd (inputs task))) else Inl ValueError)
    else if code = [] \<and> var = ''TGT'' then (if length (outputs task) = 1 then Inr (bld_abspath (hd (outputs task))) else Inl ValueError)
    else repl evaluate task (task_namespace task) var code) ps"
proof -
  have "map_of (task_namespace task) ''SRC'' = Some Input_list" "map_of (task_namespace task) ''TGT'' = Some Output_list"
    by (simp_all add: task_namespace_def Let_def map_of_dict_set)
  then have "evaluate ''SRC'' (task_namespace task) = Inr Input_list" "evaluate ''TGT'' (task_namespace task) = Inr Output_list"
    by (simp_all add: names)
  then have "repl evaluate task (task_namespace task) = (\<lambda>var code.
    if code = [] \<and> var = ''SRC'' then (if length (inputs task) = 1 then Inr (srcpath (hd (inputs task))) else Inl ValueError)
    else if code = [] \<and> var = ''TGT'' then (if length (outputs task) = 1 then Inr (bld_abspath (hd (outputs task))) else Inl ValueError)
    else repl evaluate task (task_namespace task) var code)"
    by (auto simp: fun_eq_iff repl_def length_Suc_conv split: list.split)
  then show ?thesis using subst_text_pieces [OF assms(1), of "repl evaluate task (task_namespace task)"] by (simp add: subst_arg_def)
qed

definition lookup_names :: "string \<Rightarrow> namespace \<Rightarrow> py_value result" where
  "lookup_names name ns = (case map_of ns name of None \<Rightarrow> Inl (PyException ''NameError'') | Some v \<Rightarrow> Inr v)"

definition example_task :: command_task where
  "example_task =
     \<lparr>inputs = [\<lparr>srcpath = ''../a b.in'', bld_abspath = ''/b/a b.in'', nice_path = ''a b.in''\<rparr>], outputs = [],
      command_text = ''cat ${SRC} > $${${NAME}'', variables = Some [(''NAME'', Text_value ''${SRC}; x'')], merged_env = []\<rparr>"

lemma subst_arg_pieces_witness:
  "subst_arg lookup_names example_task (task_namespace example_task) ''-i=${SRC}$$${NAME}'' = Inr ''-i=../a b.in$${SRC}; x''"
proof -
  have "subst_arg lookup_names example_task (task_namespace example_task)
      (concat (map piece_text [Plain ''-i='', Use ''SRC'' [], Dollar, Use ''NAME'' []])) = Inr ''-i=../a b.in$${SRC}; x''"
    using subst_arg_pieces [of "[Plain ''-i='', Use ''SRC'' [], Dollar, Use ''NAME'' []]" lookup_names example_task]
    by (simp add: lookup_names_def is_alnum_us_def is_digit_def example_task_def repl_def task_namespace_def
        map_of_dict_set as_text_def)
  then show ?thesis by simp
qed

section \<open>The shape of the command\<close>

definition same_option :: "'a option \<Rightarrow> 'a option \<Rightarrow> bool" where
  "same_option x y \<longleftrightarrow> (x = None \<longleftrightarrow> y = None)"

definition same_target :: "redirect option \<Rightarrow> redirect option \<Rightarrow> bool" where
  "same_target x y \<longleftrightarrow> (case (x, y) of (Some (Path p), Some (Path q)) \<Rightarrow> True | (x, y) \<Rightarrow> x = y)"

fun same_shape :: "node \<Rightarrow> node \<Rightarrow> bool" where
  "same_shape (Command c) (Command d) \<longleftrightarrow>
     cmd_name d = cmd_name c \<and> length (cmd_argv d) = length (cmd_argv c) \<and> same_option (cmd_stdin c) (cmd_stdin d) \<and>
     same_target (cmd_stdout c) (cmd_stdout d) \<and> same_target (cmd_stderr c) (cmd_stderr d) \<and>
     map_option (map fst) (cmd_env_vars c) = map_option (map fst) (cmd_env_vars d)"
| "same_shape (Chdir (Some c)) (Chdir (Some d)) \<longleftrightarrow> True"
| "same_shape m n \<longleftrightarrow> m = n"

lemma map_words_length: "map_words f ws = Inr vs \<Longrightarrow> length vs = length ws"
  by (induction ws arbitrary: vs) (auto simp: res_bind_Inr_iff)

lemma map_env_names: "map_env f ws = Inr vs \<Longrightarrow> map fst vs = map fst ws"
  by (induction f ws arbitrary: vs rule: map_env.induct) (auto simp: res_bind_Inr_iff)

lemma subst_target_same: "subst_target f t = Inr u \<Longrightarrow> same_target t u"
  by (auto simp: subst_target_def same_target_def res_bind_Inr_iff split: option.splits redirect.splits)

lemma subst_command_same:
  assumes "subst_command f c = Inr d"
  shows "same_shape (Command c) (Command d)"
proof -
  obtain stdin stdout stderr argv env where parts:
    "(case cmd_stdin c of None \<Rightarrow> Inr None | Some p \<Rightarrow> res_bind (f p) (\<lambda>q. Inr (Some q))) = Inr stdin"
    "subst_target f (cmd_stdout c) = Inr stdout" "subst_target f (cmd_stderr c) = Inr stderr"
    "map_words f (cmd_argv c) = Inr argv"
    "(case cmd_env_vars c of None \<Rightarrow> Inr None | Some vars \<Rightarrow> res_bind (map_env f vars) (\<lambda>vars. Inr (Some vars))) = Inr env"
    "d = c\<lparr>cmd_stdin := stdin, cmd_stdout := stdout, cmd_stderr := stderr, cmd_argv := argv, cmd_env_vars := env\<rparr>"
    using assms by (auto simp: subst_command_def res_bind_Inr_iff)
  then show ?thesis
    by (auto simp: same_option_def res_bind_Inr_iff dest: subst_target_same map_words_length map_env_names split: option.splits)
qed

lemma subst_node_same: "subst_node f n = Inr m \<Longrightarrow> same_shape n m"
  by (cases "(f, n)" rule: subst_node.cases) (auto simp: res_bind_Inr_iff dest: subst_command_same simp del: same_shape.simps(1))

lemma subst_nodes_same: "subst_nodes f ns = Inr ms \<Longrightarrow> list_all2 same_shape ns ms"
  by (induction ns arbitrary: ms) (auto simp: res_bind_Inr_iff dest: subst_node_same)

text \<open>
  C24: what is substituted is never parsed. A command task fails without touching the system, or it runs the
  nodes of its parsed command, each in its shape: the operators, the number of arguments, which streams are
  redirected to a file and the names of the variables are those of the command as it was written.
\<close>

theorem run_task_shape:
  "run_command_task evaluate os verbose task w =
     (case task_nodes evaluate task of Inl e \<Rightarrow> (Inl e, w) | Inr ms \<Rightarrow> run os (verbose > 0) ms w) \<and>
   (case task_nodes evaluate task of
      Inl e \<Rightarrow> True
    | Inr ms \<Rightarrow> \<exists>ns. parse_string (command_text task) = Inr ns \<and> list_all2 same_shape ns ms)"
proof (cases "task_nodes evaluate task")
  case (Inr ms)
  then obtain ns where "parse_string (command_text task) = Inr ns"
    "subst_nodes (subst_arg evaluate task (task_namespace task)) ns = Inr ms"
    by (auto simp: task_nodes_def res_bind_Inr_iff)
  then show ?thesis using Inr by (auto simp: run_command_task_def io_bind_def io_lift_def dest: subst_nodes_same)
qed (simp add: run_command_task_def io_bind_def io_lift_def)

end
