(* ===== verification/Build_Misc.thy ===== *)
theory Build_Misc
  imports Build_Run
begin

text \<open>
  Tasks that copy files, fill in templates and run commands, \<open>waf-tools/misc.py\<close>. The nodes of the source
  tree and the operating system are parameters.
\<close>

section \<open>Copying\<close>

text \<open>\<open>shutil.copy2\<close> and \<open>os.chmod\<close>, which changes only the part \<open>ext\<close> of the world here.\<close>

definition copy_func :: "(string \<Rightarrow> nat \<Rightarrow> 'e \<Rightarrow> 'e) \<Rightarrow> string \<Rightarrow> string \<Rightarrow> nat \<Rightarrow> ('e world, int) io" where
  "copy_func set_mode infile outfile chmod w =
     (case files w infile of
        None \<Rightarrow> (Inr 1, w)
      | Some text \<Rightarrow>
          let w = w\<lparr>files := (files w)(outfile \<mapsto> text)\<rparr>
          in (Inr 0, if chmod \<noteq> 0 then w\<lparr>ext := set_mode outfile chmod (ext w)\<rparr> else w))"

section \<open>Templates\<close>

text \<open>\<open>code.replace('%', '%%')\<close>\<close>

definition double_percents :: "string \<Rightarrow> string" where
  "double_percents s = concat (map (\<lambda>c. if c = CHR ''%'' then ''%%'' else [c]) s)"

text \<open>The next match of \<open>@(\w+)@\<close> after an \<open>@\<close>: the name and what is left.\<close>

definition m4_match :: "string \<Rightarrow> (string \<times> string) option" where
  "m4_match s =
     (case dropWhile is_alnum_us s of
        c # rest \<Rightarrow> if c = CHR ''@'' \<and> takeWhile is_alnum_us s \<noteq> [] then Some (takeWhile is_alnum_us s, rest) else None
      | [] \<Rightarrow> None)"

lemma m4_match_shorter: "m4_match s = Some (name, rest) \<Longrightarrow> length rest < length s"
  using length_dropWhile_le [of is_alnum_us s] by (auto simp: m4_match_def split: list.splits if_splits)

text \<open>\<open>m4_re.sub(r'%(\1)s', code)\<close> and \<open>m4_re.findall(code)\<close>\<close>

function m4_sub :: "string \<Rightarrow> string" where
  "m4_sub [] = []"
| "m4_sub (c # cs) =
     (case (if c = CHR ''@'' then m4_match cs else None) of
        Some (name, rest) \<Rightarrow> ''%('' @ name @ '')s'' @ m4_sub rest
      | None \<Rightarrow> c # m4_sub cs)"
  by pat_completeness auto

termination
  by (relation "measure length") (auto dest!: m4_match_shorter split: if_splits)

function m4_names :: "string \<Rightarrow> string list" where
  "m4_names [] = []"
| "m4_names (c # cs) =
     (case (if c = CHR ''@'' then m4_match cs else None) of
        Some (name, rest) \<Rightarrow> name # m4_names rest
      | None \<Rightarrow> m4_names cs)"
  by pat_completeness auto

termination
  by (relation "measure length") (auto dest!: m4_match_shorter split: if_splits)

text \<open>\<open>s % di\<close> for the conversions \<open>%%\<close> and \<open>%(name)s\<close>; any other one counts as malformed.\<close>

definition format_key :: "string \<Rightarrow> (string \<times> string) option" where
  "format_key s =
     (let key = takeWhile (\<lambda>c. c \<noteq> CHR '')'') s; after = dropWhile (\<lambda>c. c \<noteq> CHR '')'') s
      in if take 2 after = '')s'' then Some (key, drop 2 after) else None)"

lemma format_key_shorter: "format_key s = Some (key, rest) \<Longrightarrow> length rest < length s"
proof -
  let ?after = "dropWhile (\<lambda>c. c \<noteq> CHR '')'') s"
  assume "format_key s = Some (key, rest)"
  then have "take 2 ?after = '')s''" "rest = drop 2 ?after" by (auto simp: format_key_def Let_def split: if_splits)
  then have "length rest < length ?after" by (cases ?after) auto
  then show ?thesis using length_dropWhile_le [of "\<lambda>c. c \<noteq> CHR '')''" s] by simp
qed

function format_dict :: "string \<Rightarrow> (string, string) dict \<Rightarrow> string result" where
  "format_dict [] di = Inr []"
| "format_dict (c # cs) di =
     (if c \<noteq> CHR ''%'' then res_bind (format_dict cs di) (\<lambda>t. Inr (c # t))
      else if cs \<noteq> [] \<and> hd cs = CHR ''%'' then res_bind (format_dict (tl cs) di) (\<lambda>t. Inr (CHR ''%'' # t))
      else
        case (if cs \<noteq> [] \<and> hd cs = CHR ''('' then format_key (tl cs) else None) of
          Some (key, rest) \<Rightarrow>
            res_bind (dict_get di key) (\<lambda>v. res_bind (format_dict rest di) (\<lambda>t. Inr (v @ t)))
        | None \<Rightarrow> Inl ValueError)"
  by pat_completeness auto

termination
  by (relation "measure (\<lambda>(s, _). length s)") (auto dest!: format_key_shorter split: if_splits)

text \<open>
  \<open>subst_func\<close>: the dictionary of the task or its generator, or where that is empty one from the environment,
  by the name or else its upper case.
\<close>

definition flat_value :: "(string \<Rightarrow> string) \<Rightarrow> (string \<Rightarrow> string) \<Rightarrow> string \<Rightarrow> string" where
  "flat_value get_flat upper i = (if get_flat i \<noteq> [] then get_flat i else get_flat (upper i))"

definition subst_dict ::
  "(string \<Rightarrow> string) \<Rightarrow> (string \<Rightarrow> string) \<Rightarrow> (string, string) dict \<Rightarrow> string \<Rightarrow> (string, string) dict" where
  "subst_dict get_flat upper di code =
     (if di \<noteq> [] then di
      else foldl (\<lambda>d i. dict_set i (flat_value get_flat upper i) d) [] (m4_names code))"

text \<open>
  The dictionary \<open>shared\<close> of the generator is part of the state: where the task has none of its own, the values
  from the environment are stored there.
\<close>

definition subst_func ::
  "(string \<Rightarrow> string) \<Rightarrow> (string \<Rightarrow> string) \<Rightarrow> (string, string) dict \<Rightarrow> string \<Rightarrow> string \<Rightarrow>
   ((string, string) dict \<times> 'e world, unit) io" where
  "subst_func get_flat upper task_dict infile outfile = (\<lambda>(shared, w).
     case files w infile of
       None \<Rightarrow> (Inl IOError, shared, w)
     | Some text \<Rightarrow>
         let code = double_percents text; s = m4_sub code;
             di = subst_dict get_flat upper (if task_dict \<noteq> [] then task_dict else shared) code;
             shared = (if task_dict \<noteq> [] then shared else di)
         in (case format_dict s di of
               Inl e \<Rightarrow> (Inl e, shared, w)
             | Inr t \<Rightarrow> (Inr (), shared, w\<lparr>files := (files w)(outfile \<mapsto> t)\<rparr>)))"

section \<open>What a template becomes\<close>

text \<open>Each \<open>@name@\<close> by its value, everything else as it is.\<close>

function fill_in :: "(string \<Rightarrow> string result) \<Rightarrow> string \<Rightarrow> string result" where
  "fill_in f [] = Inr []"
| "fill_in f (c # cs) =
     (case (if c = CHR ''@'' then m4_match cs else None) of
        Some (name, rest) \<Rightarrow> res_bind (f name) (\<lambda>v. res_bind (fill_in f rest) (\<lambda>t. Inr (v @ t)))
      | None \<Rightarrow> res_bind (fill_in f cs) (\<lambda>t. Inr (c # t)))"
  by pat_completeness auto

termination
  by (relation "measure (\<lambda>(_, s). length s)") (auto dest!: m4_match_shorter split: if_splits)

lemma double_percents_simps [simp]:
  "double_percents [] = []" "double_percents (c # s) = (if c = CHR ''%'' then ''%%'' else [c]) @ double_percents s"
  by (simp_all add: double_percents_def)

lemma percent_word [simp]: "\<not> is_alnum_us (CHR ''%'')"
  by (simp add: is_alnum_us_def is_digit_def)

lemma word_double_percents:
  "takeWhile is_alnum_us (double_percents s) = takeWhile is_alnum_us s"
  "dropWhile is_alnum_us (double_percents s) = double_percents (dropWhile is_alnum_us s)"
  by (induction s) auto

lemma m4_match_double: "m4_match (double_percents s) = map_option (map_prod id double_percents) (m4_match s)"
proof -
  obtain d where d: "dropWhile is_alnum_us s = d" by blast
  show ?thesis unfolding m4_match_def word_double_percents d by (cases d) auto
qed

lemma m4_match_name: "m4_match s = Some (name, rest) \<Longrightarrow> name \<noteq> [] \<and> list_all is_alnum_us name"
  by (auto simp: m4_match_def list_all_iff dest: set_takeWhileD split: list.splits if_splits)

lemma format_key_name:
  assumes "list_all is_alnum_us name"
  shows "format_key (name @ '')s'' @ s) = Some (name, s)"
proof -
  have "\<forall>c \<in> set name. c \<noteq> CHR '')''" using assms by (auto simp: list_all_iff is_alnum_us_def is_digit_def)
  then show ?thesis by (simp add: format_key_def takeWhile_append dropWhile_append)
qed

lemma format_m4: "format_dict (m4_sub (double_percents s)) di = fill_in (dict_get di) s"
proof (induction "dict_get di" s rule: fill_in.induct)
  case (2 c cs)
  show ?case
  proof (cases "if c = CHR ''@'' then m4_match cs else None")
    case None
    then have "m4_sub (double_percents (c # cs)) = double_percents [c] @ m4_sub (double_percents cs)"
      by (auto simp: m4_match_double split: if_splits)
    then show ?thesis using None 2(1) [OF None] by (cases "c = CHR ''%''") simp_all
  next
    case (Some p)
    obtain name rest where p: "p = (name, rest)" by fastforce
    then have match: "c = CHR ''@''" "m4_match cs = Some (name, rest)" using Some by (auto split: if_splits)
    then have "m4_sub (double_percents (c # cs)) = ''%('' @ name @ '')s'' @ m4_sub (double_percents rest)"
      by (simp add: m4_match_double)
    moreover have "dict_get di name = Inr v \<Longrightarrow> format_dict (m4_sub (double_percents rest)) di = fill_in (dict_get di) rest" for v
      using 2(2) [OF Some p [symmetric]] .
    ultimately show ?thesis
      using match format_key_name [of name "m4_sub (double_percents rest)"] m4_match_name [OF match(2)]
      by (cases "dict_get di name") simp_all
  qed
qed simp

lemma m4_names_double: "m4_names (double_percents s) = m4_names s"
proof (induction s rule: m4_names.induct)
  case (2 c cs)
  then show ?case
    by (cases "c = CHR ''@''"; cases "m4_match cs") (auto simp: m4_match_double)
qed simp

lemma map_of_flat: "map_of (foldl (\<lambda>d i. dict_set i (f i) d) d names) n = (if n \<in> set names then Some (f n) else map_of d n)"
  by (induction names arbitrary: d) (auto simp: map_of_dict_set)

lemma fill_in_cong: "(\<And>n. n \<in> set (m4_names s) \<Longrightarrow> f n = g n) \<Longrightarrow> fill_in f s = fill_in g s"
proof (induction f s rule: fill_in.induct)
  case (2 f c cs)
  show ?case
  proof (cases "if c = CHR ''@'' then m4_match cs else None")
    case None
    then show ?thesis using 2(1) [OF None] 2(3) by simp
  next
    case (Some p)
    obtain name rest where p: "p = (name, rest)" by fastforce
    then show ?thesis using Some 2(2) [OF Some p [symmetric]] 2(3) by (cases "f name") auto
  qed
qed simp

lemma fill_in_known:
  assumes "\<And>n. f n = (if n \<in> known then Inr (g n) else Inl KeyError)"
  shows "if set (m4_names s) \<subseteq> known then \<exists>t. fill_in f s = Inr t else fill_in f s = Inl KeyError"
  using assms
proof (induction f s rule: fill_in.induct)
  case (2 f c cs)
  show ?case
  proof (cases "if c = CHR ''@'' then m4_match cs else None")
    case None
    then show ?thesis using 2(1) [OF None 2(3)] by auto
  next
    case (Some p)
    obtain name rest where p: "p = (name, rest)" by fastforce
    show ?thesis
    proof (cases "name \<in> known")
      case True
      then have f: "f name = Inr (g name)" using 2(3) by simp
      show ?thesis using 2(2) [OF Some p [symmetric] f 2(3)] True Some by (simp add: p f)
    next
      case False
      then have "f name = Inl KeyError" using 2(3) by simp
      then show ?thesis using False Some by (simp add: p)
    qed
  qed
qed simp

text \<open>
  C26: filling in a template. The output is the input with each \<open>@name@\<close> replaced by its value in the dictionary
  of the task, or else of its generator, or, while that is empty, in the environment; percent signs stay as
  they are, and a missing name is a \<open>KeyError\<close> and writes nothing.
\<close>

theorem subst_func_fills_in:
  assumes "files w infile = Some content"
  shows "case (fill_in (if task_dict \<noteq> [] then dict_get task_dict
        else if shared \<noteq> [] then dict_get shared else (\<lambda>n. Inr (flat_value get_flat upper n))) content,
      subst_func get_flat upper task_dict infile outfile (shared, w)) of
      (Inl e, r, _, w') \<Rightarrow> r = Inl e \<and> w' = w
    | (Inr t, r, _, w') \<Rightarrow> r = Inr () \<and> w' = w\<lparr>files := (files w)(outfile \<mapsto> t)\<rparr>"
proof -
  let ?code = "double_percents content" and ?di = "if task_dict \<noteq> [] then task_dict else shared"
  have "fill_in (dict_get (subst_dict get_flat upper ?di ?code)) content =
      fill_in (if ?di \<noteq> [] then dict_get ?di else (\<lambda>n. Inr (flat_value get_flat upper n))) content"
    by (rule fill_in_cong) (auto simp: subst_dict_def dict_get_def m4_names_double map_of_flat)
  then show ?thesis
    using assms(1) by (simp add: subst_func_def Let_def format_m4 split: sum.split)
qed

text \<open>
  the second template of a generator without a dictionary. The first one leaves its names in the dictionary
  that the tasks share, so the second one finds these names only: where it has another one, the task fails with
  a \<open>KeyError\<close>, although the environment may have it.
\<close>

theorem second_template_fails:
  assumes "files w infile = Some content" and "m4_names content \<noteq> []"
    and "subst_func get_flat upper [] infile outfile ([], w) = (Inr (), shared, w')"
    and "files w' next_in = Some next_content"
  shows "\<not> set (m4_names next_content) \<subseteq> set (m4_names content) \<longleftrightarrow>
    fst (subst_func get_flat upper [] next_in next_out (shared, w')) = Inl KeyError"
proof -
  define value_of where "value_of = flat_value get_flat upper"
  have shared: "shared = subst_dict get_flat upper [] (double_percents content)"
    using assms(1,3) by (auto simp: subst_func_def Let_def split: sum.splits)
  then have find: "dict_get shared n = (if n \<in> set (m4_names content) then Inr (value_of n) else Inl KeyError)" for n
    by (simp add: subst_dict_def dict_get_def m4_names_double map_of_flat value_of_def)
  have "shared \<noteq> []"
  proof
    assume "shared = []"
    then show False using find [of "hd (m4_names content)"] assms(2) by (auto simp: dict_get_def split: if_splits)
  qed
  then have "fst (subst_func get_flat upper [] next_in next_out (shared, w')) =
      (case fill_in (dict_get shared) next_content of Inl e \<Rightarrow> Inl e | Inr _ \<Rightarrow> Inr ())"
    using assms(4) by (simp add: subst_func_def subst_dict_def Let_def format_m4 split: sum.split)
  also have "\<dots> = (if set (m4_names next_content) \<subseteq> set (m4_names content) then Inr () else Inl KeyError)"
    using fill_in_known [of "dict_get shared" "set (m4_names content)" value_of next_content] find by (auto split: sum.splits)
  finally show ?thesis by simp
qed


definition template_world :: "unit world" where
  "template_world =
     \<lparr>files = [''a.in'' \<mapsto> ''100% @X@ a@b'', ''b.in'' \<mapsto> ''@X@@Y@''], dirs = [], console = [], environ = [], ext = ()\<rparr>"

lemma subst_func_fills_in_witness:
  "fst (subst_func (\<lambda>n. ''<'' @ n @ ''>'') id [] ''a.in'' ''a'' ([], template_world)) = Inr ()"
proof -
  have "fill_in (\<lambda>n. Inr (flat_value (\<lambda>n. ''<'' @ n @ ''>'') id n)) ''100% @X@ a@b'' = Inr ''100% <X> a@b''"
    by code_simp
  then show ?thesis
    using subst_func_fills_in [where w = template_world and infile = "''a.in''" and content = "''100% @X@ a@b''" and task_dict = "[]"
        and shared = "[]" and get_flat = "\<lambda>n. ''<'' @ n @ ''>''" and upper = id and outfile = "''a''"]
    by (simp add: template_world_def split: prod.splits)
qed

lemma second_template_fails_witness:
  "\<exists>shared w'. subst_func (\<lambda>n. ''<'' @ n @ ''>'') id [] ''a.in'' ''a'' ([], template_world) = (Inr (), shared, w') \<and>
    fst (subst_func (\<lambda>n. ''<'' @ n @ ''>'') id [] ''b.in'' ''b'' (shared, w')) = Inl KeyError"
proof -
  let ?f = "\<lambda>n. ''<'' @ n @ ''>''"
  obtain r shared w' where run: "subst_func ?f id [] ''a.in'' ''a'' ([], template_world) = (r, shared, w')"
    using prod_cases3 by blast
  have names: "m4_names ''100% @X@ a@b'' = [''X'']" "m4_names ''@X@@Y@'' = [''X'', ''Y'']" by (code_simp, code_simp)
  have "r = Inr ()" using subst_func_fills_in_witness run by simp
  moreover have "files w' ''b.in'' = Some ''@X@@Y@''"
    using run by (auto simp: subst_func_def template_world_def Let_def split: sum.splits)
  ultimately have "\<not> set (m4_names ''@X@@Y@'') \<subseteq> set (m4_names ''100% @X@ a@b'') \<longleftrightarrow>
      fst (subst_func ?f id [] ''b.in'' ''b'' (shared, w')) = Inl KeyError"
    using second_template_fails [where w = template_world and infile = "''a.in''" and content = "''100% @X@ a@b''" and get_flat = ?f
        and upper = id and outfile = "''a''" and shared = shared and w' = w' and next_in = "''b.in''" and next_content = "''@X@@Y@''"
        and next_out = "''b''"]
      run names by (simp add: template_world_def)
  then show ?thesis using run names \<open>r = Inr ()\<close> by auto
qed

section \<open>Commands with files\<close>

record file_node =
  node_abspath :: string
  node_srcpath :: string
  node_bldpath :: string

text \<open>What a directory node finds; \<open>find_or_declare\<close> may give nothing as well.\<close>

record base_path =
  find_resource :: "string \<Rightarrow> file_node option"
  find_or_declare :: "string \<Rightarrow> file_node option"
  find_dir :: "string \<Rightarrow> file_node option"

datatype arg_class = Input_file | Output_file | Input_dir | Output_dir

record cmd_arg =
  arg_class :: arg_class
  arg_name :: string
  arg_template :: string
  arg_node :: "file_node option"

text \<open>A missing node is reported with a format string that has one \<open>%s\<close> for two values, a \<open>TypeError\<close>.\<close>

definition found_or_type_error :: "file_node option \<Rightarrow> cmd_arg \<Rightarrow> cmd_arg result" where
  "found_or_type_error node a = (case node of None \<Rightarrow> Inl TypeError | Some n \<Rightarrow> Inr (a\<lparr>arg_node := Some n\<rparr>))"

definition input_file_find :: "base_path \<Rightarrow> cmd_arg \<Rightarrow> cmd_arg result" where
  "input_file_find base a = found_or_type_error (find_resource base (arg_name a)) a"

definition output_file_find :: "base_path \<Rightarrow> cmd_arg \<Rightarrow> cmd_arg result" where
  "output_file_find base a = found_or_type_error (find_or_declare base (arg_name a)) a"

definition dir_find :: "base_path \<Rightarrow> cmd_arg \<Rightarrow> cmd_arg result" where
  "dir_find base a = found_or_type_error (find_dir base (arg_name a)) a"

definition find_node :: "base_path \<Rightarrow> cmd_arg \<Rightarrow> cmd_arg result" where
  "find_node base a =
     (case arg_class a of Input_file \<Rightarrow> input_file_find base a | Output_file \<Rightarrow> output_file_find base a | _ \<Rightarrow> dir_find base a)"

definition input_file_path :: "bool \<Rightarrow> file_node \<Rightarrow> string" where
  "input_file_path absolute n = (if absolute then node_abspath n else node_srcpath n)"

definition output_file_path :: "bool \<Rightarrow> file_node \<Rightarrow> string" where
  "output_file_path absolute n = (if absolute then node_abspath n else node_bldpath n)"

definition dir_path :: "bool \<Rightarrow> file_node \<Rightarrow> string" where
  "dir_path absolute n = node_abspath n"

definition get_path :: "bool \<Rightarrow> cmd_arg \<Rightarrow> string result" where
  "get_path absolute a =
     (case arg_node a of
        None \<Rightarrow> Inl AttributeError
      | Some n \<Rightarrow> format_once (arg_template a) (Some
          (case arg_class a of
             Input_file \<Rightarrow> input_file_path absolute n
           | Output_file \<Rightarrow> output_file_path absolute n
           | _ \<Rightarrow> dir_path absolute n)))"

subsection \<open>The task\<close>

record output_task =
  task_command :: "string + file_node"
  command_args :: "(string + cmd_arg) list"
  task_stdin :: "file_node option"
  task_stdout :: "file_node option"
  task_stderr :: "file_node option"
  task_cwd :: "string option"
  task_env :: "(string, string) dict option"
  dep_nodes :: "file_node list"
  task_inputs :: "file_node list"
  task_outputs :: "file_node list"
  task_dep_vars :: "string list"
  always_runs :: bool

record output_request =
  out_argv :: "string list"
  out_stdin :: "string option"
  out_stdout :: "string option"
  out_stderr :: "string option"
  out_cwd :: "string option"
  out_env :: "(string, string) dict"

fun arg_strings :: "bool \<Rightarrow> (string + cmd_arg) list \<Rightarrow> string list result" where
  "arg_strings absolute [] = Inr []"
| "arg_strings absolute (Inl s # args) = res_bind (arg_strings absolute args) (\<lambda>ss. Inr (s # ss))"
| "arg_strings absolute (Inr a # args) =
     res_bind (get_path absolute a) (\<lambda>s. res_bind (arg_strings absolute args) (\<lambda>ss. Inr (s # ss)))"

definition side_path :: "output_task \<Rightarrow> file_node \<Rightarrow> string" where
  "side_path task n = (if task_cwd task = None then node_bldpath n else node_abspath n)"

text \<open>Opening for writing empties the file; \<open>spawn\<close> is \<open>Popen\<close> with the \<open>wait\<close> that follows.\<close>

definition open_output :: "output_task \<Rightarrow> file_node option \<Rightarrow> ('e world, string option) io" where
  "open_output task n =
     (case n of None \<Rightarrow> io_return None
      | Some n \<Rightarrow> io_bind (write_file (side_path task n) []) (\<lambda>_. io_return (Some (side_path task n))))"

definition run_output_task ::
  "(output_request \<Rightarrow> ('e world, int) io) \<Rightarrow> output_task \<Rightarrow> ('e world, int) io" where
  "run_output_task spawn task =
     (let command = (case task_command task of Inl s \<Rightarrow> s | Inr n \<Rightarrow> side_path task n) in
      io_bind (io_lift (arg_strings (task_cwd task \<noteq> None) (command_args task))) (\<lambda>args.
      io_bind (case task_stdin task of None \<Rightarrow> io_return None
               | Some n \<Rightarrow> io_bind (read_file (side_path task n)) (\<lambda>_. io_return (Some (side_path task n)))) (\<lambda>stdin.
      io_bind (open_output task (task_stdout task)) (\<lambda>stdout.
      io_bind (open_output task (task_stderr task)) (\<lambda>stderr.
      io_bind (io_get environ) (\<lambda>os_environ.
        spawn \<lparr>out_argv = command # args, out_stdin = stdin, out_stdout = stdout, out_stderr = stderr,
          out_cwd = task_cwd task, out_env = (case task_env task of None \<Rightarrow> os_environ | Some e \<Rightarrow> e)\<rparr>))))))"

subsection \<open>The task of a generator\<close>

record output_gen =
  gen_command :: "string option"
  command_is_external :: bool
  gen_argv :: "(string + cmd_arg) list"
  gen_stdin :: "string option"
  gen_stdout :: "string option"
  gen_stderr :: "string option"
  hidden_inputs :: "string list"
  hidden_outputs :: "string list"
  no_inputs :: bool
  no_outputs :: bool
  gen_cwd :: "cmd_arg option"
  gen_env :: "(string, string) dict option"
  gen_dep_vars :: "string list"
  variant_dir :: string

definition init_cmd_output :: "string \<Rightarrow> output_gen" where
  "init_cmd_output variant =
     \<lparr>gen_command = None, command_is_external = False, gen_argv = [], gen_stdin = None, gen_stdout = None, gen_stderr = None,
      hidden_inputs = [], hidden_outputs = [], no_inputs = False, no_outputs = False, gen_cwd = None, gen_env = None,
      gen_dep_vars = [], variant_dir = variant\<rparr>"

fun find_args ::
  "base_path \<Rightarrow> (string + cmd_arg) list \<Rightarrow> ((string + cmd_arg) list \<times> file_node list \<times> file_node list) result" where
  "find_args base [] = Inr ([], [], [])"
| "find_args base (Inl s # args) = res_bind (find_args base args) (\<lambda>(as, ins, outs). Inr (Inl s # as, ins, outs))"
| "find_args base (Inr a # args) =
     res_bind (find_node base a) (\<lambda>a.
     res_bind (find_args base args) (\<lambda>(as, ins, outs).
       Inr (Inr a # as,
         (if arg_class a = Input_file then [the (arg_node a)] else []) @ ins,
         (if arg_class a = Output_file then [the (arg_node a)] else []) @ outs)))"

definition missing_file :: "string \<Rightarrow> py_exn" where
  "missing_file name = waf_error (''File '' @ name @ '' not found'')"

definition node_list :: "file_node option \<Rightarrow> file_node list" where
  "node_list n = (case n of None \<Rightarrow> [] | Some m \<Rightarrow> [m])"

definition find_command :: "base_path \<Rightarrow> output_gen \<Rightarrow> string \<Rightarrow> (string + file_node) result" where
  "find_command base gen command =
     (if command_is_external gen then Inr (Inl command)
      else case find_resource base command of None \<Rightarrow> Inl AssertionError | Some n \<Rightarrow> Inr (Inr n))"

definition find_side :: "(string \<Rightarrow> file_node option) \<Rightarrow> string option \<Rightarrow> file_node option result" where
  "find_side f name =
     (case name of None \<Rightarrow> Inr None
      | Some s \<Rightarrow> (case f s of None \<Rightarrow> Inl (missing_file s) | Some n \<Rightarrow> Inr (Some n)))"

fun find_hidden :: "(string \<Rightarrow> file_node option) \<Rightarrow> string list \<Rightarrow> file_node list result" where
  "find_hidden f [] = Inr []"
| "find_hidden f (s # ss) =
     (case f s of None \<Rightarrow> Inl (missing_file s) | Some n \<Rightarrow> res_bind (find_hidden f ss) (\<lambda>ns. Inr (n # ns)))"

text \<open>
  A directory given as \<open>cwd\<close> is tested by way of a local variable that has no value yet. The task runs in the
  directory of the variant in any case.
\<close>

definition apply_cmd_output :: "base_path \<Rightarrow> output_gen \<Rightarrow> output_task result" where
  "apply_cmd_output base gen =
     (case gen_command gen of
        None \<Rightarrow> Inl (waf_error ''command-output missing command'')
      | Some command \<Rightarrow>
          res_bind (find_command base gen command) (\<lambda>cmd.
          res_bind (if gen_cwd gen = None then Inr () else Inl UnboundLocalError) (\<lambda>_.
          res_bind (find_args base (gen_argv gen)) (\<lambda>(args, ins, outs).
          res_bind (find_side (find_or_declare base) (gen_stdout gen)) (\<lambda>stdout.
          res_bind (find_side (find_or_declare base) (gen_stderr gen)) (\<lambda>stderr.
          res_bind (find_side (find_resource base) (gen_stdin gen)) (\<lambda>stdin.
          res_bind (find_hidden (find_resource base) (hidden_inputs gen)) (\<lambda>more_ins.
          res_bind (find_hidden (find_or_declare base) (hidden_outputs gen)) (\<lambda>more_outs.
            let inputs = ins @ node_list stdin @ more_ins;
                outputs = outs @ node_list stdout @
                  node_list stderr @ more_outs
            in if inputs = [] \<and> \<not> no_inputs gen
               then Inl (waf_error ''command-output objects must have at least one input file or give self.no_inputs'')
               else if outputs = [] \<and> \<not> no_outputs gen
               then Inl (waf_error ''command-output objects must have at least one output file or give self.no_outputs'')
               else Inr
                 \<lparr>task_command = cmd, command_args = args,
                  task_stdin = stdin, task_stdout = stdout, task_stderr = stderr, task_cwd = Some (variant_dir gen),
                  task_env = gen_env gen, dep_nodes = (case cmd of Inl _ \<Rightarrow> [] | Inr n \<Rightarrow> [n]),
                  task_inputs = inputs, task_outputs = outputs, task_dep_vars = gen_dep_vars gen,
                  always_runs = (inputs = [])\<rparr>)))))))))"


subsection \<open>What the task declares\<close>

lemma find_node_found:
  assumes "find_node base a = Inr b"
  shows "\<exists>n. arg_node b = Some n \<and> arg_class b = arg_class a"
  using assms
  by (auto simp: find_node_def input_file_find_def output_file_find_def dir_find_def found_or_type_error_def
      split: arg_class.splits option.splits)

lemma find_args_declare:
  "find_args base args = Inr (as, ins, outs) \<Longrightarrow> Inr a \<in> set as \<Longrightarrow>
    \<exists>n. arg_node a = Some n \<and> (arg_class a = Input_file \<longrightarrow> n \<in> set ins) \<and> (arg_class a = Output_file \<longrightarrow> n \<in> set outs)"
proof (induction args arbitrary: as ins outs)
  case (Cons arg args)
  show ?case
  proof (cases arg)
    case (Inl s)
    then show ?thesis using Cons by (auto simp: res_bind_Inr_iff)
  next
    case (Inr b)
    then obtain c as' ins' outs' where c: "find_node base b = Inr c" "find_args base args = Inr (as', ins', outs')"
      "as = Inr c # as'" "ins = (if arg_class c = Input_file then [the (arg_node c)] else []) @ ins'"
      "outs = (if arg_class c = Output_file then [the (arg_node c)] else []) @ outs'"
      using Cons.prems(1) by (auto simp: res_bind_Inr_iff)
    then consider "a = c" | "Inr a \<in> set as'" using Cons.prems(2) by auto
    then show ?thesis
    proof cases
      case 1
      then show ?thesis using find_node_found [OF c(1)] c(4,5) by auto
    next
      case 2
      then show ?thesis using Cons.IH [OF c(2)] c(4,5) by auto
    qed
  qed
qed simp

lemma apply_cmd_output_parts:
  assumes "apply_cmd_output base gen = Inr task"
  obtains cmd args ins outs stdout stderr stdin more_ins more_outs where
    "find_args base (gen_argv gen) = Inr (args, ins, outs)" "gen_cwd gen = None"
    "command_args task = args" "task_stdin task = stdin" "task_stdout task = stdout" "task_stderr task = stderr"
    "task_command task = cmd" "dep_nodes task = (case cmd of Inl _ \<Rightarrow> [] | Inr n \<Rightarrow> [n])"
    "task_inputs task = ins @ node_list stdin @ more_ins" "task_outputs task = outs @ node_list stdout @ node_list stderr @ more_outs"
    "always_runs task \<longleftrightarrow> task_inputs task = []"
proof -
  obtain command where command: "gen_command gen = Some command" using assms by (cases "gen_command gen") (auto simp: apply_cmd_output_def)
  have cwd: "gen_cwd gen = None" using assms by (cases "gen_cwd gen") (auto simp: apply_cmd_output_def command res_bind_Inr_iff)
  obtain cmd args ins outs stdout stderr stdin more_ins more_outs where found: "find_args base (gen_argv gen) = Inr (args, ins, outs)"
    and task: "(let inputs = ins @ node_list stdin @ more_ins; outputs = outs @ node_list stdout @ node_list stderr @ more_outs
      in if inputs = [] \<and> \<not> no_inputs gen
         then Inl (waf_error ''command-output objects must have at least one input file or give self.no_inputs'')
         else if outputs = [] \<and> \<not> no_outputs gen
         then Inl (waf_error ''command-output objects must have at least one output file or give self.no_outputs'')
         else Inr
           \<lparr>task_command = cmd, command_args = args,
            task_stdin = stdin, task_stdout = stdout, task_stderr = stderr, task_cwd = Some (variant_dir gen),
            task_env = gen_env gen, dep_nodes = (case cmd of Inl _ \<Rightarrow> [] | Inr n \<Rightarrow> [n]),
            task_inputs = inputs, task_outputs = outputs, task_dep_vars = gen_dep_vars gen,
            always_runs = (inputs = [])\<rparr>) = Inr task"
    using assms unfolding apply_cmd_output_def command option.case res_bind_Inr_iff split_paired_Ex prod.case
    by - (elim exE conjE, rule that, assumption, assumption)
  have parts: "command_args task = args" "task_stdin task = stdin" "task_stdout task = stdout" "task_stderr task = stderr"
    "task_command task = cmd" "dep_nodes task = (case cmd of Inl _ \<Rightarrow> [] | Inr n \<Rightarrow> [n])"
    "task_inputs task = ins @ node_list stdin @ more_ins" "task_outputs task = outs @ node_list stdout @ node_list stderr @ more_outs"
    "always_runs task \<longleftrightarrow> task_inputs task = []"
    using task unfolding Let_def by (auto split: if_split_asm)
  show thesis by (rule that [OF found cwd parts])
qed

text \<open>
  a command task declares its files. When \<open>apply_cmd_output\<close> gives a task, every file argument has its node,
  which is among the inputs or outputs as its class says, so are the files of the three streams, and a command
  of the source tree is a dependency; a task without inputs always runs. No \<open>cwd\<close> has been given: with one
  there never is a task.
\<close>

theorem apply_cmd_output_declares:
  assumes "apply_cmd_output base gen = Inr task"
  shows "(\<forall>a. Inr a \<in> set (command_args task) \<longrightarrow>
      (\<exists>n. arg_node a = Some n \<and> (arg_class a = Input_file \<longrightarrow> n \<in> set (task_inputs task)) \<and>
        (arg_class a = Output_file \<longrightarrow> n \<in> set (task_outputs task)))) \<and>
    set_option (task_stdin task) \<subseteq> set (task_inputs task) \<and>
    set_option (task_stdout task) \<union> set_option (task_stderr task) \<subseteq> set (task_outputs task) \<and>
    (\<forall>n. task_command task = Inr n \<longrightarrow> n \<in> set (dep_nodes task)) \<and>
    (always_runs task \<longleftrightarrow> task_inputs task = []) \<and> gen_cwd gen = None"
proof -
  obtain cmd args ins outs stdout stderr stdin more_ins more_outs where found: "find_args base (gen_argv gen) = Inr (args, ins, outs)"
    and cwd: "gen_cwd gen = None" and parts: "command_args task = args" "task_stdin task = stdin" "task_stdout task = stdout"
    "task_stderr task = stderr" "task_command task = cmd" "dep_nodes task = (case cmd of Inl _ \<Rightarrow> [] | Inr n \<Rightarrow> [n])"
    "task_inputs task = ins @ node_list stdin @ more_ins" "task_outputs task = outs @ node_list stdout @ node_list stderr @ more_outs"
    "always_runs task \<longleftrightarrow> task_inputs task = []"
    using assms by (rule apply_cmd_output_parts)
  have "set_option x = set (node_list x)" for x by (cases x) (simp_all add: node_list_def)
  moreover have "\<exists>n. arg_node a = Some n \<and> (arg_class a = Input_file \<longrightarrow> n \<in> set (task_inputs task)) \<and>
      (arg_class a = Output_file \<longrightarrow> n \<in> set (task_outputs task))" if arg: "Inr a \<in> set (command_args task)" for a
  proof -
    obtain n where "arg_node a = Some n" "arg_class a = Input_file \<longrightarrow> n \<in> set ins" "arg_class a = Output_file \<longrightarrow> n \<in> set outs"
      using find_args_declare [OF found] arg [unfolded parts(1)] by blast
    then show ?thesis by (auto simp: parts(7,8))
  qed
  ultimately show ?thesis using cwd parts(9) by (cases cmd) (auto simp: parts(2-8))
qed


definition example_base :: base_path where
  "example_base =
     (let node = (\<lambda>n. \<lparr>node_abspath = ''/s/'' @ n, node_srcpath = ''../'' @ n, node_bldpath = n\<rparr>)
      in \<lparr>find_resource = (\<lambda>n. if n \<in> {''gen.py'', ''a.in''} then Some (node n) else None),
          find_or_declare = (\<lambda>n. Some (node n)), find_dir = (\<lambda>_. None)\<rparr>)"

definition example_gen :: output_gen where
  "example_gen = (init_cmd_output ''/b'')
     \<lparr>gen_command := Some ''gen.py'', gen_stdout := Some ''a.out'',
      gen_argv := [Inl ''-q'', Inr \<lparr>arg_class = Input_file, arg_name = ''a.in'', arg_template = ''-i%s'', arg_node = None\<rparr>]\<rparr>"

lemma apply_cmd_output_declares_witness:
  "\<exists>task. apply_cmd_output example_base example_gen = Inr task \<and> set_option (task_stdout task) \<subseteq> set (task_outputs task) \<and>
    arg_strings True (command_args task) = Inr [''-q'', ''-i/s/a.in'']"
proof -
  have "\<exists>task. apply_cmd_output example_base example_gen = Inr task \<and> arg_strings True (command_args task) = Inr [''-q'', ''-i/s/a.in'']"
    by (simp add: apply_cmd_output_def example_gen_def init_cmd_output_def example_base_def find_command_def Let_def
        find_node_def input_file_find_def found_or_type_error_def find_side_def node_list_def get_path_def input_file_path_def)
  then show ?thesis using apply_cmd_output_declares [of example_base example_gen] by blast
qed

end
