(* ===== verification/Build_Modules.thy ===== *)
theory Build_Modules
  imports Build_Run Config_Files
begin

text \<open>
  The modules of a build, from \<open>build\<close> of the build script \<open>wscript\<close>: those that are added for the dependencies of
  the enabled ones, and which task generators, programs and scripts the enabled modules leave. A task generator is
  a record with an identity; the groups of the build are lists of generators.
\<close>

section \<open>Names\<close>

definition ns3_name :: "string \<Rightarrow> string" where
  "ns3_name m = ''ns3-'' @ m"

section \<open>Task generators\<close>

record generator =
  gen_id :: nat
  gen_name :: string
  gen_target :: string
  gen_features :: "string list"
  gen_source :: string
  gen_dir :: string
  gen_includes :: string
  gen_env :: "(string, string list) dict"
  gen_use :: "string list"
  gen_module :: string
  gen_mode :: string
  gen_tasks :: "string list"
  gen_is_program :: bool
  program_deps :: "string list option"
  is_ns3_module :: bool
  test_library_of :: "string option"

text \<open>A generator as \<open>new_task_gen\<close> makes it.\<close>

definition new_generator :: "string list \<Rightarrow> nat \<Rightarrow> generator" where
  "new_generator features i =
     \<lparr>gen_id = i, gen_name = [], gen_target = [], gen_features = features, gen_source = [], gen_dir = [], gen_includes = [],
      gen_env = [], gen_use = [], gen_module = [], gen_mode = ''install'', gen_tasks = [], gen_is_program = False,
      program_deps = None, is_ns3_module = False, test_library_of = None\<rparr>"

text \<open>
  \<open>get_tgen_by_name\<close> of waf: a dictionary from the names, made anew after a generator was added; of two
  generators with one name the later one counts.
\<close>

definition tgen_names :: "generator list list \<Rightarrow> (string, generator) dict" where
  "tgen_names groups = fold (\<lambda>g d. dict_set (gen_name g) g d) (concat groups) []"

definition get_tgen_by_name :: "(string, generator) dict \<Rightarrow> string \<Rightarrow> generator result" where
  "get_tgen_by_name cache name =
     (case map_of cache name of
        Some g \<Rightarrow> Inr g
      | None \<Rightarrow> Inl (waf_error (''Could not find a task generator for the name '' @ [CHR 0x27] @ name @ [CHR 0x27])))"

section \<open>Modules added for their dependencies\<close>

definition is_ns3_name :: "string \<Rightarrow> bool" where
  "is_ns3_name m \<longleftrightarrow> prefix ''ns3-'' m"

fun add_deps :: "string list \<Rightarrow> string list \<Rightarrow> string list" where
  "add_deps [] modules = modules"
| "add_deps (dep # deps) modules =
     (if \<not> is_ns3_name dep then add_deps deps modules
      else if dep \<notin> set modules then add_deps deps (modules @ [dep])
      else add_deps deps modules)"

definition known_deps :: "(string, generator) dict \<Rightarrow> string set" where
  "known_deps cache = (\<Union>g \<in> snd ` set cache. set (gen_use g))"

lemma finite_known_deps [simp]: "finite (known_deps cache)"
  by (simp add: known_deps_def)

lemma get_tgen_deps: "get_tgen_by_name cache m = Inr g \<Longrightarrow> set (gen_use g) \<subseteq> known_deps cache"
  by (auto simp: get_tgen_by_name_def known_deps_def split: option.splits dest!: map_of_SomeD intro: rev_bexI)

lemma add_deps_shape: "\<exists>new. add_deps deps modules = modules @ new \<and> set new = set (filter is_ns3_name deps) - set modules \<and> distinct new"
proof (induction deps arbitrary: modules)
  case (Cons d deps)
  show ?case
  proof (cases "is_ns3_name d \<and> d \<notin> set modules")
    case True
    obtain new where "add_deps deps (modules @ [d]) = (modules @ [d]) @ new"
      "set new = set (filter is_ns3_name deps) - set (modules @ [d])" "distinct new"
      using Cons.IH [of "modules @ [d]"] by blast
    with True show ?thesis by (intro exI [of _ "d # new"]) auto
  next
    case False
    then have "add_deps (d # deps) modules = add_deps deps modules" by auto
    with Cons.IH [of modules] False show ?thesis by auto
  qed
qed simp

text \<open>The loop over the list that grows while it is gone through; \<open>i\<close> is the place of the loop in the list.\<close>

definition missing_deps :: "(string, generator) dict \<Rightarrow> string list \<Rightarrow> nat" where
  "missing_deps cache modules = card (known_deps cache - set modules)"

lemma missing_deps_add:
  assumes "set deps \<subseteq> known_deps cache"
  shows "missing_deps cache (add_deps deps modules) + length (add_deps deps modules) = missing_deps cache modules + length modules"
proof -
  obtain new where new: "add_deps deps modules = modules @ new" "set new = set (filter is_ns3_name deps) - set modules" "distinct new"
    using add_deps_shape by blast
  have "known_deps cache - set modules = (known_deps cache - set (modules @ new)) \<union> set new"
    using new assms by auto
  moreover have "(known_deps cache - set (modules @ new)) \<inter> set new = {}" by auto
  ultimately have "missing_deps cache modules = missing_deps cache (modules @ new) + card (set new)"
    by (simp add: missing_deps_def card_Un_disjoint)
  with new(1,2) distinct_card [OF new(3)] show ?thesis by simp
qed

function dependency_pass ::
  "(string, generator) dict \<Rightarrow> nat \<Rightarrow> string list \<Rightarrow> bool \<Rightarrow> (string list \<times> bool) result" where
  "dependency_pass cache i modules changed =
     (if i < length modules then
        (case get_tgen_by_name cache (modules ! i) of
           Inl e \<Rightarrow> Inl e
         | Inr module_obj \<Rightarrow>
             dependency_pass cache (Suc i) (add_deps (gen_use module_obj) modules)
               (changed \<or> add_deps (gen_use module_obj) modules \<noteq> modules))
      else Inr (modules, changed))"
  by pat_completeness auto

termination
proof (relation "measure (\<lambda>(cache, i, modules, changed). missing_deps cache modules + length modules - i)", goal_cases)
  case (2 cache i modules changed g)
  then have "missing_deps cache (add_deps (gen_use g) modules) + length (add_deps (gen_use g) modules) = missing_deps cache modules + length modules"
    by (intro missing_deps_add get_tgen_deps)
  with 2 show ?case by simp
qed simp

declare dependency_pass.simps [simp del]

lemma dependency_pass_grows:
  "dependency_pass cache i modules changed = Inr (modules', changed') \<Longrightarrow>
   (\<exists>new. modules' = modules @ new \<and> set new \<subseteq> known_deps cache - set modules) \<and>
   (changed' \<longleftrightarrow> changed \<or> modules' \<noteq> modules)"
proof (induction cache i modules changed arbitrary: modules' changed' rule: dependency_pass.induct)
  case (1 cache i modules changed)
  show ?case
  proof (cases "i < length modules")
    case True
    with 1 obtain g where g: "get_tgen_by_name cache (modules ! i) = Inr g"
      by (auto simp: dependency_pass.simps [of cache i modules changed] split: sum.splits)
    obtain new where new: "add_deps (gen_use g) modules = modules @ new"
      "set new = set (filter is_ns3_name (gen_use g)) - set modules"
      using add_deps_shape by blast
    have "dependency_pass cache (Suc i) (modules @ new) (changed \<or> new \<noteq> []) = Inr (modules', changed')"
      using "1.prems" True g new by (subst (asm) dependency_pass.simps) simp
    with "1.IH" [OF True g] new obtain more where more: "modules' = (modules @ new) @ more"
      "set more \<subseteq> known_deps cache - set (modules @ new)" "changed' \<longleftrightarrow> (changed \<or> new \<noteq> []) \<or> modules' \<noteq> modules @ new"
      by fastforce
    moreover have "set new \<subseteq> known_deps cache - set modules" using new get_tgen_deps [OF g] by auto
    ultimately show ?thesis by (intro conjI exI [of _ "new @ more"]) auto
  next
    case False
    with "1.prems" show ?thesis by (subst (asm) dependency_pass.simps) auto
  qed
qed

function enable_dependencies :: "(string, generator) dict \<Rightarrow> string list \<Rightarrow> string list result" where
  "enable_dependencies cache modules =
     (case dependency_pass cache 0 modules False of
        Inl e \<Rightarrow> Inl e
      | Inr (modules', changed) \<Rightarrow> if changed then enable_dependencies cache modules' else Inr modules')"
  by pat_completeness auto

termination
proof (relation "measure (\<lambda>(cache, modules). missing_deps cache modules)", goal_cases)
  case (2 cache modules r modules' changed)
  then have "dependency_pass cache 0 modules False = Inr (modules', True)" by simp
  from dependency_pass_grows [OF this] obtain new where "modules' = modules @ new" "new \<noteq> []"
    "set new \<subseteq> known_deps cache - set modules" by auto
  then have "known_deps cache - set modules' \<subset> known_deps cache - set modules" by (cases new) auto
  then show ?case by (simp add: missing_deps_def psubset_card_mono)
qed simp

declare enable_dependencies.simps [simp del]

text \<open>What the names of a list need: the list and, again and again, the modules that a generator uses.\<close>

inductive needed :: "(string, generator) dict \<Rightarrow> string list \<Rightarrow> string \<Rightarrow> bool" for cache modules where
  needed_start: "m \<in> set modules \<Longrightarrow> needed cache modules m"
| needed_dep: "needed cache modules m \<Longrightarrow> map_of cache m = Some g \<Longrightarrow> d \<in> set (gen_use g) \<Longrightarrow> is_ns3_name d \<Longrightarrow>
    needed cache modules d"

definition no_generator :: "string \<Rightarrow> py_exn" where
  "no_generator name = waf_error (''Could not find a task generator for the name '' @ [CHR 0x27] @ name @ [CHR 0x27])"

lemma get_tgen_cases: "get_tgen_by_name cache m = (case map_of cache m of Some g \<Rightarrow> Inr g | None \<Rightarrow> Inl (no_generator m))"
  by (simp add: get_tgen_by_name_def no_generator_def split: option.split)

definition closed_at :: "(string, generator) dict \<Rightarrow> string list \<Rightarrow> string \<Rightarrow> bool" where
  "closed_at cache modules m \<longleftrightarrow>
     (case map_of cache m of None \<Rightarrow> False | Some g \<Rightarrow> set (filter is_ns3_name (gen_use g)) \<subseteq> set modules)"

lemma needed_weaken: "needed cache modules' m \<Longrightarrow> (\<And>x. x \<in> set modules' \<Longrightarrow> needed cache modules x) \<Longrightarrow> needed cache modules m"
  by (induction rule: needed.induct) (auto intro: needed_dep)

lemma dependency_pass_needed:
  "case dependency_pass cache i modules changed of
     Inl e \<Rightarrow> (\<exists>m. needed cache modules m \<and> map_of cache m = None \<and> e = no_generator m)
   | Inr (modules', _) \<Rightarrow> (\<forall>m \<in> set modules'. needed cache modules m) \<and> list_all (closed_at cache modules') (drop i modules')"
proof (induction cache i modules changed rule: dependency_pass.induct)
  case (1 cache i modules changed)
  show ?case
  proof (cases "i < length modules")
    case True
    have start: "needed cache modules (modules ! i)" using True by (simp add: needed_start)
    show ?thesis
    proof (cases "map_of cache (modules ! i)")
      case None
      with True start show ?thesis by (subst dependency_pass.simps) (auto simp: get_tgen_cases)
    next
      case (Some g)
      then have g: "get_tgen_by_name cache (modules ! i) = Inr g" by (simp add: get_tgen_cases)
      let ?grown = "add_deps (gen_use g) modules"
      obtain new where new: "?grown = modules @ new" "set new = set (filter is_ns3_name (gen_use g)) - set modules"
        using add_deps_shape by blast
      have from_grown: "needed cache modules m" if "needed cache ?grown m" for m
        using that by (rule needed_weaken) (use new start Some in \<open>auto intro: needed_start needed_dep\<close>)
      have eq: "dependency_pass cache i modules changed = dependency_pass cache (Suc i) ?grown (changed \<or> ?grown \<noteq> modules)"
        using True g by (subst dependency_pass.simps) simp
      show ?thesis
      proof (cases "dependency_pass cache (Suc i) ?grown (changed \<or> ?grown \<noteq> modules)")
        case (Inl e)
        with "1.IH" [OF True g] from_grown show ?thesis unfolding eq by auto
      next
        case (Inr r)
        obtain modules' ch where r: "r = (modules', ch)" by fastforce
        obtain more where more: "modules' = modules @ new @ more"
          using dependency_pass_grows [of cache "Suc i" ?grown _ modules' ch] Inr r new(1) by auto
        have "set (filter is_ns3_name (gen_use g)) \<subseteq> set modules'" using more new(2) by auto
        then have "closed_at cache modules' (modules ! i)" by (simp add: closed_at_def Some)
        moreover have "drop i modules' = modules ! i # drop (Suc i) modules'"
          using True more by (simp add: Cons_nth_drop_Suc nth_append flip: Cons_nth_drop_Suc)
        ultimately show ?thesis using "1.IH" [OF True g] from_grown Inr r unfolding eq by auto
      qed
    qed
  qed (subst dependency_pass.simps, auto intro: needed_start)
qed

lemma closed_needed:
  assumes "list_all (closed_at cache modules') modules'" "set modules \<subseteq> set modules'" "needed cache modules m"
  shows "m \<in> set modules'"
  using assms(3)
proof (induction rule: needed.induct)
  case (needed_dep m g d)
  then show ?case using assms(1) by (auto simp: list_all_iff closed_at_def split: option.splits)
qed (use assms(2) in auto)

lemma enable_dependencies_needed:
  "case enable_dependencies cache modules of
     Inl e \<Rightarrow> (\<exists>m. needed cache modules m \<and> map_of cache m = None \<and> e = no_generator m)
   | Inr modules' \<Rightarrow> (\<exists>new. modules' = modules @ new) \<and> (\<forall>m \<in> set modules'. needed cache modules m) \<and>
       list_all (closed_at cache modules') modules'"
proof (induction cache modules rule: enable_dependencies.induct)
  case (1 cache modules)
  note pass = dependency_pass_needed [where cache = cache and i = 0 and modules = modules and changed = False]
  show ?case
  proof (cases "dependency_pass cache 0 modules False")
    case (Inl e)
    with pass show ?thesis by (subst enable_dependencies.simps) simp
  next
    case (Inr r)
    obtain modules1 changed where r: "r = (modules1, changed)" by fastforce
    obtain new where new: "modules1 = modules @ new" using dependency_pass_grows Inr r by blast
    have via: "needed cache modules m" if "needed cache modules1 m" for m
      using that by (rule needed_weaken) (use pass Inr r in auto)
    show ?thesis
    proof (cases changed)
      case True
      then have eq: "enable_dependencies cache modules = enable_dependencies cache modules1"
        using Inr r by (subst enable_dependencies.simps) simp
      from "1.IH" [OF Inr r [symmetric] True] new via show ?thesis unfolding eq by (auto split: sum.splits)
    next
      case False
      then have "enable_dependencies cache modules = Inr modules1" using Inr r by (subst enable_dependencies.simps) simp
      with pass Inr r new show ?thesis by simp
    qed
  qed
qed

lemma add_deps_distinct: "distinct modules \<Longrightarrow> distinct (add_deps deps modules)"
  by (induction deps modules rule: add_deps.induct) auto

lemma dependency_pass_distinct:
  "distinct modules \<Longrightarrow> dependency_pass cache i modules changed = Inr (modules', changed') \<Longrightarrow> distinct modules'"
proof (induction cache i modules changed arbitrary: modules' changed' rule: dependency_pass.induct)
  case (1 cache i modules changed)
  from "1.prems"(2) show ?case
    by (subst (asm) dependency_pass.simps)
       (use "1.IH" "1.prems"(1) in \<open>auto split: if_splits sum.splits simp: add_deps_distinct\<close>)
qed

lemma enable_dependencies_distinct:
  "distinct modules \<Longrightarrow> enable_dependencies cache modules = Inr modules' \<Longrightarrow> distinct modules'"
proof (induction cache modules arbitrary: modules' rule: enable_dependencies.induct)
  case (1 cache modules)
  from "1.prems"(2) obtain modules1 changed where pass: "dependency_pass cache 0 modules False = Inr (modules1, changed)"
    by (subst (asm) enable_dependencies.simps) (auto split: sum.splits)
  have distinct: "distinct modules1" using dependency_pass_distinct [OF "1.prems"(1) pass] .
  show ?case
  proof (cases changed)
    case True
    then have "enable_dependencies cache modules1 = Inr modules'"
      using "1.prems"(2) pass by (subst (asm) enable_dependencies.simps) simp
    with "1.IH" [OF pass refl True distinct] show ?thesis by simp
  next
    case False
    then have "modules' = modules1" using "1.prems"(2) pass by (subst (asm) enable_dependencies.simps) simp
    with distinct show ?thesis by simp
  qed
qed

section \<open>The generators that are kept\<close>

text \<open>\<open>_exclude_taskgen\<close>: the first generator that is the given one goes.\<close>

fun remove_gen :: "nat \<Rightarrow> generator list \<Rightarrow> generator list" where
  "remove_gen i [] = []"
| "remove_gen i (g # gs) = (if gen_id g = i then gs else g # remove_gen i gs)"

fun exclude_taskgen :: "nat \<Rightarrow> generator list list \<Rightarrow> generator list list" where
  "exclude_taskgen i [] = []"
| "exclude_taskgen i (grp # groups) =
     (if i \<in> gen_id ` set grp then remove_gen i grp # groups else grp # exclude_taskgen i groups)"

definition update_gen :: "nat \<Rightarrow> (generator \<Rightarrow> generator) \<Rightarrow> generator list list \<Rightarrow> generator list list" where
  \<comment> \<open>an assignment to attributes of the object\<close>
  "update_gen i f groups = map (map (\<lambda>g. if gen_id g = i then f g else g)) groups"

definition remove_headers :: "generator \<Rightarrow> generator" where
  "remove_headers g = g\<lparr>gen_mode := ''remove''\<rparr>"

text \<open>The body of the loop over the generators, in its five parts.\<close>

definition filter_header :: "string \<Rightarrow> string list \<Rightarrow> generator \<Rightarrow> generator list list \<Rightarrow> generator list list" where
  "filter_header feature modules obj groups =
     (if feature \<in> set (gen_features obj) \<and> ns3_name (gen_module obj) \<notin> set modules
      then update_gen (gen_id obj) remove_headers groups else groups)"

definition filter_program ::
  "string list \<Rightarrow> generator \<Rightarrow> generator list list \<times> string list \<Rightarrow> generator list list \<times> string list" where
  "filter_program modules obj s =
     (let (groups, programs) = s in
      case program_deps obj of
        None \<Rightarrow> (groups, programs)
      | Some deps \<Rightarrow>
          if list_ex (\<lambda>dep. dep \<notin> set modules) deps then (exclude_taskgen (gen_id obj) groups, programs)
          else (groups, programs @ [gen_name obj]))"

definition filter_module :: "string list \<Rightarrow> generator \<Rightarrow> generator list list \<Rightarrow> generator list list" where
  "filter_module modules obj groups =
     (if is_ns3_module obj \<and> gen_name obj \<notin> set modules then exclude_taskgen (gen_id obj) groups else groups)"

definition filter_test_library :: "string list \<Rightarrow> bool \<Rightarrow> generator \<Rightarrow> generator list list \<Rightarrow> generator list list" where
  "filter_test_library modules enable_tests obj groups =
     (case test_library_of obj of
        None \<Rightarrow> groups
      | Some m \<Rightarrow> if \<not> enable_tests \<or> m \<notin> set modules then exclude_taskgen (gen_id obj) groups else groups)"

definition filter_generator ::
  "string list \<Rightarrow> bool \<Rightarrow> generator \<Rightarrow> generator list list \<times> string list \<Rightarrow> generator list list \<times> string list" where
  "filter_generator modules enable_tests obj s =
     (let (groups, programs) = s;
          groups = filter_header ''ns3moduleheader'' modules obj groups;
          (groups, programs) = filter_program modules obj (groups, programs);
          groups = filter_module modules obj groups;
          groups = filter_test_library modules enable_tests obj groups;
          groups = filter_header ''ns3header'' modules obj groups
      in (groups, programs))"

definition filter_generators ::
  "string list \<Rightarrow> bool \<Rightarrow> generator list list \<Rightarrow> string list \<Rightarrow> generator list list \<times> string list" where
  "filter_generators modules enable_tests groups programs =
     fold (filter_generator modules enable_tests) (concat groups) (groups, programs)"

subsection \<open>What is kept\<close>

definition kept :: "string list \<Rightarrow> bool \<Rightarrow> generator \<Rightarrow> bool" where
  "kept modules enable_tests g \<longleftrightarrow>
     (case program_deps g of None \<Rightarrow> True | Some deps \<Rightarrow> set deps \<subseteq> set modules) \<and>
     (is_ns3_module g \<longrightarrow> gen_name g \<in> set modules) \<and>
     (case test_library_of g of None \<Rightarrow> True | Some m \<Rightarrow> enable_tests \<and> m \<in> set modules)"

definition stale_headers :: "string list \<Rightarrow> generator \<Rightarrow> bool" where
  "stale_headers modules g \<longleftrightarrow>
     (''ns3moduleheader'' \<in> set (gen_features g) \<or> ''ns3header'' \<in> set (gen_features g)) \<and>
     ns3_name (gen_module g) \<notin> set modules"

definition header_mode :: "string list \<Rightarrow> generator \<Rightarrow> generator" where
  "header_mode modules g = (if stale_headers modules g then remove_headers g else g)"

definition runnable_program :: "string list \<Rightarrow> generator \<Rightarrow> bool" where
  "runnable_program modules g \<longleftrightarrow> (case program_deps g of None \<Rightarrow> False | Some deps \<Rightarrow> set deps \<subseteq> set modules)"

text \<open>On generators with different identities, the rounds of the loop for the generators \<open>xs\<close>.\<close>

definition kept_after :: "string list \<Rightarrow> bool \<Rightarrow> generator list \<Rightarrow> generator \<Rightarrow> bool" where
  "kept_after modules enable_tests xs g \<longleftrightarrow> \<not> list_ex (\<lambda>x. gen_id x = gen_id g \<and> \<not> kept modules enable_tests x) xs"

definition mode_after :: "string list \<Rightarrow> generator list \<Rightarrow> generator \<Rightarrow> generator" where
  "mode_after modules xs g = (if list_ex (\<lambda>x. gen_id x = gen_id g \<and> stale_headers modules x) xs then remove_headers g else g)"

definition settled :: "string list \<Rightarrow> bool \<Rightarrow> generator list \<Rightarrow> generator list list \<Rightarrow> generator list list" where
  "settled modules enable_tests xs groups =
     map (\<lambda>gs. map (mode_after modules xs) (filter (kept_after modules enable_tests xs) gs)) groups"

definition all_ids :: "generator list list \<Rightarrow> nat list" where
  "all_ids groups = map gen_id (concat groups)"

lemma remove_gen_filter: "distinct (map gen_id gs) \<Longrightarrow> remove_gen i gs = filter (\<lambda>g. gen_id g \<noteq> i) gs"
proof (induction gs)
  case (Cons g gs)
  then show ?case by (auto simp: image_iff intro!: filter_True [symmetric])
qed simp

lemma filter_absent: "i \<notin> gen_id ` set gs \<Longrightarrow> filter (\<lambda>g. gen_id g \<noteq> i) gs = gs"
  by (auto intro!: filter_True)

lemma exclude_taskgen_filter:
  "distinct (all_ids groups) \<Longrightarrow> exclude_taskgen i groups = map (filter (\<lambda>g. gen_id g \<noteq> i)) groups"
proof (induction groups)
  case (Cons gs groups)
  show ?case
  proof (cases "i \<in> gen_id ` set gs")
    case True
    with Cons.prems have "i \<notin> gen_id ` set hs" if "hs \<in> set groups" for hs
      using that by (auto simp: all_ids_def)
    then have "map (filter (\<lambda>g. gen_id g \<noteq> i)) groups = groups" by (intro map_idI filter_absent) auto
    with True Cons.prems show ?thesis by (simp add: all_ids_def remove_gen_filter)
  next
    case False
    with Cons show ?thesis by (simp add: all_ids_def filter_absent)
  qed
qed simp

lemma all_ids_update [simp]: "(\<And>g. gen_id (f g) = gen_id g) \<Longrightarrow> all_ids (update_gen i f groups) = all_ids groups"
  by (simp add: all_ids_def update_gen_def map_concat o_def if_distrib cong: if_cong)

lemma remove_headers_id [simp]: "gen_id (remove_headers g) = gen_id g"
  by (simp add: remove_headers_def)

lemma remove_headers_twice [simp]: "remove_headers (remove_headers g) = remove_headers g"
  by (simp add: remove_headers_def)

lemma distinct_ids_filter: "distinct (all_ids groups) \<Longrightarrow> distinct (all_ids (map (filter P) groups))"
proof (induction groups)
  case (Cons gs groups)
  then show ?case by (auto simp: all_ids_def intro: distinct_map_filter)
qed simp

lemma distinct_ids_settled: "distinct (all_ids groups) \<Longrightarrow> distinct (all_ids (settled modules enable_tests xs groups))"
proof -
  have "all_ids (settled modules enable_tests xs groups) = all_ids (map (filter (kept_after modules enable_tests xs)) groups)"
    by (simp add: all_ids_def settled_def map_concat o_def mode_after_def if_distrib cong: if_cong)
  then show "distinct (all_ids groups) \<Longrightarrow> ?thesis" by (simp add: distinct_ids_filter)
qed

lemma excluded_settled:
  "distinct (all_ids groups) \<Longrightarrow>
   (if b then exclude_taskgen i groups else groups) = map (filter (\<lambda>g. \<not> (b \<and> gen_id g = i))) groups"
  by (cases b) (simp_all add: exclude_taskgen_filter map_idI)

lemma marked_settled:
  "(if b then update_gen i remove_headers groups else groups) =
   map (map (\<lambda>g. if b \<and> gen_id g = i then remove_headers g else g)) groups"
  by (simp add: update_gen_def)

lemma filter_generator_settled:
  assumes "distinct (all_ids groups)"
  shows "filter_generator modules enable_tests obj (groups, programs) =
    (settled modules enable_tests [obj] groups,
     programs @ (if runnable_program modules obj then [gen_name obj] else []))"
proof -
  let ?i = "gen_id obj"
  define b1 where "b1 \<longleftrightarrow> ''ns3moduleheader'' \<in> set (gen_features obj) \<and> ns3_name (gen_module obj) \<notin> set modules"
  define b2 where "b2 \<longleftrightarrow> (case program_deps obj of None \<Rightarrow> False | Some deps \<Rightarrow> \<not> set deps \<subseteq> set modules)"
  define b3 where "b3 \<longleftrightarrow> is_ns3_module obj \<and> gen_name obj \<notin> set modules"
  define b4 where "b4 \<longleftrightarrow> (case test_library_of obj of None \<Rightarrow> False | Some m \<Rightarrow> \<not> enable_tests \<or> m \<notin> set modules)"
  define b5 where "b5 \<longleftrightarrow> ''ns3header'' \<in> set (gen_features obj) \<and> ns3_name (gen_module obj) \<notin> set modules"
  have steps: "filter_header ''ns3moduleheader'' modules obj gs = (if b1 then update_gen ?i remove_headers gs else gs)"
    "filter_program modules obj (gs, r) = (if b2 then exclude_taskgen ?i gs else gs, r @ (if runnable_program modules obj then [gen_name obj] else []))"
    "filter_module modules obj gs = (if b3 then exclude_taskgen ?i gs else gs)"
    "filter_test_library modules enable_tests obj gs = (if b4 then exclude_taskgen ?i gs else gs)"
    "filter_header ''ns3header'' modules obj gs = (if b5 then update_gen ?i remove_headers gs else gs)" for gs r
    by (auto simp: filter_header_def filter_program_def filter_module_def filter_test_library_def b1_def b2_def b3_def
        b4_def b5_def list_ex_iff runnable_program_def split: option.splits)
  have drops: "\<not> kept modules enable_tests obj \<longleftrightarrow> b2 \<or> b3 \<or> b4" "stale_headers modules obj \<longleftrightarrow> b1 \<or> b5"
    by (auto simp: kept_def stale_headers_def b1_def b2_def b3_def b4_def b5_def split: option.splits)
  have ids1: "distinct (all_ids (map (map (\<lambda>g. if b1 \<and> gen_id g = ?i then remove_headers g else g)) groups))"
    using assms by (simp flip: marked_settled)
  have each: "map (\<lambda>g. if b5 \<and> gen_id g = ?i then remove_headers g else g)
      (filter (\<lambda>x. (b2 \<longrightarrow> gen_id x \<noteq> ?i) \<and> (b3 \<longrightarrow> gen_id x \<noteq> ?i) \<and> (b4 \<longrightarrow> gen_id x \<noteq> ?i))
        (map (\<lambda>g. if b1 \<and> gen_id g = ?i then remove_headers g else g) gs)) =
      map (mode_after modules [obj]) (filter (kept_after modules enable_tests [obj]) gs)" for gs
    using drops by (induction gs) (auto simp: mode_after_def kept_after_def)
  show ?thesis
    unfolding filter_generator_def Let_def prod.case steps marked_settled
    using ids1 distinct_ids_filter [OF ids1] distinct_ids_filter [OF distinct_ids_filter [OF ids1]]
    by (simp add: excluded_settled marked_settled settled_def each)
qed

lemma mode_after_id [simp]: "gen_id (mode_after modules xs g) = gen_id g"
  by (simp add: mode_after_def)

lemma kept_after_mode [simp]: "kept_after modules enable_tests ys (mode_after modules xs g) = kept_after modules enable_tests ys g"
  by (simp add: kept_after_def)

lemma kept_after_append:
  "kept_after modules enable_tests (xs @ ys) = (\<lambda>g. kept_after modules enable_tests xs g \<and> kept_after modules enable_tests ys g)"
  by (simp add: kept_after_def fun_eq_iff)

lemma mode_after_append: "mode_after modules ys (mode_after modules xs g) = mode_after modules (xs @ ys) g"
  unfolding mode_after_def by (cases "list_ex (\<lambda>x. gen_id x = gen_id g \<and> stale_headers modules x) xs") simp_all

lemma settled_append: "settled modules enable_tests ys (settled modules enable_tests xs groups) = settled modules enable_tests (xs @ ys) groups"
  by (simp add: settled_def filter_map o_def mode_after_append kept_after_append)

lemma filter_loop_settled:
  "distinct (all_ids groups) \<Longrightarrow>
   fold (filter_generator modules enable_tests) xs (groups, programs) =
     (settled modules enable_tests xs groups, programs @ map gen_name (filter (runnable_program modules) xs))"
proof (induction xs arbitrary: groups programs)
  case Nil
  have "kept_after modules enable_tests [] = (\<lambda>_. True)" "mode_after modules [] = id"
    by (simp_all add: kept_after_def mode_after_def fun_eq_iff)
  then show ?case by (simp add: settled_def)
next
  case (Cons x xs)
  from Cons.IH [OF distinct_ids_settled [OF Cons.prems]] show ?case
    by (simp add: filter_generator_settled [OF Cons.prems] settled_append)
qed

lemma same_id: "distinct (all_ids groups) \<Longrightarrow> x \<in> set (concat groups) \<Longrightarrow> g \<in> set (concat groups) \<Longrightarrow> gen_id x = gen_id g \<Longrightarrow> x = g"
  unfolding all_ids_def by (rule inj_onD [of gen_id "set (concat groups)"]) (simp_all only: distinct_map)

lemma settled_all:
  assumes "distinct (all_ids groups)"
  shows "settled modules enable_tests (concat groups) groups = map (\<lambda>gs. map (header_mode modules) (filter (kept modules enable_tests) gs)) groups"
proof -
  have "kept_after modules enable_tests (concat groups) g = kept modules enable_tests g"
    "mode_after modules (concat groups) g = header_mode modules g" if "g \<in> set (concat groups)" for g
    using that same_id [OF assms, of _ g]
    unfolding kept_after_def mode_after_def header_mode_def list_ex_iff by metis+
  then show ?thesis unfolding settled_def
    by (intro map_cong refl filter_cong) auto
qed

section \<open>Scripts\<close>

text \<open>\<open>modules\<close> has a value only when some modules are enabled.\<close>

fun script_runnable :: "string list option \<Rightarrow> string list \<Rightarrow> bool result" where
  "script_runnable modules [] = Inr True"
| "script_runnable None (dep # deps) = Inl UnboundLocalError"
| "script_runnable (Some modules) (dep # deps) =
     (if dep \<notin> set modules then Inr False else script_runnable (Some modules) deps)"

definition runnable_scripts :: "string list option \<Rightarrow> (string \<times> string list) list \<Rightarrow> string list \<Rightarrow> string list result" where
  "runnable_scripts modules scripts =
     for_each (\<lambda>(script, dependencies) found.
       res_bind (script_runnable modules dependencies) (\<lambda>ok. Inr (if ok then found @ [script] else found))) scripts"

lemma script_runnable_Some: "script_runnable (Some modules) deps = Inr (set deps \<subseteq> set modules)"
  by (induction deps) auto

lemma runnable_scripts_Some:
  "runnable_scripts (Some modules) scripts found = Inr (found @ map fst (filter (\<lambda>(_, deps). set deps \<subseteq> set modules) scripts))"
  unfolding runnable_scripts_def
  by (induction scripts arbitrary: found) (simp_all add: script_runnable_Some split: prod.split)

lemma enabled_needed:
  "enable_dependencies cache modules = Inr modules' \<Longrightarrow> set modules' = Collect (needed cache modules)"
  using enable_dependencies_needed [where cache = cache and modules = modules] closed_needed [of cache modules' modules]
  by auto

section \<open>Properties\<close>

text \<open>C8: what \<open>build\<close> adds to the list of enabled modules is the closure under their dependencies: the loop over the
  list that it extends comes to an end, keeps the list in front, adds each module once, and finds every module that
  an enabled one needs, whether it is listed before or after it; or it raises the error of waf for a needed
  module that has no generator. The test for \<open>None\<close> in the code never applies.\<close>

theorem enable_dependencies_closure:
  "case enable_dependencies cache modules of
     Inl e \<Rightarrow> \<exists>m. needed cache modules m \<and> map_of cache m = None \<and> e = no_generator m
   | Inr modules' \<Rightarrow>
       set modules' = Collect (needed cache modules) \<and> set modules' \<subseteq> dom (map_of cache) \<and>
       take (length modules) modules' = modules \<and> (distinct modules' = distinct modules)"
proof (cases "enable_dependencies cache modules")
  case (Inl e)
  with enable_dependencies_needed [where cache = cache and modules = modules] show ?thesis by simp
next
  case (Inr modules')
  note fact = enable_dependencies_needed [where cache = cache and modules = modules, unfolded Inr sum.case]
  then obtain new where new: "modules' = modules @ new" by blast
  have "set modules' \<subseteq> dom (map_of cache)"
    using fact by (auto simp: list_all_iff closed_at_def split: option.splits)
  with enabled_needed [OF Inr] enable_dependencies_distinct [OF _ Inr] new show ?thesis by (auto simp: Inr)
qed

text \<open>C30: when the modules are settled, the loop over a copy of the list of generators leaves, in each group and in order,
  the modules that are enabled, the programs whose modules all are, and the test libraries of enabled modules when
  tests are on; the headers of the other modules are marked for removal; and the programs kept for their modules
  are the ones declared runnable.\<close>

theorem filter_generators_exact:
  assumes "distinct (all_ids groups)"
  shows "filter_generators modules enable_tests groups programs =
    (map (\<lambda>gs. map (header_mode modules) (filter (kept modules enable_tests) gs)) groups,
     programs @ map gen_name (filter (runnable_program modules) (concat groups)))"
  using filter_loop_settled [OF assms] settled_all [OF assms] by (simp add: filter_generators_def)

lemma filter_generators_exact_witness:
  "snd (filter_generators [''ns3-core''] False
     [[(new_generator [] 0)\<lparr>gen_name := ''p'', program_deps := Some [''ns3-core'']\<rparr>,
       (new_generator [] 1)\<lparr>gen_name := ''q'', program_deps := Some [''ns3-core'', ''ns3-b'']\<rparr>]] []) = [''p'']"
  by (subst filter_generators_exact) (simp_all add: all_ids_def new_generator_def runnable_program_def)

end
