(* ===== verification/Build_Configure.thy ===== *)
theory Build_Configure
  imports Build_Modules
begin

text \<open>
  The configuration of the simulator: \<open>configure\<close> of the build script \<open>wscript\<close> and the checks of
  \<open>waf-tools/pkgconfig.py\<close>. The environment of waf is three dictionaries, of its lists, flags and strings. The tools
  of waf, the scripts of subdirectories, the compiler and the system are parameters.
\<close>

section \<open>The modules that are enabled\<close>

text \<open>
  The list of enabled modules, and whether it is the list of all modules itself: then what is removed from the one
  is gone from the other.
\<close>

definition choose_modules :: "string option \<Rightarrow> string list \<Rightarrow> string list \<Rightarrow> (string list \<times> bool) result" where
  "choose_modules enable_modules wanted all_ns3 =
     (if truthy enable_modules then Inr (map ns3_name (split_on (CHR '','') (the enable_modules)), False)
      else
        res_bind (py_get wanted 0) (\<lambda>m.
          if m = ''all_modules'' then Inr (all_ns3, True) else Inr (map ns3_name wanted, False)))"

definition nothing_left_message :: "string \<Rightarrow> string" where
  "nothing_left_message m =
     ''Exiting because the '' @ m @ '' module can not be built and it was the only one enabled.''"

fun remove_not_built :: "string list \<Rightarrow> string list \<Rightarrow> string list result" where
  "remove_not_built [] modules = Inr modules"
| "remove_not_built (m # ms) modules =
     (if ns3_name m \<in> set modules then
        let modules = remove1 (ns3_name m) modules
        in if modules = [] then Inl (waf_error (nothing_left_message m)) else remove_not_built ms modules
      else remove_not_built ms modules)"

record module_lists =
  ns3_modules :: "string list"
  ns3_enabled_modules :: "string list"
  modules_not_built :: "string list"

definition configure_modules ::
  "string option \<Rightarrow> string list \<Rightarrow> bool \<Rightarrow> string \<Rightarrow> string list \<Rightarrow> string list \<Rightarrow> module_lists result" where
  "configure_modules enable_modules wanted static_build plat all_ns3 not_built =
     res_bind (choose_modules enable_modules wanted all_ns3) (\<lambda>(chosen, aliased).
       (let not_built = (if static_build \<and> plat = ''darwin'' then not_built @ [''template''] else not_built)
        in res_bind (remove_not_built not_built chosen) (\<lambda>left.
             Inr \<lparr>ns3_modules = (if aliased then left else all_ns3), ns3_enabled_modules = left,
                  modules_not_built = not_built\<rparr>)))"

section \<open>The state\<close>

record 'e conf_ctx =
  cf_lists :: "(string, string list) dict"
  cf_flags :: "(string, bool) dict"
  cf_texts :: "(string, string) dict"
  cf_features :: "(string \<times> string \<times> bool \<times> string) list"
  cf_messages :: "string list"
  cf_console :: "string list"
  cf_ext :: 'e

definition cf_list :: "string \<Rightarrow> 'e conf_ctx \<Rightarrow> string list" where
  "cf_list n c = (case map_of (cf_lists c) n of None \<Rightarrow> [] | Some v \<Rightarrow> v)"

definition cf_flag :: "string \<Rightarrow> 'e conf_ctx \<Rightarrow> bool" where
  "cf_flag n c = (case map_of (cf_flags c) n of None \<Rightarrow> False | Some v \<Rightarrow> v)"

definition cf_text :: "string \<Rightarrow> 'e conf_ctx \<Rightarrow> string" where
  "cf_text n c = (case map_of (cf_texts c) n of None \<Rightarrow> [] | Some v \<Rightarrow> v)"

definition set_list :: "string \<Rightarrow> string list \<Rightarrow> 'e conf_ctx \<Rightarrow> 'e conf_ctx" where
  "set_list n v c = c\<lparr>cf_lists := dict_set n v (cf_lists c)\<rparr>"

definition append_list :: "string \<Rightarrow> string list \<Rightarrow> 'e conf_ctx \<Rightarrow> 'e conf_ctx" where
  "append_list n v c = set_list n (cf_list n c @ v) c"

definition set_flag :: "string \<Rightarrow> bool \<Rightarrow> 'e conf_ctx \<Rightarrow> 'e conf_ctx" where
  "set_flag n v c = c\<lparr>cf_flags := dict_set n v (cf_flags c)\<rparr>"

definition set_text :: "string \<Rightarrow> string \<Rightarrow> 'e conf_ctx \<Rightarrow> 'e conf_ctx" where
  "set_text n v c = c\<lparr>cf_texts := dict_set n v (cf_texts c)\<rparr>"

definition io_change :: "('w \<Rightarrow> 'w) \<Rightarrow> ('w, unit) io" where
  "io_change f w = (Inr (), f w)"

definition report_optional_feature :: "string \<Rightarrow> string \<Rightarrow> bool \<Rightarrow> string \<Rightarrow> 'e conf_ctx \<Rightarrow> 'e conf_ctx" where
  "report_optional_feature name caption was_enabled reason_not_enabled c =
     c\<lparr>cf_features := cf_features c @ [(name, caption, was_enabled, reason_not_enabled)]\<rparr>"

section \<open>Checking flags\<close>

record compile_request =
  compile_env :: "(string, string list) dict"
  compile_filename :: string
  compile_features :: "string list"

record 'e conf_ops =
  load_tool :: "string \<Rightarrow> ('e conf_ctx, unit) io"
  sub_config :: "string \<Rightarrow> ('e conf_ctx, unit) io"
  find_tool :: "string \<Rightarrow> string \<Rightarrow> ('e conf_ctx, unit) io"
  run_c_code :: "compile_request \<Rightarrow> 'e \<Rightarrow> int option \<times> 'e"
  libstdcxx_location :: "string \<Rightarrow> 'e \<Rightarrow> string"
  list_examples :: "'e \<Rightarrow> (string \<times> bool) list"
  pkg_config_run :: "string list \<Rightarrow> 'e \<Rightarrow> (int \<times> string \<times> string) \<times> 'e"
  parse_flags :: "string \<Rightarrow> string \<Rightarrow> ('e conf_ctx, unit) io"
  os_environ :: "(string, string) dict"
  sys_plat :: string
  waf_plat :: string
  verbose_on :: bool

text \<open>
  A flag is a string or a list, where a list that is not empty ends in a \<open>TypeError\<close> when it is joined. The code
  compares the text with the number 28, which Python 2 answers with true for every text, so each message is cut.
\<close>

definition flag_caption :: "string + string list \<Rightarrow> string list option \<Rightarrow> string result" where
  "flag_caption flag linkflags =
     (case flag of
        Inr (x # xs) \<Rightarrow> Inl TypeError
      | _ \<Rightarrow>
          let l = (case flag of Inl f \<Rightarrow> if f = [] then [] else [f] | Inr _ \<Rightarrow> []) @ (case linkflags of None \<Rightarrow> [] | Some ls \<Rightarrow> ls);
              flag_str = (if length l > 1 then ''flags '' @ join '' '' l else ''flag '' @ join '' '' l)
          in Inr (take 28 flag_str @ ''...''))"

fun flag_value :: "string + string list \<Rightarrow> string list" where
  "flag_value (Inl f) = [f]"
| "flag_value (Inr fs) = fs"

definition dict_append :: "string \<Rightarrow> string list \<Rightarrow> (string, string list) dict \<Rightarrow> (string, string list) dict" where
  "dict_append n v d = dict_set n ((case map_of d n of None \<Rightarrow> [] | Some old \<Rightarrow> old) @ v) d"

definition check_compilation_flag ::
  "'e conf_ops \<Rightarrow> string + string list \<Rightarrow> string \<Rightarrow> string list option \<Rightarrow> ('e conf_ctx, bool) io" where
  "check_compilation_flag ops flag mode linkflags c =
     (case flag_caption flag linkflags of
        Inl e \<Rightarrow> (Inl e, c)
      | Inr flag_str \<Rightarrow>
          let env = cf_lists c;
              mode = (if mode = ''cc'' then ''c'' else mode);
              (fname, env) = (if mode = ''cxx'' then (''test.cc'', dict_append ''CXXFLAGS'' (flag_value flag) env)
                else (''test.c'', dict_append ''CFLAGS'' (flag_value flag) env));
              env = (case linkflags of None \<Rightarrow> env | Some ls \<Rightarrow> dict_append ''LINKFLAGS'' ls env);
              (retval, e) = run_c_code ops \<lparr>compile_env = env, compile_filename = fname,
                compile_features = [mode, mode @ ''program'']\<rparr> (cf_ext c);
              ok = (retval = Some 0)
          in (Inr ok, c\<lparr>cf_messages := cf_messages c @ [''Checking for compilation '' @ flag_str @ '' support'',
                if ok then ''ok'' else ''not found''], cf_ext := e\<rparr>))"

section \<open>pkg-config\<close>

definition configuration_error :: "string \<Rightarrow> py_exn" where
  "configuration_error msg = PyException (''ConfigurationError: '' @ msg)"

definition configure_pkgconfig :: "'e conf_ops \<Rightarrow> ('e conf_ctx, unit) io" where
  "configure_pkgconfig ops = find_tool ops ''pkg-config'' ''PKG_CONFIG''"

definition pkg_check_modules :: "'e conf_ops \<Rightarrow> string \<Rightarrow> string \<Rightarrow> bool \<Rightarrow> ('e conf_ctx, bool) io" where
  "pkg_check_modules ops uselib_name expression mandatory =
     io_bind (io_get (cf_text ''PKG_CONFIG'')) (\<lambda>pkg_config.
     if pkg_config = [] then
       if mandatory then io_raise (configuration_error ''pkg-config is not available'') else io_return False
     else
       io_seq (io_change (\<lambda>c. c\<lparr>cf_messages := cf_messages c @
         [''Checking for pkg-config flags for '' @ uselib_name @ (if verbose_on ops then '' ('' @ expression @ '')'' else [])]\<rparr>))
      (io_bind (\<lambda>c. case pkg_config_run ops [pkg_config, ''--cflags'', ''--libs'', expression] (cf_ext c) of
          (res, e) \<Rightarrow> (Inr res, c\<lparr>cf_ext := e\<rparr>)) (\<lambda>(retval, out_text, err).
       if retval = 0 then
         io_seq (io_change (\<lambda>c. c\<lparr>cf_messages := cf_messages c @ [if verbose_on ops then out_text else ''ok'']\<rparr>))
        (io_seq (parse_flags ops out_text uselib_name)
        (io_seq (io_change (set_flag uselib_name True)) (io_return True)))
       else
         io_seq (io_change (\<lambda>c. c\<lparr>cf_messages := cf_messages c @ [''not found'', err]\<rparr>))
        (io_seq (io_change (set_flag uselib_name False))
          (if mandatory then io_raise (configuration_error ''pkg-config check failed'') else io_return False)))))"

text \<open>
  The contexts of this waf have no method \<open>check_message_custom\<close>: the check of a variable runs the program and raises.
\<close>

definition pkg_check_module_variable :: "'e conf_ops \<Rightarrow> string \<Rightarrow> string \<Rightarrow> ('e conf_ctx, string) io" where
  "pkg_check_module_variable ops module variable =
     io_bind (io_get (cf_text ''PKG_CONFIG'')) (\<lambda>pkg_config.
     if pkg_config = [] then io_raise (configuration_error ''pkg-config is not available'')
     else io_bind (\<lambda>c. case pkg_config_run ops [pkg_config, ''--variable'', variable, module] (cf_ext c) of
         (res, e) \<Rightarrow> (Inr res, c\<lparr>cf_ext := e\<rparr>)) (\<lambda>_. io_raise AttributeError))"

section \<open>What is to be built\<close>

record conf_options =
  enable_gcov :: bool
  build_profile :: string
  enable_static :: bool
  conf_modules :: "string option"
  enable_sudo :: bool
  enable_tests :: bool
  disable_tests :: bool
  enable_examples :: bool
  disable_examples :: bool

definition decide :: "string \<Rightarrow> bool \<Rightarrow> bool \<Rightarrow> bool \<Rightarrow> bool \<Rightarrow> bool \<times> string" where
  \<comment> \<open>an option, the option against it, the value of the configuration file and whether there is one\<close>
  "decide name enable disable configured file_exists =
     (if enable then (True, ''option --enable-'' @ name @ '' selected'')
      else if disable then (False, ''option --disable-'' @ name @ '' selected'')
      else (configured,
        if file_exists then ''based on configuration file''
        else if configured then ''defaults to enabled'' else ''defaults to disabled''))"

definition decide_tests :: "conf_options \<Rightarrow> config \<Rightarrow> 'e conf_ctx \<Rightarrow> 'e conf_ctx" where
  "decide_tests opts cfg c =
     (let (on, why) = decide ''tests'' (enable_tests opts) (disable_tests opts) (tests_enabled cfg) (config_file_exists cfg)
      in report_optional_feature ''ENABLE_TESTS'' ''Build tests'' on why (set_flag ''ENABLE_TESTS'' on c))"

definition decide_examples :: "'e conf_ops \<Rightarrow> conf_options \<Rightarrow> config \<Rightarrow> 'e conf_ctx \<Rightarrow> 'e conf_ctx" where
  "decide_examples ops opts cfg c =
     (let (on, why) = decide ''examples'' (enable_examples opts) (disable_examples opts) (examples_enabled cfg) (config_file_exists cfg);
          found = map fst (filter (\<lambda>(d, isdir). \<not> (take 1 d = ''.'' \<or> d = ''CVS'') \<and> isdir) (list_examples ops (cf_ext c)))
      in report_optional_feature ''ENABLE_EXAMPLES'' ''Build examples'' on why
        (set_list ''EXAMPLE_DIRECTORIES'' found (set_flag ''ENABLE_EXAMPLES'' on c)))"

definition decide_sudo :: "conf_options \<Rightarrow> 'e conf_ctx \<Rightarrow> 'e conf_ctx" where
  "decide_sudo opts c =
     (let on = enable_sudo opts \<and> cf_text ''SUDO'' c \<noteq> [];
          why = (if on then ''because we like it''
            else if enable_sudo opts then ''program sudo not found'' else ''option --enable-sudo not selected'')
      in report_optional_feature ''ENABLE_SUDO'' ''Use sudo to set suid bit'' on why (set_flag ''ENABLE_SUDO'' on c))"

definition static_link_check :: "string \<Rightarrow> string list \<times> string" where
  "static_link_check plat =
     (if plat = ''darwin'' then ([''-Wl,-all_load''], ''Link flag -Wl,-all_load does not work'')
      else ([''-Wl,--whole-archive,-Bstatic'', ''-Wl,-Bdynamic,--no-whole-archive''],
            ''Link flag -Wl,--whole-archive,-Bstatic does not work''))"

definition configure_static :: "'e conf_ops \<Rightarrow> conf_options \<Rightarrow> ('e conf_ctx, unit) io" where
  "configure_static ops opts =
     io_seq (io_change (set_flag ''ENABLE_STATIC_NS3'' False))
       (if enable_static opts then
          let (flags, reason) = static_link_check (waf_plat ops) in
          io_bind (check_compilation_flag ops (Inr []) ''cxx'' (Some flags)) (\<lambda>ok.
            io_change (if ok then set_flag ''ENABLE_STATIC_NS3'' True \<circ> report_optional_feature ''static'' ''Static build'' True []
              else report_optional_feature ''static'' ''Static build'' False reason))
        else io_return ())"

definition configure_compiler :: "'e conf_ops \<Rightarrow> conf_options \<Rightarrow> ('e conf_ctx, unit) io" where
  "configure_compiler ops opts =
     io_bind (io_get (cf_text ''CXX_NAME'')) (\<lambda>name.
     io_when (name \<in> {''gcc'', ''icc''})
      (io_seq (io_when (build_profile opts = ''release'')
         (io_seq (io_change (append_list ''CXXFLAGS'' [''-fomit-frame-pointer'']))
           (io_bind (check_compilation_flag ops (Inl ''-march=native'') ''cxx'' None) (\<lambda>ok.
             io_when ok (io_change (append_list ''CXXFLAGS'' [''-march=native'']))))))
      (io_seq (io_change (if sys_plat ops = ''win32'' then append_list ''LINKFLAGS'' [''-Wl,--enable-runtime-pseudo-reloc'']
          else if sys_plat ops = ''cygwin'' then append_list ''LINKFLAGS'' [''-Wl,--enable-auto-import''] else id))
      (io_bind (io_get (cf_list ''CXX'')) (\<lambda>cxx.
       case cxx of
         [cxx] \<Rightarrow>
           io_seq (io_change (\<lambda>c. let dir = libstdcxx_location ops cxx (cf_ext c) in
             if dir \<noteq> [] then append_list ''NS3_MODULE_PATH'' [dir] c else c))
           (io_when (waf_plat ops = ''linux'')
             (io_bind (check_compilation_flag ops (Inl ''-Wl,--soname=foo'') ''cxx'' None) (\<lambda>ok.
               io_when ok (io_change (set_flag ''WL_SONAME_SUPPORTED'' True)))))
       | _ \<Rightarrow> io_raise ValueError)))))"

definition add_gcc_flag :: "'e conf_ops \<Rightarrow> string \<Rightarrow> ('e conf_ctx, unit) io" where
  "add_gcc_flag ops flag =
     io_bind (io_get (\<lambda>c. (cf_text ''COMPILER_CXX'' c, cf_text ''COMPILER_CC'' c))) (\<lambda>(cxx, cc).
     io_seq (io_when (cxx = ''g++'' \<and> \<not> dict_has (os_environ ops) ''CXXFLAGS'')
       (io_bind (check_compilation_flag ops (Inl flag) ''cxx'' None) (\<lambda>ok.
         io_when ok (io_change (append_list ''CXXFLAGS'' [flag])))))
      (io_when (cc = ''gcc'' \<and> \<not> dict_has (os_environ ops) ''CCFLAGS'')
       (io_bind (check_compilation_flag ops (Inl flag) ''cc'' None) (\<lambda>ok.
         io_when ok (io_change (append_list ''CCFLAGS'' [flag]))))))"

definition append_extra :: "'e conf_ops \<Rightarrow> ('e conf_ctx, unit) io" where
  "append_extra ops =
     io_for_each (\<lambda>(confvar, envvar) _.
       case map_of (os_environ ops) envvar of
         None \<Rightarrow> io_return ()
       | Some text \<Rightarrow> io_bind (io_lift (shlex_split text)) (\<lambda>value. io_change (append_list confvar value)))
       [(''CCFLAGS'', ''CCFLAGS_EXTRA''), (''CXXFLAGS'', ''CXXFLAGS_EXTRA''), (''LINKFLAGS'', ''LINKFLAGS_EXTRA''),
        (''LINKFLAGS'', ''LDFLAGS_EXTRA'')] ()"

definition feature_line :: "string \<times> string \<times> bool \<times> string \<Rightarrow> string" where
  "feature_line f =
     (case f of (name, caption, was_enabled, reason) \<Rightarrow>
        caption @ replicate (30 - length caption) CHR '' '' @ '': '' @
        (if was_enabled then ''enabled'' else ''not enabled ('' @ reason @ '')''))"

definition print_summary :: "'e conf_ctx \<Rightarrow> 'e conf_ctx" where
  "print_summary c =
     c\<lparr>cf_console := cf_console c @ [''---- Summary of optional NS-3 features:''] @ map feature_line (cf_features c)\<rparr>"

section \<open>configure\<close>

text \<open>\<open>try: ... except WafError: pass\<close>\<close>

definition waf_errors_pass :: "('w, unit) io \<Rightarrow> ('w, unit) io" where
  "waf_errors_pass m =
     io_catch m (\<lambda>e. case e of
       PyException s \<Rightarrow> if prefix ''WafError: '' s \<or> prefix ''ConfigurationError: '' s then io_return () else io_raise e
     | _ \<Rightarrow> io_raise e)"

text \<open>\<open>try: ... except ConfigurationError: pass\<close>\<close>

definition config_errors_pass :: "('w, unit) io \<Rightarrow> ('w, unit) io" where
  "config_errors_pass m =
     io_catch m (\<lambda>e. case e of
       PyException s \<Rightarrow> if prefix ''ConfigurationError: '' s then io_return () else io_raise e
     | _ \<Rightarrow> io_raise e)"

definition load_tools :: "'e conf_ops \<Rightarrow> ('e conf_ctx, unit) io" where
  "load_tools ops =
     io_seq (load_tool ops ''relocation'')
    (io_seq (io_change (\<lambda>c. c\<lparr>cf_features := []\<rparr>))
    (io_seq (load_tool ops ''compiler_c'') (io_seq (load_tool ops ''compiler_cxx'') (io_seq (load_tool ops ''cflags'')
    (io_seq (config_errors_pass (load_tool ops ''pkgconfig''))
    (io_seq (load_tool ops ''command'') (load_tool ops ''gnu_dirs'')))))))"

definition add_options :: "'e conf_ops \<Rightarrow> conf_options \<Rightarrow> 'e conf_ctx \<Rightarrow> 'e conf_ctx" where
  "add_options ops opts c =
     (let c = (if enable_gcov opts then
            append_list ''LINKFLAGS'' [''-lgcov'']
              (append_list ''CXXFLAGS'' [''-ftest-coverage''] (append_list ''CXXFLAGS'' [''-fprofile-arcs'']
                (append_list ''CCFLAGS'' [''-ftest-coverage''] (append_list ''CCFLAGS'' [''-fprofile-arcs''] (set_flag ''GCOV_ENABLED'' True c)))))
          else c);
          c = (if build_profile opts = ''debug''
            then append_list ''DEFINES'' [''NS3_LOG_ENABLE''] (append_list ''DEFINES'' [''NS3_ASSERT_ENABLE''] c) else c)
      in set_text ''PLATFORM'' (sys_plat ops) c)"

definition set_modules :: "'e conf_ops \<Rightarrow> conf_options \<Rightarrow> config \<Rightarrow> ('e conf_ctx, unit) io" where
  "set_modules ops opts cfg c =
     (case configure_modules (conf_modules opts) (modules_enabled cfg) (cf_flag ''ENABLE_STATIC_NS3'' c) (sys_plat ops)
         (cf_list ''NS3_MODULES'' c) (cf_list ''MODULES_NOT_BUILT'' c) of
        Inl e \<Rightarrow> (Inl e, c)
      | Inr m \<Rightarrow> (Inr (), set_list ''NS3_MODULES'' (ns3_modules m) (set_list ''NS3_ENABLED_MODULES'' (ns3_enabled_modules m)
          (set_list ''MODULES_NOT_BUILT'' (modules_not_built m) c))))"

definition set_markers :: "'e conf_ops \<Rightarrow> 'e conf_ctx \<Rightarrow> 'e conf_ctx" where
  "set_markers ops c =
     (if cf_flag ''ENABLE_STATIC_NS3'' c then
        if sys_plat ops = ''darwin'' then set_text ''STATICLIB_MARKER'' ''-Wl,-all_load'' c
        else set_text ''SHLIB_MARKER'' ''-Wl,-Bdynamic,--no-whole-archive''
          (set_text ''STATICLIB_MARKER'' ''-Wl,--whole-archive,-Bstatic'' c)
      else c)"

definition check_gsl :: "'e conf_ops \<Rightarrow> ('e conf_ctx, unit) io" where
  "check_gsl ops =
     io_bind (pkg_check_modules ops ''GSL'' ''gsl'' False) (\<lambda>have_gsl.
     io_change (\<lambda>c.
       let c = report_optional_feature ''GSL'' ''GNU Scientific Library (GSL)'' have_gsl ''GSL not found'' (set_flag ''ENABLE_GSL'' have_gsl c)
       in if have_gsl then append_list ''DEFINES'' [''ENABLE_GSL''] c else c))"

definition wscript_configure :: "'e conf_ops \<Rightarrow> conf_options \<Rightarrow> config \<Rightarrow> ('e conf_ctx, unit) io" where
  "wscript_configure ops opts cfg =
     io_seq (load_tools ops)
    (io_seq (io_change (add_options ops opts))
    (io_seq (configure_compiler ops opts)
    (io_seq (configure_static ops opts)
    (io_seq (io_change (set_list ''MODULES_NOT_BUILT'' [] \<circ> set_flag ''PRINT_BUILT_MODULES_AT_END'' False))
    (io_seq (sub_config ops ''src'')
    (io_seq (set_modules ops opts cfg)
    (io_seq (sub_config ops ''bindings/python'')
    (io_seq (sub_config ops ''src/mpi'')
    (io_seq (waf_errors_pass (find_tool ops ''sudo'' ''SUDO''))
    (io_seq (io_change (decide_examples ops opts cfg \<circ> decide_tests opts cfg \<circ> decide_sudo opts))
    (io_seq (waf_errors_pass (find_tool ops ''valgrind'' ''VALGRIND''))
    (io_seq (io_change (set_markers ops))
    (io_seq (check_gsl ops)
    (io_seq (io_change (\<lambda>c. append_list ''CCFLAGS'' (cf_list ''CXXFLAGS'' c) c))
    (io_seq (add_gcc_flag ops ''-Wno-error=deprecated-declarations'')
    (io_seq (add_gcc_flag ops ''-fstrict-aliasing'')
    (io_seq (add_gcc_flag ops ''-Wstrict-aliasing'')
    (io_seq (waf_errors_pass (find_tool ops ''doxygen'' ''DOXYGEN''))
    (io_seq (append_extra ops)
      (io_change print_summary))))))))))))))))))))"

section \<open>Lemmas\<close>

lemma remove_not_built_filter:
  "distinct modules \<Longrightarrow>
   (case remove_not_built ms modules of
      Inl e \<Rightarrow> modules \<noteq> [] \<and> set modules \<subseteq> ns3_name ` set ms \<and> e \<in> (\<lambda>m. waf_error (nothing_left_message m)) ` set ms
    | Inr left \<Rightarrow> left = filter (\<lambda>m. m \<notin> ns3_name ` set ms) modules \<and> (left = [] \<longrightarrow> modules = []))"
proof (induction ms arbitrary: modules)
  case (Cons m ms)
  let ?left = "remove1 (ns3_name m) modules"
  have left: "?left = filter (\<lambda>x. x \<noteq> ns3_name m) modules" 
    unfolding distinct_remove1_removeAll [OF Cons.prems] removeAll_filter_not_eq by (intro filter_cong) auto
  show ?case
  proof (cases "ns3_name m \<in> set modules")
    case True
    have d: "distinct ?left" using Cons.prems by simp
    show ?thesis
    proof (cases "?left = []")
      case True
      then have "set modules \<subseteq> {ns3_name m}" unfolding left by (auto simp: filter_empty_conv)
      with True \<open>ns3_name m \<in> set modules\<close> show ?thesis by auto
    next
      case False
      then have step: "remove_not_built (m # ms) modules = remove_not_built ms (filter (\<lambda>x. x \<noteq> ns3_name m) modules)"
        using True by (simp add: left)
      have rest: "filter (\<lambda>x. x \<notin> ns3_name ` set ms \<and> x \<noteq> ns3_name m) modules = filter (\<lambda>x. x \<notin> ns3_name ` set (m # ms)) modules"
        by (intro filter_cong) auto
      show ?thesis
      proof (cases "remove_not_built ms (filter (\<lambda>x. x \<noteq> ns3_name m) modules)")
        case (Inl e)
        with Cons.IH [OF d, unfolded left] True show ?thesis unfolding step by auto
      next
        case (Inr l)
        with Cons.IH [OF d, unfolded left] False [unfolded left] show ?thesis unfolding step by (auto simp: rest conj_commute)
      qed
    qed
  next
    case False
    then have same: "filter (\<lambda>x. x \<notin> ns3_name ` set (m # ms)) modules = filter (\<lambda>x. x \<notin> ns3_name ` set ms) modules"
      by (intro filter_cong) auto
    have step: "remove_not_built (m # ms) modules = remove_not_built ms modules" using False by simp
    show ?thesis
    proof (cases "remove_not_built ms modules")
      case (Inl e)
      from Cons.IH [OF Cons.prems] show ?thesis unfolding step Inl sum.case by auto
    next
      case (Inr l)
      from Cons.IH [OF Cons.prems] show ?thesis unfolding step Inr sum.case same .
    qed
  qed
qed simp

section \<open>Properties\<close>

text \<open>C28: \<open>configure\<close> takes the modules that cannot be built off the chosen ones and keeps the others in their order; it
  stops with an error exactly when some were chosen and none of them is left, naming a module that cannot be built.
  When all modules were chosen, the list of all modules is the same object and loses them too.\<close>

theorem configure_modules_result:
  assumes "choose_modules enable_modules wanted all_ns3 = Inr (chosen, aliased)" and "distinct chosen" and "chosen \<noteq> []"
  shows "let out = (if static_build \<and> plat = ''darwin'' then not_built @ [''template''] else not_built);
             left = filter (\<lambda>m. m \<notin> ns3_name ` set out) chosen in
    case configure_modules enable_modules wanted static_build plat all_ns3 not_built of
      Inl e \<Rightarrow> left = [] \<and> e \<in> (\<lambda>m. waf_error (nothing_left_message m)) ` set out
    | Inr ml \<Rightarrow> left \<noteq> [] \<and> ml = \<lparr>ns3_modules = (if aliased then left else all_ns3), ns3_enabled_modules = left, modules_not_built = out\<rparr>"
proof -
  let ?out = "if static_build \<and> plat = ''darwin'' then not_built @ [''template''] else not_built"
  have conf: "configure_modules enable_modules wanted static_build plat all_ns3 not_built =
    res_bind (remove_not_built ?out chosen) (\<lambda>left.
      Inr \<lparr>ns3_modules = (if aliased then left else all_ns3), ns3_enabled_modules = left, modules_not_built = ?out\<rparr>)"
    unfolding configure_modules_def assms(1) by (simp add: Let_def)
  show ?thesis
  proof (cases "remove_not_built ?out chosen")
    case (Inl e)
    with remove_not_built_filter [OF assms(2), of ?out] show ?thesis unfolding conf Let_def by (auto simp: filter_empty_conv)
  next
    case (Inr left)
    with remove_not_built_filter [OF assms(2), of ?out] assms(3) show ?thesis unfolding conf Let_def by auto
  qed
qed

lemma configure_modules_result_witness:
  "configure_modules None [''all_modules''] False ''linux2'' [''ns3-core'', ''ns3-emu''] [''emu''] =
    Inr \<lparr>ns3_modules = [''ns3-core''], ns3_enabled_modules = [''ns3-core''], modules_not_built = [''emu'']\<rparr>"
proof -
  have "choose_modules None [''all_modules''] [''ns3-core'', ''ns3-emu''] = Inr ([''ns3-core'', ''ns3-emu''], True)" by code_simp
  moreover have "filter (\<lambda>m. m \<notin> ns3_name ` set [''emu'']) [''ns3-core'', ''ns3-emu''] = [''ns3-core'']" by code_simp
  ultimately show ?thesis
    using configure_modules_result [of None "[''all_modules'']" "[''ns3-core'', ''ns3-emu'']" "[''ns3-core'', ''ns3-emu'']" True
      False "''linux2''" "[''emu'']"] by (auto simp: Let_def ns3_name_def split: sum.splits)
qed

end
