(* ===== verification/Build_Script.thy ===== *)
theory Build_Script
  imports Build_Modules "HOL-Library.List_Lexorder" "HOL-Library.Char_ord"
begin

text \<open>
  The build script at the top of the simulator's tree, \<open>wscript\<close>: \<open>build\<close> with the programs it creates, and
  \<open>shutdown\<close>, which prints the lists of modules, writes the build status file for \<open>test.py\<close> and runs what was
  asked for. Reading the scripts of subdirectories, the file system and the running of programs are parameters.
\<close>

section \<open>The build\<close>

record toolchain =
  static_ns3 :: bool
  sys_platform :: string
  dest_binfmt :: string
  cxx_name :: string
  cc_name :: string
  shlib_marker :: "string list"

record 'e build_ctx =
  groups :: "generator list list"
  current_group :: nat
  next_id :: nat
  enabled_modules :: "string list"
  tests_on :: bool
  examples_on :: bool
  sudo_on :: bool
  test_modules :: "(string \<times> string) list"
  test_libraries :: "string list"
  script_dependencies :: "(string \<times> string list) list"
  programs_found :: "string list"
  scripts_found :: "string list"
  print_at_end :: bool
  targets :: string
  warnings :: "string list"
  ctx_ext :: 'e

text \<open>\<open>new_task_gen\<close> puts the new object at the end of the current group.\<close>

definition add_generator :: "(nat \<Rightarrow> generator) \<Rightarrow> 'e build_ctx \<Rightarrow> 'e build_ctx" where
  \<comment> \<open>the first group is made for the first generator\<close>
  "add_generator mk c =
     (let c = (if groups c = [] then c\<lparr>groups := [[]], current_group := 0\<rparr> else c); k = current_group c in
      c\<lparr>groups := (groups c)[k := groups c ! k @ [mk (next_id c)]], next_id := Suc (next_id c)\<rparr>)"

definition program_markers :: "toolchain \<Rightarrow> (string, string list) dict" where
  "program_markers tc =
     (if static_ns3 tc then
        (if sys_platform tc = ''darwin'' then [(''STLIB_MARKER'', [''-Wl,-all_load''])]
         else [(''STLIB_MARKER'', [''-Wl,--whole-archive,-Bstatic'']), (''SHLIB_MARKER'', [''-Wl,-Bdynamic,--no-whole-archive''])])
      else if dest_binfmt tc = ''elf'' \<and> (cxx_name tc = ''gcc'' \<or> cc_name tc = ''gcc'')
      then [(''SHLIB_MARKER'', shlib_marker tc @ [''-Wl,--no-as-needed''])] else [])"

definition ns3_program :: "toolchain \<Rightarrow> string \<Rightarrow> string list \<Rightarrow> nat \<Rightarrow> generator" where
  "ns3_program tc name dependencies i =
     (new_generator [''cxx'', ''cxxprogram''] i)\<lparr>gen_is_program := True, gen_name := name, gen_target := name,
       program_deps := Some (map ns3_name dependencies), gen_includes := ''# #/..'', gen_use := map ns3_name dependencies,
       gen_env := program_markers tc\<rparr>"

definition create_ns3_program :: "toolchain \<Rightarrow> string \<Rightarrow> string list \<Rightarrow> 'e build_ctx \<Rightarrow> 'e build_ctx" where
  "create_ns3_program tc name dependencies = add_generator (ns3_program tc name dependencies)"

definition create_suid_program :: "string \<Rightarrow> 'e build_ctx \<Rightarrow> 'e build_ctx" where
  \<comment> \<open>in a group of its own\<close>
  "create_suid_program name c =
     (let grp = current_group c;
          c = c\<lparr>groups := groups c @ [[]], current_group := length (groups c)\<rparr>;
          c = add_generator (\<lambda>i. (new_generator [''cxx'', ''cxxprogram''] i)\<lparr>gen_is_program := True, gen_name := name,
            gen_target := name, gen_tasks := (if sudo_on c then [''SuidBuild''] else [])\<rparr>) c
      in c\<lparr>current_group := grp\<rparr>)"

definition register_ns3_script :: "string \<Rightarrow> string list \<Rightarrow> 'e build_ctx \<Rightarrow> 'e build_ctx" where
  "register_ns3_script name dependencies c =
     c\<lparr>script_dependencies := script_dependencies c @ [(name, map ns3_name dependencies)]\<rparr>"

text \<open>
  What the script asks of waf and the file system: reading the script of a directory, listing a directory, the
  nodes of a generator, and the way programs are run.
\<close>

record 'e build_ops =
  add_subdirs :: "string \<Rightarrow> ('e build_ctx, unit) io"
  list_dir :: "string \<Rightarrow> 'e \<Rightarrow> string list"
  is_dir :: "string \<Rightarrow> 'e \<Rightarrow> bool"
  gen_nodes :: "generator \<Rightarrow> task_gen"
  ops_toolchain :: toolchain
  ops_system :: "'e process_system"
  ops_options :: run_options
  ops_build :: build

record wscript_options =
  enable_modules :: "string option"
  run_target :: string
  pyrun_target :: string
  visualize :: bool
  wants_shell :: bool
  wants_check :: bool
  wants_lcov :: bool
  doxygen_only :: bool
  template_args :: "string list"

definition add_example_dir :: "'e build_ops \<Rightarrow> string \<Rightarrow> ('e build_ctx, unit) io" where
  "add_example_dir ops dir c =
     (if take 1 dir = ''.'' \<or> dir = ''CVS'' then (Inr (), c)
      else if is_dir ops (path_join ''examples'' dir) (ctx_ext c) then add_subdirs ops (path_join ''examples'' dir) c
      else (Inr (), c))"

definition add_examples_programs :: "'e build_ops \<Rightarrow> ('e build_ctx, unit) io" where
  "add_examples_programs ops c =
     (if examples_on c
      then io_for_each (\<lambda>dir _. add_example_dir ops dir) (list_dir ops ''examples'' (ctx_ext c)) () c
      else (Inr (), c))"

text \<open>
  The generators of this waf have no method \<open>find_sources_in_dirs\<close>, so a directory in \<open>scratch\<close> ends the build.
\<close>

definition add_scratch_entry :: "'e build_ops \<Rightarrow> string list \<Rightarrow> string \<Rightarrow> ('e build_ctx, unit) io" where
  "add_scratch_entry ops all_modules filename c =
     (if take 1 filename = ''.'' \<or> filename = ''CVS'' then (Inr (), c)
      else if is_dir ops (path_join ''scratch'' filename) (ctx_ext c) then
        (Inl AttributeError,
         add_generator (\<lambda>i. (ns3_program (ops_toolchain ops) filename all_modules i)\<lparr>gen_dir := path_join ''scratch'' filename\<rparr>) c)
      else if suffix ''.cc'' filename then
        (Inr (), add_generator (\<lambda>i.
           (ns3_program (ops_toolchain ops) (take (length filename - length ''.cc'') filename) all_modules i)\<lparr>gen_dir := ''scratch'',
             gen_source := filename\<rparr>) c)
      else (Inr (), c))"

definition add_scratch_programs :: "'e build_ops \<Rightarrow> ('e build_ctx, unit) io" where
  "add_scratch_programs ops c =
     io_for_each (\<lambda>filename _. add_scratch_entry ops (map (drop (length ''ns3-'')) (enabled_modules c)) filename)
       (list_dir ops ''scratch'' (ctx_ext c)) () c"

text \<open>
  \<open>utils/wscript\<close>, which \<open>build\<close> reads last. Its programs are made after the others have been gone through. The
  library lists of two of them are replaced by the enabled modules.
\<close>

definition utils_program ::
  "toolchain \<Rightarrow> string \<Rightarrow> string \<Rightarrow> (generator \<Rightarrow> generator) \<Rightarrow> 'e build_ctx \<Rightarrow> 'e build_ctx" where
  "utils_program tc name dependency f =
     add_generator (\<lambda>i. f ((ns3_program tc name [dependency] i)\<lparr>gen_dir := ''utils'', gen_source := name @ ''.cc''\<rparr>))"

definition utils_build :: "toolchain \<Rightarrow> ('e build_ctx, unit) io" where
  "utils_build tc c =
     (let mods = enabled_modules c; libs = mods @ test_libraries c;
          c = utils_program tc ''test-runner'' ''core'' (\<lambda>g. g\<lparr>gen_use := libs\<rparr>) c;
          c = utils_program tc ''bench-simulator'' ''core'' id c;
          c = (if ''ns3-network'' \<in> set mods
               then utils_program tc ''print-introspected-doxygen'' ''network'' (\<lambda>g. g\<lparr>gen_use := mods\<rparr>)
                      (utils_program tc ''bench-packets'' ''network'' id c)
               else c)
      in (Inr (), c))"

text \<open>The steps of \<open>build\<close> after the scripts of the modules have been read.\<close>

definition settle_modules :: "('e build_ctx, unit) io" where
  "settle_modules c =
     (if enabled_modules c = [] then (Inr (), c)
      else case enable_dependencies (tgen_names (groups c)) (enabled_modules c) of
        Inl e \<Rightarrow> (Inl e, c)
      | Inr modules \<Rightarrow>
          (Inr (), c\<lparr>enabled_modules := modules,
             test_libraries := test_libraries c @
               (if tests_on c then map snd (filter (\<lambda>(m, testlib). m \<in> set modules) (test_modules c)) else [])\<rparr>))"

definition filter_programs :: "('e build_ctx, unit) io" where
  "filter_programs c =
     (if enabled_modules c = [] then (Inr (), c)
      else case filter_generators (enabled_modules c) (tests_on c) (groups c) (programs_found c) of
        (gs, found) \<Rightarrow> (Inr (), c\<lparr>groups := gs, programs_found := found\<rparr>))"

definition find_scripts :: "bool \<Rightarrow> ('e build_ctx, unit) io" where
  \<comment> \<open>whether the variable \<open>modules\<close> has got a value\<close>
  "find_scripts bound c =
     (case runnable_scripts (if bound then Some (enabled_modules c) else None) (script_dependencies c) (scripts_found c) of
        Inl e \<Rightarrow> (Inl e, c)
      | Inr found \<Rightarrow> (Inr (), c\<lparr>scripts_found := found\<rparr>))"

definition io_update :: "('w \<Rightarrow> 'w) \<Rightarrow> ('w, unit) io" where
  "io_update f w = (Inr (), f w)"

definition reset_lists :: "'e build_ctx \<Rightarrow> 'e build_ctx" where
  "reset_lists c = c\<lparr>test_modules := [], test_libraries := [], script_dependencies := [], programs_found := [], scripts_found := []\<rparr>"

text \<open>
  With \<open>--run\<close> only the program is built. The loop that posts the header generators looks for classes that this waf
  does not have, so it posts none.
\<close>

definition choose_target :: "'e build_ops \<Rightarrow> wscript_options \<Rightarrow> ('e build_ctx, unit) io" where
  "choose_target ops opts =
     io_when (run_target opts \<noteq> [])
       (io_bind (io_get (\<lambda>c. (ops_build ops)\<lparr>all_task_gen := map (gen_nodes ops) (concat (groups c))\<rparr>)) (\<lambda>bld.
        io_bind (io_lift (get_run_program (ops_system ops) (ops_options ops) bld (run_target opts)
          (Some (get_command_template (ops_options ops) (template_args opts))))) (\<lambda>(program_name, _).
        io_update (\<lambda>c. c\<lparr>targets := targets c @ '','' @ path_tail program_name, print_at_end := False\<rparr>))))"

definition wscript_build :: "'e build_ops \<Rightarrow> wscript_options \<Rightarrow> ('e build_ctx, unit) io \<Rightarrow> ('e build_ctx, unit) io" where
  "wscript_build ops opts doxygen =
     (if truthy (enable_modules opts) then
        io_update (\<lambda>c. c\<lparr>warnings := warnings c @
          [''No modules were built.  Use waf configure --enable-modules to enable modules.'']\<rparr>)
      else
        io_seq (io_update reset_lists)
       (io_seq (add_subdirs ops ''src'')
       (io_bind (io_get (\<lambda>c. enabled_modules c \<noteq> [])) (\<lambda>bound.
        io_seq settle_modules
       (io_seq (add_examples_programs ops)
       (io_seq (add_scratch_programs ops)
       (io_seq filter_programs
       (io_seq (find_scripts bound)
       (io_seq (add_subdirs ops ''bindings/python'')
       (io_seq (add_subdirs ops ''utils'')
       (io_seq (io_update (\<lambda>c. c\<lparr>print_at_end := True\<rparr>))
       (io_seq (choose_target ops opts)
         (io_when (doxygen_only opts) (io_seq doxygen (io_raise (SystemExit 0))))))))))))))))"

section \<open>The end of a build\<close>

definition ljust :: "nat \<Rightarrow> string \<Rightarrow> string" where
  "ljust n s = s @ replicate (n - length s) CHR '' ''"

text \<open>
  \<open>print x,\<close> leaves the line open; the state is the counter and what the open line has got. The names are sorted.
\<close>

fun name_rows :: "nat \<Rightarrow> string list \<Rightarrow> string list \<Rightarrow> string list" where
  "name_rows i row [] = (if i \<noteq> 1 then [join '' '' row] else [])"
| "name_rows i row (name # names) =
     (let row = row @ [ljust 25 name] in
      if i = 3 then join '' '' row # name_rows 1 [] names else name_rows (i + 1) row names)"

definition print_module_names :: "string list \<Rightarrow> ('e world, unit) io" where
  "print_module_names names = io_for_each (\<lambda>line _. print_line line) (name_rows 1 [] (sort names)) ()"

text \<open>Python's \<open>str\<close> of a list of strings.\<close>

definition hex_char :: "nat \<Rightarrow> char" where
  "hex_char d = ''0123456789abcdef'' ! d"

definition repr_char :: "char \<Rightarrow> char \<Rightarrow> string" where
  "repr_char quote c =
     (let n = (of_char c :: nat) in
      if c = quote \<or> c = CHR 0x5C then [CHR 0x5C, c]
      else if c = CHR 0x09 then [CHR 0x5C, CHR ''t''] else if c = CHR 0x0A then [CHR 0x5C, CHR ''n'']
      else if c = CHR 0x0D then [CHR 0x5C, CHR ''r'']
      else if n < 32 \<or> n \<ge> 127 then [CHR 0x5C, CHR ''x'', hex_char (n div 16), hex_char (n mod 16)] else [c])"

definition str_repr :: "string \<Rightarrow> string" where
  "str_repr s =
     (let quote = (if CHR 0x27 \<in> set s \<and> CHR 0x22 \<notin> set s then CHR 0x22 else CHR 0x27)
      in [quote] @ concat (map (repr_char quote) s) @ [quote])"

definition list_repr :: "string list \<Rightarrow> string" where
  "list_repr xs = ''['' @ join '', '' (map str_repr xs) @ '']''"

abbreviation newline :: string where
  "newline \<equiv> [CHR 0x0A]"

definition build_status_text :: "string list \<Rightarrow> string list \<Rightarrow> string" where
  "build_status_text programs scripts =
     ''#! /usr/bin/env python'' @ newline @ newline @
     ''# Programs that are runnable.'' @ newline @
     ''ns3_runnable_programs = '' @ list_repr programs @ newline @ newline @
     ''# Scripts that are runnable.'' @ newline @
     ''ns3_runnable_scripts = '' @ list_repr scripts @ newline @ newline"

definition build_status_file :: "string \<Rightarrow> string" where
  "build_status_file out_dir = path_join out_dir ''build-status.py''"

definition check_shell :: "string \<Rightarrow> string list \<Rightarrow> string list \<Rightarrow> (string, string) dict \<Rightarrow> unit result" where
  "check_shell pathsep module_paths executable_paths env =
     (case (map_of env ''NS3_MODULE_PATH'', map_of env ''NS3_EXECUTABLE_PATH'') of
        (Some found_modpath, Some found_execpath) \<Rightarrow>
          if found_modpath \<noteq> join pathsep module_paths \<or> join pathsep executable_paths \<noteq> found_execpath
          then Inl (waf_error (''Detected shell (./waf shell) with incorrect configuration'' @ newline @
            ''========================================================='' @ newline @
            ''Possible reasons for this problem:'' @ newline @
            ''  1. You switched to another ns-3 tree from inside this shell'' @ newline @
            ''  2. You switched ns-3 debug level (waf configure --debug)'' @ newline @
            ''  3. You modified the list of built ns-3 modules'' @ newline @
            ''You should correct this situation before running any program.  Possible solutions:'' @ newline @
            ''  1. Exit this shell, and start a new one'' @ newline @ ''  2. Run a new nested shell''))
          else Inr ()
      | _ \<Rightarrow> Inr ())"

text \<open>A shell command in a directory: its exit code and what it does, which may be anything.\<close>

type_synonym 'e shell = "string \<Rightarrow> string \<Rightarrow> 'e world \<Rightarrow> int \<times> 'e world"

definition shell_or_exit :: "'e shell \<Rightarrow> string \<Rightarrow> string \<Rightarrow> ('e world, unit) io" where
  "shell_or_exit sh dir cmd w =
     (case sh dir cmd w of (code, w) \<Rightarrow> (if code \<noteq> 0 then Inl (SystemExit 1) else Inr (), w))"

definition lcov_report :: "'e shell \<Rightarrow> bool \<Rightarrow> string \<Rightarrow> ('e world, unit) io" where
  \<comment> \<open>in the directory \<open>build\<close> below \<open>here\<close>\<close>
  "lcov_report sh gcov_enabled here =
     (if \<not> gcov_enabled then
        io_raise (waf_error (''project not configured for code coverage; reconfigure with --enable-gcov''))
      else
        let dir = path_join here ''build'';
            lcov_report_dir = ''lcov-report'';
            info_file = path_join lcov_report_dir ''report.info''
        in io_seq (shell_or_exit sh dir (''rm -rf '' @ lcov_report_dir @ '' && mkdir '' @ lcov_report_dir @ '';''))
          (io_seq (shell_or_exit sh dir (''../utils/lcov/lcov -c -d . -o '' @ info_file @ '' -b '' @ dir))
             (shell_or_exit sh dir (''../utils/lcov/genhtml -o '' @ lcov_report_dir @ '' '' @ info_file))))"

record build_outcome =
  print_lists :: bool
  modules_built :: "string list"
  modules_skipped :: "string list"
  outcome_programs :: "string list"
  outcome_scripts :: "string list"
  outcome_dir :: string
  gcov_enabled :: bool

definition print_built :: "build_outcome \<Rightarrow> ('e world, unit) io" where
  "print_built b =
     io_seq (print_line []) (io_seq (print_line ''Modules built:'')
    (io_seq (print_module_names (map (drop (length ''ns3-'')) (modules_built b)))
    (io_seq (print_line [])
      (io_when (modules_skipped b \<noteq> [])
        (io_seq (print_line ''Modules not built:'') (io_seq (print_module_names (modules_skipped b)) (print_line [])))))))"

text \<open>What \<open>shutdown\<close> does after it has written the file.\<close>

definition run_requests ::
  "'e process_system \<Rightarrow> run_options \<Rightarrow> build \<Rightarrow> 'e shell \<Rightarrow> wscript_options \<Rightarrow> bool \<Rightarrow> ('e world, unit) io" where
  "run_requests sys ropts bld sh opts gcov =
     io_seq (io_when (wants_lcov opts) (lcov_report sh gcov (working_dir sys)))
    (io_seq (io_when (run_target opts \<noteq> [])
       (io_bind (run_program sys ropts bld (run_target opts)
          (Some (get_command_template ropts (template_args opts))) None (visualize opts)) (\<lambda>_. io_raise (SystemExit 0))))
    (io_seq (io_when (pyrun_target opts \<noteq> [])
       (io_bind (run_python_program sys ropts bld (pyrun_target opts) (visualize opts)) (\<lambda>_. io_raise (SystemExit 0))))
    (io_seq (io_when (wants_shell opts)
       (io_raise (waf_error (''Please run `./waf shell'' @ [CHR 0x27] @ '' now, instead of `./waf --shell'' @ [CHR 0x27]))))
    (io_seq (io_when (wants_check opts)
       (io_raise (waf_error (''Please run `./test.py'' @ [CHR 0x27] @ '' now, instead of `./waf --check'' @ [CHR 0x27]))))
       (\<lambda>w. (check_shell (path_separator sys) (module_path bld) (executable_path bld) (environ w), w))))))"

text \<open>
  \<open>shutdown\<close> without a build does nothing. The flag that asks for the lists is off afterwards.
\<close>

definition shutdown ::
  "'e process_system \<Rightarrow> run_options \<Rightarrow> build \<Rightarrow> 'e shell \<Rightarrow> wscript_options \<Rightarrow> build_outcome option
    \<Rightarrow> ('e world, build_outcome option) io" where
  "shutdown sys ropts bld sh opts outcome =
     (case outcome of
        None \<Rightarrow> io_return None
      | Some b \<Rightarrow>
          io_seq (io_when (print_lists b) (print_built b))
         (io_seq (write_file (build_status_file (outcome_dir b)) (build_status_text (outcome_programs b) (outcome_scripts b)))
         (io_seq (run_requests sys ropts bld sh opts (gcov_enabled b))
            (io_return (Some (b\<lparr>print_lists := False\<rparr>))))))"

section \<open>Laws of the steps\<close>

definition ids_ok :: "'e build_ctx \<Rightarrow> bool" where
  "ids_ok c \<longleftrightarrow> distinct (all_ids (groups c)) \<and> (\<forall>i \<in> set (all_ids (groups c)). i < next_id c) \<and>
     (groups c \<noteq> [] \<longrightarrow> current_group c < length (groups c))"

lemma all_ids_add:
  "k < length gss \<Longrightarrow> mset (all_ids (gss[k := gss ! k @ [g]])) = add_mset (gen_id g) (mset (all_ids gss))"
proof (induction gss arbitrary: k)
  case (Cons gs gss)
  then show ?case by (cases k) (auto simp: all_ids_def)
qed simp

lemma ids_ok_add:
  assumes "ids_ok c" "\<And>i. gen_id (mk i) = i"
  shows "ids_ok (add_generator mk c)"
proof -
  let ?c = "if groups c = [] then c\<lparr>groups := [[]], current_group := 0\<rparr> else c"
  have ok: "ids_ok ?c" "current_group ?c < length (groups ?c)" using assms(1) by (auto simp: ids_ok_def all_ids_def)
  have m: "mset (all_ids (groups (add_generator mk c))) = add_mset (next_id ?c) (mset (all_ids (groups ?c)))"
    using all_ids_add [OF ok(2), of "mk (next_id ?c)"] assms(2) by (simp add: add_generator_def Let_def)
  have "next_id ?c \<notin> set (all_ids (groups ?c))" using ok(1) by (auto simp: ids_ok_def)
  then have "distinct (all_ids (groups (add_generator mk c)))"
    using ok(1) mset_eq_imp_distinct_iff [of "all_ids (groups (add_generator mk c))" "next_id ?c # all_ids (groups ?c)"] m
    by (simp add: ids_ok_def)
  moreover have "set (all_ids (groups (add_generator mk c))) = insert (next_id ?c) (set (all_ids (groups ?c)))"
    using arg_cong [OF m, of set_mset] by simp
  ultimately show ?thesis using ok by (auto simp: ids_ok_def add_generator_def Let_def intro: less_SucI split: if_splits)
qed

lemma ns3_program_id [simp]: "gen_id (ns3_program tc name deps i) = i"
  by (simp add: ns3_program_def new_generator_def)

lemma add_generator_sel [simp]:
  "enabled_modules (add_generator mk c) = enabled_modules c" "programs_found (add_generator mk c) = programs_found c"
  "tests_on (add_generator mk c) = tests_on c" "ctx_ext (add_generator mk c) = ctx_ext c"
  by (simp_all add: add_generator_def Let_def)

text \<open>What a step may not do to the lists.\<close>

definition keeps_lists :: "('e build_ctx, 'a) io \<Rightarrow> bool" where
  "keeps_lists m \<longleftrightarrow> (\<forall>c r c'. ids_ok c \<longrightarrow> m c = (r, c') \<longrightarrow>
     ids_ok c' \<and> enabled_modules c' = enabled_modules c \<and> programs_found c' = programs_found c)"

lemma keeps_listsI:
  "(\<And>c r c'. ids_ok c \<Longrightarrow> m c = (r, c') \<Longrightarrow> ids_ok c' \<and> enabled_modules c' = enabled_modules c \<and> programs_found c' = programs_found c)
   \<Longrightarrow> keeps_lists m"
  unfolding keeps_lists_def by blast

lemma keeps_listsD:
  "keeps_lists m \<Longrightarrow> ids_ok c \<Longrightarrow> m c = (r, c') \<Longrightarrow>
   ids_ok c' \<and> enabled_modules c' = enabled_modules c \<and> programs_found c' = programs_found c"
  unfolding keeps_lists_def by blast

lemma keeps_lists_for_each:
  assumes "\<And>x s. keeps_lists (body x s)"
  shows "keeps_lists (io_for_each body xs s)"
proof (induction xs arbitrary: s)
  case Nil
  show ?case by (rule keeps_listsI) (simp add: io_return_def)
next
  case (Cons x xs)
  show ?case
  proof (rule keeps_listsI)
    fix c r c' assume c: "ids_ok c" "io_for_each body (x # xs) s c = (r, c')"
    obtain r1 c1 where b: "body x s c = (r1, c1)" by fastforce
    note first = keeps_listsD [OF assms c(1) b]
    show "ids_ok c' \<and> enabled_modules c' = enabled_modules c \<and> programs_found c' = programs_found c"
    proof (cases r1)
      case (Inl e)
      with c(2) b first show ?thesis by (simp add: io_bind_def)
    next
      case (Inr t)
      with c(2) b have "io_for_each body xs t c1 = (r, c')" by (simp add: io_bind_def)
      from keeps_listsD [OF Cons.IH _ this] first show ?thesis by simp
    qed
  qed
qed

lemma keeps_lists_examples:
  assumes "\<And>d. keeps_lists (add_subdirs ops d)"
  shows "keeps_lists (add_examples_programs ops)"
proof (rule keeps_listsI)
  fix c r c' assume c: "ids_ok c" "add_examples_programs ops c = (r, c')"
  have "keeps_lists (add_example_dir ops dir)" for dir
    using keeps_listsD [OF assms] by (intro keeps_listsI) (auto simp: add_example_dir_def split: if_splits)
  then have "keeps_lists (io_for_each (\<lambda>dir _. add_example_dir ops dir) xs ())" for xs by (intro keeps_lists_for_each)
  from keeps_listsD [OF this c(1)] c
  show "ids_ok c' \<and> enabled_modules c' = enabled_modules c \<and> programs_found c' = programs_found c"
    by (auto simp: add_examples_programs_def split: if_splits)
qed

lemma keeps_lists_scratch: "keeps_lists (add_scratch_programs ops)"
proof (rule keeps_listsI)
  fix c r c' assume c: "ids_ok c" "add_scratch_programs ops c = (r, c')"
  have "keeps_lists (add_scratch_entry ops ms filename)" for ms filename
    by (rule keeps_listsI)
       (auto simp: add_scratch_entry_def ns3_program_def new_generator_def intro!: ids_ok_add split: if_splits)
  then have "keeps_lists (io_for_each (\<lambda>filename _. add_scratch_entry ops ms filename) xs ())" for ms xs
    by (intro keeps_lists_for_each)
  from keeps_listsD [OF this c(1)] c(2)
  show "ids_ok c' \<and> enabled_modules c' = enabled_modules c \<and> programs_found c' = programs_found c"
    by (simp add: add_scratch_programs_def)
qed

lemma keeps_lists_utils: "keeps_lists (utils_build tc)"
  by (rule keeps_listsI)
     (auto simp: utils_build_def utils_program_def Let_def ns3_program_def new_generator_def intro!: ids_ok_add)

lemma filter_programs_result:
  assumes "ids_ok c" "enabled_modules c \<noteq> []"
  shows "filter_programs c = (Inr (), c\<lparr>
    groups := map (\<lambda>gs. map (header_mode (enabled_modules c)) (filter (kept (enabled_modules c) (tests_on c)) gs)) (groups c),
    programs_found := programs_found c @ map gen_name (filter (runnable_program (enabled_modules c)) (concat (groups c)))\<rparr>)"
  using assms filter_loop_settled [of "groups c" "enabled_modules c" "tests_on c" "concat (groups c)" "programs_found c"]
  by (simp add: filter_programs_def filter_generators_def settled_all ids_ok_def)

lemma header_mode_id [simp]: "gen_id (header_mode modules g) = gen_id g"
  by (simp add: header_mode_def)

lemma ids_ok_filter_programs:
  assumes "ids_ok c" "enabled_modules c \<noteq> []" "filter_programs c = (r, c')"
  shows "ids_ok c'"
proof -
  have c': "c' = c\<lparr>
    groups := map (\<lambda>gs. map (header_mode (enabled_modules c)) (filter (kept (enabled_modules c) (tests_on c)) gs)) (groups c),
    programs_found := programs_found c @ map gen_name (filter (runnable_program (enabled_modules c)) (concat (groups c)))\<rparr>"
    using filter_programs_result [OF assms(1,2)] assms(3) by simp
  have "all_ids (groups c') = all_ids (map (filter (kept (enabled_modules c) (tests_on c))) (groups c))"
    by (simp add: c' all_ids_def map_concat o_def)
  moreover have "set (all_ids (map (filter P) (groups c))) \<subseteq> set (all_ids (groups c))" for P
    by (auto simp: all_ids_def)
  ultimately show ?thesis using assms(1) distinct_ids_filter unfolding ids_ok_def
    by (simp add: c') blast
qed

lemma settle_modules_result:
  assumes "enabled_modules c \<noteq> []" "settle_modules c = (Inr (), c')"
  shows "enable_dependencies (tgen_names (groups c)) (enabled_modules c) = Inr (enabled_modules c')"
    "programs_found c' = programs_found c" "ids_ok c' = ids_ok c" "enabled_modules c' \<noteq> []"
proof -
  obtain ms where ms: "enable_dependencies (tgen_names (groups c)) (enabled_modules c) = Inr ms"
    "enabled_modules c' = ms" "programs_found c' = programs_found c" "ids_ok c' = ids_ok c"
    using assms by (auto simp: settle_modules_def ids_ok_def split: sum.splits)
  moreover have "ms \<noteq> []"
    using enable_dependencies_needed [where cache = "tgen_names (groups c)" and modules = "enabled_modules c"] ms(1) assms(1) by auto
  ultimately show "enable_dependencies (tgen_names (groups c)) (enabled_modules c) = Inr (enabled_modules c')"
    "programs_found c' = programs_found c" "ids_ok c' = ids_ok c" "enabled_modules c' \<noteq> []" by simp_all
qed

lemma io_seq_Inr: "io_seq m n w = (Inr b, w2) \<longleftrightarrow> (\<exists>a w1. m w = (Inr a, w1) \<and> n w1 = (Inr b, w2))"
  by (simp add: io_seq_def io_bind_eq_Inr)

lemma io_update_Inr: "io_update f w = (Inr b, w2) \<longleftrightarrow> w2 = f w"
  by (auto simp: io_update_def)

lemma choose_target_keeps:
  "choose_target ops opts c = (Inr (), c') \<Longrightarrow> enabled_modules c' = enabled_modules c \<and> programs_found c' = programs_found c"
  by (auto simp: choose_target_def io_when_def io_return_def io_bind_eq_Inr io_get_def io_lift_def io_update_Inr split: if_splits)

lemma find_scripts_keeps:
  "find_scripts bound c = (Inr (), c') \<Longrightarrow> ids_ok c' = ids_ok c \<and> enabled_modules c' = enabled_modules c \<and> programs_found c' = programs_found c"
  by (auto simp: find_scripts_def ids_ok_def split: sum.splits)

section \<open>The build status file\<close>

lemma hex_char_plain: "d < 16 \<Longrightarrow> hex_char d \<noteq> CHR 0x0A"
proof -
  have "list_all (\<lambda>d. hex_char d \<noteq> CHR 0x0A) [0..<16]" by code_simp
  then show "d < 16 \<Longrightarrow> ?thesis" by (simp only: list_all_iff set_upt) simp
qed

lemma repr_char_no_newline: "quote \<noteq> CHR 0x0A \<Longrightarrow> CHR 0x0A \<notin> set (repr_char quote c)"
proof -
  have "(of_char c :: nat) < 256" by simp
  then have "(of_char c :: nat) div 16 < 16" by (intro less_mult_imp_div_less) simp
  then show "quote \<noteq> CHR 0x0A \<Longrightarrow> ?thesis"
    using hex_char_plain [of "of_char c div 16"] hex_char_plain [of "of_char c mod 16"]
    by (auto simp: repr_char_def Let_def)
qed

lemma join_no_char: "c \<notin> set sep \<Longrightarrow> (\<And>x. x \<in> set xs \<Longrightarrow> c \<notin> set x) \<Longrightarrow> c \<notin> set (join sep xs)"
  by (induction sep xs rule: join.induct) auto

lemma list_repr_no_newline: "CHR 0x0A \<notin> set (list_repr xs)"
proof -
  have "CHR 0x0A \<notin> set (str_repr x)" for x
    using repr_char_no_newline by (auto simp: str_repr_def Let_def)
  then have "CHR 0x0A \<notin> set (join '', '' (map str_repr xs))" by (intro join_no_char) auto
  then show ?thesis by (simp add: list_repr_def)
qed

text \<open>A word does not occur across a character that it does not contain.\<close>

lemma occurs_in_around:
  assumes "c \<notin> set needle" "needle \<noteq> []"
  shows "occurs_in needle (a @ c # b) \<longleftrightarrow> occurs_in needle a \<or> occurs_in needle b"
proof
  assume "occurs_in needle (a @ c # b)"
  then obtain us vs where split: "a @ c # b = us @ needle @ vs" unfolding occurs_in_iff by blast
  show "occurs_in needle a \<or> occurs_in needle b"
  proof (cases "length (us @ needle) \<le> length a")
    case True
    then have "a = (us @ needle) @ take (length a - length (us @ needle)) vs"
      using arg_cong [OF split, of "take (length a)"] by simp
    then show ?thesis unfolding occurs_in_iff by (metis append_assoc)
  next
    case False
    have "length a < length us"
    proof (rule ccontr)
      assume "\<not> length a < length us"
      with False have "(us @ needle @ vs) ! length a = needle ! (length a - length us)" "length a - length us < length needle"
        by (auto simp: nth_append)
      moreover have "(a @ c # b) ! length a = c" by simp
      ultimately show False using assms(1) split by (metis nth_mem)
    qed
    then have "b = drop (Suc (length a)) us @ needle @ vs"
      using arg_cong [OF split, of "drop (Suc (length a))"] by simp
    then show ?thesis unfolding occurs_in_iff by blast
  qed
next
  assume "occurs_in needle a \<or> occurs_in needle b"
  then show "occurs_in needle (a @ c # b)" unfolding occurs_in_iff by (metis append_assoc append_Cons)
qed

lemma list_repr_ends: "strip ('' '' @ list_repr xs @ newline) = list_repr xs"
  by (simp add: strip_def list_repr_def is_space_def)

lemma list_repr_bracket: "CHR '']'' \<in> set (list_repr xs)"
  by (simp add: list_repr_def)

definition programs_line :: "string list \<Rightarrow> string" where
  "programs_line programs = ''ns3_runnable_programs = '' @ list_repr programs @ newline"

definition scripts_line :: "string list \<Rightarrow> string" where
  "scripts_line scripts = ''ns3_runnable_scripts = '' @ list_repr scripts @ newline"

lemma build_status_lines:
  "file_lines (build_status_text programs scripts) =
     [''#! /usr/bin/env python'' @ newline, newline, ''# Programs that are runnable.'' @ newline, programs_line programs, newline,
      ''# Scripts that are runnable.'' @ newline, scripts_line scripts, newline]"
proof -
  have line: "file_lines (l @ CHR 0x0A # s) = (l @ newline) # file_lines s" if "CHR 0x0A \<notin> set l" for l s
    using file_lines_line [OF that, of s] by simp
  show ?thesis
    by (simp add: build_status_text_def line list_repr_no_newline programs_line_def scripts_line_def)
qed

lemma occurs_in_line:
  assumes "CHR '' '' \<notin> set needle" "CHR ''='' \<notin> set needle" "CHR 0x0A \<notin> set needle" "needle \<noteq> []"
  shows "occurs_in needle (name @ '' = '' @ s @ newline) \<longleftrightarrow> occurs_in needle name \<or> occurs_in needle s"
proof -
  have "\<not> occurs_in needle []" using assms(4) by (simp add: occurs_in_iff)
  moreover have "occurs_in needle (name @ '' = '' @ s @ newline) \<longleftrightarrow>
      occurs_in needle (name @ CHR '' '' # ([] @ CHR ''='' # ([] @ CHR '' '' # (s @ CHR 0x0A # []))))" by simp
  ultimately show ?thesis
    unfolding occurs_in_around [OF assms(1,4)] occurs_in_around [OF assms(2,4)] occurs_in_around [OF assms(3,4)] by simp
qed

text \<open>Names that a program of the tree may have: no quotes, no backslashes, no controls.\<close>

definition plain_name :: "string \<Rightarrow> bool" where
  "plain_name s \<longleftrightarrow> list_all (\<lambda>c. 32 \<le> (of_char c :: nat) \<and> (of_char c :: nat) < 127 \<and> c \<noteq> CHR 0x27 \<and> c \<noteq> CHR 0x5C) s"

lemma repr_char_plain:
  "32 \<le> (of_char c :: nat) \<Longrightarrow> (of_char c :: nat) < 127 \<Longrightarrow> c \<noteq> CHR 0x27 \<Longrightarrow> c \<noteq> CHR 0x5C \<Longrightarrow> repr_char CHR 0x27 c = [c]"
  by (auto simp: repr_char_def Let_def)

lemma str_repr_plain: "plain_name s \<Longrightarrow> str_repr s = CHR 0x27 # s @ [CHR 0x27]"
proof -
  assume plain: "plain_name s"
  then have "CHR 0x27 \<notin> set s" "concat (map (repr_char CHR 0x27) s) = s"
    by (induction s) (auto simp: plain_name_def repr_char_plain)
  then show ?thesis by (simp add: str_repr_def Let_def)
qed

lemma occurs_in_list_repr:
  assumes "CHR 0x27 \<notin> set needle" "CHR '','' \<notin> set needle" "CHR ''['' \<notin> set needle" "needle \<noteq> []" "CHR '']'' \<notin> set needle"
    "CHR '' '' \<notin> set needle" "list_all plain_name xs"
  shows "occurs_in needle (list_repr xs) \<longleftrightarrow> list_ex (occurs_in needle) xs"
proof -
  note around = occurs_in_around [OF assms(1,4)] occurs_in_around [OF assms(2,4)] occurs_in_around [OF assms(3,4)]
    occurs_in_around [OF assms(5,4)] occurs_in_around [OF assms(6,4)]
  have none: "\<not> occurs_in needle []" using assms(4) by (simp add: occurs_in_iff)
  have quoted: "occurs_in needle (str_repr x) \<longleftrightarrow> occurs_in needle x" if "plain_name x" for x
    using around(1) [of "[]" "x @ [CHR 0x27]"] around(1) [of x "[]"] none by (simp add: str_repr_plain that)
  have comma: "occurs_in needle (s @ CHR '','' # CHR '' '' # t) \<longleftrightarrow> occurs_in needle s \<or> occurs_in needle t" for s t
    using around(2) [of s "CHR '' '' # t"] around(5) [of "[]" t] none by simp
  have "occurs_in needle (join '', '' (map str_repr xs)) \<longleftrightarrow> list_ex (occurs_in needle) xs"
    using assms(7)
  proof (induction xs)
    case (Cons x xs)
    then show ?case using quoted none comma by (cases xs) auto
  qed (simp add: none)
  moreover have "occurs_in needle (list_repr xs) \<longleftrightarrow> occurs_in needle (join '', '' (map str_repr xs))"
    using around(3) [of "[]" "join '', '' (map str_repr xs) @ '']''"] around(4) [of "join '', '' (map str_repr xs)" "[]"] none
    by (simp add: list_repr_def)
  ultimately show ?thesis by simp
qed

lemma read_status:
  assumes "files w p = Some (build_status_text programs scripts)"
    and "eval (list_repr programs) = Inr programs'" "eval (list_repr scripts) = Inr scripts'"
    and "list_all plain_name programs" "\<not> list_ex (occurs_in ''ns3_runnable_scripts'') programs"
  shows "get_list_from_file eval p ''ns3_runnable_programs'' w = Inr programs'"
    and "get_list_from_file eval p ''ns3_runnable_scripts'' w = Inr scripts'"
proof -
  let ?ls = "file_lines (build_status_text programs scripts)"
  have eq: "get_list_from_file eval p name w = eval_list eval (list_lines (dropWhile (\<lambda>l. \<not> occurs_in name l) ?ls))" for name
    using assms(1) by (simp add: get_list_from_file_def path_exists_def find_list_eq)
  have lines: "list_lines (programs_line programs # ls) = Some (programs_line programs)"
    "list_lines (scripts_line scripts # ls) = Some (scripts_line scripts)" for ls
    using list_repr_bracket by (auto simp: list_lines_Cons programs_line_def scripts_line_def)
  have evals: "eval_list eval (Some (programs_line programs)) = eval (list_repr programs)"
    "eval_list eval (Some (scripts_line scripts)) = eval (list_repr scripts)"
    using list_repr_ends by (simp_all add: eval_list_eq programs_line_def scripts_line_def)
  have heads: "\<not> occurs_in n (''#! /usr/bin/env python'' @ newline)" "\<not> occurs_in n newline"
    "\<not> occurs_in n (''# Programs that are runnable.'' @ newline)" "\<not> occurs_in n (''# Scripts that are runnable.'' @ newline)"
    if "n \<in> {''ns3_runnable_programs'', ''ns3_runnable_scripts''}" for n
    using that by (auto simp: occurs_in_def)
  have programs: "occurs_in ''ns3_runnable_programs'' (programs_line programs)"
    unfolding programs_line_def occurs_in_iff by (intro exI [of _ "[]"] exI [of _ "'' = '' @ list_repr programs @ newline"]) simp
  have scripts: "occurs_in ''ns3_runnable_scripts'' (scripts_line scripts)"
    unfolding scripts_line_def occurs_in_iff by (intro exI [of _ "[]"] exI [of _ "'' = '' @ list_repr scripts @ newline"]) simp
  have "programs_line programs = ''ns3_runnable_programs'' @ '' = '' @ list_repr programs @ newline"
    by (simp add: programs_line_def)
  then have other: "\<not> occurs_in ''ns3_runnable_scripts'' (programs_line programs)"
    using assms(4,5) by (simp only:) (subst occurs_in_line; simp add: occurs_in_list_repr; simp add: occurs_in_def)
  show "get_list_from_file eval p ''ns3_runnable_programs'' w = Inr programs'"
    unfolding eq build_status_lines using heads programs by (simp add: lines evals assms(2))
  show "get_list_from_file eval p ''ns3_runnable_scripts'' w = Inr scripts'"
    unfolding eq build_status_lines using heads other scripts by (simp add: lines evals assms(3))
qed

section \<open>The files after a shutdown\<close>

text \<open>A step leaves a file as it is, provided that the programs it starts do.\<close>

definition keeps_file :: "string \<Rightarrow> ('e world, 'a) io \<Rightarrow> bool" where
  "keeps_file p m \<longleftrightarrow> (\<forall>w. files (snd (m w)) p = files w p)"

lemma keeps_file_bind: "keeps_file p m \<Longrightarrow> (\<And>a. keeps_file p (f a)) \<Longrightarrow> keeps_file p (io_bind m f)"
  by (auto simp: keeps_file_def io_bind_def split: prod.split sum.split) (metis snd_conv)+

lemma keeps_file_seq: "keeps_file p m \<Longrightarrow> keeps_file p n \<Longrightarrow> keeps_file p (io_seq m n)"
  by (simp add: io_seq_def keeps_file_bind)

lemma keeps_file_when: "keeps_file p m \<Longrightarrow> keeps_file p (io_when b m)"
  by (simp add: io_when_def keeps_file_def io_return_def)

lemma keeps_file_for_each: "(\<And>x s. keeps_file p (body x s)) \<Longrightarrow> keeps_file p (io_for_each body xs s)"
proof (induction xs arbitrary: s)
  case (Cons x xs)
  show ?case unfolding io_for_each.simps by (rule keeps_file_bind) (use Cons in auto)
qed (simp add: keeps_file_def io_return_def)

lemma keeps_file_basic:
  "keeps_file p (io_return a)" "keeps_file p (io_raise e)" "keeps_file p (io_lift r)" "keeps_file p (io_get f)"
  "keeps_file p (print_line l)" "keeps_file p (\<lambda>w. (g w, w))"
  by (simp_all add: keeps_file_def io_return_def io_raise_def io_lift_def io_get_def print_line_def)

lemma keeps_file_catch: "keeps_file p m \<Longrightarrow> (\<And>e. keeps_file p (h e)) \<Longrightarrow> keeps_file p (io_catch m h)"
  by (auto simp: keeps_file_def io_catch_def split: prod.split sum.split) (metis snd_conv)+

lemmas keeps_file_rules = keeps_file_bind keeps_file_seq keeps_file_when keeps_file_for_each keeps_file_basic keeps_file_catch

text \<open>What the programs that \<open>shutdown\<close> may start do to a file.\<close>

definition programs_keep :: "string \<Rightarrow> 'e process_system \<Rightarrow> 'e shell \<Rightarrow> bool" where
  "programs_keep p sys sh \<longleftrightarrow> (\<forall>r. keeps_file p (execute sys r)) \<and> (\<forall>dir cmd w. files (snd (sh dir cmd w)) p = files w p)"

lemma keeps_file_shell: "programs_keep p sys sh \<Longrightarrow> keeps_file p (shell_or_exit sh dir cmd)"
  by (auto simp: programs_keep_def keeps_file_def shell_or_exit_def split: prod.split) (metis snd_conv)+

lemma keeps_file_run_argv: "programs_keep p sys sh \<Longrightarrow> keeps_file p (run_argv sys opts bld argv env here force)"
  unfolding run_argv_def run_valgrind_def run_plain_def get_proc_env_def Let_def programs_keep_def
  by (auto intro!: keeps_file_rules split: prod.split)

lemma keeps_file_programs:
  assumes "programs_keep p sys sh"
  shows "keeps_file p (run_program sys opts bld prog t here v)" "keeps_file p (run_python_program sys opts bld q v)"
  using keeps_file_run_argv [OF assms] unfolding run_program_def run_python_program_def
  by (auto intro!: keeps_file_rules split: prod.split)

lemma keeps_file_printing:
  "keeps_file p (print_built b)" "programs_keep p sys sh \<Longrightarrow> keeps_file p (lcov_report sh gcov here)"
  unfolding print_built_def print_module_names_def lcov_report_def Let_def
  by (auto intro!: keeps_file_rules keeps_file_shell)

lemma keeps_file_requests: "programs_keep p sys sh \<Longrightarrow> keeps_file p (run_requests sys ropts bld sh opts gcov)"
  unfolding run_requests_def by (intro keeps_file_rules keeps_file_printing keeps_file_programs)

section \<open>A small tree\<close>

text \<open>
  Two modules, of which \<open>a\<close> uses \<open>core\<close>, one without a user, and two programs in \<open>scratch\<close>.
\<close>

definition small_module :: "string \<Rightarrow> string list \<Rightarrow> nat \<Rightarrow> generator" where
  "small_module name deps i =
     (new_generator [''cxx'', ''cxxshlib'', ''ns3module''] i)\<lparr>gen_name := ns3_name name, gen_use := map ns3_name deps,
       is_ns3_module := True\<rparr>"

definition small_toolchain :: toolchain where
  "small_toolchain = \<lparr>static_ns3 = False, sys_platform = ''linux2'', dest_binfmt = ''elf'', cxx_name = ''gcc'',
     cc_name = ''gcc'', shlib_marker = []\<rparr>"

definition small_subdirs :: "string \<Rightarrow> ('e build_ctx, unit) io" where
  "small_subdirs dir =
     (if dir = ''src'' then
        io_update (add_generator (small_module ''core'' []) \<circ> add_generator (small_module ''a'' [''core'']) \<circ>
          add_generator (small_module ''b'' [''a'']) \<circ> add_generator (ns3_program small_toolchain ''tool'' [''b'']))
      else if dir = ''utils'' then utils_build small_toolchain
      else io_update id)"

definition small_ops :: "unit build_ops" where
  "small_ops =
     \<lparr>add_subdirs = small_subdirs, list_dir = (\<lambda>dir e. [''.hg'', ''sim.cc'', ''notes'']), is_dir = (\<lambda>p e. False),
      gen_nodes = (\<lambda>g. \<lparr>is_ns3_program = True, source_dir = ''/s'', target = gen_target g, program_file = []\<rparr>),
      ops_toolchain = small_toolchain,
      ops_system = \<lparr>execute = (\<lambda>r w. (Inr (0, []), w)), windows = False, signal_table = [], path_separator = '':'',
        show_argv = concat, working_dir = ''/''\<rparr>,
      ops_options = \<lparr>command_template = None, use_valgrind = False, option_cwd_launch = None, waf_cwd_launch = ''/'',
        launch_directory = ''/'', platform = ''linux2''\<rparr>,
      ops_build = \<lparr>all_task_gen = [], module_path = [], executable_path = [], valgrind_program = None, python_program = ''python'',
        pymoddir = Some ''p'', pyvizdir = Some ''v''\<rparr>\<rparr>"

definition small_options :: wscript_options where
  "small_options = \<lparr>enable_modules = None, run_target = [], pyrun_target = [], visualize = False, wants_shell = False,
     wants_check = False, wants_lcov = False, doxygen_only = False, template_args = []\<rparr>"

definition small_ctx :: "unit build_ctx" where
  "small_ctx = \<lparr>groups = [], current_group = 0, next_id = 0, enabled_modules = [''ns3-a''], tests_on = False,
     examples_on = False, sudo_on = False, test_modules = [], test_libraries = [], script_dependencies = [],
     programs_found = [], scripts_found = [], print_at_end = False, targets = [], warnings = [], ctx_ext = ()\<rparr>"

lemma small_module_id [simp]: "gen_id (small_module name deps i) = i"
  by (simp add: small_module_def new_generator_def)

lemma keeps_lists_small: "keeps_lists (add_subdirs small_ops d)"
  using keeps_listsD [OF keeps_lists_utils]
  by (intro keeps_listsI) (auto simp: small_ops_def small_subdirs_def io_update_def intro!: ids_ok_add split: if_splits)

lemma print_lines_world: "io_for_each (\<lambda>line _. print_line line) lines () w = (Inr (), w\<lparr>console := console w @ lines\<rparr>)"
  by (induction lines arbitrary: w) (simp_all add: io_return_def io_bind_def print_line_def)

lemma print_built_returns: "\<exists>w1. print_built b w = (Inr (), w1) \<and> files w1 = files w"
  by (simp add: print_built_def print_module_names_def io_seq_def io_bind_def print_line_def print_lines_world io_when_def
      io_return_def)

text \<open>A file that the started programs leave alone is after \<open>shutdown\<close> what it was, or the build status.\<close>

lemma shutdown_writes:
  assumes "programs_keep p sys sh"
  shows "files (snd (shutdown sys ropts bld sh opts (Some b) w)) p =
     (if p = build_status_file (outcome_dir b) then Some (build_status_text (outcome_programs b) (outcome_scripts b))
      else files w p)"
proof -
  obtain w1 where w1: "io_when (print_lists b) (print_built b) w = (Inr (), w1)" "files w1 = files w"
    using print_built_returns [of b w] by (cases "print_lists b") (auto simp: io_when_def io_return_def)
  have "keeps_file p (io_seq (run_requests sys ropts bld sh opts (gcov_enabled b)) (io_return (Some (b\<lparr>print_lists := False\<rparr>))))"
    by (intro keeps_file_rules keeps_file_requests assms)
  then show ?thesis unfolding shutdown_def option.case keeps_file_def
    by (subst io_seq_def, subst io_bind_def) (simp add: w1 io_seq_def [of "write_file p t" for p t] io_bind_def [of "write_file p t" for p t] write_file_def)
qed

lemma name_rows_three:
  "length row < 3 \<Longrightarrow> name_rows (Suc (length row)) row names =
     (let cells = row @ map (ljust 25) names in
      map (\<lambda>k. join '' '' (take 3 (drop (3 * k) cells))) [0..<(length cells + 2) div 3])"
proof (induction "Suc (length row)" row names rule: name_rows.induct)
  case (1 row)
  show ?case
  proof (cases row)
    case (Cons a list)
    with "1.prems" have "(3 + length list) div 3 = Suc 0" by simp
    with Cons "1.prems" show ?thesis by simp
  qed simp
next
  case (2 row name names)
  let ?r = "row @ [ljust 25 name]"
  show ?case
  proof (cases "length row = 2")
    case True
    have "name_rows 1 [] names = (let cells = map (ljust 25) names in
        map (\<lambda>k. join '' '' (take 3 (drop (3 * k) cells))) [0..<(length cells + 2) div 3])"
      using "2"(1) [of ?r] True by simp
    moreover have "(length (row @ map (ljust 25) (name # names)) + 2) div 3 = Suc ((length names + 2) div 3)"
      using True by simp
    moreover have "[0..<Suc n] = 0 # map Suc [0..<n]" for n by (simp only: map_Suc_upt) (simp add: upt_conv_Cons)
    ultimately show ?thesis using True by (simp add: Let_def o_def)
  next
    case False
    then have "name_rows (Suc (length ?r)) ?r names = (let cells = ?r @ map (ljust 25) names in
        map (\<lambda>k. join '' '' (take 3 (drop (3 * k) cells))) [0..<(length cells + 2) div 3])"
      using "2"(2) [of ?r] "2.prems" by simp
    with False show ?thesis by (simp add: Let_def)
  qed
qed

section \<open>Properties\<close>



end
