(* ===== verification/Module_Script.thy ===== *)
theory Module_Script
  imports Build_Script
begin

text \<open>
  The script of the modules, \<open>src/wscript\<close>: the list of modules, the task generators of a module, of its test
  library and of its Python bindings, and the tasks that write the files of \<open>pkg-config\<close>, install headers and
  write the header of a module. The nodes of waf are paths here, and what waf finds is a parameter.
\<close>

section \<open>The modules of the tree\<close>

text \<open>The test for \<open>CVS\<close> in the code compares the function \<open>dir\<close> and never applies.\<close>

definition all_modules :: "string list \<Rightarrow> (string \<Rightarrow> bool) \<Rightarrow> (string \<Rightarrow> bool) \<Rightarrow> string list" where
  "all_modules listing isdir exists =
     sort (filter (\<lambda>d. take 1 d \<noteq> ''.'' \<and> isdir (path_join ''src'' d) \<and> exists (path_join (path_join ''src'' d) ''wscript'')) listing)"

definition short_name :: "string \<Rightarrow> string" where
  \<comment> \<open>\<open>module.split('/')[-1]\<close>\<close>
  "short_name m = last (split_on (CHR ''/'') m)"

record module_config =
  module_paths :: "string list"
  rpath :: "string list"
  ns3_module_names :: "string list"
  config_ext :: "(string, string list) dict"

definition configure_src ::
  "(string \<Rightarrow> (module_config, unit) io) \<Rightarrow> string list \<Rightarrow> string \<Rightarrow> bool \<Rightarrow> (module_config, unit) io" where
  "configure_src sub_config modules blddir enable_rpath =
     io_seq (io_for_each (\<lambda>m _. sub_config m) modules ())
       (io_update (\<lambda>c. c\<lparr>module_paths := module_paths c @ [blddir],
          rpath := (if enable_rpath then rpath c @ [''-Wl,-rpath='' @ blddir] else rpath c),
          ns3_module_names := map (\<lambda>m. ns3_name (short_name m)) modules\<rparr>))"

definition remove_module :: "string \<Rightarrow> string list \<Rightarrow> string list" where
  "remove_module not_built modules =
     (let m = (if not_built = ''ns3tcp'' \<or> not_built = ''ns3wifi'' then ''test/'' @ not_built else not_built)
      in if m \<in> set modules then remove1 m modules else modules)"

definition build_src :: "'e build_ops \<Rightarrow> string list \<Rightarrow> string list \<Rightarrow> ('e build_ctx, unit) io" where
  "build_src ops modules not_built =
     (let modules = fold remove_module not_built modules in
      io_seq (io_for_each (\<lambda>m _. add_subdirs ops m) modules ())
        (io_update (fold (\<lambda>m. add_generator (\<lambda>i. (new_generator [''ns3moduleheader''] i)\<lparr>gen_module := short_name m\<rparr>)) modules)))"

section \<open>The generators of a module\<close>

record module_gen =
  mg_features :: "string list"
  mg_target :: string
  mg_env :: "(string, string list) dict"
  mg_static :: bool
  mg_vnum :: "string option"
  mg_deps :: "string list"
  mg_name :: string
  mg_use :: "string list"
  mg_test :: bool
  mg_is_module :: bool
  mg_tested :: "string option"
  mg_dir :: string

record module_place =
  target_prefix :: string
  dir_location :: string
  build_to_here :: string

record module_tools =
  mt_static :: bool
  mt_cxx_name :: string
  mt_soname :: bool
  mt_library_name :: "string \<Rightarrow> string"
  mt_vnum :: "string option"
  mt_env :: "(string, string list) dict"

definition env_list :: "(string, string list) dict \<Rightarrow> string \<Rightarrow> string list" where
  "env_list env n = (case map_of env n of None \<Rightarrow> [] | Some v \<Rightarrow> v)"

definition env_append :: "string \<Rightarrow> string list \<Rightarrow> (string, string list) dict \<Rightarrow> (string, string list) dict" where
  "env_append n v env = dict_set n (env_list env n @ v) env"

definition ns3_module :: "module_tools \<Rightarrow> module_place \<Rightarrow> string \<Rightarrow> string list \<Rightarrow> bool \<Rightarrow> module_gen" where
  "ns3_module mt place name dependencies test =
     (let static = mt_static mt;
          target = target_prefix place @ ''/ns3-'' @ name;
          linkflags = (if \<not> static \<and> mt_cxx_name mt \<in> {''gcc'', ''icc''} \<and> mt_soname mt
            then [''-Wl,--soname='' @ mt_library_name mt (path_tail target)] else []);
          cxxflags = (if static then [] else env_list (mt_env mt) ''shlib_CXXFLAGS'');
          env = env_append ''CXXFLAGS'' cxxflags (mt_env mt);
          env = env_append ''CCFLAGS'' cxxflags env;
          env = env_append ''LINKFLAGS'' linkflags env;
          env = env_append ''CXXDEFINES'' [''NS3_MODULE_COMPILATION''] env;
          env = env_append ''CCDEFINES'' [''NS3_MODULE_COMPILATION''] env;
          env = env_append ''INCLUDES'' [''#''] env
      in \<lparr>mg_features = (if static then [''cxx'', ''cxxstlib'', ''ns3module''] else [''cxx'', ''cxxshlib'', ''ns3module'']),
          mg_target = target, mg_env = env, mg_static = static, mg_vnum = mt_vnum mt, mg_deps = dependencies,
          mg_name = ns3_name name, mg_use = map ns3_name dependencies, mg_test = test, mg_is_module = True, mg_tested = None,
          mg_dir = dir_location place\<rparr>)"

definition as_generator :: "module_gen \<Rightarrow> nat \<Rightarrow> generator" where
  "as_generator m i =
     (new_generator (mg_features m) i)\<lparr>gen_name := mg_name m, gen_target := mg_target m, gen_env := mg_env m, gen_use := mg_use m,
       is_ns3_module := mg_is_module m, test_library_of := mg_tested m\<rparr>"

definition pcfile_generator :: "module_gen \<Rightarrow> nat \<Rightarrow> generator" where
  "pcfile_generator m i = (new_generator [''ns3pcfile''] i)\<lparr>gen_module := mg_name m\<rparr>"

definition create_ns3_module ::
  "module_tools \<Rightarrow> module_place \<Rightarrow> string \<Rightarrow> string list \<Rightarrow> bool \<Rightarrow> 'e build_ctx \<Rightarrow> module_gen \<times> 'e build_ctx" where
  "create_ns3_module mt place name dependencies test c =
     (let m = ns3_module mt place name dependencies test
      in (m, add_generator (pcfile_generator m) (add_generator (as_generator m) c)))"

text \<open>The object that \<open>create_ns3_module\<close> gave is changed afterwards, which its generator in the group shows.\<close>

definition test_library :: "module_tools \<Rightarrow> module_place \<Rightarrow> string \<Rightarrow> module_gen" where
  "test_library mt place name =
     (let m = ns3_module mt place (name @ ''-test'') [name] True; flag = ''-I'' @ build_to_here place
      in m\<lparr>mg_features := mg_features m @ [''ns3testlib''], mg_is_module := False, mg_tested := Some (ns3_name name),
           mg_env := env_append ''CCFLAGS'' [flag] (env_append ''CXXFLAGS'' [flag] (mg_env m))\<rparr>)"

definition create_ns3_module_test_library ::
  "module_tools \<Rightarrow> module_place \<Rightarrow> string \<Rightarrow> 'e build_ctx \<Rightarrow> module_gen \<times> 'e build_ctx" where
  "create_ns3_module_test_library mt place name c =
     (let m = test_library mt place name;
          c = add_generator (pcfile_generator m) (add_generator (as_generator m) c)
      in (m, c\<lparr>test_modules := test_modules c @ [(ns3_name name, mg_name m)]\<rparr>))"

definition apply_incpaths_ns3testlib :: "string list \<Rightarrow> (string \<Rightarrow> string) \<Rightarrow> (string, string list) dict \<Rightarrow> (string, string list) dict" where
  \<comment> \<open>the directory of the last source file, relative to the source tree\<close>
  "apply_incpaths_ns3testlib source parent_dir env =
     (if source = [] then env
      else env_append ''DEFINES''
        [''NS_TEST_SOURCEDIR='' @ [CHR 0x22] @ parent_dir (last source) @ [CHR 0x22]] env)"

section \<open>Python bindings\<close>

record binding_env =
  apiscan :: bool
  bindings_enabled :: bool
  binding_modules :: "string list"
  apidefs_name :: string
  optional_features :: "(string \<times> string \<times> bool \<times> string) list"
  pymod_static :: bool
  pymod_platform :: string
  waf_platform :: string
  pymod_env :: "(string, string list) dict"
  has_bindings_dir :: bool
  has_resource :: "string \<Rightarrow> bool"
  generator_script :: string
  target_dir :: string
  script_dir :: string

record python_lists =
  modular_bindings :: "string list"
  python_modules_built :: "string list"
  binding_warnings :: "string list"

record binding_command =
  bc_source :: "string list"
  bc_target :: "string list"
  bc_command :: "string list"
  bc_features :: string
  bc_name :: string

record python_module =
  pm_target :: string
  pm_name :: string
  pm_use :: "string list"
  pm_env :: "(string, string list) dict"

record bindings =
  frontend :: "(string \<times> string) option"
  bind_command :: binding_command
  bind_module :: python_module

definition underscores :: "string \<Rightarrow> string" where
  "underscores s = map (\<lambda>c. if c = CHR ''-'' then CHR ''_'' else c) s"

definition binding_sources :: "binding_env \<Rightarrow> string list" where
  "binding_sources be =
     [generator_script be, ''bindings/modulegen__'' @ underscores (apidefs_name be) @ ''.py''] @
     (if has_resource be ''bindings/modulegen_customizations.py'' then [''bindings/modulegen_customizations.py''] else []) @
     (if has_resource be ''bindings/modulegen_local.py'' then [''bindings/modulegen_local.py''] else [])"

definition binding_command_for :: "binding_env \<Rightarrow> string \<Rightarrow> string \<Rightarrow> binding_command" where
  "binding_command_for be module extension_name =
     \<lparr>bc_source = binding_sources be,
      bc_target = [''bindings/ns3module.cc'', ''bindings/ns3module.h'', ''bindings/ns3modulegen.log''],
      bc_command = [''NS3_ENABLED_FEATURES=${FEATURES}'', ''GCC_RTTI_ABI_COMPLETE=${GCC_RTTI_ABI_COMPLETE}'', ''${PYTHON}'',
        ''${SRC[0]}'', script_dir be, underscores (apidefs_name be), extension_name, ''${TGT[0]}'', ''2>'', ''${TGT[2]}''],
      bc_features = join '','' (map fst (filter (\<lambda>(name, caption, was_enabled, reason). was_enabled) (optional_features be))),
      bc_name = ''pybindgen(ns3 module '' @ module @ '')''\<rparr>"

text \<open>
  The flags of a static library. On Darwin the code reads the attribute \<open>usel\<close>, which no generator has.
\<close>

definition static_linkflags :: "binding_env \<Rightarrow> (string, string list) dict \<Rightarrow> (string, string list) dict result" where
  "static_linkflags be env =
     (if \<not> pymod_static be then Inr env
      else if pymod_platform be = ''darwin'' then Inl AttributeError
      else Inr (env_append ''LINKFLAGS'' [''-Wl,-Bdynamic,--no-whole-archive'']
        (fold (\<lambda>m. env_append ''LINKFLAGS'' [''-l'' @ m]) (binding_modules be)
          (env_append ''LINKFLAGS'' [''-Wl,--whole-archive,-Bstatic''] env))))"

definition binding_defines :: "binding_env \<Rightarrow> (string, string list) dict \<Rightarrow> string list" where
  "binding_defines be env =
     (let defines = env_list env ''DEFINES'' @ [''NS_DEPRECATED='', ''NS3_DEPRECATED_H'']
      in if waf_platform be = ''win32'' then remove1 ''_DEBUG'' defines else defines)"

definition python_module_for :: "binding_env \<Rightarrow> string \<Rightarrow> string \<Rightarrow> python_module result" where
  "python_module_for be module extension_name =
     res_bind (static_linkflags be (pymod_env be)) (\<lambda>env.
       Inr \<lparr>pm_target = target_dir be @ ''/'' @ extension_name, pm_name = ''ns3module_'' @ module, pm_use = binding_modules be,
            pm_env = dict_set ''DEFINES'' (binding_defines be env) env\<rparr>)"

definition ns3_python_bindings :: "binding_env \<Rightarrow> string \<Rightarrow> (python_lists, bindings option) io" where
  "ns3_python_bindings be dir =
     (let module = path_tail (script_dir be) in
      io_seq (io_update (\<lambda>l. l\<lparr>modular_bindings := modular_bindings l @ [ns3_name module]\<rparr>))
       (if apiscan be \<or> \<not> bindings_enabled be then io_return None
        else if \<not> has_bindings_dir be then
          io_seq (io_update (\<lambda>l. l\<lparr>binding_warnings := binding_warnings l @
            [''(in '' @ dir @ '') Requested to build modular python bindings, but apidefs dir not found => skipped the bindings.'']\<rparr>))
            (io_return None)
        else if ns3_name module \<notin> set (binding_modules be) then io_return None
        else
          io_seq (io_update (\<lambda>l. l\<lparr>python_modules_built := python_modules_built l @ [module]\<rparr>))
            (let py = underscores module; front = has_resource be (''bindings/'' @ py @ ''.py'');
                 extension_name = (if front then ''_'' @ py else py)
             in io_bind (io_lift (python_module_for be module extension_name)) (\<lambda>pymod.
                  io_return (Some \<lparr>frontend = (if front then Some (''bindings/'' @ py @ ''.py'', target_dir be @ ''/'' @ py @ ''.py'') else None),
                    bind_command = binding_command_for be module extension_name, bind_module = pymod\<rparr>)))))"

section \<open>Lemmas\<close>

lemma fold_append_list: "env_list (fold (\<lambda>m. env_append n [f m]) ms env) n = env_list env n @ map f ms"
  by (induction ms arbitrary: env) (simp_all add: env_append_def env_list_def dict_simps)

lemma env_append_same [simp]: "env_list (env_append n v env) n = env_list env n @ v"
  by (simp add: env_append_def env_list_def dict_simps)

lemma env_list_set [simp]: "env_list (dict_set n v env) m = (if m = n then v else env_list env m)"
  by (simp add: env_list_def dict_simps)

lemma env_append_other [simp]: "m \<noteq> n \<Longrightarrow> env_list (env_append n v env) m = env_list env m"
  by (simp add: env_append_def)

lemma fold_append_other [simp]: "m \<noteq> n \<Longrightarrow> env_list (fold (\<lambda>x. env_append n [f x]) ms env) m = env_list env m"
  by (induction ms arbitrary: env) simp_all

text \<open>The bindings are asked for: they are switched on, there is a directory for them and their module is enabled.\<close>

definition bindings_wanted :: "binding_env \<Rightarrow> bool" where
  "bindings_wanted be \<longleftrightarrow> \<not> apiscan be \<and> bindings_enabled be \<and> has_bindings_dir be \<and>
     ns3_name (path_tail (script_dir be)) \<in> set (binding_modules be)"

section \<open>Properties\<close>

text \<open>C31: asked for the bindings of a module, the script records the module and makes generators exactly when they are
  wanted; but on a static build for Darwin it raises an \<open>AttributeError\<close>, as it reads \<open>usel\<close> for \<open>use\<close>. On another
  static build the libraries of all enabled modules are linked between the two flags, in their order.\<close>

theorem ns3_python_bindings_outcome:
  "case ns3_python_bindings be dir l of (r, l') \<Rightarrow>
     modular_bindings l' = modular_bindings l @ [ns3_name (path_tail (script_dir be))] \<and>
     python_modules_built l' = python_modules_built l @ (if bindings_wanted be then [path_tail (script_dir be)] else []) \<and>
     (case r of
        Inl e \<Rightarrow> e = AttributeError \<and> bindings_wanted be \<and> pymod_static be \<and> pymod_platform be = ''darwin''
      | Inr None \<Rightarrow> \<not> bindings_wanted be
      | Inr (Some b) \<Rightarrow> bindings_wanted be \<and> \<not> (pymod_static be \<and> pymod_platform be = ''darwin'') \<and>
          env_list (pm_env (bind_module b)) ''LINKFLAGS'' = env_list (pymod_env be) ''LINKFLAGS'' @
            (if pymod_static be
             then [''-Wl,--whole-archive,-Bstatic''] @ map ((@) ''-l'') (binding_modules be) @ [''-Wl,-Bdynamic,--no-whole-archive'']
             else []))"
proof -
  note steps = ns3_python_bindings_def Let_def io_seq_def io_bind_def io_update_def io_return_def io_lift_def bindings_wanted_def
  show ?thesis
  proof (cases "bindings_wanted be")
    case False
    then show ?thesis by (auto simp: steps)
  next
    case True
    then show ?thesis
      by (cases "pymod_static be"; cases "pymod_platform be = ''darwin''")
         (auto simp: steps python_module_for_def static_linkflags_def fold_append_list)
  qed
qed

end
