(* ===== verification/Module_Tasks.thy ===== *)
theory Module_Tasks
  imports Build_Script
begin

text \<open>
  The tasks of the script of the modules, \<open>src/wscript\<close>: the file of \<open>pkg-config\<close> for a module, the headers that
  are installed or removed, and the header that includes all headers of a module. Nodes are paths; patterns of the
  environment such as \<open>-L%s\<close> are functions.
\<close>

section \<open>The file of pkg-config\<close>

record pc_env =
  pc_static :: bool
  pc_prefix :: string
  pc_includedir :: string
  pc_libdir :: string
  pc_pattern :: "string \<Rightarrow> string \<Rightarrow> string"
  pc_marker :: "string \<Rightarrow> string option"
  pc_list :: "string \<Rightarrow> string list"
  pc_flags :: "string \<Rightarrow> string + string list"

definition self_libs :: "pc_env \<Rightarrow> string \<Rightarrow> string \<Rightarrow> string list" where
  "self_libs env name libdir =
     (let (path_st, lib_st, lib_marker) = (if pc_static env then (''STLIBPATH_ST'', ''STLIB_ST'', ''STLIB_MARKER'')
        else (''LIBPATH_ST'', ''LIB_ST'', ''SHLIB_MARKER''))
      in [pc_pattern env path_st libdir] @
         (if truthy (pc_marker env lib_marker) then [the (pc_marker env lib_marker)] else []) @ [pc_pattern env lib_st name])"

definition dep_libs :: "pc_env \<Rightarrow> string \<Rightarrow> string list" where
  "dep_libs env dep =
     (let retval = foldl (\<lambda>retval path. (retval @ [pc_pattern env ''LIBPATH_ST'' path]) @ pc_list env (''LINKFLAGS_'' @ dep)) []
        (pc_list env (''LIBPATH_'' @ dep))
      in foldl (\<lambda>retval lib. retval @ [pc_pattern env ''LIB_ST'' lib]) retval (pc_list env (''LIB_'' @ dep)))"

fun listify :: "string + string list \<Rightarrow> string list" where
  "listify (Inl s) = [s]"
| "listify (Inr l) = l"

definition dep_cflags :: "pc_env \<Rightarrow> string \<Rightarrow> string list" where
  "dep_cflags env dep = listify (pc_flags env (''CFLAGS_'' @ dep))"

definition dep_cxxflags :: "pc_env \<Rightarrow> string \<Rightarrow> string list" where
  "dep_cxxflags env dep = listify (pc_flags env (''CXXFLAGS_'' @ dep))"

definition dep_defines :: "pc_env \<Rightarrow> string \<Rightarrow> string list" where
  "dep_defines env dep = map (pc_pattern env ''DEFINES_ST'') (pc_list env (''DEFINES_'' @ dep))"

definition dep_includes :: "pc_env \<Rightarrow> string \<Rightarrow> string list" where
  "dep_includes env dep = map (pc_pattern env ''CPPPATH_ST'') (pc_list env (''INCLUDES_'' @ dep))"

text \<open>
  \<open>libs += s\<close> with a string \<open>s\<close> adds its characters one by one, which happens for each entry of \<open>LIBS\<close>.
\<close>

definition pc_libs :: "pc_env \<Rightarrow> string \<Rightarrow> string list \<Rightarrow> string list" where
  "pc_libs env name deps =
     (let libs = foldl (\<lambda>libs dep. libs @ dep_libs env dep) (self_libs env name ''${libdir}'') deps
      in foldl (\<lambda>libs dep. libs @ map (\<lambda>c. [c]) (pc_pattern env ''LIB_ST'' dep)) libs (pc_list env ''LIBS''))"

definition pc_cflags :: "pc_env \<Rightarrow> string list \<Rightarrow> string list \<times> string list" where
  "pc_cflags env deps =
     foldl (\<lambda>(cflags, requires) dep.
       (cflags @ dep_cflags env dep @ dep_cxxflags env dep @ dep_defines env dep @ dep_includes env dep,
        if prefix ''ns3-'' dep then requires @ [''lib'' @ dep] else requires))
       ([pc_pattern env ''CPPPATH_ST'' ''${includedir}''], []) deps"

definition pcfile_text :: "pc_env \<Rightarrow> string \<Rightarrow> string list \<Rightarrow> string" where
  "pcfile_text env name deps =
     (let (cflags, requires) = pc_cflags env deps in
      newline @ ''prefix='' @ pc_prefix env @ newline @ ''libdir='' @ pc_libdir env @ newline @
      ''includedir='' @ pc_includedir env @ newline @ newline @
      ''Name: lib'' @ name @ newline @ ''Description: ns-3 module '' @ name @ newline @ ''Version: devel'' @ newline @
      ''Libs: '' @ join '' '' (pc_libs env name deps) @ newline @ ''Cflags: '' @ join '' '' cflags @ newline @
      ''Requires: '' @ join '' '' requires @ newline @ newline)"

definition generate_pcfile :: "pc_env \<Rightarrow> string \<Rightarrow> string list \<Rightarrow> string \<Rightarrow> ('e world, unit) io" where
  "generate_pcfile env name deps outfilename = write_file outfilename (pcfile_text env name deps)"

text \<open>
  The task of a module writes its file; \<open>apply\<close> makes the task beside the script of the module and has its output installed.
\<close>

record pcfile_task =
  pc_outputs :: "string list"
  pc_module :: string
  pc_use :: "string list"

definition run_pcfile :: "pc_env \<Rightarrow> pcfile_task \<Rightarrow> ('e world, unit) io" where
  "run_pcfile env t =
     io_bind (io_lift (py_get (pc_outputs t) 0)) (\<lambda>output_filename. generate_pcfile env (pc_module t) (pc_use t) output_filename)"

definition apply_ns3pcfile ::
  "string \<Rightarrow> string \<Rightarrow> string list \<Rightarrow> (string \<times> string list) list \<Rightarrow> pcfile_task \<times> (string \<times> string list) list" where
  "apply_ns3pcfile here name deps installs =
     (let output_node = path_join here (''lib'' @ name @ ''.pc'')
      in (\<lparr>pc_outputs = [output_node], pc_module = name, pc_use = deps\<rparr>, installs @ [(''${LIBDIR}/pkgconfig'', [output_node])]))"

definition pcfile_caption :: "(string \<Rightarrow> string) \<Rightarrow> pcfile_task \<Rightarrow> string" where
  "pcfile_caption nice t = ''pcfile: '' @ join '' '' (map nice (pc_outputs t)) @ newline"

section \<open>Headers that are installed\<close>

record header_task =
  task_mode :: string
  task_inputs :: "string list"
  task_outputs :: "string list"
  header_to_remove :: string

text \<open>\<open>apply_ns3header\<close>: one task for each source file, each file once, in the order \<open>ord\<close> of the set.\<close>

definition header_task_for :: "string \<Rightarrow> string \<Rightarrow> string \<Rightarrow> header_task" where
  "header_task_for mode src dst =
     (if mode = ''install'' then \<lparr>task_mode = mode, task_inputs = [src], task_outputs = [dst], header_to_remove = []\<rparr>
      else \<lparr>task_mode = mode, task_inputs = [], task_outputs = [], header_to_remove = dst\<rparr>)"

definition apply_ns3header ::
  "(string list \<Rightarrow> string list) \<Rightarrow> (string \<Rightarrow> string option) \<Rightarrow> string \<Rightarrow> string option \<Rightarrow> string \<Rightarrow> string list \<Rightarrow> header_task list result" where
  "apply_ns3header ord find_resource ns3_dir module mode source =
     (if module = None then Inl (waf_error ''module missing on ns3headers object'')
      else for_each (\<lambda>filename tasks.
        case find_resource filename of
          None \<Rightarrow> Inl (waf_error (''source ns3 header file '' @ filename @ '' not found''))
        | Some src \<Rightarrow> Inr (tasks @ [header_task_for mode src (path_join ns3_dir (path_tail src))])) (ord (remdups source)) [])"

datatype header_status = Run_header | Skip_header | As_other_tasks

definition header_runnable_status :: "header_task \<Rightarrow> 'e world \<Rightarrow> header_status" where
  "header_runnable_status t w =
     (if task_mode t = ''remove'' then if path_exists (header_to_remove t) w then Run_header else Skip_header
      else As_other_tasks)"

text \<open>\<open>os.unlink\<close>; a missing file is the error 2, which the tasks pass over.\<close>

definition unlink_if_there :: "string \<Rightarrow> ('e world, int) io" where
  "unlink_if_there p w =
     (if files w p \<noteq> None then (Inr 0, w\<lparr>files := (files w)(p := None)\<rparr>)
      else if p \<in> set (dirs w) then (Inl OSError, w) else (Inr 0, w))"

text \<open>\<open>chmod\<close> changes the part \<open>ext\<close> of the world; on a file that is not there yet its error is passed over.\<close>

definition copy_header :: "(string \<Rightarrow> nat \<Rightarrow> 'e \<Rightarrow> 'e) \<Rightarrow> string \<Rightarrow> string \<Rightarrow> ('e world, unit) io" where
  "copy_header chmod src dst =
     io_seq (\<lambda>w. (Inr (), if path_exists dst w then w\<lparr>ext := chmod dst 384 (ext w)\<rparr> else w))
    (io_bind (read_file src) (\<lambda>contents.
     io_seq (write_file dst contents) (\<lambda>w. (Inr (), w\<lparr>ext := chmod dst 256 (ext w)\<rparr>))))"

definition remove_header :: "header_task \<Rightarrow> ('e world, int) io" where
  "remove_header t =
     (if task_inputs t \<noteq> [] \<or> task_outputs t \<noteq> [] then io_raise AssertionError else unlink_if_there (header_to_remove t))"

definition run_header_task :: "(string \<Rightarrow> nat \<Rightarrow> 'e \<Rightarrow> 'e) \<Rightarrow> header_task \<Rightarrow> ('e world, int) io" where
  "run_header_task chmod t =
     (if task_mode t = ''install'' then
        if length (task_inputs t) \<noteq> length (task_outputs t) then io_raise AssertionError
        else io_bind (io_for_each (\<lambda>(src, dst) _. copy_header chmod src dst) (zip (task_inputs t) (task_outputs t)) ())
          (\<lambda>_. io_return 0)
      else remove_header t)"

text \<open>
  What is displayed of a task, and its hash: \<open>digest\<close> is MD5 over the texts put together.
\<close>

definition task_files :: "(string \<Rightarrow> string) \<Rightarrow> header_task \<Rightarrow> string" where
  "task_files nice t =
     join '' '' (map nice (task_inputs t)) @ (if task_outputs t \<noteq> [] then '' -> '' else []) @ join '' '' (map nice (task_outputs t))"

definition header_caption :: "(string \<Rightarrow> string) \<Rightarrow> header_task \<Rightarrow> string" where
  "header_caption nice t =
     (if task_mode t = ''remove'' then ''rm-ns3-header '' @ header_to_remove t @ newline
      else ''install-ns3-header: '' @ task_files nice t @ newline)"

definition module_header_caption :: "(string \<Rightarrow> string) \<Rightarrow> header_task \<Rightarrow> string" where
  "module_header_caption nice t =
     (if task_mode t = ''remove'' then ''rm-module-header '' @ header_to_remove t @ newline
      else ''gen-module-header: '' @ task_files nice t @ newline)"

definition header_uid :: "(string \<Rightarrow> string) \<Rightarrow> header_task \<Rightarrow> string" where
  "header_uid digest t =
     digest (''ns3header_task'' @ concat (task_inputs t @ task_outputs t) @ task_mode t @
       (if task_mode t = ''remove'' then header_to_remove t else []))"

definition module_header_id :: "(string \<Rightarrow> string) \<Rightarrow> string \<Rightarrow> string" where
  "module_header_id digest module = digest (''ns-3-module-header-'' @ module)"

definition module_header_sig :: "(string \<Rightarrow> string) \<Rightarrow> string \<Rightarrow> header_task \<Rightarrow> string" where
  \<comment> \<open>\<open>sig_explicit_deps\<close>, over the texts that went into the hash before\<close>
  "module_header_sig digest before t = digest (before @ join newline (task_inputs t))"

section \<open>The header of a module\<close>

definition upper_char :: "char \<Rightarrow> char" where
  "upper_char c = (if 97 \<le> (of_char c :: nat) \<and> (of_char c :: nat) \<le> 122 then char_of ((of_char c :: nat) - 32) else c)"

definition guard_name :: "string \<Rightarrow> string" where
  "guard_name module = map (\<lambda>c. if c = CHR ''-'' then CHR ''_'' else c) (map upper_char module)"

definition include_line :: "string \<Rightarrow> string" where
  "include_line header = ''#include '' @ [CHR 0x22] @ header @ [CHR 0x22] @ newline"

text \<open>The guard \<open>NS3_MODULE_...\<close> is tested and never defined.\<close>

definition module_header_text :: "string \<Rightarrow> string list \<Rightarrow> string" where
  "module_header_text module headers =
     newline @ ''#ifdef NS3_MODULE_COMPILATION'' @ newline @
     ''# error '' @ [CHR 0x22] @ ''Do not include ns3 module aggregator headers from other modules; these are meant only for end user scripts.'' @
       [CHR 0x22] @ newline @
     ''#endif'' @ newline @ newline @ ''#ifndef NS3_MODULE_'' @ guard_name module @ newline @ ''    '' @ newline @ newline @
     ''// Module headers:'' @ newline @ concat (map include_line headers) @ ''#endif'' @ newline"

definition run_module_header :: "string \<Rightarrow> header_task \<Rightarrow> ('e world, int) io" where
  "run_module_header module t =
     (if task_mode t = ''remove'' then remove_header t
      else if length (task_outputs t) \<noteq> 1 then io_raise AssertionError
      else io_bind (write_file (task_outputs t ! 0) (module_header_text module (sort (map path_tail (task_inputs t)))))
        (\<lambda>_. io_return 0))"

text \<open>
  \<open>apply_ns3moduleheader\<close> over the generators of headers, each with its module and its files: no task for a
  module without headers or without a generator.
\<close>

definition module_headers :: "(string \<times> string list) list \<Rightarrow> string \<Rightarrow> string list" where
  "module_headers header_gens module = concat (map snd (filter (\<lambda>(m, _). m = module) header_gens))"

definition apply_ns3moduleheader ::
  "(string, generator) dict \<Rightarrow> (string \<times> string list) list \<Rightarrow> string \<Rightarrow> string \<Rightarrow> string \<Rightarrow> header_task option result" where
  "apply_ns3moduleheader cache header_gens ns3_dir module mode =
     (if \<not> list_ex (\<lambda>(m, _). m = module) header_gens then Inl (waf_error (''error finding headers for module '' @ module))
      else
        let inputs = map (\<lambda>source. path_join ns3_dir (path_tail source)) (module_headers header_gens module);
            output_node = path_join ns3_dir (module @ ''-module.h'')
        in if inputs = [] then Inr None
           else case get_tgen_by_name cache (ns3_name module) of
             Inl _ \<Rightarrow> Inr None
           | Inr _ \<Rightarrow>
               Inr (Some (if mode = ''install''
                 then \<lparr>task_mode = mode, task_inputs = inputs, task_outputs = [output_node], header_to_remove = []\<rparr>
                 else \<lparr>task_mode = mode, task_inputs = [], task_outputs = [], header_to_remove = output_node\<rparr>)))"

section \<open>Lemmas\<close>

lemma copy_header_result:
  "files w src = Some contents \<Longrightarrow> \<exists>e. copy_header chmod src dst w = (Inr (), w\<lparr>files := (files w)(dst \<mapsto> contents), ext := e\<rparr>)"
  by (cases "path_exists dst w"; simp add: copy_header_def io_seq_def io_bind_def read_file_def write_file_def; rule exI; rule refl)

lemma copy_headers_result:
  assumes "length srcs = length dsts" "set srcs \<subseteq> dom (files w)" "set srcs \<inter> set dsts = {}" "distinct dsts"
  shows "\<exists>e. io_for_each (\<lambda>(src, dst) _. copy_header chmod src dst) (zip srcs dsts) () w =
    (Inr (), w\<lparr>files := files w ++ map_of (zip dsts (map (\<lambda>s. the (files w s)) srcs)), ext := e\<rparr>)"
  using assms
proof (induction srcs dsts arbitrary: w rule: list_induct2)
  case Nil
  show ?case by (auto simp: io_return_def intro: exI [of _ "ext w"])
next
  case (Cons src srcs dst dsts)
  obtain contents where src: "files w src = Some contents" using Cons.prems(1) by auto
  obtain e where e: "copy_header chmod src dst w = (Inr (), w\<lparr>files := (files w)(dst \<mapsto> contents), ext := e\<rparr>)"
    using copy_header_result [OF src] by blast
  let ?w = "w\<lparr>files := (files w)(dst \<mapsto> contents), ext := e\<rparr>"
  have sub: "set srcs \<subseteq> dom (files ?w)" and rest: "set srcs \<inter> set dsts = {}" "distinct dsts" using Cons.prems by auto
  from Cons.IH [OF sub rest] obtain e' where
    e': "io_for_each (\<lambda>(src, dst) _. copy_header chmod src dst) (zip srcs dsts) () ?w =
      (Inr (), ?w\<lparr>files := files ?w ++ map_of (zip dsts (map (\<lambda>s. the (files ?w s)) srcs)), ext := e'\<rparr>)" by blast
  have same: "map (\<lambda>s. the (files ?w s)) srcs = map (\<lambda>s. the (files w s)) srcs" using Cons.prems(2) by auto
  have "map_of (zip dsts cs) dst = None" for cs :: "string list"
    using Cons.prems(3) by (auto simp: map_of_eq_None_iff dest: set_zip_leftD)
  then have final: "files ?w ++ map_of (zip dsts (map (\<lambda>s. the (files ?w s)) srcs)) =
      files w ++ map_of (zip (dst # dsts) (map (\<lambda>s. the (files w s)) (src # srcs)))"
    unfolding same by (auto simp: map_add_def fun_eq_iff src split: option.split)
  have "io_for_each (\<lambda>(src, dst) _. copy_header chmod src dst) (zip (src # srcs) (dst # dsts)) () w =
      (Inr (), w\<lparr>files := files ?w ++ map_of (zip dsts (map (\<lambda>s. the (files ?w s)) srcs)), ext := e'\<rparr>)"
    using e e' by (simp add: io_bind_def)
  then show ?case unfolding final by blast
qed

text \<open>The headers that a text includes, read line by line.\<close>

definition included_headers :: "string \<Rightarrow> string list" where
  "included_headers text =
     map (\<lambda>l. takeWhile (\<lambda>c. c \<noteq> CHR 0x22) (drop (length ''#include '' + 1) l))
       (filter (prefix (''#include '' @ [CHR 0x22])) (file_lines text))"

definition file_name :: "string \<Rightarrow> bool" where
  "file_name s \<longleftrightarrow> CHR 0x22 \<notin> set s \<and> CHR 0x0A \<notin> set s"

lemma file_lines_more: "CHR 0x0A \<notin> set l \<Longrightarrow> file_lines (l @ CHR 0x0A # s) = (l @ newline) # file_lines s"
  using file_lines_line [of l s] by simp

lemma include_lines:
  "list_all file_name hs \<Longrightarrow> file_lines (concat (map include_line hs) @ s) = map include_line hs @ file_lines s"
proof (induction hs)
  case (Cons h hs)
  then have "CHR 0x0A \<notin> set (''#include '' @ [CHR 0x22] @ h @ [CHR 0x22])" by (simp add: file_name_def)
  from file_lines_line [OF this] Cons show ?case by (simp add: include_line_def)
qed simp

lemma takeWhile_quote: "CHR 0x22 \<notin> set h \<Longrightarrow> takeWhile (\<lambda>c. c \<noteq> CHR 0x22) (h @ CHR 0x22 # s) = h"
  by (induction h) auto

lemma included_lines:
  "list_all file_name hs \<Longrightarrow>
   map (\<lambda>l. takeWhile (\<lambda>c. c \<noteq> CHR 0x22) (drop (length ''#include '' + 1) l)) (filter (prefix (''#include '' @ [CHR 0x22])) (map include_line hs)) = hs"
proof (induction hs)
  case (Cons h hs)
  then show ?case by (simp add: include_line_def file_name_def takeWhile_quote)
qed simp

lemma upper_char_newline: "upper_char c = CHR 0x0A \<Longrightarrow> c = CHR 0x0A"
proof (rule ccontr)
  assume up: "upper_char c = CHR 0x0A" and "c \<noteq> CHR 0x0A"
  then have range: "97 \<le> (of_char c :: nat)" "(of_char c :: nat) \<le> 122" and "char_of ((of_char c :: nat) - 32) = CHR 0x0A"
    by (auto simp: upper_char_def split: if_splits)
  then have "(of_char (char_of ((of_char c :: nat) - 32) :: char) :: nat) = of_char (CHR 0x0A)" by simp
  moreover have "(of_char (char_of ((of_char c :: nat) - 32) :: char) :: nat) = of_char c - 32" using range by simp
  ultimately show False using range by simp
qed

lemma guard_no_newline: "CHR 0x0A \<notin> set module \<Longrightarrow> CHR 0x0A \<notin> set (guard_name module)"
  by (auto simp: guard_name_def dest!: upper_char_newline [OF sym])

lemma module_header_includes:
  assumes "list_all file_name headers" "CHR 0x0A \<notin> set module"
  shows "included_headers (module_header_text module headers) = headers"
  using included_lines [OF assms(1)] guard_no_newline [OF assms(2)]
  by (simp add: included_headers_def module_header_text_def file_lines_more include_lines [OF assms(1)])

section \<open>Properties\<close>

text \<open>the task that writes the header of a module succeeds and changes no other file; what the written text includes,
  read back line by line, is the names of the module's headers in sorted order, whatever the order of the inputs.\<close>

theorem module_header_lists:
  assumes "task_mode t \<noteq> ''remove''" and "task_outputs t = [out_file]" and "CHR 0x0A \<notin> set module"
    and "list_all (\<lambda>p. file_name (path_tail p)) (task_inputs t)"
  shows "\<exists>text. run_module_header module t w = (Inr 0, w\<lparr>files := (files w)(out_file \<mapsto> text)\<rparr>) \<and>
    included_headers text = sort (map path_tail (task_inputs t))"
proof -
  have "list_all file_name (sort (map path_tail (task_inputs t)))" using assms(4) by (simp add: list_all_iff)
  from module_header_includes [OF this assms(3)] show ?thesis
    using assms(1,2)
    by (intro exI [of _ "module_header_text module (sort (map path_tail (task_inputs t)))"])
       (simp add: run_module_header_def io_bind_def write_file_def io_return_def)
qed

lemma module_header_lists_witness:
  "\<exists>text. fst (run_module_header ''a-b'' \<lparr>task_mode = ''install'', task_inputs = [''/s/z.h'', ''/s/a.h''], task_outputs = [''/b/m.h''],
      header_to_remove = []\<rparr> \<lparr>files = Map.empty, dirs = [], console = [], environ = [], ext = ()\<rparr>) = Inr 0 \<and>
    included_headers text = [''a.h'', ''z.h'']"
proof -
  let ?t = "\<lparr>task_mode = ''install'', task_inputs = [''/s/z.h'', ''/s/a.h''], task_outputs = [''/b/m.h''], header_to_remove = []\<rparr>"
  have "list_all (\<lambda>p. file_name (path_tail p)) (task_inputs ?t)" "CHR 0x0A \<notin> set ''a-b''" by code_simp+
  moreover have "sort (map path_tail (task_inputs ?t)) = [''a.h'', ''z.h'']" by code_simp
  ultimately show ?thesis
    using module_header_lists [of ?t "''/b/m.h''" "''a-b''" "\<lparr>files = Map.empty, dirs = [], console = [], environ = [], ext = ()\<rparr>"]
    by fastforce
qed

text \<open>a task in the mode \<open>install\<close> whose sources are there leaves in each of its targets what is in its source and
  changes no other file.\<close>

theorem headers_installed:
  assumes "task_mode t = ''install''" and "length (task_inputs t) = length (task_outputs t)" and "set (task_inputs t) \<subseteq> dom (files w)"
    and "set (task_inputs t) \<inter> set (task_outputs t) = {}" and "distinct (task_outputs t)"
  shows "\<exists>e. run_header_task chmod t w = (Inr 0, w\<lparr>ext := e,
    files := files w ++ map_of (zip (task_outputs t) (map (\<lambda>s. the (files w s)) (task_inputs t)))\<rparr>)"
proof -
  obtain e where "io_for_each (\<lambda>(src, dst) _. copy_header chmod src dst) (zip (task_inputs t) (task_outputs t)) () w =
    (Inr (), w\<lparr>files := files w ++ map_of (zip (task_outputs t) (map (\<lambda>s. the (files w s)) (task_inputs t))), ext := e\<rparr>)"
    using copy_headers_result [OF assms(2-5)] by blast
  then show ?thesis using assms(1,2) by (intro exI [of _ e]) (simp add: run_header_task_def io_bind_def io_return_def)
qed

lemma headers_installed_witness:
  "case run_header_task (\<lambda>p m e. e) \<lparr>task_mode = ''install'', task_inputs = [''s.h''], task_outputs = [''b.h''], header_to_remove = []\<rparr>
      \<lparr>files = [''s.h'' \<mapsto> ''text''], dirs = [], console = [], environ = [], ext = ()\<rparr> of
     (r, w') \<Rightarrow> r = Inr 0 \<and> files w' ''b.h'' = Some ''text''"
  using headers_installed [of "\<lparr>task_mode = ''install'', task_inputs = [''s.h''], task_outputs = [''b.h''], header_to_remove = []\<rparr>"
      "\<lparr>files = [''s.h'' \<mapsto> ''text''], dirs = [], console = [], environ = [], ext = ()\<rparr>" "\<lambda>p m e. e"]
  by auto

text \<open>a task in the mode \<open>remove\<close> is to be run exactly while its header is there, its run removes that header and
  nothing else and returns 0 also when the header is gone already, and afterwards it is to be skipped.\<close>

theorem header_removed_once:
  assumes "task_mode t = ''remove''" and "task_inputs t = [] \<and> task_outputs t = []" and "header_to_remove t \<notin> set (dirs w)"
  shows "case run_header_task chmod t w of
     (r, w') \<Rightarrow> r = Inr 0 \<and> w' = w\<lparr>files := (files w)(header_to_remove t := None)\<rparr> \<and> header_runnable_status t w' = Skip_header \<and>
       run_module_header module t w = (r, w') \<and>
       header_runnable_status t w = (if files w (header_to_remove t) = None then Skip_header else Run_header)"
proof -
  have "w\<lparr>files := (files w)(p := None)\<rparr> = w" if "files w p = None" for p
    using that by (simp add: fun_upd_idem)
  with assms show ?thesis
    by (simp add: run_header_task_def run_module_header_def remove_header_def unlink_if_there_def header_runnable_status_def
        path_exists_def)
qed

lemma header_removed_once_witness:
  "case run_header_task (\<lambda>p m e. e) \<lparr>task_mode = ''remove'', task_inputs = [], task_outputs = [], header_to_remove = ''h''\<rparr>
      \<lparr>files = [''h'' \<mapsto> ''text''], dirs = [], console = [], environ = [], ext = ()\<rparr> of
     (r, w') \<Rightarrow> files w' ''h'' = None"
  using header_removed_once [where t = "\<lparr>task_mode = ''remove'', task_inputs = [], task_outputs = [], header_to_remove = ''h''\<rparr>"
      and w = "\<lparr>files = [''h'' \<mapsto> ''text''], dirs = [], console = [], environ = [], ext = ()\<rparr>" and chmod = "\<lambda>p m e. e"]
  by auto

end
