(* ===== verification/Script_Tasks.thy ===== *)
theory Script_Tasks
  imports Build_Script
begin

text \<open>
  The tasks and commands of the build script \<open>wscript\<close> that run programs: the setting of the suid bit, the
  documentation that the simulator prints about itself, \<open>_doxygen\<close>, the shell and the check. A program that is run
  gives its exit code and its output; the files of the world hold what is written.
\<close>

section \<open>Running tools\<close>

record tool_request =
  tool_argv :: "string list"
  tool_env :: "(string, string) dict option"

type_synonym 'e tools = "tool_request \<Rightarrow> 'e \<Rightarrow> (int \<times> string) \<times> 'e"

definition run_tool :: "'e tools \<Rightarrow> tool_request \<Rightarrow> ('e world, int \<times> string) io" where
  "run_tool tools r w = (case tools r (ext w) of (res, e) \<Rightarrow> (Inr res, w\<lparr>ext := e\<rparr>))"

text \<open>\<open>open(p, 'w')\<close> and a program with its output going there; a failure ends the run of waf.\<close>

definition tool_to_file :: "'e tools \<Rightarrow> tool_request \<Rightarrow> string \<Rightarrow> ('e world, unit) io" where
  "tool_to_file tools r p =
     io_bind (run_tool tools r) (\<lambda>(code, text).
     io_seq (write_file p text) (io_when (code \<noteq> 0) (io_raise (SystemExit 1))))"

section \<open>The suid bit\<close>

definition suid_init :: "string \<Rightarrow> run_options \<Rightarrow> build \<Rightarrow> string \<Rightarrow> string result" where
  \<comment> \<open>the path of the program's file\<close>
  "suid_init here opts bld target_name =
     (case find_program here opts bld target_name of
        Inl e \<Rightarrow> Inl (as_waf_error e)
      | Inr program_obj \<Rightarrow> Inr (program_file program_obj))"

definition suid_run :: "'e tools \<Rightarrow> string \<Rightarrow> ('e world, int) io" where
  "suid_run tools filename =
     io_seq (print_line (''setting suid bit on executable '' @ filename))
    (io_bind (run_tool tools \<lparr>tool_argv = [''sudo'', ''chown'', ''root'', filename], tool_env = None\<rparr>) (\<lambda>(code, _).
     if code \<noteq> 0 then io_return 1
     else io_bind (run_tool tools \<lparr>tool_argv = [''sudo'', ''chmod'', ''u+s'', filename], tool_env = None\<rparr>) (\<lambda>(code, _).
       io_return (if code \<noteq> 0 then 1 else 0))))"

definition suid_up_to_date :: "(string \<Rightarrow> 'e \<Rightarrow> nat option) \<Rightarrow> string \<Rightarrow> 'e world \<Rightarrow> bool result" where
  \<comment> \<open>\<open>SKIP_ME\<close>, when the owner is root; \<open>os.stat\<close> raises when there is no file\<close>
  "suid_up_to_date owner filename w =
     (case owner filename (ext w) of None \<Rightarrow> Inl (PyException ''OSError'') | Some st_uid \<Rightarrow> Inr (st_uid = 0))"

section \<open>Documentation\<close>

definition introspected_header :: string where
  "introspected_header = path_join ''doc'' ''introspected-doxygen.h''"

definition introspected_text :: string where
  "introspected_text = path_join ''doc'' ''ns3-object.txt''"

definition write_introspection :: "'e tools \<Rightarrow> string \<Rightarrow> (string, string) dict \<Rightarrow> ('e world, unit) io" where
  "write_introspection tools prog proc_env =
     io_seq (tool_to_file tools \<lparr>tool_argv = [prog], tool_env = Some proc_env\<rparr> introspected_header)
       (tool_to_file tools \<lparr>tool_argv = [prog, ''--output-text''], tool_env = Some proc_env\<rparr> introspected_text)"

text \<open>
  The task takes the name of the program's file from \<open>ccroot\<close>, which the script does not import: it raises when the
  program is there. When it is not, it does nothing, or raises the \<open>TypeError\<close> of \<open>find_program\<close>.
\<close>

definition introspection_task :: "'e process_system \<Rightarrow> run_options \<Rightarrow> build \<Rightarrow> ('e world, unit) io" where
  "introspection_task sys opts bld =
     io_bind (get_proc_env opts bld (path_separator sys) None) (\<lambda>proc_env.
     case find_program (working_dir sys) opts bld ''print-introspected-doxygen'' of
       Inl e \<Rightarrow> if value_message e = None then io_raise e else io_return ()
     | Inr _ \<Rightarrow> io_raise (PyException ''NameError''))"

definition doxygen_log :: "string \<Rightarrow> ('e world, unit) io" where
  "doxygen_log msg = io_seq (print_line msg) (io_raise (SystemExit 1))"

definition run_doxygen :: "'e tools \<Rightarrow> 'e process_system \<Rightarrow> run_options \<Rightarrow> build \<Rightarrow> string option \<Rightarrow> ('e world, unit) io" where
  "run_doxygen tools sys opts bld doxygen =
     io_bind (get_proc_env opts bld (path_separator sys) None) (\<lambda>proc_env.
     if \<not> truthy doxygen then doxygen_log ''waf configure did not detect doxygen in the system -> cannot build api docs.''
     else case find_program (working_dir sys) opts bld ''print-introspected-doxygen'' of
       Inl e \<Rightarrow>
         if value_message e = None then io_raise e else doxygen_log ''print-introspected-doxygen does not exist''
     | Inr program_obj \<Rightarrow>
         let prog = program_file program_obj in
         io_bind (io_get (path_exists prog)) (\<lambda>present.
         if \<not> present then
           doxygen_log (''print-introspected-doxygen has not been built yet. You need to build ns-3 at least once before '' @
             ''generating doxygen docs...'')
         else
           io_seq (write_introspection tools prog proc_env)
             (io_bind (run_tool tools \<lparr>tool_argv = [the doxygen, path_join ''doc'' ''doxygen.conf''], tool_env = None\<rparr>) (\<lambda>(code, _).
               io_when (code \<noteq> 0) (io_raise (SystemExit 1))))))"

section \<open>Commands\<close>

text \<open>Each command builds first.\<close>

definition check_command ::
  "('e world, unit) io \<Rightarrow> 'e process_system \<Rightarrow> run_options \<Rightarrow> build \<Rightarrow> ('e world, int) io" where
  "check_command execute_build sys opts bld =
     io_seq execute_build (run_python_program sys opts bld ''test.py -n -c core'' False)"

definition python_unit_tests :: "'e process_system \<Rightarrow> run_options \<Rightarrow> build \<Rightarrow> ('e world, int) io" where
  "python_unit_tests sys opts bld =
     io_bind (get_proc_env opts bld (path_separator sys) None) (\<lambda>proc_env.
       run_argv sys opts bld [python_program bld, path_join (path_join ''..'' ''utils'') ''python-unit-tests.py''] (Some proc_env) None True)"

definition user_shell :: "string \<Rightarrow> (string, string) dict \<Rightarrow> string" where
  "user_shell plat env =
     (if plat = ''win32'' then (case map_of env ''COMSPEC'' of None \<Rightarrow> ''cmd.exe'' | Some s \<Rightarrow> s)
      else (case map_of env ''SHELL'' of None \<Rightarrow> ''/bin/sh'' | Some s \<Rightarrow> s))"

definition shell_env :: "'e process_system \<Rightarrow> build \<Rightarrow> (string, string) dict" where
  "shell_env sys bld =
     [(''NS3_MODULE_PATH'', join (path_separator sys) (module_path bld)),
      (''NS3_EXECUTABLE_PATH'', join (path_separator sys) (executable_path bld))]"

text \<open>\<open>Ns3ShellContext.execute\<close>: the shell ends with code 0 or an error; the lists are not printed after it.\<close>

definition ns3_shell ::
  "('e world, build_outcome) io \<Rightarrow> 'e process_system \<Rightarrow> run_options \<Rightarrow> build \<Rightarrow> ('e world, build_outcome) io" where
  "ns3_shell execute_build sys opts bld =
     io_bind execute_build (\<lambda>b.
     io_bind (io_get (\<lambda>w. user_shell (platform opts) (environ w))) (\<lambda>shell.
     io_bind (run_argv sys opts bld [shell] (Some (shell_env sys bld)) None False) (\<lambda>_.
       io_return (b\<lparr>print_lists := False\<rparr>))))"

section \<open>Properties\<close>

lemma tool_to_file_result:
  "tools r (ext w) = ((code, text), e) \<Longrightarrow>
   tool_to_file tools r p w = (if code \<noteq> 0 then Inl (SystemExit 1) else Inr (), w\<lparr>files := (files w)(p \<mapsto> text), ext := e\<rparr>)"
  by (simp add: tool_to_file_def run_tool_def io_bind_def io_seq_def write_file_def io_when_def io_return_def io_raise_def)

text \<open>\<open>_doxygen\<close> either ends waf with exit code 1 or has found the program that prints the documentation and doxygen,
  has run the program twice and then doxygen, all with exit code 0, and has left what the program printed in the two
  files of the directory \<open>doc\<close>. The other errors are those of the environment and of the search for the program.\<close>

theorem run_doxygen_verdict:
  "case run_doxygen tools sys opts bld doxygen w of
     (Inl e, w') \<Rightarrow> e = SystemExit 1 \<or> make_proc_env opts bld (path_separator sys) (environ w) None = Inl e \<or>
       find_program (working_dir sys) opts bld ''print-introspected-doxygen'' = Inl e
   | (Inr _, w') \<Rightarrow> \<exists>env obj header e1 details e2 last_text.
       make_proc_env opts bld (path_separator sys) (environ w) None = Inr env \<and>
       find_program (working_dir sys) opts bld ''print-introspected-doxygen'' = Inr obj \<and> truthy doxygen \<and>
       path_exists (program_file obj) w \<and>
       tools \<lparr>tool_argv = [program_file obj], tool_env = Some env\<rparr> (ext w) = ((0, header), e1) \<and>
       tools \<lparr>tool_argv = [program_file obj, ''--output-text''], tool_env = Some env\<rparr> e1 = ((0, details), e2) \<and>
       tools \<lparr>tool_argv = [the doxygen, path_join ''doc'' ''doxygen.conf''], tool_env = None\<rparr> e2 = ((0, last_text), ext w') \<and>
       files w' = (files w)(introspected_header \<mapsto> header, introspected_text \<mapsto> details)"
proof (cases "make_proc_env opts bld (path_separator sys) (environ w) None")
  case (Inl e)
  then show ?thesis by (simp add: run_doxygen_def io_bind_def get_proc_env_eq)
next
  case (Inr env)
  have world: "environ (warned opts w) = environ w" "ext (warned opts w) = ext w" "files (warned opts w) = files w"
    "path_exists p (warned opts w) = path_exists p w" for p by (simp_all add: warned_def path_exists_def)
  note start = io_bind_def [of "get_proc_env opts bld (path_separator sys) None"] get_proc_env_eq Inr
  show ?thesis
  proof (cases "truthy doxygen")
    case False
    then show ?thesis by (simp add: run_doxygen_def start doxygen_log_def io_seq_def io_bind_def print_line_def io_raise_def)
  next
    case True
    note on = True
    show ?thesis
    proof (cases "find_program (working_dir sys) opts bld ''print-introspected-doxygen''")
      case (Inl e)
      with on show ?thesis
        by (simp add: run_doxygen_def start doxygen_log_def io_seq_def io_bind_def print_line_def io_raise_def)
    next
      case found: (Inr obj)
      let ?r1 = "\<lparr>tool_argv = [program_file obj], tool_env = Some env\<rparr>"
      let ?r2 = "\<lparr>tool_argv = [program_file obj, ''--output-text''], tool_env = Some env\<rparr>"
      let ?r3 = "\<lparr>tool_argv = [the doxygen, path_join ''doc'' ''doxygen.conf''], tool_env = None\<rparr>"
      let ?v = "warned opts w"
      obtain c1 header e1 where t1: "tools ?r1 (ext ?v) = ((c1, header), e1)" by (metis prod.collapse)
      obtain c2 details e2 where t2: "tools ?r2 e1 = ((c2, details), e2)" by (metis prod.collapse)
      obtain c3 last_text e3 where t3: "tools ?r3 e2 = ((c3, last_text), e3)" by (metis prod.collapse)
      let ?w1 = "?v\<lparr>files := (files ?v)(introspected_header \<mapsto> header), ext := e1\<rparr>"
      note f1 = tool_to_file_result [of tools ?r1 ?v, OF t1]
      have f2: "tool_to_file tools ?r2 introspected_text ?w1 =
        (if c2 \<noteq> 0 then Inl (SystemExit 1) else Inr (), ?w1\<lparr>files := (files ?w1)(introspected_text \<mapsto> details), ext := e2\<rparr>)"
        by (rule tool_to_file_result) (simp add: t2)
      have run: "run_doxygen tools sys opts bld doxygen w =
        (if path_exists (program_file obj) ?v then
           io_seq (write_introspection tools (program_file obj) env)
             (io_bind (run_tool tools ?r3) (\<lambda>(code, _). io_when (code \<noteq> 0) (io_raise (SystemExit 1)))) ?v
         else doxygen_log (''print-introspected-doxygen has not been built yet. You need to build ns-3 at least once before '' @
             ''generating doxygen docs...'') ?v)"
        using on found by (simp add: run_doxygen_def start Let_def io_bind_def [of "io_get f" for f] io_get_def)
      show ?thesis
        using found on t1 t2 t3 Inr unfolding run world(4)
        by (cases "path_exists (program_file obj) w"; cases "c1 = 0"; cases "c2 = 0"; cases "c3 = 0";
            simp add: io_bind_def [abs_def] doxygen_log_def io_seq_def print_line_def io_raise_def
              write_introspection_def f1 f2 [simplified world, simplified] run_tool_def io_when_def io_return_def world)
    qed
  qed
qed

end
