(* ===== verification/Module_Creation.thy ===== *)
theory Module_Creation
  imports Module_Script Module_Tasks
begin

text \<open>
  The creation of a module, \<open>src/create-module.py\<close>: the templates with their formatting, and \<open>main\<close> from the words that the
  parser of options leaves. Paths are compared as texts.
\<close>

section \<open>Formatting\<close>

text \<open>
  \<open>text % d\<close> with a dictionary of strings: \<open>%(name)s\<close> is the value, \<open>%(name)r\<close> its literal, \<open>%%\<close> a percent sign. Other
  conversions, which the templates do not use, are errors here.
\<close>

definition format_name :: "string \<Rightarrow> (string \<times> char \<times> string) option" where
  "format_name s =
     (case dropWhile (\<lambda>c. c \<noteq> CHR '')'') s of
        _ # conv # rest \<Rightarrow> Some (takeWhile (\<lambda>c. c \<noteq> CHR '')'') s, conv, rest)
      | _ \<Rightarrow> None)"

lemma format_name_shorter: "format_name s = Some (name, conv, rest) \<Longrightarrow> length rest < length s"
proof -
  assume "format_name s = Some (name, conv, rest)"
  then obtain c where "dropWhile (\<lambda>c. c \<noteq> CHR '')'') s = c # conv # rest" by (auto simp: format_name_def split: list.splits)
  then have "length (c # conv # rest) \<le> length s" by (metis length_dropWhile_le)
  then show ?thesis by simp
qed

definition convert :: "char \<Rightarrow> string \<Rightarrow> string result" where
  "convert conv v = (if conv = CHR ''s'' then Inr v else if conv = CHR ''r'' then Inr (str_repr v) else Inl ValueError)"

function py_format :: "(string, string) dict \<Rightarrow> string \<Rightarrow> string result" where
  "py_format d [] = Inr []"
| "py_format d (c # cs) =
     (if c \<noteq> CHR ''%'' then res_bind (py_format d cs) (\<lambda>t. Inr (c # t))
      else if take 1 cs = ''%'' then res_bind (py_format d (tl cs)) (\<lambda>t. Inr (CHR ''%'' # t))
      else if take 1 cs \<noteq> ''('' then Inl ValueError
      else case format_name (tl cs) of
          None \<Rightarrow> Inl ValueError
        | Some (name, conv, rest) \<Rightarrow>
            res_bind (dict_get d name) (\<lambda>v.
            res_bind (convert conv v) (\<lambda>v. res_bind (py_format d rest) (\<lambda>t. Inr (v @ t)))))"
  by pat_completeness auto

termination
  by (relation "measure (\<lambda>(d, s). length s)") (auto dest!: format_name_shorter)

section \<open>Templates\<close>

definition text_lines :: "string list \<Rightarrow> string" where
  "text_lines lines = concat (map (\<lambda>l. l @ newline) lines)"

definition quot :: string where
  "quot = [CHR 0x22]"

definition apos :: string where
  "apos = [CHR 0x27]"

definition wscript_template :: string where
  "wscript_template = text_lines
    [''# -*- Mode: python; py-indent-offset: 4; indent-tabs-mode: nil; coding: utf-8; -*-'',
     [],
     ''# def options(opt):'',
     ''#     pass'',
     [],
     ''# def configure(conf):'',
     ''#     conf.check_nonfatal(header_name='' @ apos @ ''stdint.h'' @ apos @ '', define_name='' @ apos @ ''HAVE_STDINT_H'' @ apos @ '')'',
     [],
     ''def build(bld):'',
     ''    module = bld.create_ns3_module(%(MODULE)r, ['' @ apos @ ''core'' @ apos @ ''])'',
     ''    module.source = ['',
     ''        '' @ apos @ ''model/%(MODULE)s.cc'' @ apos @ '','',
     ''        '' @ apos @ ''helper/%(MODULE)s-helper.cc'' @ apos @ '','',
     ''        ]'',
     [],
     ''    module_test = bld.create_ns3_module_test_library('' @ apos @ ''%(MODULE)s'' @ apos @ '')'',
     ''    module_test.source = ['',
     ''        '' @ apos @ ''test/%(MODULE)s-test-suite.cc'' @ apos @ '','',
     ''        ]'',
     [],
     ''    headers = bld.new_task_gen(features=['' @ apos @ ''ns3header'' @ apos @ ''])'',
     ''    headers.module = %(MODULE)r'',
     ''    headers.source = ['',
     ''        '' @ apos @ ''model/%(MODULE)s.h'' @ apos @ '','',
     ''        '' @ apos @ ''helper/%(MODULE)s-helper.h'' @ apos @ '','',
     ''        ]'',
     [],
     ''    if bld.env.ENABLE_EXAMPLES:'',
     ''        bld.add_subdirs('' @ apos @ ''examples'' @ apos @ '')'',
     [],
     ''    # bld.ns3_python_bindings()'',
     []]"

definition model_cc_template :: string where
  "model_cc_template = text_lines
    [''/* -*- Mode:C++; c-file-style:'' @ quot @ ''gnu'' @ quot @ ''; indent-tabs-mode:nil; -*- */'',
     [],
     ''#include '' @ quot @ ''%(MODULE)s.h'' @ quot,
     [],
     ''namespace ns3 {'',
     [],
     ''/* ... */'',
     [],
     [],
     ''}'',
     []]"

definition model_h_template :: string where
  "model_h_template = text_lines
    [''/* -*- Mode:C++; c-file-style:'' @ quot @ ''gnu'' @ quot @ ''; indent-tabs-mode:nil; -*- */'',
     ''#ifndef %(INCLUDE_GUARD)s'',
     ''#define %(INCLUDE_GUARD)s'',
     [],
     ''namespace ns3 {'',
     [],
     ''/* ... */'',
     [],
     ''}'',
     [],
     ''#endif /* %(INCLUDE_GUARD)s */'',
     []]"

definition helper_cc_template :: string where
  "helper_cc_template = text_lines
    [''/* -*- Mode:C++; c-file-style:'' @ quot @ ''gnu'' @ quot @ ''; indent-tabs-mode:nil; -*- */'',
     [],
     ''#include '' @ quot @ ''%(MODULE)s-helper.h'' @ quot,
     [],
     ''namespace ns3 {'',
     [],
     ''/* ... */'',
     [],
     [],
     ''}'',
     []]"

definition helper_h_template :: string where
  "helper_h_template = text_lines
    [''/* -*- Mode:C++; c-file-style:'' @ quot @ ''gnu'' @ quot @ ''; indent-tabs-mode:nil; -*- */'',
     ''#ifndef %(INCLUDE_GUARD)s'',
     ''#define %(INCLUDE_GUARD)s'',
     [],
     ''#include '' @ quot @ ''ns3/%(MODULE)s.h'' @ quot,
     [],
     ''namespace ns3 {'',
     [],
     ''/* ... */'',
     [],
     ''}'',
     [],
     ''#endif /* %(INCLUDE_GUARD)s */'',
     []]"

definition examples_wscript_template :: string where
  "examples_wscript_template = text_lines
    [''# -*- Mode: python; py-indent-offset: 4; indent-tabs-mode: nil; coding: utf-8; -*-'',
     [],
     ''def build(bld):'',
     ''    obj = bld.create_ns3_program('' @ apos @ ''%(MODULE)s-example'' @ apos @ '', [%(MODULE)r])'',
     ''    obj.source = '' @ apos @ ''%(MODULE)s-example.cc'' @ apos,
     []]"

definition example_cc_template :: string where
  "example_cc_template = text_lines
    [''/* -*- Mode:C++; c-file-style:'' @ quot @ ''gnu'' @ quot @ ''; indent-tabs-mode:nil; -*- */'',
     [],
     ''#include '' @ quot @ ''ns3/core-module.h'' @ quot,
     ''#include '' @ quot @ ''ns3/%(MODULE)s-helper.h'' @ quot,
     [],
     ''using namespace ns3;'',
     [],
     [],
     ''int '',
     ''main (int argc, char *argv[])'',
     ''{'',
     ''  bool verbose = true;'',
     [],
     ''  CommandLine cmd;'',
     ''  cmd.AddValue ('' @ quot @ ''verbose'' @ quot @ '', '' @ quot @ ''Tell application to log if true'' @ quot @ '', verbose);'',
     [],
     ''  cmd.Parse (argc,argv);'',
     [],
     ''  /* ... */'',
     [],
     ''  Simulator::Run ();'',
     ''  Simulator::Destroy ();'',
     ''  return 0;'',
     ''}'',
     [],
     []]"

definition test_cc_template :: string where
  "test_cc_template = text_lines
    [''/* -*- Mode:C++; c-file-style:'' @ quot @ ''gnu'' @ quot @ ''; indent-tabs-mode:nil; -*- */'',
     [],
     ''// Include a header file from your module to test.'',
     ''#include '' @ quot @ ''ns3/%(MODULE)s.h'' @ quot,
     [],
     ''// An essential include is test.h'',
     ''#include '' @ quot @ ''ns3/test.h'' @ quot,
     [],
     ''// Do not put your test classes in namespace ns3.  You may find it useful'',
     ''// to use the using directive to access the ns3 namespace directly'',
     ''using namespace ns3;'',
     [],
     ''// This is an example TestCase.'',
     ''class %(CAPITALIZED)sTestCase1 : public TestCase'',
     ''{'',
     ''public:'',
     ''  %(CAPITALIZED)sTestCase1 ();'',
     ''  virtual ~%(CAPITALIZED)sTestCase1 ();'',
     [],
     ''private:'',
     ''  virtual void DoRun (void);'',
     ''};'',
     [],
     ''// Add some help text to this case to describe what it is intended to test'',
     ''%(CAPITALIZED)sTestCase1::%(CAPITALIZED)sTestCase1 ()'',
     ''  : TestCase ('' @ quot @ ''%(CAPITALIZED)s test case (does nothing)'' @ quot @ '')'',
     ''{'',
     ''}'',
     [],
     ''// This destructor does nothing but we include it as a reminder that'',
     ''// the test case should clean up after itself'',
     ''%(CAPITALIZED)sTestCase1::~%(CAPITALIZED)sTestCase1 ()'',
     ''{'',
     ''}'',
     [],
     ''//'',
     ''// This method is the pure virtual method from class TestCase that every'',
     ''// TestCase must implement'',
     ''//'',
     ''void'',
     ''%(CAPITALIZED)sTestCase1::DoRun (void)'',
     ''{'',
     ''  // A wide variety of test macros are available in src/core/test.h'',
     ''  NS_TEST_ASSERT_MSG_EQ (true, true, '' @ quot @ ''true doesn'' @ apos @ ''t equal true for some reason'' @ quot @ '');'',
     ''  // Use this one for floating point comparisons'',
     ''  NS_TEST_ASSERT_MSG_EQ_TOL (0.01, 0.01, 0.001, '' @ quot @ ''Numbers are not equal within tolerance'' @ quot @ '');'',
     ''}'',
     [],
     ''// The TestSuite class names the TestSuite, identifies what type of TestSuite,'',
     ''// and enables the TestCases to be run.  Typically, only the constructor for'',
     ''// this class must be defined'',
     ''//'',
     ''class %(CAPITALIZED)sTestSuite : public TestSuite'',
     ''{'',
     ''public:'',
     ''  %(CAPITALIZED)sTestSuite ();'',
     ''};'',
     [],
     ''%(CAPITALIZED)sTestSuite::%(CAPITALIZED)sTestSuite ()'',
     ''  : TestSuite ('' @ quot @ ''%(MODULE)s'' @ quot @ '', UNIT)'',
     ''{'',
     ''  AddTestCase (new %(CAPITALIZED)sTestCase1);'',
     ''}'',
     [],
     ''// Do not forget to allocate an instance of this TestSuite'',
     ''static %(CAPITALIZED)sTestSuite %(MODULE)sTestSuite;'',
     []]"

section \<open>The program\<close>

definition lower_char :: "char \<Rightarrow> char" where
  "lower_char c = (if 65 \<le> (of_char c :: nat) \<and> (of_char c :: nat) \<le> 90 then char_of ((of_char c :: nat) + 32) else c)"

definition capitalize :: "string \<Rightarrow> string" where
  "capitalize s = (case s of [] \<Rightarrow> [] | c # cs \<Rightarrow> upper_char c # map lower_char cs)"

definition include_guard :: "string \<Rightarrow> string \<Rightarrow> string" where
  "include_guard m end_part = ''__'' @ map upper_char m @ end_part"

definition write_template :: "string \<Rightarrow> string \<Rightarrow> (string, string) dict \<Rightarrow> ('e world, unit) io" where
  "write_template p template d = io_seq (write_file p []) (io_bind (io_lift (py_format d template)) (write_file p))"

text \<open>The directory of the script is there, and so is what the names of no letters and of dots stand for.\<close>

definition module_exists :: "string \<Rightarrow> string \<Rightarrow> 'e world \<Rightarrow> bool" where
  "module_exists here modname w \<longleftrightarrow> modname \<in> {[], ''.'', ''..''} \<or> path_exists (path_join here modname) w"

definition create_module :: "string \<Rightarrow> string \<Rightarrow> string list \<Rightarrow> ('e world, int) io" where
  "create_module help_text script args =
     (case args of
        [modname] \<Rightarrow>
          if CHR ''/'' \<in> set modname then io_raise AssertionError
          else
            let moduledir = path_join (path_head script) modname;
                place = (\<lambda>dir name. path_join (path_join moduledir dir) name);
                d = [(''MODULE'', modname)]
            in io_bind (io_get (module_exists (path_head script) modname)) (\<lambda>found.
               if found then io_seq (print_line (''Module '' @ str_repr modname @ '' already exists'')) (io_return 2)
               else
                 io_seq (make_dirs moduledir)
                (io_seq (write_template (path_join moduledir ''wscript'') wscript_template d)
                (io_seq (make_dirs (path_join moduledir ''model''))
                (io_seq (write_template (place ''model'' (modname @ ''.cc'')) model_cc_template d)
                (io_seq (write_template (place ''model'' (modname @ ''.h'')) model_h_template
                           (d @ [(''INCLUDE_GUARD'', include_guard modname ''_H__'')]))
                (io_seq (make_dirs (path_join moduledir ''test''))
                (io_seq (write_template (place ''test'' (modname @ ''-test-suite.cc'')) test_cc_template
                           (d @ [(''CAPITALIZED'', capitalize modname)]))
                (io_seq (make_dirs (path_join moduledir ''helper''))
                (io_seq (write_template (place ''helper'' (modname @ ''-helper.cc'')) helper_cc_template d)
                (io_seq (write_template (place ''helper'' (modname @ ''-helper.h'')) helper_h_template
                           (d @ [(''INCLUDE_GUARD'', include_guard modname ''_HELPER_H__'')]))
                (io_seq (make_dirs (path_join moduledir ''examples''))
                (io_seq (write_template (place ''examples'' ''wscript'') examples_wscript_template d)
                (io_seq (write_template (place ''examples'' (modname @ ''-example.cc'')) example_cc_template d)
                  (io_return 0))))))))))))))
      | _ \<Rightarrow> io_seq (print_line help_text) (io_return 1))"

section \<open>Lemmas\<close>

lemma isl_bind_Inr: "isl (res_bind r (\<lambda>t. Inr (f t))) = isl r"
  by (cases r) simp_all

text \<open>Whether formatting succeeds does not depend on the values.\<close>

lemma py_format_keys:
  assumes "map fst d = map fst d'"
  shows "isl (py_format d s) = isl (py_format d' s)"
  using assms
proof (induction d s rule: py_format.induct)
  case (2 d c cs)
  have known: "(map_of d k = None) = (map_of d' k = None)" for k
    using "2.prems" by (metis list.set_map map_of_eq_None_iff)
  consider "c \<noteq> CHR ''%''" | "c = CHR ''%''" "take 1 cs = ''%''" | "c = CHR ''%''" "take 1 cs \<noteq> ''%''" "take 1 cs \<noteq> ''(''"
    | "c = CHR ''%''" "take 1 cs \<noteq> ''%''" "take 1 cs = ''(''" by blast
  then show ?case
  proof cases
    case 4
    show ?thesis
    proof (cases "format_name (tl cs)")
      case (Some x)
      obtain name conv rest where x: "x = (name, conv, rest)" by (cases x)
      have "isl (py_format d rest) = isl (py_format d' rest)" if "v = v" "map_of d name = Some v" "convert conv v = Inr u" for v u
        using "2.IH"(3) [OF _ _ _ Some x [symmetric] refl] 4 "2.prems" that by (simp add: dict_get_def)
      note rest = this
      show ?thesis
      proof (cases "map_of d name")
        case None
        with 4 Some x known [of name] show ?thesis by (simp add: dict_get_def)
      next
        case (Some v)
        with known [of name] obtain v' where v': "map_of d' name = Some v'" by fastforce
        show ?thesis
        proof (cases "conv = CHR ''s'' \<or> conv = CHR ''r''")
          case True
          then obtain u u' where "convert conv v = Inr u" "convert conv v' = Inr u'" by (auto simp: convert_def)
          with 4 \<open>format_name (tl cs) = Some x\<close> x Some v' rest [OF refl Some] show ?thesis by (simp add: dict_get_def isl_bind_Inr)
        next
          case False
          then have "convert conv v = Inl ValueError" "convert conv v' = Inl ValueError" by (auto simp: convert_def)
          with 4 \<open>format_name (tl cs) = Some x\<close> x Some v' show ?thesis by (simp add: dict_get_def)
        qed
      qed
    qed (use 4 in simp)
  qed (use 2 in \<open>simp_all add: isl_bind_Inr\<close>)
qed simp

text \<open>What is created for a module: a place below its directory, the template, the values.\<close>

definition module_parts :: "string \<Rightarrow> (string \<times> string \<times> (string, string) dict) list" where
  "module_parts m =
     (let d = [(''MODULE'', m)] in
      [(''wscript'', wscript_template, d),
       (''model/'' @ m @ ''.cc'', model_cc_template, d),
       (''model/'' @ m @ ''.h'', model_h_template, d @ [(''INCLUDE_GUARD'', include_guard m ''_H__'')]),
       (''test/'' @ m @ ''-test-suite.cc'', test_cc_template, d @ [(''CAPITALIZED'', capitalize m)]),
       (''helper/'' @ m @ ''-helper.cc'', helper_cc_template, d),
       (''helper/'' @ m @ ''-helper.h'', helper_h_template, d @ [(''INCLUDE_GUARD'', include_guard m ''_HELPER_H__'')]),
       (''examples/wscript'', examples_wscript_template, d),
       (''examples/'' @ m @ ''-example.cc'', example_cc_template, d)])"

definition formatted :: "string \<times> (string, string) dict \<Rightarrow> string" where
  "formatted x = (case py_format (snd x) (fst x) of Inl _ \<Rightarrow> [] | Inr t \<Rightarrow> t)"

lemma format_name_append: "format_name s = Some (name, conv, rest) \<Longrightarrow> format_name (s @ t) = Some (name, conv, rest @ t)"
proof -
  assume name: "format_name s = Some (name, conv, rest)"
  then obtain c where drop: "dropWhile (\<lambda>c. c \<noteq> CHR '')'') s = c # conv # rest"
    by (auto simp: format_name_def split: list.splits)
  have "\<not> (\<forall>x \<in> set s. x \<noteq> CHR '')'')"
  proof
    assume "\<forall>x \<in> set s. x \<noteq> CHR '')''"
    then have "dropWhile (\<lambda>c. c \<noteq> CHR '')'') s = []" by simp
    with drop show False by (simp del: dropWhile_eq_Nil_conv)
  qed
  then have "dropWhile (\<lambda>c. c \<noteq> CHR '')'') (s @ t) = dropWhile (\<lambda>c. c \<noteq> CHR '')'') s @ t"
    and "takeWhile (\<lambda>c. c \<noteq> CHR '')'') (s @ t) = takeWhile (\<lambda>c. c \<noteq> CHR '')'') s"
    by (auto simp: dropWhile_append1 takeWhile_append1)
  with name drop show ?thesis by (simp add: format_name_def)
qed

text \<open>Formatting a text that ends in no open conversion, line by line.\<close>

lemma py_format_append: "\<not> isl (py_format d s) \<Longrightarrow> isl (py_format d (s @ t)) = isl (py_format d t)"
proof (induction d s rule: py_format.induct)
  case (2 d c cs)
  consider "c \<noteq> CHR ''%''" | "c = CHR ''%''" "take 1 cs = ''%''" | "c = CHR ''%''" "take 1 cs \<noteq> ''%''" "take 1 cs \<noteq> ''(''"
    | "c = CHR ''%''" "take 1 cs \<noteq> ''%''" "take 1 cs = ''(''" by blast
  then show ?case
  proof cases
    case 1
    then show ?thesis using "2.IH"(1) "2.prems" by (simp add: isl_bind_Inr)
  next
    case 2
    then obtain cs' where "cs = CHR ''%'' # cs'" by (cases cs) auto
    with 2 show ?thesis using "2.IH"(2) "2.prems" by (simp add: isl_bind_Inr)
  next
    case 3
    then show ?thesis using "2.prems" by simp
  next
    case 4
    then obtain cs' where cs: "cs = CHR ''('' # cs'" by (cases cs) auto
    with 4 "2.prems" obtain name conv rest where name: "format_name cs' = Some (name, conv, rest)"
      by (cases "format_name cs'") auto
    with 4 cs "2.prems" obtain v where v: "map_of d name = Some v"
      by (cases "map_of d name") (auto simp: dict_get_def)
    with 4 cs name "2.prems" obtain u where u: "convert conv v = Inr u"
      by (cases "convert conv v") (auto simp: dict_get_def)
    have "isl (py_format d (rest @ t)) = isl (py_format d t)"
      using "2.IH"(3) [of "(name, conv, rest)" name "(conv, rest)" conv rest v u] 4 cs name v u "2.prems"
      by (simp add: dict_get_def isl_bind_Inr)
    with 4 cs name v u format_name_append [OF name] show ?thesis by (simp add: dict_get_def isl_bind_Inr)
  qed
qed simp

lemma text_lines_format:
  "list_all (\<lambda>l. \<not> isl (py_format d l)) lines \<Longrightarrow> \<not> isl (py_format d (text_lines lines))"
proof (induction lines)
  case (Cons l lines)
  then have "isl (py_format d (l @ newline @ text_lines lines)) = isl (py_format d (text_lines lines))"
    by (subst py_format_append) (simp_all add: isl_bind_Inr)
  moreover have "text_lines (l # lines) = l @ newline @ text_lines lines" by (simp add: text_lines_def)
  ultimately show ?case using Cons by simp
qed (simp add: text_lines_def)

lemma templates_format:
  "\<not> isl (py_format [(''MODULE'', m)] wscript_template)"
  "\<not> isl (py_format [(''MODULE'', m)] model_cc_template)"
  "\<not> isl (py_format [(''MODULE'', m), (''INCLUDE_GUARD'', g)] model_h_template)"
  "\<not> isl (py_format [(''MODULE'', m), (''CAPITALIZED'', c)] test_cc_template)"
  "\<not> isl (py_format [(''MODULE'', m)] helper_cc_template)"
  "\<not> isl (py_format [(''MODULE'', m), (''INCLUDE_GUARD'', g)] helper_h_template)"
  "\<not> isl (py_format [(''MODULE'', m)] examples_wscript_template)"
  "\<not> isl (py_format [(''MODULE'', m)] example_cc_template)"
proof -
  have one: "isl (py_format [(''MODULE'', m)] t) = isl (py_format [(''MODULE'', [])] t)" for t by (rule py_format_keys) simp
  have two: "isl (py_format [(''MODULE'', m), (k, v)] t) = isl (py_format [(''MODULE'', []), (k, [])] t)" for k v t
    by (rule py_format_keys) simp
  show "\<not> isl (py_format [(''MODULE'', m)] wscript_template)"
    unfolding one wscript_template_def by (rule text_lines_format) code_simp
  show "\<not> isl (py_format [(''MODULE'', m)] model_cc_template)"
    unfolding one model_cc_template_def by (rule text_lines_format) code_simp
  show "\<not> isl (py_format [(''MODULE'', m), (''INCLUDE_GUARD'', g)] model_h_template)"
    unfolding two model_h_template_def by (rule text_lines_format) code_simp
  show "\<not> isl (py_format [(''MODULE'', m), (''CAPITALIZED'', c)] test_cc_template)"
    unfolding two test_cc_template_def by (rule text_lines_format) code_simp
  show "\<not> isl (py_format [(''MODULE'', m)] helper_cc_template)"
    unfolding one helper_cc_template_def by (rule text_lines_format) code_simp
  show "\<not> isl (py_format [(''MODULE'', m), (''INCLUDE_GUARD'', g)] helper_h_template)"
    unfolding two helper_h_template_def by (rule text_lines_format) code_simp
  show "\<not> isl (py_format [(''MODULE'', m)] examples_wscript_template)"
    unfolding one examples_wscript_template_def by (rule text_lines_format) code_simp
  show "\<not> isl (py_format [(''MODULE'', m)] example_cc_template)"
    unfolding one example_cc_template_def by (rule text_lines_format) code_simp
qed

lemma write_template_result:
  "\<not> isl (py_format d template) \<Longrightarrow>
   write_template p template d w = (Inr (), w\<lparr>files := (files w)(p \<mapsto> formatted (template, d))\<rparr>)"
  by (cases "py_format d template")
    (simp_all add: write_template_def io_seq_def io_bind_def write_file_def io_lift_def formatted_def)

lemma path_join_below:
  assumes "CHR ''/'' \<notin> set name" "CHR ''/'' \<notin> set dir" "dir \<noteq> []"
  shows "path_join (path_join base dir) name = path_join base (dir @ ''/'' @ name)"
proof -
  have "take 1 name \<noteq> ''/''" "take 1 dir \<noteq> ''/''" "last dir \<noteq> CHR ''/''"
    using assms last_in_set [OF assms(3)] by (cases name; cases dir; auto)+
  with assms(3) show ?thesis by (cases dir) (auto simp: path_join_def)
qed

text \<open>The files of a module and the texts they are to have.\<close>

definition put_files :: "string \<Rightarrow> (string \<times> string \<times> (string, string) dict) list \<Rightarrow> (string \<rightharpoonup> string) \<Rightarrow> (string \<rightharpoonup> string)" where
  "put_files dir parts fs = fold (\<lambda>(p, t) fs. fs(path_join dir p \<mapsto> formatted t)) parts fs"

lemma create_module_result:
  assumes "CHR ''/'' \<notin> set m" and "\<not> module_exists (path_head script) m w" and "dir = path_join (path_head script) m"
  shows "create_module help_text script [m] w = (Inr 0, w\<lparr>
    dirs := map (path_join dir) [''examples'', ''helper'', ''test'', ''model''] @ dir # dirs w,
    files := put_files dir (module_parts m) (files w)\<rparr>)"
proof -
  have places: "path_join (path_join dir ''model'') (m @ t) = path_join dir (''model/'' @ m @ t)"
    "path_join (path_join dir ''test'') (m @ t) = path_join dir (''test/'' @ m @ t)"
    "path_join (path_join dir ''helper'') (m @ t) = path_join dir (''helper/'' @ m @ t)"
    "path_join (path_join dir ''examples'') (m @ t) = path_join dir (''examples/'' @ m @ t)"
    if "CHR ''/'' \<notin> set t" for t
    using path_join_below [of "m @ t"] assms(1) that by simp_all
  have wscript: "path_join (path_join dir ''examples'') ''wscript'' = path_join dir ''examples/wscript''"
    using path_join_below [of "''wscript''" "''examples''"] by simp
  show ?thesis
    using assms(1,2)
    by (simp add: create_module_def Let_def io_bind_def io_get_def io_seq_def make_dirs_def io_return_def
        write_template_result templates_format places wscript put_files_def module_parts_def flip: assms(3))
qed

section \<open>Properties\<close>

text \<open>C29: asked for a module whose name is free, the script makes its directory with four others and its eight files, each
  the template with the values filled in, which no name makes fail, and nothing else; asked again it refuses
  and leaves all as it is; and in the directory \<open>src\<close> the build finds the new module the next time it is configured.\<close>

theorem creates_module:
  assumes "CHR ''/'' \<notin> set m" and "\<not> module_exists (path_head script) m w"
  shows "let dir = path_join (path_head script) m;
      w' = w\<lparr>dirs := map (path_join dir) [''examples'', ''helper'', ''test'', ''model''] @ dir # dirs w,
             files := put_files dir (module_parts m) (files w)\<rparr>
    in create_module help_text script [m] w = (Inr 0, w') \<and>
       (\<forall>(p, template, d) \<in> set (module_parts m). py_format d template = Inr (formatted (template, d))) \<and>
       create_module help_text script [m] w' = (Inr 2, w'\<lparr>console := console w @ [''Module '' @ str_repr m @ '' already exists'']\<rparr>) \<and>
       (path_head script = ''src'' \<and> m \<in> set listing \<and> take 1 m \<noteq> ''.'' \<longrightarrow>
          m \<in> set (all_modules listing (\<lambda>p. p \<in> set (dirs w')) (\<lambda>p. path_exists p w')))"
proof -
  let ?dir = "path_join (path_head script) m"
  have "py_format d template = Inr (formatted (template, d))" if "(p, template, d) \<in> set (module_parts m)" for p template d
  proof -
    have "\<not> isl (py_format d template)" using that templates_format by (auto simp: module_parts_def Let_def)
    then show ?thesis by (cases "py_format d template") (simp_all add: formatted_def)
  qed
  moreover have "put_files ?dir (module_parts m) fs (path_join ?dir ''wscript'') \<noteq> None" for fs
    by (simp add: put_files_def module_parts_def Let_def)
  ultimately show ?thesis
    using assms create_module_result [OF assms refl]
    by (auto simp: Let_def all_modules_def path_exists_def create_module_def io_bind_def io_get_def module_exists_def io_seq_def
        print_line_def io_return_def)
qed

lemma creates_module_witness:
  "\<exists>w'. create_module ''help'' ''src/create-module.py'' [''x''] \<lparr>files = Map.empty, dirs = [''src''], console = [], environ = [], ext = ()\<rparr> =
     (Inr 0, w') \<and> ''x'' \<in> set (all_modules [''x''] (\<lambda>p. p \<in> set (dirs w')) (\<lambda>p. path_exists p w'))"
proof -
  have "path_head ''src/create-module.py'' = ''src''" by code_simp
  then show ?thesis
    using creates_module [of "''x''" "''src/create-module.py''" "\<lparr>files = Map.empty, dirs = [''src''], console = [], environ = [], ext = ()\<rparr>"
        "''help''" "[''x'']"]
    by (auto simp: Let_def module_exists_def path_exists_def path_join_def)
qed

end
