(* ===== verification/Copy_Tasks.thy ===== *)
theory Copy_Tasks
  imports Build_Misc "HOL-Library.List_Lexorder" "HOL-Library.Char_ord"
begin

text \<open>
  The generators of copies, templates and commands in \<open>waf-tools/misc.py\<close>: the tasks that \<open>apply_copy\<close>, \<open>apply_subst\<close> and
  \<open>apply_cmd\<close> make, and the function that such a task runs. What the tree of nodes finds is a parameter.
\<close>

section \<open>Generators and tasks\<close>

text \<open>The function attached to a task: one of the two of this file, or another one by its name.\<close>

datatype task_function = Copy_function | Subst_function | Own_function string

record copy_task =
  copy_input :: string
  copy_output :: string
  copy_function :: "task_function option"
  copy_chmod :: nat
  copy_dict :: "(string, string) dict"
  copy_dep_vars :: "string list"

text \<open>
  A generator: \<open>gen_dict_hash\<close> is \<open>DICT_HASH\<close> of its environment, \<open>gen_meths\<close> the methods that are still to be run.
\<close>

record copy_gen =
  copy_sources :: "string list"
  copy_target :: string
  gen_fun :: "task_function option"
  gen_chmod :: "nat option"
  gen_dict :: "(string, string) dict option"
  gen_dict_hash :: string
  gen_meths :: "string list"
  default_install_path :: "string option"

record copy_nodes =
  find_copy_source :: "string \<Rightarrow> string option"
  declare_output :: "string \<Rightarrow> string"
  without_ext :: "string \<Rightarrow> string"

definition default_mode :: nat where
  \<comment> \<open>\<open>O644\<close>\<close>
  "default_mode = 420"

definition no_input :: "string \<Rightarrow> py_exn" where
  "no_input filename = waf_error (''cannot find input file '' @ filename @ '' for processing'')"

text \<open>\<open>meths.remove('process_source')\<close>\<close>

definition drop_process_source :: "copy_gen \<Rightarrow> copy_gen result" where
  "drop_process_source g =
     (if ''process_source'' \<in> set (gen_meths g) then Inr (g\<lparr>gen_meths := remove1 ''process_source'' (gen_meths g)\<rparr>)
      else Inl ValueError)"

definition set_default_fun :: "task_function \<Rightarrow> copy_gen \<Rightarrow> copy_gen" where
  \<comment> \<open>\<open>Utils.def_attrs(self, fun=f)\<close>\<close>
  "set_default_fun f g = (case gen_fun g of None \<Rightarrow> g\<lparr>gen_fun := Some f\<rparr> | Some _ \<Rightarrow> g)"

definition apply_copy :: "copy_nodes \<Rightarrow> copy_gen \<Rightarrow> (copy_gen \<times> copy_task list) result" where
  "apply_copy nodes g =
     res_bind (drop_process_source ((set_default_fun Copy_function g)\<lparr>default_install_path := None\<rparr>)) (\<lambda>g.
     res_bind (for_each (\<lambda>filename tasks.
       case find_copy_source nodes filename of
         None \<Rightarrow> Inl (no_input filename)
       | Some node \<Rightarrow>
           let target = (if copy_target g = [] \<or> length (copy_sources g) > 1 then path_tail node else copy_target g)
           in Inr (tasks @ [\<lparr>copy_input = node, copy_output = declare_output nodes target, copy_function = gen_fun g,
                copy_chmod = (case gen_chmod g of None \<Rightarrow> default_mode | Some m \<Rightarrow> m), copy_dict = [], copy_dep_vars = []\<rparr>]))
       (copy_sources g) []) (\<lambda>tasks. Inr (g, tasks)))"

text \<open>
  The hash of the dictionary goes into the environment once, over the values in the order of their keys. The code
  assigns the values to the variable of the list that it runs over, which does not change the loop.
\<close>

definition values_by_key :: "(string, string) dict \<Rightarrow> string list" where
  "values_by_key d = map (\<lambda>k. the (map_of d k)) (sort (dict_keys d))"

definition set_dict_hash :: "(string list \<Rightarrow> string) \<Rightarrow> copy_gen \<Rightarrow> copy_gen" where
  "set_dict_hash hash g =
     (case gen_dict g of
        None \<Rightarrow> g
      | Some d \<Rightarrow> if d \<noteq> [] \<and> gen_dict_hash g = [] then g\<lparr>gen_dict_hash := hash (values_by_key d)\<rparr> else g)"

definition subst_task :: "copy_nodes \<Rightarrow> copy_gen \<Rightarrow> string \<Rightarrow> copy_task" where
  "subst_task nodes g node =
     \<lparr>copy_input = node,
      copy_output = (if copy_target g \<noteq> [] then declare_output nodes (copy_target g) else without_ext nodes node),
      copy_function = gen_fun g, copy_chmod = (case gen_chmod g of None \<Rightarrow> default_mode | Some m \<Rightarrow> m),
      copy_dict = (case gen_dict g of None \<Rightarrow> [] | Some d \<Rightarrow> d), copy_dep_vars = [''DICT_HASH'']\<rparr>"

definition subst_step ::
  "(string list \<Rightarrow> string) \<Rightarrow> copy_nodes \<Rightarrow> string \<Rightarrow> copy_gen \<times> copy_task list \<Rightarrow> (copy_gen \<times> copy_task list) result" where
  "subst_step hash nodes filename st =
     (case find_copy_source nodes filename of
        None \<Rightarrow> Inl (no_input filename)
      | Some node \<Rightarrow>
          let g = set_dict_hash hash (fst st) in Inr (g, snd st @ [subst_task nodes g node]))"

definition with_dict :: "copy_gen \<Rightarrow> copy_gen" where
  \<comment> \<open>\<open>self.dict = getattr(self, 'dict', {})\<close>\<close>
  "with_dict g = g\<lparr>gen_dict := Some (case gen_dict g of None \<Rightarrow> [] | Some d \<Rightarrow> d)\<rparr>"

definition apply_subst :: "(string list \<Rightarrow> string) \<Rightarrow> copy_nodes \<Rightarrow> copy_gen \<Rightarrow> (copy_gen \<times> copy_task list) result" where
  "apply_subst hash nodes g =
     res_bind (drop_process_source (set_default_fun Subst_function g)) (\<lambda>g.
       for_each (subst_step hash nodes) (copy_sources g) (with_dict g, []))"

section \<open>Running a task\<close>

text \<open>What another function does is the parameter \<open>own\<close>; \<open>shared\<close> is the dictionary of the generator.\<close>

definition action_process_file ::
  "(string \<Rightarrow> nat \<Rightarrow> 'e \<Rightarrow> 'e) \<Rightarrow> (string \<Rightarrow> string) \<Rightarrow> (string \<Rightarrow> string) \<Rightarrow>
   (string \<Rightarrow> copy_task \<Rightarrow> ((string, string) dict \<times> 'e world, int) io) \<Rightarrow> copy_task \<Rightarrow> ((string, string) dict \<times> 'e world, int) io" where
  "action_process_file set_mode get_flat upper own t = (\<lambda>(shared, w).
     case copy_function t of
       None \<Rightarrow> (Inl (waf_error ''task must have a function attached to it for copy_func to work!''), shared, w)
     | Some Copy_function \<Rightarrow>
         (case copy_func set_mode (copy_input t) (copy_output t) (copy_chmod t) w of (r, w') \<Rightarrow> (r, shared, w'))
     | Some Subst_function \<Rightarrow>
         (case subst_func get_flat upper (copy_dict t) (copy_input t) (copy_output t) (shared, w) of
            (Inl e, s) \<Rightarrow> (Inl e, s)
          | (Inr _, s) \<Rightarrow> (Inr 0, s))
     | Some (Own_function f) \<Rightarrow> own f t (shared, w))"

text \<open>\<open>apply_cmd\<close>: one task that runs the function each time; \<open>install_path\<close> is passed on.\<close>

definition apply_cmd :: "task_function option \<Rightarrow> 'i \<Rightarrow> (task_function \<times> 'i) list \<Rightarrow> ((task_function \<times> 'i) list) result" where
  "apply_cmd f install_path tasks =
     (case f of None \<Rightarrow> Inl (waf_error ''cmdobj needs a function!'') | Some f \<Rightarrow> Inr (tasks @ [(f, install_path)]))"

section \<open>What apply_cmd_output does after making its task\<close>

text \<open>\<open>copy_attrs\<close>: a missing attribute counts as the empty tuple, which is false.\<close>

definition copy_attrs ::
  "('v \<Rightarrow> bool) \<Rightarrow> 'v \<Rightarrow> (string, 'v) dict \<Rightarrow> string list \<Rightarrow> bool \<Rightarrow> (string, 'v) dict \<Rightarrow> (string, 'v) dict" where
  "copy_attrs true_value no_value orig names only_if_set dest =
     foldl (\<lambda>dest a. let u = (case map_of orig a of None \<Rightarrow> no_value | Some v \<Rightarrow> v)
       in if true_value u \<or> \<not> only_if_set then dict_set a u dest else dest) dest names"

text \<open>
  The task runs after the tasks of the generators it depends on; \<open>post\<close> makes the tasks of a generator, which may
  change the state of the build.
\<close>

definition run_after_dependencies ::
  "('g \<Rightarrow> 's \<Rightarrow> 't list \<times> 's) \<Rightarrow> 'g \<Rightarrow> 'g list \<Rightarrow> 't list \<times> 's \<Rightarrow> ('t list \<times> 's) result" where
  "run_after_dependencies post self deps st =
     for_each (\<lambda>dep (run_after, s).
       if dep = self then Inl AssertionError
       else case post dep s of (tasks, s') \<Rightarrow> Inr (fold List.insert tasks run_after, s')) deps st"

text \<open>
  A task without inputs is always run, and afterwards the hashes of its outputs are taken anew.
\<close>

datatype output_status = Always_run | Usual_status

definition output_status_of :: "output_task \<Rightarrow> output_status" where
  "output_status_of t = (if always_runs t then Always_run else Usual_status)"

definition update_sigs :: "(string \<Rightarrow> string) \<Rightarrow> string list \<Rightarrow> (string \<rightharpoonup> string) \<Rightarrow> ('e world, string \<rightharpoonup> string) io" where
  "update_sigs hash outputs sigs =
     io_for_each (\<lambda>x sigs. io_bind (read_file x) (\<lambda>content. io_return (sigs(x \<mapsto> hash content)))) outputs sigs"

section \<open>Lemmas\<close>

lemma set_fold_insert: "set (fold List.insert ts r) = set ts \<union> set r"
  by (induction ts arbitrary: r) auto

lemma run_after_dependencies_tasks:
  assumes "run_after_dependencies post self deps (run_after, s) = Inr (run_after', s')"
  shows "self \<notin> set deps \<and> set run_after \<subseteq> set run_after'"
  using assms unfolding run_after_dependencies_def
proof (induction deps arbitrary: run_after s)
  case (Cons dep deps)
  from Cons.prems have "dep \<noteq> self" by (auto split: if_splits)
  moreover obtain ts s1 where "post dep s = (ts, s1)" by fastforce
  ultimately show ?case using Cons.IH [of "fold List.insert ts run_after" s1] Cons.prems by (auto simp: set_fold_insert)
qed simp

text \<open>The hash does not depend on the order in which the dictionary was filled.\<close>

lemma values_by_key_cong:
  assumes "dict_ok d" "dict_ok d'" "map_of d = map_of d'"
  shows "values_by_key d = values_by_key d'"
proof -
  have "set (dict_keys d) = set (dict_keys d')" using assms(3) by (metis dom_map_of_conv_image_fst list.set_map)
  with assms(1,2) have "sort (dict_keys d) = sort (dict_keys d')"
    unfolding dict_ok_def by (intro sorted_distinct_set_unique) simp_all
  with assms(3) show ?thesis by (simp add: values_by_key_def)
qed

text \<open>A template task with a dictionary leaves the dictionary of the generator alone.\<close>

lemma subst_task_runs:
  assumes "copy_function t = Some Subst_function" "copy_dict t \<noteq> []" "files w (copy_input t) = Some content"
  shows "action_process_file set_mode get_flat upper own t (shared, w) =
    (case fill_in (dict_get (copy_dict t)) content of
       Inl e \<Rightarrow> (Inl e, shared, w)
     | Inr text_of \<Rightarrow> (Inr 0, shared, w\<lparr>files := (files w)(copy_output t \<mapsto> text_of)\<rparr>))"
  using assms by (simp add: action_process_file_def subst_func_def Let_def format_m4 subst_dict_def split: sum.split)

lemma apply_subst_loop:
  assumes "apply_subst hash nodes g = Inr (g', tasks)"
  obtains g0 where "copy_target g0 = copy_target g" "gen_dict g0 = Some (case gen_dict g of None \<Rightarrow> [] | Some d \<Rightarrow> d)"
    "gen_fun g0 = Some (case gen_fun g of None \<Rightarrow> Subst_function | Some f \<Rightarrow> f)"
    "for_each (subst_step hash nodes) (copy_sources g) (g0, []) = Inr (g', tasks)"
proof
  let ?g = "with_dict ((set_default_fun Subst_function g)\<lparr>gen_meths := remove1 ''process_source'' (gen_meths g)\<rparr>)"
  show "copy_target ?g = copy_target g" "gen_dict ?g = Some (case gen_dict g of None \<Rightarrow> [] | Some d \<Rightarrow> d)"
    "gen_fun ?g = Some (case gen_fun g of None \<Rightarrow> Subst_function | Some f \<Rightarrow> f)"
    by (cases "gen_fun g"; simp add: set_default_fun_def with_dict_def)+
  show "for_each (subst_step hash nodes) (copy_sources g) (?g, []) = Inr (g', tasks)"
    using assms by (cases "gen_fun g") (auto simp: apply_subst_def set_default_fun_def drop_process_source_def split: if_splits)
qed

lemma subst_tasks_fill_in:
  assumes "apply_subst hash nodes g = Inr (g', tasks)" "gen_dict g = Some d" "d \<noteq> []" "gen_fun g = None"
    and "t \<in> set tasks" "files w (copy_input t) = Some content"
  shows "action_process_file set_mode get_flat upper own t (shared, w) =
    (case fill_in (dict_get d) content of
       Inl e \<Rightarrow> (Inl e, shared, w)
     | Inr text_of \<Rightarrow> (Inr 0, shared, w\<lparr>files := (files w)(copy_output t \<mapsto> text_of)\<rparr>))"
proof -
  let ?P = "\<lambda>(g, tasks). gen_dict g = Some d \<and> gen_fun g = Some Subst_function \<and>
    (\<forall>t \<in> set tasks. copy_function t = Some Subst_function \<and> copy_dict t = d)"
  from apply_subst_loop [OF assms(1)] obtain g0 where g0: "gen_dict g0 = Some d" "gen_fun g0 = Some Subst_function"
    "for_each (subst_step hash nodes) (copy_sources g) (g0, []) = Inr (g', tasks)"
    using assms(2,4) by auto
  have "?P (g', tasks)"
    by (rule for_each_invariant [OF g0(3)])
      (use g0 in \<open>auto simp: subst_step_def set_dict_hash_def subst_task_def Let_def split: option.splits if_splits\<close>)
  with assms(5) have "copy_function t = Some Subst_function" "copy_dict t = d" by auto
  with subst_task_runs [of t w content set_mode get_flat upper own shared] assms(3,6) show ?thesis by simp
qed

text \<open>With a target every task of the generator writes the same file.\<close>

lemma subst_target_shared:
  assumes "apply_subst hash nodes g = Inr (g', tasks)" "copy_target g \<noteq> []" "t \<in> set tasks"
  shows "copy_output t = declare_output nodes (copy_target g)"
proof -
  let ?P = "\<lambda>(g', tasks). copy_target g' = copy_target g \<and> (\<forall>t \<in> set tasks. copy_output t = declare_output nodes (copy_target g))"
  from apply_subst_loop [OF assms(1)] obtain g0 where g0: "copy_target g0 = copy_target g"
    "for_each (subst_step hash nodes) (copy_sources g) (g0, []) = Inr (g', tasks)" by auto
  have "?P (g', tasks)"
    by (rule for_each_invariant [OF g0(2)])
      (use g0 assms(2) in \<open>auto simp: subst_step_def set_dict_hash_def subst_task_def Let_def split: option.splits if_splits\<close>)
  with assms(3) show ?thesis by auto
qed

end
