(* ===== verification/Flow_Monitor.thy ===== *)
theory Flow_Monitor
  imports Py_Number Test_Report
begin

text \<open>
  The reader of the flow monitor's results, \<open>src/flow-monitor/examples/flowmon-parse-results.py\<close>: the classes of flows
  and simulations, built from the elements of the file, and \<open>main\<close>, which prints the figures of each flow. The
  parser of XML is a parameter; a flow that several names reach is changed in its place in the list of flows.
\<close>

section \<open>Attributes\<close>

definition attribute :: "string \<Rightarrow> xml \<Rightarrow> string option" where
  "attribute name el = map_of (xattrs el) name"

text \<open>\<open>int(None)\<close>, \<open>float(None)\<close> and a slice of \<open>None\<close> are type errors.\<close>

definition int_attribute :: "string \<Rightarrow> xml \<Rightarrow> int result" where
  "int_attribute name el = (case attribute name el of None \<Rightarrow> Inl TypeError | Some s \<Rightarrow> py_int s)"

definition long_attribute :: "string \<Rightarrow> xml \<Rightarrow> int result" where
  "long_attribute name el = (case attribute name el of None \<Rightarrow> Inl TypeError | Some s \<Rightarrow> py_long s)"

definition float_attribute :: "string \<Rightarrow> xml \<Rightarrow> rat result" where
  "float_attribute name el = (case attribute name el of None \<Rightarrow> Inl TypeError | Some s \<Rightarrow> py_float s)"

definition long_time :: "string \<Rightarrow> xml \<Rightarrow> int result" where
  \<comment> \<open>\<open>long(el.get(name)[:-2])\<close>\<close>
  "long_time name el = (case attribute name el of None \<Rightarrow> Inl TypeError | Some s \<Rightarrow> py_long (py_upto s (- 2)))"

definition float_time :: "string \<Rightarrow> xml \<Rightarrow> rat result" where
  "float_time name el = (case attribute name el of None \<Rightarrow> Inl TypeError | Some s \<Rightarrow> py_float (py_upto s (- 2)))"

definition parse_time_ns :: "string option \<Rightarrow> int result" where
  "parse_time_ns tm =
     (case tm of
        None \<Rightarrow> Inl AttributeError
      | Some s \<Rightarrow> if suffix ''ns'' s then py_long (py_upto s (- 2)) else Inl ValueError)"

section \<open>Flows\<close>

record five_tuple =
  source_address :: "string option"
  destination_address :: "string option"
  source_port :: int
  destination_port :: int
  protocol :: int

definition new_five_tuple :: "xml \<Rightarrow> five_tuple result" where
  "new_five_tuple el =
     res_bind (int_attribute ''sourcePort'' el) (\<lambda>sport.
     res_bind (int_attribute ''destinationPort'' el) (\<lambda>dport.
     res_bind (int_attribute ''protocol'' el) (\<lambda>proto.
       Inr \<lparr>source_address = attribute ''sourceAddress'' el, destination_address = attribute ''destinationAddress'' el,
            source_port = sport, destination_port = dport, protocol = proto\<rparr>)))"

type_synonym histogram = "(rat \<times> rat \<times> int) list"

definition new_histogram :: "xml \<Rightarrow> histogram result" where
  "new_histogram el =
     for_each (\<lambda>bin bins.
       res_bind (float_attribute ''start'' bin) (\<lambda>start.
       res_bind (float_attribute ''width'' bin) (\<lambda>width.
       res_bind (int_attribute ''count'' bin) (\<lambda>count. Inr (bins @ [(start, width, count)])))))
       (findall ''bin'' el) []"

record probe_flow_stats =
  probe_id :: int
  probe_packets :: int
  probe_bytes :: int
  delay_from_first_probe :: rat

record flow =
  flow_id :: int
  rx_duration :: rat
  hop_count :: rat
  delay_mean :: "rat option"
  packet_size_mean :: "rat option"
  rx_bitrate :: "rat option"
  tx_bitrate :: "rat option"
  packet_loss_ratio :: "rat option"
  flow_interruptions :: "histogram option"
  five_tuple_of :: "five_tuple option"
  probe_stats :: "probe_flow_stats list"

definition nanosecond :: rat where
  "nanosecond = 1 / 10 ^ 9"

definition duration :: "string \<Rightarrow> string \<Rightarrow> xml \<Rightarrow> rat result" where
  "duration last_name first_name el =
     res_bind (long_time last_name el) (\<lambda>l. res_bind (long_time first_name el) (\<lambda>f. Inr (of_int (l - f) * nanosecond)))"

definition bitrate :: "rat \<Rightarrow> string \<Rightarrow> xml \<Rightarrow> rat option result" where
  "bitrate d name el =
     (if d > 0 then res_bind (long_attribute name el) (\<lambda>bytes. Inr (Some (of_int (bytes * 8) / d))) else Inr None)"

definition received_means :: "int \<Rightarrow> xml \<Rightarrow> (rat \<times> rat option \<times> rat option) result" where
  \<comment> \<open>the hops, the mean delay and the mean size of the packets received\<close>
  "received_means rx_packets el =
     (if rx_packets \<noteq> 0 then
        res_bind (float_attribute ''timesForwarded'' el) (\<lambda>forwarded.
        res_bind (float_time ''delaySum'' el) (\<lambda>delay.
        res_bind (float_attribute ''rxBytes'' el) (\<lambda>bytes.
          Inr (forwarded / of_int rx_packets + 1, Some (delay / of_int rx_packets * nanosecond), Some (bytes / of_int rx_packets)))))
      else Inr (- 1000, None, None))"

definition new_flow :: "xml \<Rightarrow> flow result" where
  "new_flow el =
     res_bind (int_attribute ''flowId'' el) (\<lambda>i.
     res_bind (long_attribute ''rxPackets'' el) (\<lambda>rx_packets.
     res_bind (long_attribute ''txPackets'' el) (\<lambda>tx_packets.
     res_bind (duration ''timeLastTxPacket'' ''timeFirstTxPacket'' el) (\<lambda>tx_dur.
     res_bind (duration ''timeLastRxPacket'' ''timeFirstRxPacket'' el) (\<lambda>rx_dur.
     res_bind (received_means rx_packets el) (\<lambda>(hops, delay, size_mean).
     res_bind (bitrate rx_dur ''rxBytes'' el) (\<lambda>rx_rate.
     res_bind (bitrate tx_dur ''txBytes'' el) (\<lambda>tx_rate.
     res_bind (float_attribute ''lostPackets'' el) (\<lambda>lost.
     res_bind (if rx_packets = 0 then Inr None else res_bind (py_divide lost (of_int rx_packets + lost)) (\<lambda>r. Inr (Some r))) (\<lambda>loss.
     res_bind (case find_child ''flowInterruptionsHistogram'' el of
         None \<Rightarrow> Inr None | Some h \<Rightarrow> res_bind (new_histogram h) (\<lambda>b. Inr (Some b))) (\<lambda>hist.
       Inr \<lparr>flow_id = i, rx_duration = rx_dur, hop_count = hops, delay_mean = delay, packet_size_mean = size_mean,
            rx_bitrate = rx_rate, tx_bitrate = tx_rate, packet_loss_ratio = loss, flow_interruptions = hist,
            five_tuple_of = None, probe_stats = []\<rparr>)))))))))))"

section \<open>Simulations\<close>

text \<open>The flows in the order of the file, and the place of the flow that each number stands for.\<close>

record simulation =
  flows :: "flow list"
  flow_map :: "(int, nat) dict"

definition findall_path :: "string \<Rightarrow> string \<Rightarrow> xml \<Rightarrow> xml list" where
  "findall_path outer inner el = concat (map (findall inner) (findall outer el))"

definition add_flow :: "xml \<Rightarrow> simulation \<Rightarrow> simulation result" where
  "add_flow el sim =
     res_bind (new_flow el) (\<lambda>f.
       Inr (sim\<lparr>flows := flows sim @ [f], flow_map := dict_set (flow_id f) (length (flows sim)) (flow_map sim)\<rparr>))"

definition change_flow :: "int \<Rightarrow> (flow \<Rightarrow> flow) \<Rightarrow> simulation \<Rightarrow> simulation result" where
  "change_flow i change sim =
     res_bind (dict_get (flow_map sim) i) (\<lambda>k. Inr (sim\<lparr>flows := (flows sim)[k := change (flows sim ! k)]\<rparr>))"

definition classify_flow :: "xml \<Rightarrow> simulation \<Rightarrow> simulation result" where
  "classify_flow el sim =
     res_bind (int_attribute ''flowId'' el) (\<lambda>i.
     res_bind (new_five_tuple el) (\<lambda>t. change_flow i (\<lambda>f. f\<lparr>five_tuple_of := Some t\<rparr>) sim))"

definition add_probe_stats :: "int \<Rightarrow> xml \<Rightarrow> simulation \<Rightarrow> simulation result" where
  "add_probe_stats p stats sim =
     res_bind (int_attribute ''flowId'' stats) (\<lambda>i.
     res_bind (int_attribute ''packets'' stats) (\<lambda>packets.
     res_bind (long_attribute ''bytes'' stats) (\<lambda>bytes.
     res_bind (if packets > 0
         then res_bind (parse_time_ns (attribute ''delayFromFirstProbeSum'' stats)) (\<lambda>d. Inr (of_int d / of_int packets))
         else Inr 0) (\<lambda>delay.
       change_flow i (\<lambda>f. f\<lparr>probe_stats := probe_stats f @
         [\<lparr>probe_id = p, probe_packets = packets, probe_bytes = bytes, delay_from_first_probe = delay\<rparr>]\<rparr>) sim))))"

definition add_probe :: "xml \<Rightarrow> simulation \<Rightarrow> simulation result" where
  "add_probe probe_elem sim =
     res_bind (int_attribute ''index'' probe_elem) (\<lambda>p. for_each (add_probe_stats p) (findall ''FlowStats'' probe_elem) sim)"

definition new_simulation :: "xml \<Rightarrow> simulation result" where
  "new_simulation el =
     (case findall ''Ipv4FlowClassifier'' el of
        [classifier] \<Rightarrow>
          res_bind (for_each add_flow (findall_path ''FlowStats'' ''Flow'' el) \<lparr>flows = [], flow_map = []\<rparr>) (\<lambda>sim.
          res_bind (for_each classify_flow (findall ''Flow'' classifier) sim) (\<lambda>sim.
            for_each add_probe (findall_path ''FlowProbes'' ''FlowProbe'' el) sim))
      | _ \<Rightarrow> Inl ValueError)"

section \<open>The program\<close>

text \<open>The events of \<open>iterparse\<close>: whether an element starts, and the element, which is complete when it ends.\<close>

fun xml_events :: "xml \<Rightarrow> (bool \<times> xml) list" where
  "xml_events (Elem tag attrs text_of children) =
     (True, Elem tag attrs text_of children) # concat (map xml_events children) @ [(False, Elem tag attrs text_of children)]"

definition handle_event :: "bool \<times> xml \<Rightarrow> int \<times> simulation list \<Rightarrow> ('e world, int \<times> simulation list) io" where
  "handle_event ev st =
     (case (ev, st) of ((starts, el), (level, sims)) \<Rightarrow>
        if starts then io_return (level + 1, sims)
        else if level - 1 = 0 \<and> xtag el = ''FlowMonitor'' then
          io_bind (io_lift (new_simulation el)) (\<lambda>sim. io_seq (print_line ''.'') (io_return (level - 1, sims @ [sim])))
        else io_return (level - 1, sims))"

text \<open>\<open>None * x\<close> is a type error.\<close>

definition scaled :: "rat option \<Rightarrow> rat \<Rightarrow> string result" where
  "scaled value factor = (case value of None \<Rightarrow> Inl TypeError | Some q \<Rightarrow> Inr (two_decimals (q * factor)))"

definition protocols :: "(int, string) dict" where
  "protocols = [(6, ''TCP''), (17, ''UDP'')]"

definition flow_header :: "int \<Rightarrow> string \<Rightarrow> five_tuple \<Rightarrow> string" where
  "flow_header i proto t =
     ''FlowID: '' @ int_str i @ '' ('' @ proto @ '' '' @ fmt (source_address t) @ ''/'' @ int_str (source_port t) @ '' --> '' @
     fmt (destination_address t) @ ''/'' @ int_str (destination_port t) @ '')''"

definition tab :: string where
  "tab = [CHR 0x09]"

definition print_figure :: "string \<Rightarrow> rat option \<Rightarrow> rat \<Rightarrow> string \<Rightarrow> ('e world, unit) io" where
  "print_figure label value factor unit_name =
     io_bind (io_lift (scaled value factor)) (\<lambda>s. print_line (tab @ label @ s @ unit_name))"

definition print_flow :: "flow \<Rightarrow> ('e world, unit) io" where
  "print_flow f =
     (case five_tuple_of f of
        None \<Rightarrow> io_raise AttributeError
      | Some t \<Rightarrow>
          io_bind (io_lift (dict_get protocols (protocol t))) (\<lambda>proto.
          io_seq (print_line (flow_header (flow_id f) proto t))
         (io_seq (print_figure ''TX bitrate: '' (tx_bitrate f) (1 / 1000) '' kbit/s'')
         (io_seq (print_figure ''RX bitrate: '' (rx_bitrate f) (1 / 1000) '' kbit/s'')
         (io_seq (print_figure ''Mean Delay: '' (delay_mean f) 1000 '' ms'')
           (print_figure ''Packet Loss Ratio: '' (packet_loss_ratio f) 100 '' %''))))))"

text \<open>
  After \<open>print x,\<close> the next \<open>print\<close> starts with a blank, unless something was written in between.
\<close>

definition done_text :: "simulation list \<Rightarrow> string" where
  "done_text sims = (if sims = [] then ''  done.'' else '' done.'')"

definition flowmon_main :: "(string \<Rightarrow> xml result) \<Rightarrow> string list \<Rightarrow> ('e world, unit) io" where
  "flowmon_main parse argv =
     io_bind (io_lift (py_get argv 1)) (\<lambda>path.
     io_bind (read_file path) (\<lambda>contents.
     io_seq (print_line ''Reading XML file '')
    (io_bind (io_lift (parse contents)) (\<lambda>doc.
     io_bind (io_for_each handle_event (xml_events doc) (0, [])) (\<lambda>(level, sims).
     io_seq (print_line (done_text sims))
       (io_for_each (\<lambda>sim _. io_for_each (\<lambda>f _. print_flow f) (flows sim) ()) sims ()))))))"

section \<open>Results as the program expects them\<close>

text \<open>What a run has to tell of a flow; times are in nanoseconds.\<close>

record flow_entry =
  fe_id :: int
  fe_tuple :: five_tuple
  fe_first_tx :: int
  fe_last_tx :: int
  fe_first_rx :: int
  fe_last_rx :: int
  fe_delay :: int
  fe_tx_bytes :: nat
  fe_rx_bytes :: nat
  fe_tx_packets :: nat
  fe_rx_packets :: nat
  fe_lost :: nat
  fe_forwarded :: nat

definition time_str :: "int \<Rightarrow> string" where
  "time_str t = int_str t @ ''ns''"

definition flow_element :: "flow_entry \<Rightarrow> xml" where
  "flow_element e = Elem ''Flow''
     [(''flowId'', int_str (fe_id e)), (''timeFirstTxPacket'', time_str (fe_first_tx e)),
      (''timeFirstRxPacket'', time_str (fe_first_rx e)), (''timeLastTxPacket'', time_str (fe_last_tx e)),
      (''timeLastRxPacket'', time_str (fe_last_rx e)), (''delaySum'', time_str (fe_delay e)),
      (''txBytes'', int_str (fe_tx_bytes e)), (''rxBytes'', int_str (fe_rx_bytes e)),
      (''txPackets'', int_str (fe_tx_packets e)), (''rxPackets'', int_str (fe_rx_packets e)),
      (''lostPackets'', int_str (fe_lost e)), (''timesForwarded'', int_str (fe_forwarded e))] None []"

definition address_attributes :: "five_tuple \<Rightarrow> (string \<times> string) list" where
  "address_attributes t =
     (case source_address t of None \<Rightarrow> [] | Some a \<Rightarrow> [(''sourceAddress'', a)]) @
     (case destination_address t of None \<Rightarrow> [] | Some a \<Rightarrow> [(''destinationAddress'', a)])"

definition class_element :: "flow_entry \<Rightarrow> xml" where
  "class_element e = Elem ''Flow''
     ([(''flowId'', int_str (fe_id e)), (''protocol'', int_str (protocol (fe_tuple e))),
       (''sourcePort'', int_str (source_port (fe_tuple e))), (''destinationPort'', int_str (destination_port (fe_tuple e)))] @
      address_attributes (fe_tuple e)) None []"

text \<open>A probe tells of flows the packets, the bytes and the sum of the delays, if there are packets.\<close>

record probe_entry =
  pe_flow :: flow_entry
  pe_packets :: nat
  pe_bytes :: nat
  pe_delay :: int

definition stats_element :: "probe_entry \<Rightarrow> xml" where
  "stats_element s = Elem ''FlowStats''
     [(''flowId'', int_str (fe_id (pe_flow s))), (''packets'', int_str (pe_packets s)), (''bytes'', int_str (pe_bytes s)),
      (''delayFromFirstProbeSum'', time_str (pe_delay s))] None []"

definition probe_element :: "int \<times> probe_entry list \<Rightarrow> xml" where
  "probe_element p = Elem ''FlowProbe'' [(''index'', int_str (fst p))] None (map stats_element (snd p))"

definition results_document :: "flow_entry list \<Rightarrow> flow_entry list \<Rightarrow> (int \<times> probe_entry list) list \<Rightarrow> xml" where
  "results_document es cs ps = Elem ''FlowMonitor'' [] None
     [Elem ''FlowStats'' [] None (map flow_element es), Elem ''Ipv4FlowClassifier'' [] None (map class_element cs),
      Elem ''FlowProbes'' [] None (map probe_element ps)]"

definition seconds :: "int \<Rightarrow> int \<Rightarrow> rat" where
  "seconds from to = of_int (to - from) / 10 ^ 9"

definition flow_read :: "flow_entry \<Rightarrow> flow" where
  "flow_read e =
     (let rx = fe_rx_packets e; rx_time = seconds (fe_first_rx e) (fe_last_rx e); tx_time = seconds (fe_first_tx e) (fe_last_tx e) in
      \<lparr>flow_id = fe_id e, rx_duration = rx_time,
       hop_count = (if rx = 0 then - 1000 else of_nat (fe_forwarded e) / of_nat rx + 1),
       delay_mean = (if rx = 0 then None else Some (of_int (fe_delay e) / of_nat rx / 10 ^ 9)),
       packet_size_mean = (if rx = 0 then None else Some (of_nat (fe_rx_bytes e) / of_nat rx)),
       rx_bitrate = (if rx_time > 0 then Some (of_nat (8 * fe_rx_bytes e) / rx_time) else None),
       tx_bitrate = (if tx_time > 0 then Some (of_nat (8 * fe_tx_bytes e) / tx_time) else None),
       packet_loss_ratio = (if rx = 0 then None else Some (of_nat (fe_lost e) / of_nat (rx + fe_lost e))),
       flow_interruptions = None, five_tuple_of = None, probe_stats = []\<rparr>)"

section \<open>Reading them\<close>

lemma attribute_Elem [simp]: "attribute name (Elem t attrs x cs) = map_of attrs name"
  by (simp add: attribute_def)

lemma upto_time [simp]: "py_upto (time_str t) (- 2) = int_str t"
  by (simp add: py_upto_def slice_bound_def time_str_def nat_add_distrib)

lemma new_flow_element: "new_flow (flow_element e) = Inr (flow_read e)"
  by (simp add: new_flow_def flow_element_def int_attribute_def long_attribute_def float_attribute_def long_time_def
      float_time_def py_int_int_str py_long_int_str py_float_int_str duration_def nanosecond_def received_means_def
      bitrate_def py_divide_def find_child_def flow_read_def seconds_def Let_def)

lemma flow_id_read [simp]: "flow_id (flow_read e) = fe_id e"
  by (simp add: flow_read_def Let_def)

definition places :: "flow_entry list \<Rightarrow> (int, nat) dict" where
  "places es = zip (map fe_id es) [0..<length es]"

lemma places_snoc: "places (es @ [e]) = places es @ [(fe_id e, length es)]"
  by (simp add: places_def)

lemma add_flows:
  "distinct (map fe_id es) \<Longrightarrow>
   for_each add_flow (map flow_element es) \<lparr>flows = [], flow_map = []\<rparr> = Inr \<lparr>flows = map flow_read es, flow_map = places es\<rparr>"
proof (induction es rule: rev_induct)
  case Nil
  then show ?case by (simp add: places_def)
next
  case (snoc e es)
  have "\<not> dict_has (places es) (fe_id e)"
    using snoc.prems by (auto simp: dict_has_iff places_def in_set_zip) (metis image_eqI nth_mem)
  then have "dict_set (fe_id e) (length es) (places es) = places (es @ [e])" by (simp add: dict_set_new places_snoc)
  with snoc show ?case by (simp add: add_flow_def new_flow_element)
qed

lemma place_of:
  assumes "distinct (map fe_id es)" "k < length es"
  shows "dict_get (places es) (fe_id (es ! k)) = Inr k"
  using map_of_zip_nth [of "map fe_id es" "[0..<length es]" k] assms by (simp add: dict_get_def places_def)

text \<open>Changing the flow of an entry, in a simulation whose flows are given by the entries.\<close>

lemma change_flow_entry:
  assumes "distinct (map fe_id es)" "e \<in> set es"
  shows "change_flow (fe_id e) change \<lparr>flows = map g es, flow_map = places es\<rparr> =
    Inr \<lparr>flows = map (\<lambda>x. if e = x then change (g x) else g x) es, flow_map = places es\<rparr>"
proof -
  obtain k where k: "k < length es" "es ! k = e" using assms(2) by (auto simp: in_set_conv_nth)
  have "distinct es" using assms(1) by (simp add: distinct_map)
  with k have "(map g es)[k := change (g e)] = map (\<lambda>x. if e = x then change (g x) else g x) es"
    by (intro nth_equalityI) (auto simp: nth_list_update nth_eq_iff_index_eq)
  with place_of [OF assms(1) k(1)] k show ?thesis by (simp add: change_flow_def)
qed

lemma change_flows:
  assumes "distinct (map fe_id es)" "entry_of ` set xs \<subseteq> set es"
    and body: "\<And>x sim. body x sim = change_flow (fe_id (entry_of x)) (change x) sim"
  shows "for_each body xs \<lparr>flows = map g es, flow_map = places es\<rparr> =
    Inr \<lparr>flows = map (\<lambda>e. fold (\<lambda>x f. if entry_of x = e then change x f else f) xs (g e)) es, flow_map = places es\<rparr>"
  using assms(2)
proof (induction xs arbitrary: g)
  case (Cons x xs)
  then show ?case by (simp add: body change_flow_entry [OF assms(1)])
qed simp

lemma new_five_tuple_element: "new_five_tuple (class_element e) = Inr (fe_tuple e)"
  by (cases "source_address (fe_tuple e)"; cases "destination_address (fe_tuple e)")
    (simp_all add: new_five_tuple_def class_element_def int_attribute_def py_int_int_str address_attributes_def)

lemma classify_flow_element:
  "classify_flow (class_element e) sim = change_flow (fe_id e) (\<lambda>f. f\<lparr>five_tuple_of := Some (fe_tuple e)\<rparr>) sim"
proof -
  have "int_attribute ''flowId'' (class_element e) = Inr (fe_id e)"
    by (simp add: int_attribute_def class_element_def py_int_int_str)
  then show ?thesis by (simp add: classify_flow_def new_five_tuple_element)
qed

lemma fold_tuples:
  "fold (\<lambda>x f. if x = e then f\<lparr>five_tuple_of := Some (fe_tuple x)\<rparr> else f) cs f =
   (if e \<in> set cs then f\<lparr>five_tuple_of := Some (fe_tuple e)\<rparr> else f)"
  by (induction cs arbitrary: f) auto

definition stats_read :: "int \<times> probe_entry \<Rightarrow> probe_flow_stats" where
  "stats_read x = (case x of (p, s) \<Rightarrow>
     \<lparr>probe_id = p, probe_packets = int (pe_packets s), probe_bytes = int (pe_bytes s),
      delay_from_first_probe = (if pe_packets s = 0 then 0 else of_int (pe_delay s) / of_nat (pe_packets s))\<rparr>)"

lemma suffix_time [simp]: "suffix ''ns'' (time_str t)"
  unfolding time_str_def by (rule suffixI) (rule refl)

lemma add_probe_stats_element:
  "add_probe_stats p (stats_element s) sim =
   change_flow (fe_id (pe_flow s)) (\<lambda>f. f\<lparr>probe_stats := probe_stats f @ [stats_read (p, s)]\<rparr>) sim"
  by (simp add: add_probe_stats_def stats_element_def int_attribute_def long_attribute_def py_int_int_str py_long_int_str
      parse_time_ns_def stats_read_def)

definition all_stats :: "(int \<times> probe_entry list) list \<Rightarrow> (int \<times> probe_entry) list" where
  "all_stats ps = concat (map (\<lambda>(p, ss). map (Pair p) ss) ps)"

lemma add_probes_stats:
  "for_each add_probe (map probe_element ps) sim = for_each (\<lambda>x. add_probe_stats (fst x) (stats_element (snd x))) (all_stats ps) sim"
proof (induction ps arbitrary: sim)
  case (Cons p ps)
  obtain i ss where p: "p = (i, ss)" by (cases p)
  have all: "findall ''FlowStats'' (probe_element (i, ss)) = map stats_element ss"
    by (simp add: findall_def probe_element_def stats_element_def filter_map o_def)
  have "add_probe (probe_element (i, ss)) sim = for_each (add_probe_stats i) (map stats_element ss) sim"
    unfolding add_probe_def all by (simp add: int_attribute_def probe_element_def py_int_int_str)
  moreover have "for_each (add_probe_stats i) (map stats_element ss) sim =
      for_each (\<lambda>x. add_probe_stats (fst x) (stats_element (snd x))) (map (Pair i) ss) sim" for sim
    by (induction ss arbitrary: sim) (simp_all cong: res_bind_cong)
  ultimately show ?case using Cons.IH by (simp add: all_stats_def p cong: res_bind_cong)
qed (simp add: all_stats_def)

lemma fold_stats:
  "fold (\<lambda>x f. if pe_flow (snd x) = e then f\<lparr>probe_stats := probe_stats f @ [stats_read (fst x, snd x)]\<rparr> else f) xs f =
   f\<lparr>probe_stats := probe_stats f @ map stats_read (filter (\<lambda>x. pe_flow (snd x) = e) xs)\<rparr>"
  by (induction xs arbitrary: f) simp_all

definition flow_complete :: "(int \<times> probe_entry list) list \<Rightarrow> flow_entry \<Rightarrow> flow" where
  "flow_complete ps e = (flow_read e)\<lparr>five_tuple_of := Some (fe_tuple e),
     probe_stats := map stats_read (filter (\<lambda>x. pe_flow (snd x) = e) (all_stats ps))\<rparr>"

lemma new_simulation_document:
  assumes "distinct (map fe_id es)" "set cs = set es" "(pe_flow o snd) ` set (all_stats ps) \<subseteq> set es"
  shows "new_simulation (results_document es cs ps) = Inr \<lparr>flows = map (flow_complete ps) es, flow_map = places es\<rparr>"
proof -
  have flow: "xtag (flow_element e) = ''Flow''" "xtag (class_element e) = ''Flow''" "xtag (probe_element p) = ''FlowProbe''" for e p
    by (simp_all add: flow_element_def class_element_def probe_element_def)
  have parts: "findall ''Ipv4FlowClassifier'' (results_document es cs ps) = [Elem ''Ipv4FlowClassifier'' [] None (map class_element cs)]"
      "findall_path ''FlowStats'' ''Flow'' (results_document es cs ps) = map flow_element es"
      "findall_path ''FlowProbes'' ''FlowProbe'' (results_document es cs ps) = map probe_element ps"
      "findall ''Flow'' (Elem ''Ipv4FlowClassifier'' [] None (map class_element cs)) = map class_element cs"
    by (simp_all add: findall_def findall_path_def results_document_def filter_map o_def flow)
  have classified: "for_each classify_flow (map class_element cs) \<lparr>flows = map flow_read es, flow_map = places es\<rparr> =
      Inr \<lparr>flows = map (\<lambda>e. (flow_read e)\<lparr>five_tuple_of := Some (fe_tuple e)\<rparr>) es, flow_map = places es\<rparr>"
  proof -
    have "for_each classify_flow (map class_element cs) sim = for_each (\<lambda>e. classify_flow (class_element e)) cs sim" for sim
      by (induction cs arbitrary: sim) (simp_all cong: res_bind_cong)
    with change_flows [OF assms(1), of "\<lambda>e. e" cs "\<lambda>e. classify_flow (class_element e)"
        "\<lambda>e f. f\<lparr>five_tuple_of := Some (fe_tuple e)\<rparr>" flow_read] assms(2)
    show ?thesis by (simp add: classify_flow_element fold_tuples cong: map_cong)
  qed
  have "for_each add_probe (map probe_element ps)
      \<lparr>flows = map (\<lambda>e. (flow_read e)\<lparr>five_tuple_of := Some (fe_tuple e)\<rparr>) es, flow_map = places es\<rparr> =
      Inr \<lparr>flows = map (flow_complete ps) es, flow_map = places es\<rparr>"
    using change_flows [OF assms(1,3), of "\<lambda>x. add_probe_stats (fst x) (stats_element (snd x))"
        "\<lambda>x f. f\<lparr>probe_stats := probe_stats f @ [stats_read (fst x, snd x)]\<rparr>"
        "\<lambda>e. (flow_read e)\<lparr>five_tuple_of := Some (fe_tuple e)\<rparr>"]
    by (simp add: add_probes_stats add_probe_stats_element fold_stats flow_complete_def flow_read_def Let_def)
  with classified add_flows [OF assms(1)] show ?thesis by (simp add: new_simulation_def parts)
qed

section \<open>Printing them\<close>

text \<open>The figures need a second packet on each side, and one that was received.\<close>

definition sent_twice :: "flow_entry \<Rightarrow> bool" where
  "sent_twice e \<longleftrightarrow> fe_first_tx e < fe_last_tx e"

definition received_twice :: "flow_entry \<Rightarrow> bool" where
  "received_twice e \<longleftrightarrow> fe_first_rx e < fe_last_rx e"

definition reportable :: "flow_entry \<Rightarrow> bool" where
  "reportable e \<longleftrightarrow> sent_twice e \<and> received_twice e \<and> fe_rx_packets e \<noteq> 0"

definition flow_lines :: "flow_entry \<Rightarrow> string list" where
  "flow_lines e =
     [flow_header (fe_id e) (the (map_of protocols (protocol (fe_tuple e)))) (fe_tuple e),
      tab @ ''TX bitrate: '' @ two_decimals (of_nat (8 * fe_tx_bytes e) / seconds (fe_first_tx e) (fe_last_tx e) / 1000) @ '' kbit/s'',
      tab @ ''RX bitrate: '' @ two_decimals (of_nat (8 * fe_rx_bytes e) / seconds (fe_first_rx e) (fe_last_rx e) / 1000) @ '' kbit/s'',
      tab @ ''Mean Delay: '' @ two_decimals (of_int (fe_delay e) / of_nat (fe_rx_packets e) / 10 ^ 6) @ '' ms'',
      tab @ ''Packet Loss Ratio: '' @ two_decimals (100 * of_nat (fe_lost e) / of_nat (fe_rx_packets e + fe_lost e)) @ '' %'']"

definition lines_printed :: "flow_entry \<Rightarrow> nat" where
  "lines_printed e = (if reportable e then 5 else if \<not> sent_twice e then 1 else if \<not> received_twice e then 2 else 3)"

lemma print_flow_complete:
  assumes "protocol (fe_tuple e) \<in> fst ` set protocols"
  shows "print_flow (flow_complete ps e) w =
    (if reportable e then Inr () else Inl TypeError, w\<lparr>console := console w @ take (lines_printed e) (flow_lines e)\<rparr>)"
proof -
  have proto: "dict_get protocols (protocol (fe_tuple e)) = Inr (the (map_of protocols (protocol (fe_tuple e))))"
    using assms by (auto simp: dict_get_def protocols_def)
  have pos: "seconds a b > 0 \<longleftrightarrow> a < b" for a b by (simp add: seconds_def)
  have delay: "of_int d / of_nat r / 1000000000 * 1000 = (of_int d / of_nat r / 1000000 :: rat)" for d :: int and r :: nat
    by simp
  show ?thesis
    by (simp add: print_flow_def flow_complete_def flow_read_def Let_def proto io_bind_def io_lift_def io_seq_def print_line_def
        print_figure_def scaled_def pos flow_lines_def lines_printed_def reportable_def sent_twice_def received_twice_def
        numeral_eq_Suc delay mult.commute [of _ 100] mult.commute [of _ 1000000])
qed

lemma print_flows_complete:
  assumes "\<forall>e \<in> set es. protocol (fe_tuple e) \<in> fst ` set protocols"
  shows "io_for_each (\<lambda>f _. print_flow f) (map (flow_complete ps) es) () w =
    (if list_all reportable es then Inr () else Inl TypeError,
     w\<lparr>console := console w @ concat (map flow_lines (takeWhile reportable es)) @
       (case dropWhile reportable es of [] \<Rightarrow> [] | e # _ \<Rightarrow> take (lines_printed e) (flow_lines e))\<rparr>)"
  using assms
proof (induction es arbitrary: w)
  case (Cons e es)
  have all: "take (lines_printed e) (flow_lines e) = flow_lines e" if "reportable e"
    using that by (simp add: lines_printed_def flow_lines_def)
  from Cons show ?case by (cases "reportable e") (simp_all add: io_bind_def print_flow_complete all)
qed (simp add: io_return_def)

lemma handle_start [simp]: "handle_event (True, el) (level, sims) = io_return (level + 1, sims)"
  by (simp add: handle_event_def)

lemma handle_end [simp]: "handle_event (False, el) (level, sims) =
    (if level = 1 \<and> xtag el = ''FlowMonitor''
     then io_bind (io_lift (new_simulation el)) (\<lambda>sim. io_seq (print_line ''.'') (io_return (0, sims @ [sim])))
     else io_return (level - 1, sims))"
  by (simp add: handle_event_def)

lemma events_inside:
  "0 < level \<Longrightarrow> io_for_each handle_event (xml_events el) (level, sims) = (io_return (level, sims) :: ('e world, int \<times> simulation list) io)"
proof (induction el arbitrary: level rule: xml_events.induct)
  case (1 tag attrs text_of children)
  have "io_for_each handle_event (concat (map xml_events cs)) (level + 1, sims) = (io_return (level + 1, sims) :: ('e world, int \<times> simulation list) io)"
    if "set cs \<subseteq> set children" for cs
    using that
  proof (induction cs)
    case (Cons c cs)
    then have "io_for_each handle_event (xml_events c) (level + 1, sims) = (io_return (level + 1, sims) :: ('e world, int \<times> simulation list) io)"
      using "1.IH" [of c "level + 1"] "1.prems" by simp
    with Cons show ?case by (simp add: io_for_each_append io_bind_return)
  qed simp
  from this [of children] "1.prems" show ?case
    by (simp add: io_bind_return io_for_each_append)
qed

lemma events_root:
  "io_for_each handle_event (xml_events el) (0, []) =
   (if xtag el = ''FlowMonitor'' then io_bind (io_lift (new_simulation el)) (\<lambda>sim. io_seq (print_line ''.'') (io_return (0, [sim])))
    else (io_return (0, []) :: ('e world, int \<times> simulation list) io))"
proof (cases el)
  case (Elem tag attrs text_of children)
  have "io_for_each handle_event (concat (map xml_events cs)) (1, []) = (io_return (1, []) :: ('e world, int \<times> simulation list) io)" for cs
    by (induction cs) (simp_all add: io_for_each_append io_bind_return events_inside)
  then show ?thesis
    by (simp add: Elem io_bind_return io_for_each_append io_bind_assoc io_seq_def io_bind_return_right)
qed

lemma flowmon_main_root:
  assumes "files w path = Some contents" and "parse contents = Inr doc" and "xtag doc = ''FlowMonitor''"
  shows "flowmon_main parse [program, path] w =
    (case new_simulation doc of
       Inl e \<Rightarrow> (Inl e, w\<lparr>console := console w @ [''Reading XML file '']\<rparr>)
     | Inr sim \<Rightarrow> io_for_each (\<lambda>f _. print_flow f) (flows sim) ()
         (w\<lparr>console := console w @ [''Reading XML file '', ''.'', '' done.'']\<rparr>))"
proof -
  have "py_get [program, path] 1 = Inr path" by (simp add: py_get_def)
  with assms show ?thesis
    by (cases "new_simulation doc")
      (simp_all add: flowmon_main_def io_bind_def io_lift_def io_seq_def read_file_def print_line_def events_root done_text_def
        io_return_def split: prod.split sum.split)
qed

text \<open>How the simulator writes a time: \<open>operator<<\<close> of \<open>int64x64.cc\<close> puts a sign and a point, that of \<open>time.cc\<close> the unit.\<close>

definition simulator_time :: "bool \<Rightarrow> nat \<Rightarrow> string \<Rightarrow> string" where
  "simulator_time negative whole digits = (if negative then ''-'' else ''+'') @ nat_str whole @ ''.'' @ digits @ ''ns''"

lemma upto_simulator_time: "CHR ''.'' \<in> set (py_upto (simulator_time negative whole digits) (- 2))"
  by (simp add: simulator_time_def py_upto_def slice_bound_def nat_add_distrib)

section \<open>Properties\<close>

text \<open>C10: on a file that tells of flows with whole numbers of nanoseconds, in any order of the classifier and with any
  probes, the program prints the five lines of each flow in the order of the file, with the rates, the mean delay and
  the loss that the packets give; but at the first flow that has not sent or received two packets at
  different times it stops with a \<open>TypeError\<close>, since the rate is \<open>None\<close> then, after the lines it can fill.\<close>

theorem report_of_results:
  assumes "files w path = Some contents" and "parse contents = Inr (results_document es cs ps)"
    and "distinct (map fe_id es)" and "set cs = set es" and "(pe_flow o snd) ` set (all_stats ps) \<subseteq> set es"
    and "\<forall>e \<in> set es. protocol (fe_tuple e) \<in> fst ` set protocols"
  shows "flowmon_main parse [program, path] w =
    (if list_all reportable es then Inr () else Inl TypeError,
     w\<lparr>console := console w @ [''Reading XML file '', ''.'', '' done.''] @ concat (map flow_lines (takeWhile reportable es)) @
       (case dropWhile reportable es of [] \<Rightarrow> [] | e # _ \<Rightarrow> take (lines_printed e) (flow_lines e))\<rparr>)"
proof -
  have "xtag (results_document es cs ps) = ''FlowMonitor''" by (simp add: results_document_def)
  from flowmon_main_root [where w = w and path = path and parse = parse, OF assms(1,2) this] show ?thesis
    by (simp add: new_simulation_document [OF assms(3-5)] print_flows_complete [OF assms(6)])
qed

definition two_flows :: "flow_entry list" where
  "two_flows =
     (let t = \<lparr>source_address = Some ''10.0.0.1'', destination_address = Some ''10.0.0.2'', source_port = 9, destination_port = 10, protocol = 17\<rparr>;
          e = \<lparr>fe_id = 1, fe_tuple = t, fe_first_tx = 0, fe_last_tx = 1000000000, fe_first_rx = 5, fe_last_rx = 2000000005,
               fe_delay = 3000000, fe_tx_bytes = 2000, fe_rx_bytes = 1000, fe_tx_packets = 4, fe_rx_packets = 2, fe_lost = 2,
               fe_forwarded = 0\<rparr>
      in [e, e\<lparr>fe_id := 2, fe_last_rx := 5, fe_rx_packets := 1\<rparr>])"

lemma report_of_results_witness:
  "fst (flowmon_main (\<lambda>_. Inr (results_document two_flows (rev two_flows) [(0, [])])) [''p'', ''f'']
      \<lparr>files = [''f'' \<mapsto> ''x''], dirs = [], console = [], environ = [], ext = ()\<rparr>) = Inl TypeError"
proof -
  have "\<not> list_all reportable two_flows" "distinct (map fe_id two_flows)"
    "\<forall>e \<in> set two_flows. protocol (fe_tuple e) \<in> fst ` set protocols"
    by (simp_all add: two_flows_def Let_def reportable_def received_twice_def protocols_def)
  then show ?thesis
    using report_of_results [of "\<lparr>files = [''f'' \<mapsto> ''x''], dirs = [], console = [], environ = [], ext = ()\<rparr>" "''f''" "''x''"
        "\<lambda>_. Inr (results_document two_flows (rev two_flows) [(0, [])])" two_flows "rev two_flows" "[(0, [])]" "''p''"]
    by (simp add: all_stats_def)
qed

text \<open>C11: but the simulator writes times with a point: on its files the program gives a \<open>ValueError\<close> at the first flow,
  whatever the rest of the file says.\<close>

theorem simulator_files_rejected:
  assumes "files w path = Some contents" and "parse contents = Inr doc" and "xtag doc = ''FlowMonitor''"
    and "findall ''Ipv4FlowClassifier'' doc = [classifier]" and "findall_path ''FlowStats'' ''Flow'' doc = f # fs"
    and "attribute ''flowId'' f = Some (nat_str i)" and "attribute ''rxPackets'' f = Some (nat_str rx)"
    and "attribute ''txPackets'' f = Some (nat_str tx)"
    and "attribute ''timeLastTxPacket'' f = Some (simulator_time negative whole digits)"
  shows "flowmon_main parse [program, path] w = (Inl ValueError, w\<lparr>console := console w @ [''Reading XML file '']\<rparr>)"
proof -
  have nat: "nat_str k = int_str (int k)" for k by (simp add: int_str_def)
  have "new_flow f = Inl ValueError"
    using assms(6-9) py_long_point [OF upto_simulator_time]
    by (simp add: new_flow_def int_attribute_def long_attribute_def nat py_int_int_str py_long_int_str duration_def long_time_def)
  then have "new_simulation doc = Inl ValueError" using assms(4,5) by (simp add: new_simulation_def add_flow_def)
  with flowmon_main_root [where w = w and path = path and parse = parse, OF assms(1-3)] show ?thesis by simp
qed

definition simulator_flow :: xml where
  "simulator_flow = Elem ''Flow'' [(''flowId'', nat_str 3), (''timeLastTxPacket'', simulator_time False 1000 ''0''),
     (''txPackets'', nat_str 4), (''rxPackets'', nat_str 2)] None []"

definition simulator_document :: xml where
  "simulator_document = Elem ''FlowMonitor'' [] None
     [Elem ''FlowStats'' [] None [simulator_flow], Elem ''Ipv4FlowClassifier'' [] None []]"

lemma simulator_files_rejected_witness:
  "fst (flowmon_main (\<lambda>_. Inr simulator_document) [''p'', ''f'']
      \<lparr>files = [''f'' \<mapsto> ''x''], dirs = [], console = [], environ = [], ext = ()\<rparr>) = Inl ValueError"
proof -
  have "xtag simulator_document = ''FlowMonitor''"
    "findall ''Ipv4FlowClassifier'' simulator_document = [Elem ''Ipv4FlowClassifier'' [] None []]"
    "findall_path ''FlowStats'' ''Flow'' simulator_document = simulator_flow # []"
    by (simp_all add: simulator_document_def findall_def findall_path_def simulator_flow_def)
  from simulator_files_rejected [where w = "\<lparr>files = [''f'' \<mapsto> ''x''], dirs = [], console = [], environ = [], ext = ()\<rparr>"
      and path = "''f''" and contents = "''x''" and program = "''p''" and i = 3 and rx = 2 and tx = 4
      and negative = False and whole = 1000 and digits = "''0''" and parse = "\<lambda>_. Inr simulator_document", OF _ _ this]
  show ?thesis by (simp add: simulator_flow_def)
qed

end
