(* ===== verification/Rad_Stats.thy ===== *)
theory Rad_Stats
  imports Rad_Util Py_Number
begin

text \<open>
  The functions of \<open>bindings/python/rad_util.py\<close> on floating point numbers: quantiles, trimming, units, ranges and
  random vectors. Floating point numbers are exact rationals; the conversion \<open>%g\<close> and the random numbers are parameters.
\<close>

section \<open>Quantiles\<close>

text \<open>\<open>l_sort[i-1]\<close> of a list that is too short raises \<open>IndexError\<close>; \<open>int(r)\<close> cuts towards zero.\<close>

definition quantile :: "rat list \<Rightarrow> rat \<Rightarrow> rat result" where
  "quantile l p =
     (let l_sort = sort l; n = int (length l); r = 1 + of_int (n - 1) * p;
          i = (if r < 0 then \<lceil>r\<rceil> else \<lfloor>r\<rfloor>); f = r - of_int i
      in if i < n
         then res_bind (py_get l_sort (i - 1)) (\<lambda>a. res_bind (py_get l_sort i) (\<lambda>b. Inr ((1 - f) * a + f * b)))
         else py_get l_sort (i - 1))"

definition median_of_sorted :: "rat list \<Rightarrow> rat result" where
  "median_of_sorted l =
     (let index = int (length l div 2) in
      if even (length l)
      then res_bind (py_get l index) (\<lambda>a. res_bind (py_get l (index - 1)) (\<lambda>b. Inr ((a + b) / 2)))
      else py_get l index)"

definition trim :: "rat list \<Rightarrow> rat list result" where
  "trim l =
     (let l_sort = sort l in
      res_bind (median_of_sorted l_sort) (\<lambda>median.
      res_bind (quantile l_sort (1 / 4)) (\<lambda>q1.
      res_bind (quantile l_sort (3 / 4)) (\<lambda>q3.
        let iqr = q3 - q1; iqr_extra = iqr * (3 / 2)
        in Inr (filter (\<lambda>x. x \<ge> q1 - iqr_extra \<and> x \<le> q3 + iqr_extra) l_sort)))))"

section \<open>Units\<close>

definition si_prefixes :: "(rat, string \<times> string) dict" where
  "si_prefixes =
     [(10 ^ 24, ''Y'', ''yotta''), (10 ^ 21, ''Z'', ''zetta''), (10 ^ 18, ''E'', ''exa''), (10 ^ 15, ''P'', ''peta''),
      (10 ^ 12, ''T'', ''tera''), (10 ^ 9, ''G'', ''giga''), (10 ^ 6, ''M'', ''mega''), (10 ^ 3, ''k'', ''kilo''),
      (1 / 10 ^ 3, ''m'', ''milli''), (1 / 10 ^ 6, ''u'', ''micro''), (1 / 10 ^ 9, ''n'', ''nano''), (1 / 10 ^ 12, ''p'', ''pico''),
      (1 / 10 ^ 15, ''f'', ''femto''), (1 / 10 ^ 18, ''a'', ''atto''), (1 / 10 ^ 21, ''z'', ''zepto''), (1 / 10 ^ 24, ''y'', ''yocto'')]"

definition extra_prefixes :: "(rat, string \<times> string) dict" where
  "extra_prefixes = [(10 ^ 2, ''h'', ''hecto''), (10, ''da'', ''deka''), (1 / 10, ''d'', ''deci''), (1 / 10 ^ 2, ''c'', ''centi'')]"

definition bin_prefixes :: "(rat, string \<times> string) dict" where
  "bin_prefixes =
     [(2 ^ 10, ''K'', ''kilo''), (2 ^ 20, ''M'', ''mega''), (2 ^ 30, ''G'', ''mega''), (2 ^ 40, ''T'', ''tera''),
      (2 ^ 50, ''P'', ''peta''), (2 ^ 60, ''E'', ''exa'')]"

definition unit_prefixes :: "bool \<Rightarrow> bool \<Rightarrow> (rat, string \<times> string) dict" where
  "unit_prefixes use_extra_prefixes binary =
     dict_set 1 ([], []) (if binary then bin_prefixes else si_prefixes @ (if use_extra_prefixes then extra_prefixes else []))"

text \<open>The first pair of neighbours with the value between them; the upper one is excluded.\<close>

fun interval_index :: "rat list \<Rightarrow> rat \<Rightarrow> nat \<Rightarrow> nat option" where
  "interval_index (lower # upper # ms) v i =
     (if lower \<le> v \<and> v < upper then Some i else interval_index (upper # ms) v (i + 1))"
| "interval_index _ v i = None"

definition multiplier_index :: "rat list \<Rightarrow> rat \<Rightarrow> nat" where
  \<comment> \<open>\<open>mult\<close> is still \<open>None\<close> after the loop, so the tests that follow it are always made\<close>
  "multiplier_index ms v =
     (if v < hd ms then 0 else if v \<ge> last ms then length ms - 1
      else case interval_index ms v 0 of Some i \<Rightarrow> i | None \<Rightarrow> 0)"

definition py_round :: "rat \<Rightarrow> nat \<Rightarrow> rat" where
  \<comment> \<open>\<open>round(x, dp)\<close> of Python 2, which rounds away from zero in the middle\<close>
  "py_round x dp = (let m = of_int \<lfloor>\<bar>x\<bar> * 10 ^ dp + 1 / 2\<rfloor> / 10 ^ dp in if x < 0 then - m else m)"

definition unit_choice :: "rat \<Rightarrow> nat \<Rightarrow> bool \<Rightarrow> rat list \<Rightarrow> rat \<times> rat" where
  \<comment> \<open>the multiplier and the value in it; \<open>rounds\<close> is that no significant figures are asked for\<close>
  "unit_choice v dp rounds ms =
     (let i = multiplier_index ms v; mult = ms ! i; new_value = v / mult
      in if rounds \<and> i < length ms - 1 \<and> py_round new_value dp = py_round (ms ! (i + 1) / mult) dp
         then (ms ! (i + 1), v / (ms ! (i + 1))) else (mult, new_value))"

definition nice_units ::
  "(nat \<Rightarrow> rat \<Rightarrow> string) \<Rightarrow> rat \<Rightarrow> nat \<Rightarrow> nat option \<Rightarrow> string \<Rightarrow> string \<Rightarrow> bool \<Rightarrow> bool \<Rightarrow> bool \<Rightarrow> string" where
  "nice_units general_format v dp sigfigs suffix_part space use_extra_prefixes use_full_name binary =
     (let prefixes = unit_prefixes use_extra_prefixes binary;
          ms = sort (dict_keys prefixes);
          (mult, new_value) = unit_choice v dp (sigfigs = None) ms;
          (short, full) = the (map_of prefixes mult);
          str_value = (case sigfigs of None \<Rightarrow> fixed_format dp new_value | Some s \<Rightarrow> general_format s new_value)
      in str_value @ space @ (if use_full_name then full else short) @ suffix_part)"

section \<open>Ranges and random vectors\<close>

text \<open>The loop does not end when the step does not lead to the bound.\<close>

partial_function (option) float_range_loop :: "rat \<Rightarrow> rat \<Rightarrow> rat \<Rightarrow> rat list \<Rightarrow> rat list option" where
  "float_range_loop stop step cur l =
     (if cur < stop then float_range_loop stop step (cur + step) (l @ [cur]) else Some l)"

definition float_range :: "rat \<Rightarrow> rat option \<Rightarrow> rat option \<Rightarrow> rat list option" where
  "float_range start stop step =
     (let (start, stop) = (case stop of None \<Rightarrow> (0, start) | Some s \<Rightarrow> (start, s));
          step = (case step of None \<Rightarrow> 1 | Some s \<Rightarrow> s)
      in float_range_loop stop step start [])"

text \<open>\<open>rs\<close> are the numbers that \<open>random\<close> gives, one for each round; \<open>/\<close> on integers rounds down.\<close>

definition random_bits :: "rat list \<Rightarrow> nat \<Rightarrow> string result" where
  "random_bits rs bits =
     for_each (\<lambda>r vector. res_bind (int2bin \<lfloor>2 ^ 10 * r\<rfloor> 10) (\<lambda>v. Inr (vector @ v))) (take (bits div 10 + 1) rs) []"

definition random_vec :: "rat list \<Rightarrow> nat \<Rightarrow> int option \<Rightarrow> string result" where
  "random_vec rs bits max_value =
     res_bind (random_bits rs bits) (\<lambda>vector.
     res_bind (case max_value of
         None \<Rightarrow> Inr vector
       | Some m \<Rightarrow> if m \<noteq> 0 \<and> m < 2 ^ bits - 1
           then res_bind (parse_bits vector) (\<lambda>v.
             if bits = 0 then Inl ZeroDivisionError else int2bin (v div (2 ^ bits - 1) * m) (int bits))
           else Inr vector) (\<lambda>vector.
       Inr (take bits vector)))"

section \<open>Lemmas\<close>

text \<open>A quantile lies between two neighbours of the sorted list.\<close>

lemma mix_between:
  fixes a b f :: rat
  assumes "a \<le> b" "0 \<le> f" "f \<le> 1"
  shows "a \<le> (1 - f) * a + f * b" "(1 - f) * a + f * b \<le> b"
proof -
  have "0 \<le> f * (b - a)" "0 \<le> (1 - f) * (b - a)" using assms by simp_all
  then show "a \<le> (1 - f) * a + f * b" "(1 - f) * a + f * b \<le> b" by (simp_all add: algebra_simps)
qed

lemma quantile_between:
  assumes "l \<noteq> []" "0 \<le> p" "p \<le> 1"
  obtains q i where "quantile l p = Inr q" "i < length l" "sort l ! i \<le> q"
    "q \<le> sort l ! (if i + 1 < length l then i + 1 else i)"
proof -
  define r where "r = 1 + of_int (int (length l) - 1) * p"
  have len: "0 < length l" using assms(1) by simp
  have "of_int (int (length l) - 1) * p \<le> of_int (int (length l) - 1) * 1"
    using assms(3) len by (intro mult_left_mono) (auto simp: Suc_le_eq)
  then have r: "1 \<le> r" "r \<le> of_nat (length l)" using assms(2) len by (simp_all add: r_def Suc_le_eq)
  have i: "1 \<le> \<lfloor>r\<rfloor>" "\<lfloor>r\<rfloor> \<le> int (length l)" using r by (simp_all only: le_floor_iff floor_le_iff of_int_1 of_int_of_nat_eq)
  define k where "k = nat (\<lfloor>r\<rfloor> - 1)"
  have k: "\<lfloor>r\<rfloor> = int k + 1" "k < length l" using i unfolding k_def by linarith+
  have quant: "quantile l p = (if \<lfloor>r\<rfloor> < int (length l)
      then res_bind (py_get (sort l) (\<lfloor>r\<rfloor> - 1)) (\<lambda>a. res_bind (py_get (sort l) \<lfloor>r\<rfloor>) (\<lambda>b.
        Inr ((1 - (r - of_int \<lfloor>r\<rfloor>)) * a + (r - of_int \<lfloor>r\<rfloor>) * b)))
      else py_get (sort l) (\<lfloor>r\<rfloor> - 1))"
    unfolding quantile_def Let_def r_def [symmetric] using r(1) by simp
  have get: "py_get (sort l) (\<lfloor>r\<rfloor> - 1) = Inr (sort l ! k)" using py_get_nat [of k "sort l"] k by simp
  have next_get: "py_get (sort l) \<lfloor>r\<rfloor> = Inr (sort l ! (k + 1))" if "k + 1 < length l"
    using py_get_nat [of "k + 1" "sort l"] that k(1) by (simp add: add.commute)
  show thesis
  proof (cases "k + 1 < length l")
    case True
    have "sort l ! k \<le> sort l ! (k + 1)" using True by (intro sorted_nth_mono) simp_all
    moreover have "0 \<le> r - of_int \<lfloor>r\<rfloor>" "r - of_int \<lfloor>r\<rfloor> \<le> 1" by linarith+
    moreover have "quantile l p = Inr ((1 - (r - of_int \<lfloor>r\<rfloor>)) * sort l ! k + (r - of_int \<lfloor>r\<rfloor>) * sort l ! (k + 1))"
      unfolding quant get next_get [OF True] using True by (simp add: k(1))
    ultimately show thesis using that [of _ k] k(2) True mix_between by auto
  next
    case False
    have "quantile l p = Inr (sort l ! k)" unfolding quant get using False by (simp add: k(1))
    then show thesis using that [of _ k] k(2) False by auto
  qed
qed

lemma quantile_bounds:
  assumes "l \<noteq> []" "0 \<le> p" "p \<le> 1"
  shows "\<exists>q. quantile l p = Inr q \<and> Min (set l) \<le> q \<and> q \<le> Max (set l)"
proof -
  obtain q i where q: "quantile l p = Inr q" "i < length l" "sort l ! i \<le> q" "q \<le> sort l ! (if i + 1 < length l then i + 1 else i)"
    using quantile_between [OF assms] by blast
  let ?j = "if i + 1 < length l then i + 1 else i"
  have elem: "sort l ! j \<in> set l" if "j < length l" for j using that nth_mem [of j "sort l"] by simp
  have "Min (set l) \<le> sort l ! i" using elem [OF q(2)] by simp
  moreover have "sort l ! ?j \<le> Max (set l)" using elem [of ?j] q(2) by simp
  ultimately have "Min (set l) \<le> q \<and> q \<le> Max (set l)" using q(3,4) by linarith
  with q(1) show ?thesis by blast
qed

text \<open>The multiplier is the largest one that is not above the value.\<close>

lemma interval_index_found:
  assumes "sorted ms" "ms \<noteq> []" "hd ms \<le> v" "v < last ms"
  obtains i where "interval_index ms v k = Some (k + i)" "i + 1 < length ms" "ms ! i \<le> v" "v < ms ! (i + 1)"
proof -
  have "\<exists>i. interval_index ms v k = Some (k + i) \<and> i + 1 < length ms \<and> ms ! i \<le> v \<and> v < ms ! (i + 1)"
    using assms
  proof (induction ms v k rule: interval_index.induct)
    case (1 lower upper ms v k)
    show ?case
    proof (cases "v < upper")
      case True
      then show ?thesis using "1.prems" by (intro exI [of _ 0]) simp
    next
      case False
      then obtain i where "interval_index (upper # ms) v (k + 1) = Some (k + 1 + i)" "i + 1 < length (upper # ms)"
        "(upper # ms) ! i \<le> v" "v < (upper # ms) ! (i + 1)" using 1 by auto
      then show ?thesis using False by (intro exI [of _ "i + 1"]) simp
    qed
  qed auto
  then show thesis using that by blast
qed

lemma multiplier_index_largest:
  assumes "sorted ms" "ms \<noteq> []" "hd ms \<le> v" "m \<in> set ms" "m \<le> v"
  shows "ms ! multiplier_index ms v \<le> v \<and> m \<le> ms ! multiplier_index ms v"
proof (cases "v < last ms")
  case True
  obtain i where i: "interval_index ms v 0 = Some i" "i + 1 < length ms" "ms ! i \<le> v" "v < ms ! (i + 1)"
    using interval_index_found [OF assms(1-3) True, of 0] by auto
  obtain j where j: "j < length ms" "ms ! j = m" using assms(4) by (auto simp: in_set_conv_nth)
  have "\<not> i + 1 \<le> j" using sorted_nth_mono [OF assms(1), of "i + 1" j] j i(4) assms(5) by auto
  then have "m \<le> ms ! i" using sorted_nth_mono [OF assms(1), of j i] j i(2) by auto
  with i True assms(3) show ?thesis by (simp add: multiplier_index_def)
next
  case False
  obtain j where j: "j < length ms" "ms ! j = m" using assms(4) by (auto simp: in_set_conv_nth)
  have "m \<le> last ms" using sorted_nth_mono [OF assms(1), of j "length ms - 1"] j assms(2) by (simp add: last_conv_nth)
  with False assms(2,3) show ?thesis by (simp add: multiplier_index_def last_conv_nth)
qed

text \<open>Numbers below the smallest unit, zero and the negative ones among them, come out in that unit.\<close>

lemma nice_units_below:
  "v < 1 / 10 ^ 24 \<Longrightarrow> py_round (v * 10 ^ 24) dp \<noteq> py_round (10 ^ 3) dp \<Longrightarrow>
   nice_units g v dp None [] '' '' False False False = fixed_format dp (v * 10 ^ 24) @ '' y''"
proof -
  assume v: "v < 1 / 10 ^ 24" "py_round (v * 10 ^ 24) dp \<noteq> py_round (10 ^ 3) dp"
  have keys: "sort (dict_keys (unit_prefixes False False)) =
      [1 / 10 ^ 24, 1 / 10 ^ 21, 1 / 10 ^ 18, 1 / 10 ^ 15, 1 / 10 ^ 12, 1 / 10 ^ 9, 1 / 10 ^ 6, 1 / 10 ^ 3, 1,
       10 ^ 3, 10 ^ 6, 10 ^ 9, 10 ^ 12, 10 ^ 15, 10 ^ 18, 10 ^ 21, 10 ^ 24]"
    by (simp add: unit_prefixes_def si_prefixes_def dict_set_def)
  have y: "map_of (unit_prefixes False False) (1 / 10 ^ 24) = Some (''y'', ''yocto'')"
    by (simp add: unit_prefixes_def si_prefixes_def dict_set_def)
  have "unit_choice v dp True (sort (dict_keys (unit_prefixes False False))) = (1 / 10 ^ 24, v * 10 ^ 24)"
    using v by (simp add: unit_choice_def keys multiplier_index_def)
  then show ?thesis using y by (simp add: nice_units_def Let_def)
qed

text \<open>The range has the multiples of the step, and no end without a step forward.\<close>

lemma float_range_steps:
  assumes "0 < step"
  shows "float_range_loop stop step cur l =
    Some (l @ map (\<lambda>k. cur + of_nat k * step) [0..<nat \<lceil>(stop - cur) / step\<rceil>])"
proof (induction "nat \<lceil>(stop - cur) / step\<rceil>" arbitrary: cur l)
  case 0
  then have "(stop - cur) / step \<le> 0" by (simp add: ceiling_le_iff)
  then have "\<not> cur < stop" using assms by (simp add: divide_le_0_iff)
  then show ?case using 0 by (subst float_range_loop.simps) simp
next
  case (Suc n)
  have "0 < (stop - cur) / step" using Suc.hyps(2) by (metis ceiling_le_zero nat_0_iff nat.distinct(1) not_less)
  then have less: "cur < stop" using assms by (simp add: zero_less_divide_iff)
  have "(stop - (cur + step)) / step = (stop - cur) / step - 1" using assms by (simp add: field_simps)
  then have n: "n = nat \<lceil>(stop - (cur + step)) / step\<rceil>" using Suc.hyps(2) by (simp add: nat_diff_distrib)
  have "[0..<nat \<lceil>(stop - cur) / step\<rceil>] = 0 # map Suc [0..<n]"
    using Suc.hyps(2) by (simp add: upt_conv_Cons map_Suc_upt flip: Suc.hyps(2))
  with Suc.hyps(1) [OF n, of "l @ [cur]"] less show ?case
    by (subst float_range_loop.simps) (simp add: o_def algebra_simps flip: n)
qed

lemma float_range_endless:
  assumes "step \<le> 0" "cur < stop"
  shows "float_range_loop stop step cur l = None"
proof -
  have "step \<le> 0 \<longrightarrow> stop \<le> cur" if "float_range_loop stop step cur l = Some r" for stop step cur l r
    using that by (rule float_range_loop.raw_induct [of "\<lambda>stop step cur l r. step \<le> 0 \<longrightarrow> stop \<le> cur", rotated])
      (fastforce split: if_splits)
  with assms show ?thesis by (cases "float_range_loop stop step cur l") fastforce+
qed

text \<open>With a largest value, a random vector of more bits than asked for is divided and does not fit.\<close>

lemma random_vec_fails: "random_vec [1023 / 1024] 8 (Some 254) = Inl ValueError"
  by code_simp

end
