(* ===== verification/Spec2Isabelle.thy ===== *)
theory Spec2Isabelle
  imports Rad_Util Topsort Shell_Cmd Config_Files Test_Report Test_Jobs Test_Runner Check_Style Haystack Grid_Window
    Build_Flags Build_Run Scheduler_Proofs Command_Task Build_Misc Build_Configure Module_Script Module_Tasks Script_Tasks
    Module_Creation Copy_Tasks Flow_Monitor Rad_Stats
begin

text \<open>
  A verification library for the Python programs of the repository. The repository holds a network simulator
  (\<open>portland-ns3/ntu-dsi-dcn\<close>, in C++, with its build and test programs in Python 2), and the controller of a
  photo store (\<open>facebook_haystack\<close>). The Python programs are modelled here. Paths below are relative to
  \<open>portland-ns3/ntu-dsi-dcn\<close> unless they start with \<open>facebook_haystack\<close>.

  \<^bold>\<open>How the parts work together.\<close> \<open>waf\<close> reads the scripts of the build: \<open>configure\<close> of \<open>wscript\<close> settles the tools,
  flags and modules; \<open>build\<close> creates task generators for the modules of \<open>src\<close>, the examples and the scratch
  programs, and keeps those that the enabled modules allow; the scheduler, whose loop \<open>wutils.py\<close> replaces, runs the tasks
  on threads. Tasks of \<open>waf-tools\<close> run shell commands by the pipelines of \<open>shellcmd.py\<close>, copy files and fill in templates.
  \<open>shutdown\<close> writes the build status file, from which \<open>test.py\<close> takes the programs it tests: it dispatches one job
  for each suite and example to a pool of threads, collects the results in an XML file and translates that to text and
  HTML. \<open>check-style.py\<close> checks the sources, \<open>create-module.py\<close> makes new modules, \<open>grid.py\<close> shows traces of simulations,
  \<open>flowmon-parse-results.py\<close> prints what the flow monitor has measured, and \<open>topsort.py\<close> and \<open>rad_util.py\<close> serve the
  generators of the Python bindings.

  \<^bold>\<open>Theories and sources.\<close>
  \<^item> Prelude. \<open>Py_Base\<close>: exceptions as a sum type, indexing, slices, dictionaries as association lists in the order of
    insertion, string methods; the locale \<open>key_order\<close> is the contract for the unspecified order of dictionaries and sets.
    \<open>Py_IO\<close>: computations with effects, which keep what was done before an exception, and paths. \<open>Py_World\<close>:
    files, directories, console, environment variables, and a part \<open>ext\<close> for what programs do. \<open>Py_Number\<close>: integers and
    decimal numbers as text.
  \<^item> \<open>Rad_Util\<close>, \<open>Rad_Stats\<close> and \<open>Topsort\<close>: \<open>bindings/python/rad_util.py\<close> and \<open>bindings/python/topsort.py\<close>, one definition for
    each function.
  \<^item> \<open>Shell_Cmd\<close>: \<open>waf-tools/shellcmd.py\<close>. The classes of nodes are the datatypes of commands and separators, the
    parser is a step function over tokens, and \<open>run\<close> a loop over the nodes whose state is a record.
  \<^item> \<open>Config_Files\<close>: \<open>utils.py\<close>. \<open>Test_Jobs\<close>, \<open>Test_Collect\<close>, \<open>Test_Runner\<close>, \<open>Test_Report\<close>: \<open>test.py\<close>. The threads are the
    step relation \<open>pool_step\<close> on two queues; \<open>Test_Collect\<close> adds the main thread, which reads the results while the workers
    run, in the order of a schedule that is a parameter. The locale \<open>worker_pool\<close> says what comes back of the jobs; the step
    relation and the whole run with the main thread are its interpretations, and \<open>run_tests\<close> rests on the second.
  \<^item> \<open>Check_Style\<close>: \<open>utils/check-style.py\<close>. \<open>Grid_Data\<close>, \<open>Grid_View\<close>, \<open>Grid_Window\<close>: \<open>utils/grid.py\<close>; the two binary
    searches are interpretations of the locale \<open>bisection\<close>, and the events of the window lead through \<open>gui_reachable\<close>.
  \<^item> \<open>Haystack\<close>: \<open>facebook_haystack/haystackStoreController\<close>, both files.
  \<^item> \<open>Task_Scheduler\<close> and \<open>Scheduler_Proofs\<close>: \<open>monkey_patch_Runner_start\<close> of \<open>wutils.py\<close>, with \<open>TaskConsumer\<close> and \<open>Parallel\<close> of
    \<open>waflib/Runner.py\<close> and \<open>TaskBase.process\<close> of \<open>waflib/Task.py\<close>, as the relation \<open>sched_step\<close> of the main thread
    and the consumers.
  \<^item> \<open>Build_Run\<close>: the rest of \<open>wutils.py\<close>; the programs it starts may change the whole world. \<open>Build_Flags\<close>, \<open>Command_Task\<close>, \<open>Build_Misc\<close> with \<open>Copy_Tasks\<close>: \<open>cflags.py\<close>,
    \<open>command.py\<close> and \<open>misc.py\<close> in \<open>waf-tools\<close>.
  \<^item> \<open>Build_Modules\<close> and \<open>Build_Script\<close>: \<open>build\<close>, \<open>shutdown\<close> and what they call in \<open>wscript\<close>, with \<open>utils/wscript\<close> and \<open>get_tgen_by_name\<close> of
    \<open>waflib/Build.py\<close>. A task generator is a record with an identity, the build is the record \<open>build_ctx\<close> with the groups
    of generators. \<open>Build_Configure\<close>: \<open>configure\<close> of \<open>wscript\<close> and \<open>waf-tools/pkgconfig.py\<close>. \<open>Script_Tasks\<close>: the tasks
    and commands of \<open>wscript\<close> that run programs.
  \<^item> \<open>Module_Script\<close> and \<open>Module_Tasks\<close>: \<open>src/wscript\<close>, its generators and its tasks. \<open>Module_Creation\<close>: the templates and \<open>main\<close>
    of \<open>src/create-module.py\<close>.
  \<^item> \<open>Flow_Monitor\<close>: \<open>src/flow-monitor/examples/flowmon-parse-results.py\<close>, its classes \<open>FiveTuple\<close>, \<open>Histogram\<close>, \<open>Flow\<close>,
    \<open>ProbeFlowStats\<close> and \<open>Simulation\<close> as records, and \<open>main\<close> over the events of the XML parser.
  \<^item> \<open>Spec2Isabelle\<close>: the property that spans the build script, the reader of configuration files and the test runner.

  \<^bold>\<open>What the lemmas show.\<close>
  \<^item> Threads: the pool and the scheduler terminate under every schedule, lose and repeat nothing, keep the order
    of tasks, and a build whose order is sound completes without a reported deadlock.
  \<^item> Languages: the parser of shell commands gives well-formed pipelines that print and parse back; running the flat list of
    nodes refines a nested script of jobs and conditions, which in verbose mode ends in an error after the first of several jobs; patches, traces, server lists and the build status file
    are read back as written; templates and command words are filled in as direct replacement does.
  \<^item> Algorithms: topological sorting and cycle finding are exact, on cyclic graphs too; the binary searches, the closure
    under module dependencies and the search for programs, which an error ends at a program outside the launch directory, meet their references.
  \<^item> Results: exit codes of the test runner, of started programs and of the style checker say exactly what happened, and what the exceptions are;
    configuring and building keep exactly the modules and programs that they should, or fail with the errors named; the
    report on flows gives the figures of the packets, and never comes about for the files that the simulator writes.
  \<^item> Views: the parts of the trace viewer show one range in every reachable state, inside the trace or turned round past one
    end of it; the legend's items do not overlap and, unless one is too wide for a line, stay in their area; a scale has at
    most twenty ticks.

  \<^bold>\<open>Modelling.\<close> An exception is a value of \<open>py_exn\<close> on the left of a sum, and every \<open>raise\<close>, failing index and
  early return is a branch. Objects that the code shares are changed in the place where the list or map holds them. A
  generator of Python is the list of what it yields with the exception that ends it. Integers are unbounded, as
  in Python. Floating point numbers are exact rationals, so rounding is not covered; times of
  tests are milliseconds. A step of one thread is atomic: the queues are the synchronised ones of the library, and the
  steps lie between two operations on them. That \<open>Popen\<close> itself fails for a test is not covered. Text is 8-bit.

  \<^bold>\<open>Termination.\<close> Every loop is a total function with a measure, with two exceptions: the loops of \<open>binary_range\<close> and
  \<open>float_range\<close>, which may not end, are partial functions with an option. The closure of modules decreases the number of dependencies
  that are not in the list yet; binary searches decrease the interval; \<open>find_cycles\<close> decreases the room left for longer
  simple paths. No fuel is used. The two step relations are proved well-founded.

  \<^bold>\<open>Parameters.\<close> Code that is not in the repository is an argument: operating system and processes, \<open>eval\<close>, the
  XML parser, \<open>uncrustify\<close>, \<open>difflib\<close> and \<open>patch\<close>, the text extents of cairo, the client of memcached and what Flask makes of the value of a handler, the compiler
  and its checks, the scripts of subdirectories, the nodes of waf. A hypothesis on one of them states what is documented, and a
  witness shows it for a concrete one.

  \<^bold>\<open>Not modelled.\<close> The functions of \<open>rad_util.py\<close> that ask the interpreter for the time, the text of a point and the
  module of an object. The waf library beyond the methods named above, its checks in \<open>waf-tools\<close> for boost, Python and relocation, which come with waf,
  and the option declarations of the scripts. The generators of bindings, which are glue around a package that is
  not in the repository, and the registrations they generate. The visualizer, which draws with toolkits and
  simulator bindings that are not in the repository. The scripts of single modules, which are lists of files. The
  simulator, the OpenFlow library and their examples, which are in C and C++.
\<close>

section \<open>From the build to the tests\<close>

lemma for_each_filter:
  assumes "\<And>x s. \<not> P x \<Longrightarrow> f x s = Inr s"
  shows "for_each f xs s = for_each f (filter P xs) s"
  using assms by (induction xs arbitrary: s) (auto intro: res_bind_cong)

lemma for_each_keeps:
  assumes "\<And>x s. x \<in> set xs \<Longrightarrow> P s \<Longrightarrow> \<exists>s'. f x s = Inr s' \<and> P s'" and "P s"
  shows "\<exists>s'. for_each f xs s = Inr s' \<and> P s'"
  using assms
proof (induction xs arbitrary: s)
  case (Cons x xs)
  then obtain s1 where "f x s = Inr s1" "P s1" by (meson list.set_intros(1))
  with Cons.IH [of s1] Cons.prems(1) show ?case by simp
qed simp

lemma paths_differ:
  "''.lock-wafbuild'' \<noteq> path_join dir ''build-status.py''" "dir @ ''/c4che/_cache.py'' \<noteq> path_join dir ''build-status.py''"
proof -
  have "last (butlast (path_join dir ''build-status.py'')) = CHR ''p''" "last (path_join dir ''build-status.py'') = CHR ''y''"
    by (simp_all add: path_join_def butlast_append)
  moreover have "rev (path_join dir ''build-status.py'') ! 3 = CHR ''s''"
    by (simp add: path_join_def)
  ultimately show "''.lock-wafbuild'' \<noteq> path_join dir ''build-status.py''" "dir @ ''/c4che/_cache.py'' \<noteq> path_join dir ''build-status.py''"
    by (auto dest: arg_cong [where f = "\<lambda>p. rev p ! 3"] arg_cong [where f = last])
qed

lemma read_waf_config_dir:
  assumes "\<not> opt_verbose opts" and "files w ''.lock-wafbuild'' = Some lock"
    and "filter (prefix ''out_dir ='') (file_lines lock) = [''out_dir = '' @ q @ newline]"
    and "CHR ''='' \<notin> set q" and "strip ('' '' @ q @ newline) = q" and "run_eval_string R q = Inr dir"
    and "files w (dir @ ''/c4che/_cache.py'') = Some settings"
    and "\<And>line c. line \<in> set (file_lines settings) \<Longrightarrow> \<exists>c'. run_exec R line c = Inr c' \<and> builddir c' = builddir c"
  shows "\<exists>cfg'. builddir cfg' = dir \<and> read_waf_config R opts cfg w = (Inr cfg', w)"
proof -
  let ?line = "''out_dir = '' @ q @ newline"
  have "split_on CHR ''='' ?line = [''out_dir '', '' '' @ q @ newline]"
    using split_on_append_sep [of "CHR ''=''" "''out_dir ''" "'' '' @ q @ newline"] split_on_no_sep [of "CHR ''=''" "'' '' @ q @ newline"] assms(4)
    by simp
  then have "out_dir_line R ?line out = Inr (Some dir)" for out
    using assms(5,6) by (simp add: out_dir_line_def)
  moreover have "for_each (out_dir_line R) (file_lines lock) None = for_each (out_dir_line R) [?line] None"
    using for_each_filter [of "prefix ''out_dir =''" "out_dir_line R" "file_lines lock" None] assms(3)
    by (simp add: out_dir_line_def)
  ultimately have out: "for_each (out_dir_line R) (file_lines lock) None = Inr (Some dir)" by simp
  have item: "\<exists>c'. for_each (\<lambda>item cfg. if prefix item line then run_exec R line cfg else Inr cfg) interesting_config_items c = Inr c' \<and>
      builddir c' = dir" if "line \<in> set (file_lines settings)" "builddir c = dir" for line c
    by (rule for_each_keeps [where P = "\<lambda>c. builddir c = dir"]) (use assms(8) that in auto)
  have "\<exists>cfg'. for_each (\<lambda>line. for_each (\<lambda>item cfg. if prefix item line then run_exec R line cfg else Inr cfg)
      interesting_config_items) (file_lines settings) (cfg\<lparr>builddir := dir\<rparr>) = Inr cfg' \<and> builddir cfg' = dir"
    by (rule for_each_keeps [where P = "\<lambda>c. builddir c = dir"]) (use item in simp_all)
  then obtain cfg' where cfg': "for_each (\<lambda>line. for_each (\<lambda>item cfg. if prefix item line then run_exec R line cfg else Inr cfg)
      interesting_config_items) (file_lines settings) (cfg\<lparr>builddir := dir\<rparr>) = Inr cfg'" "builddir cfg' = dir" by blast
  show ?thesis
    using cfg' out assms(1,2,7)
    by (intro exI [of _ cfg']) (simp add: read_waf_config_def io_bind_def read_file_def io_lift_def io_when_def io_return_def)
qed

text \<open>C9: what a build hands to the test runner arrives. When \<open>shutdown\<close> has run after a build, whatever it printed,
  started or raised after writing the build status file, \<open>run_tests\<close> of \<open>test.py\<close> without another build finds this file and
  goes on with exactly the programs and scripts that the build declared runnable, in the world that \<open>shutdown\<close> has left
  with the paths set for the build directory. The hypotheses say what the two
  rely on: waf has left its build directory in the lock file, as a line with its text \<open>q\<close>, and settings that do not set
  it anew; Python's \<open>eval\<close> reads back the directory and the two lists as they are printed; the programs that
  \<open>shutdown\<close> starts do not touch the three files; and no program has the name of the second list in its own.\<close>

theorem test_py_reads_the_build:
  assumes kept: "\<And>p. p \<in> {''.lock-wafbuild'', outcome_dir b @ ''/c4che/_cache.py'', build_status_file (outcome_dir b)} \<Longrightarrow>
      programs_keep p sys sh"
    and lock: "files w ''.lock-wafbuild'' = Some lock"
      "filter (prefix ''out_dir ='') (file_lines lock) = [''out_dir = '' @ q @ newline]"
      "CHR ''='' \<notin> set q" "strip ('' '' @ q @ newline) = q" "run_eval_string R q = Inr (outcome_dir b)"
    and settings: "files w (outcome_dir b @ ''/c4che/_cache.py'') = Some settings"
      "\<And>line c. line \<in> set (file_lines settings) \<Longrightarrow> \<exists>c'. run_exec R line c = Inr c' \<and> builddir c' = builddir c"
    and eval: "run_eval_names R (list_repr (outcome_programs b)) = Inr (outcome_programs b)"
      "run_eval_names R (list_repr (outcome_scripts b)) = Inr (outcome_scripts b)"
    and names: "list_all plain_name (outcome_programs b)" "\<not> list_ex (occurs_in ''ns3_runnable_scripts'') (outcome_programs b)"
    and opts: "opt_nowaf test_opts" "\<not> opt_verbose test_opts"
  shows "\<exists>cfg'. builddir cfg' = outcome_dir b \<and>
    (let w' = snd (shutdown sys ropts bld sh opts (Some b) w) in
     run_tests R test_opts cfg w' =
       io_bind (prepare_jobs R test_opts (cfg', outcome_programs b, outcome_scripts b)) (run_prepared R test_opts)
         (w'\<lparr>environ := make_paths (run_system R) (outcome_dir b) (waf_config.module_path cfg') (environ w')\<rparr>))"
proof -
  define w' where "w' = snd (shutdown sys ropts bld sh opts (Some b) w)"
  note after = shutdown_writes [of _ sys sh ropts bld opts b w, folded w'_def]
  have files: "files w' ''.lock-wafbuild'' = Some lock" "files w' (outcome_dir b @ ''/c4che/_cache.py'') = Some settings"
    "files w' (path_join (outcome_dir b) ''build-status.py'') = Some (build_status_text (outcome_programs b) (outcome_scripts b))"
    using after [OF kept [of "''.lock-wafbuild''"]] after [OF kept [of "outcome_dir b @ ''/c4che/_cache.py''"]]
      after [OF kept [of "build_status_file (outcome_dir b)"]] lock(1) settings(1) paths_differ [of "outcome_dir b"]
    by (simp_all add: build_status_file_def)
  obtain cfg' where cfg': "builddir cfg' = outcome_dir b" "read_waf_config R test_opts cfg w' = (Inr cfg', w')"
    using read_waf_config_dir [where R = R and cfg = cfg, OF opts(2) files(1) lock(2-5) files(2) settings(2)] by blast
  define v where "v = w'\<lparr>environ := make_paths (run_system R) (outcome_dir b) (waf_config.module_path cfg') (environ w')\<rparr>"
  then have v: "set_paths R test_opts cfg' w' = (Inr (), v)" "files v = files w'"
    using opts(2) cfg'(1) by (simp_all add: set_paths_def Let_def)
  note lists = read_status [where w = v and p = "path_join (outcome_dir b) ''build-status.py''" and eval = "run_eval_names R",
      OF _ eval names, unfolded v(2), OF files(3)]
  have "read_build R test_opts cfg w' = (Inr (cfg', outcome_programs b, outcome_scripts b), v)"
    using lists v files(3) by (simp add: read_build_def io_bind_def cfg' io_get_def path_exists_def io_return_def Let_def)
  then have "run_tests R test_opts cfg w' =
      io_bind (prepare_jobs R test_opts (cfg', outcome_programs b, outcome_scripts b)) (run_prepared R test_opts) v"
    using opts(1) by (simp add: run_tests_def prepare_tests_def run_waf_def io_bind_def)
  with cfg'(1) show ?thesis unfolding w'_def [symmetric] v_def Let_def by blast
qed

definition small_outcome :: build_outcome where
  "small_outcome = \<lparr>print_lists = True, modules_built = [''ns3-core''], modules_skipped = [], outcome_programs = [''sim'', ''a-b''],
     outcome_scripts = [], outcome_dir = ''b'', gcov_enabled = False\<rparr>"

definition small_lists :: "string \<Rightarrow> string list result" where
  "small_lists s = (if s = ''[]'' then Inr [] else if s = list_repr [''sim'', ''a-b''] then Inr [''sim'', ''a-b''] else Inl ValueError)"

lemma test_py_reads_the_build_witness:
  "\<exists>cfg'. builddir cfg' = ''b'' \<and>
    (let R = (test_runner_double (\<lambda>cmd. 0))\<lparr>run_eval_names := small_lists\<rparr>;
         w' = snd (shutdown (ops_system small_ops) (ops_options small_ops) (ops_build small_ops) (\<lambda>d c w. (1, w))
           (small_options\<lparr>wants_lcov := True\<rparr>) (Some small_outcome) double_world) in
     run_tests R double_options double_config w' =
       io_bind (prepare_jobs R double_options (cfg', [''sim'', ''a-b''], [])) (run_prepared R double_options)
         (w'\<lparr>environ := make_paths (run_system R) ''b'' (waf_config.module_path cfg') (environ w')\<rparr>))"
proof -
  let ?R = "(test_runner_double (\<lambda>cmd. 0))\<lparr>run_eval_names := small_lists\<rparr>" and ?b = small_outcome
  have "programs_keep p (ops_system small_ops) (\<lambda>d c w. (1, w))" for p
    by (simp add: programs_keep_def keeps_file_def small_ops_def)
  moreover have "files double_world ''.lock-wafbuild'' = Some (''out_dir = b'' @ newline)"
    "files double_world (outcome_dir ?b @ ''/c4che/_cache.py'') = Some (''ENABLE_TESTS = True'' @ newline)"
    by (simp_all add: double_world_def small_outcome_def nl_def)
  moreover have "filter (prefix ''out_dir ='') (file_lines (''out_dir = b'' @ newline)) = [''out_dir = '' @ ''b'' @ newline]"
    "CHR ''='' \<notin> set ''b''" "strip ('' '' @ ''b'' @ newline) = ''b''" by code_simp+
  moreover have "run_eval_string ?R ''b'' = Inr (outcome_dir ?b)"
    "\<exists>c'. run_exec ?R line c = Inr c' \<and> builddir c' = builddir c" for line c
    by (simp_all add: test_runner_double_def small_outcome_def)
  moreover have "run_eval_names ?R (list_repr (outcome_programs ?b)) = Inr (outcome_programs ?b)"
    "run_eval_names ?R (list_repr (outcome_scripts ?b)) = Inr (outcome_scripts ?b)"
  proof -
    have "list_repr [''sim'', ''a-b''] \<noteq> ''[]''" "list_repr [] = ''[]''" by code_simp+
    then show "run_eval_names ?R (list_repr (outcome_programs ?b)) = Inr (outcome_programs ?b)"
      "run_eval_names ?R (list_repr (outcome_scripts ?b)) = Inr (outcome_scripts ?b)"
      by (simp_all add: small_outcome_def small_lists_def)
  qed
  moreover have "list_all plain_name (outcome_programs ?b)" "\<not> list_ex (occurs_in ''ns3_runnable_scripts'') (outcome_programs ?b)"
    by code_simp+
  moreover have "opt_nowaf double_options" "\<not> opt_verbose double_options" by (simp_all add: double_options_def default_options_def)
  ultimately show ?thesis
    using test_py_reads_the_build [where b = ?b and R = ?R and w = double_world and q = "''b''" and sys = "ops_system small_ops"
        and sh = "\<lambda>d c w. (1, w)" and cfg = double_config and test_opts = double_options and ropts = "ops_options small_ops"
        and bld = "ops_build small_ops" and opts = "small_options\<lparr>wants_lcov := True\<rparr>"]
    unfolding Let_def by (simp add: small_outcome_def)
qed

end
